(* ===== verification/C_Base.thy ===== *)
theory C_Base
  imports Main "HOL-Library.Word" "HOL-Library.Monad_Syntax"
begin

text \<open>
  Prelude of the development: the C integer types as words, the memory model
  (a buffer is a byte list, a pointer is an offset into it, an access outside the
  buffer is the value \<open>None\<close>), the byte-order accessors of
  \<^verbatim>\<open>include/osdep_service.h\<close>, and the generic lemmas the components share.

  \<^item> \<open>mem_simps\<close> collects the rules that evaluate reads and writes on appended buffers;
  \<^item> \<open>rd\<close>, \<open>rds\<close>, \<open>wr\<close>, \<open>wrs\<close> are a byte read, \<open>_rtw_memcpy\<close> out of a buffer, a byte
    write and \<open>_rtw_memcpy\<close> into a buffer.
\<close>

unbundle bit_operations_syntax

named_theorems mem_simps

type_synonym u8 = "8 word"
type_synonym u16 = "16 word"
type_synonym u32 = "32 word"
type_synonym u64 = "64 word"
type_synonym buf = "u8 list"

subsection \<open>Memory accesses\<close>

definition rd :: "buf \<Rightarrow> nat \<Rightarrow> u8 option" where
  "rd b i = (if i < length b then Some (b ! i) else None)"

definition rds :: "buf \<Rightarrow> nat \<Rightarrow> nat \<Rightarrow> buf option" where
  "rds b i n = (if i + n \<le> length b then Some (take n (drop i b)) else None)"

definition wr :: "buf \<Rightarrow> nat \<Rightarrow> u8 \<Rightarrow> buf option" where
  "wr b i x = (if i < length b then Some (b[i := x]) else None)"

definition wrs :: "buf \<Rightarrow> nat \<Rightarrow> buf \<Rightarrow> buf option" where
  "wrs b i xs = (if i + length xs \<le> length b
     then Some (take i b @ xs @ drop (i + length xs) b) else None)"

definition rtw_memcmp :: "buf \<Rightarrow> nat \<Rightarrow> buf \<Rightarrow> nat \<Rightarrow> bool option" where
  "rtw_memcmp b i src n = do { x \<leftarrow> rds b i n; y \<leftarrow> rds src 0 n; Some (x = y) }"

definition rtw_memmove :: "buf \<Rightarrow> nat \<Rightarrow> nat \<Rightarrow> nat \<Rightarrow> buf option" where
  "rtw_memmove b dst src n = do { x \<leftarrow> rds b src n; wrs b dst x }"

definition rtw_memset :: "buf \<Rightarrow> nat \<Rightarrow> u8 \<Rightarrow> nat \<Rightarrow> buf option" where
  "rtw_memset b dst c n = wrs b dst (replicate n c)"

lemma rd_Some_iff: "rd b i = Some x \<longleftrightarrow> i < length b \<and> b ! i = x"
  by (auto simp: rd_def)

lemma rd_None_iff: "rd b i = None \<longleftrightarrow> length b \<le> i"
  by (auto simp: rd_def)

lemma rds_Some_iff: "rds b i n = Some xs \<longleftrightarrow> i + n \<le> length b \<and> xs = take n (drop i b)"
  by (auto simp: rds_def)

lemma rds_None_iff: "rds b i n = None \<longleftrightarrow> length b < i + n"
  by (auto simp: rds_def)

lemma wr_Some_iff: "wr b i x = Some b' \<longleftrightarrow> i < length b \<and> b' = b[i := x]"
  by (auto simp: wr_def)

lemma wrs_Some_iff:
  "wrs b i xs = Some b' \<longleftrightarrow>
     i + length xs \<le> length b \<and> b' = take i b @ xs @ drop (i + length xs) b"
  by (auto simp: wrs_def)

lemma wrs_length: "wrs b i xs = Some b' \<Longrightarrow> length b' = length b"
  by (auto simp: wrs_Some_iff)

lemma wr_length: "wr b i x = Some b' \<Longrightarrow> length b' = length b"
  by (auto simp: wr_Some_iff)

lemma rd_here_plus [mem_simps]:
  "rd (pre @ suf) (length pre + k) = rd suf k"
  "rd (pre @ suf) (length pre) = rd suf 0"
  "rd (pre @ suf) (Suc (length pre + k)) = rd suf (Suc k)"
  "rd (pre @ suf) (Suc (length pre)) = rd suf (Suc 0)"
  "rd (pre @ suf) (Suc (Suc (length pre + k))) = rd suf (Suc (Suc k))"
  "rd (pre @ suf) (Suc (Suc (length pre))) = rd suf (Suc (Suc 0))"
  by (simp_all add: rd_def nth_append numeral_2_eq_2)

lemma rd_Cons_0 [mem_simps]: "rd (x # xs) 0 = Some x"
  by (simp add: rd_def)

lemma rd_Cons_Suc [mem_simps]: "rd (x # xs) (Suc k) = rd xs k"
  by (simp add: rd_def)

lemma rds_here_plus [mem_simps]:
  "rds (pre @ suf) (length pre + k) n = rds suf k n"
  "rds (pre @ suf) (length pre) n = rds suf 0 n"
  "rds (pre @ suf) (Suc (Suc (length pre + k))) n = rds suf (Suc (Suc k)) n"
  "rds (pre @ suf) (Suc (Suc (length pre))) n = rds suf (Suc (Suc 0)) n"
  by (simp_all add: rds_def numeral_2_eq_2)

lemma rds_whole [mem_simps]: "n = length xs \<Longrightarrow> rds (xs @ post) 0 n = Some xs"
  by (simp add: rds_def)

lemma rds_0 [mem_simps]: "n \<le> length xs \<Longrightarrow> rds xs 0 n = Some (take n xs)"
  by (simp add: rds_def)

lemma wrs_here [mem_simps]:
  "length old = length xs \<Longrightarrow> wrs (pre @ old @ post) (length pre) xs = Some (pre @ xs @ post)"
  by (simp add: wrs_def)

lemma wr_here [mem_simps]: "wr (pre @ x # post) (length pre) y = Some (pre @ y # post)"
  by (simp add: wr_def list_update_append)

lemma take_drop_here: "p = length h \<Longrightarrow> take (length d) (drop p (h @ d @ post)) = d"
  by simp

lemma rtw_memcmp_Some:
  "n \<le> length src \<Longrightarrow> i + n \<le> length b \<Longrightarrow>
   rtw_memcmp b i src n = Some (take n (drop i b) = take n src)"
  by (simp add: rtw_memcmp_def rds_def)

lemma rtw_memcmp_eq_None:
  "n \<le> length src \<Longrightarrow> rtw_memcmp b i src n = None \<longleftrightarrow> length b < i + n"
  by (auto simp: rtw_memcmp_def rds_def)

lemma rtw_memmove_down:
  "rtw_memmove (pre @ mid @ suf @ post) (length pre) (length pre + length mid) (length suf)
   = Some (pre @ suf @ drop (length suf) (mid @ suf) @ post)"
proof -
  have "drop (length pre + length suf) (pre @ mid @ suf @ post) = drop (length suf) (mid @ suf) @ post"
    by simp
  then show ?thesis by (simp add: rtw_memmove_def rds_def wrs_def)
qed

subsection \<open>Byte order\<close>

definition be16 :: "u8 \<Rightarrow> u8 \<Rightarrow> u16" where
  "be16 a0 a1 = push_bit 8 (ucast a0) OR ucast a1"

definition RTW_GET_BE16 :: "buf \<Rightarrow> nat \<Rightarrow> u16 option" where
  "RTW_GET_BE16 b i = do { a0 \<leftarrow> rd b i; a1 \<leftarrow> rd b (i + 1); Some (be16 a0 a1) }"

definition RTW_GET_LE16 :: "buf \<Rightarrow> nat \<Rightarrow> u16 option" where
  "RTW_GET_LE16 b i = do { a1 \<leftarrow> rd b (i + 1); a0 \<leftarrow> rd b i; Some (be16 a1 a0) }"

definition RTW_GET_BE24 :: "buf \<Rightarrow> nat \<Rightarrow> u32 option" where
  "RTW_GET_BE24 b i = do { a0 \<leftarrow> rd b i; a1 \<leftarrow> rd b (i + 1); a2 \<leftarrow> rd b (i + 2);
     Some (push_bit 16 (ucast a0) OR push_bit 8 (ucast a1) OR ucast a2) }"

text \<open>The two bytes \<open>RTW_PUT_LE16\<close> and \<open>RTW_PUT_BE16\<close> store, at increasing addresses.\<close>

definition le16_bytes :: "u16 \<Rightarrow> buf" where
  "le16_bytes v = [ucast (v AND 0xff), ucast (drop_bit 8 v)]"

definition be16_bytes :: "u16 \<Rightarrow> buf" where
  "be16_bytes v = [ucast (drop_bit 8 v), ucast (v AND 0xff)]"

definition RTW_PUT_LE16 :: "buf \<Rightarrow> nat \<Rightarrow> u16 \<Rightarrow> buf option" where
  "RTW_PUT_LE16 b i v = wrs b i (le16_bytes v)"

lemma length_le16_bytes [simp]: "length (le16_bytes v) = 2"
  by (simp add: le16_bytes_def)

lemma length_be16_bytes [simp]: "length (be16_bytes v) = 2"
  by (simp add: be16_bytes_def)

lemma be16_split: "be16 (ucast (drop_bit 8 v)) (ucast (v AND 0xff)) = v"
proof -
  have m: "(0xff :: u16) = mask 8" by (simp add: mask_eq_exp_minus_1)
  show ?thesis
    unfolding be16_def m take_bit_eq_mask [symmetric]
    by (rule bit_word_eqI) (auto simp: bit_simps)
qed

lemma RTW_GET_LE16_bytes [mem_simps]: "RTW_GET_LE16 (le16_bytes v @ post) 0 = Some v"
  by (simp add: RTW_GET_LE16_def le16_bytes_def rd_def be16_split)

lemma RTW_GET_BE16_bytes [mem_simps]: "RTW_GET_BE16 (be16_bytes v @ post) 0 = Some v"
  by (simp add: RTW_GET_BE16_def be16_bytes_def rd_def be16_split)

lemma RTW_GET_LE16_skip [mem_simps]:
  "RTW_GET_LE16 (pre @ suf) (length pre + k) = RTW_GET_LE16 suf k"
  by (simp add: RTW_GET_LE16_def rd_def nth_append)

lemma RTW_GET_BE16_skip [mem_simps]:
  "RTW_GET_BE16 (pre @ suf) (length pre + k) = RTW_GET_BE16 suf k"
  by (simp add: RTW_GET_BE16_def rd_def nth_append)

lemma RTW_GET_LE16_at: "p = length pre \<Longrightarrow> RTW_GET_LE16 (pre @ le16_bytes v @ post) p = Some v"
  using RTW_GET_LE16_skip [of pre "le16_bytes v @ post" 0] by (simp add: RTW_GET_LE16_bytes)

lemma RTW_GET_BE16_at: "p = length pre \<Longrightarrow> RTW_GET_BE16 (pre @ be16_bytes v @ post) p = Some v"
  using RTW_GET_BE16_skip [of pre "be16_bytes v @ post" 0] by (simp add: RTW_GET_BE16_bytes)

lemma RTW_GET_LE16_None [simp]: "RTW_GET_LE16 b i = None \<longleftrightarrow> length b < i + 2"
  by (auto simp: RTW_GET_LE16_def rd_def)

lemma RTW_GET_BE16_None [simp]: "RTW_GET_BE16 b i = None \<longleftrightarrow> length b < i + 2"
  by (auto simp: RTW_GET_BE16_def rd_def)

subsection \<open>Conversions between lengths and words\<close>

lemma unat_u8_less [simp]: "unat (x :: u8) < 256"
  using unsigned_less [of x, where ?'a = nat] by simp

lemma unat_u8_le [simp]: "unat (x :: u8) \<le> 255"
  using unat_u8_less [of x] by linarith

lemma unat_of_nat_u8 [simp]: "n < 256 \<Longrightarrow> unat (of_nat n :: u8) = n"
  by (simp add: unat_of_nat)

lemma unat_of_nat_u16: "n < 65536 \<Longrightarrow> unat (of_nat n :: u16) = n"
  by (simp add: unat_of_nat)

lemma unat_of_nat_u32: "n < 2 ^ 32 \<Longrightarrow> unat (of_nat n :: u32) = n"
  by (simp add: unat_of_nat)

lemma uint_of_nat_u32: "n < 2 ^ 32 \<Longrightarrow> uint (of_nat n :: u32) = int n"
  using unat_of_nat_u32 [of n] by (subst uint_nat) simp

lemma sint_of_nat_u32: "n < 2 ^ 31 \<Longrightarrow> sint (of_nat n :: u32) = int n"
  by (simp add: signed_of_nat signed_take_bit_int_eq_self)

subsection \<open>Loops\<close>

text \<open>
  A \<open>while\<close> loop whose termination depends on its input is run by \<open>run_loop\<close> over a step
  function: one iteration faults (an access outside a buffer), returns, or goes on with a
  new state. \<open>run_loop f s = None\<close> says that the loop does not return: it faults or never ends.
\<close>

datatype ('s, 'r) iteration = Fault | Ret 'r | Next 's

partial_function (option) run_loop :: "('s \<Rightarrow> ('s, 'r) iteration) \<Rightarrow> 's \<Rightarrow> 'r option" where
  "run_loop f s = (case f s of Fault \<Rightarrow> None | Ret r \<Rightarrow> Some r | Next s' \<Rightarrow> run_loop f s')"

definition iter_of :: "('s, 'r) iteration option \<Rightarrow> ('s, 'r) iteration" where
  "iter_of x = (case x of None \<Rightarrow> Fault | Some y \<Rightarrow> y)"

lemma iter_of_simps [simp]: "iter_of None = Fault" "iter_of (Some y) = y"
  by (simp_all add: iter_of_def)

lemma run_loop_Ret: "f s = Ret r \<Longrightarrow> run_loop f s = Some r"
  by (simp add: run_loop.simps)

lemma run_loop_Next: "f s = Next s' \<Longrightarrow> run_loop f s = run_loop f s'"
  by (subst run_loop.simps) simp

lemma run_loop_Fault: "f s = Fault \<Longrightarrow> run_loop f s = None"
  by (simp add: run_loop.simps)

text \<open>A loop that comes back to the state it started from never returns.\<close>

lemma run_loop_stuck:
  assumes "f s = Next s"
  shows "run_loop f s = None"
proof (rule ccontr)
  assume "run_loop f s \<noteq> None"
  then obtain r where r: "run_loop f s = Some r" by blast
  have "f s = Next s \<longrightarrow> False"
    by (rule run_loop.raw_induct [where P = "\<lambda>g t r. g t = Next t \<longrightarrow> False", OF _ r])
       (auto split: iteration.splits)
  with assms show False by simp
qed

text \<open>Total correctness: an invariant that rules out faults, and a measure.\<close>

lemma run_loop_total:
  fixes m :: "'s \<Rightarrow> nat"
  assumes "I s"
    and fault: "\<And>s. I s \<Longrightarrow> f s \<noteq> Fault"
    and nxt: "\<And>s s'. I s \<Longrightarrow> f s = Next s' \<Longrightarrow> I s' \<and> m s' < m s"
    and ret: "\<And>s r. I s \<Longrightarrow> f s = Ret r \<Longrightarrow> Q r"
  shows "\<exists>r. run_loop f s = Some r \<and> Q r"
  using \<open>I s\<close>
proof (induction "m s" arbitrary: s rule: less_induct)
  case less
  show ?case
  proof (cases "f s")
    case Fault
    with fault less.prems show ?thesis by blast
  next
    case (Ret r)
    with ret less.prems show ?thesis by (auto simp: run_loop_Ret)
  next
    case (Next s')
    with nxt less.prems have "I s'" "m s' < m s" by auto
    with less.hyps obtain r where "run_loop f s' = Some r" "Q r" by blast
    with Next show ?thesis by (auto simp: run_loop_Next)
  qed
qed

end
