(* ===== verification/Ie_Tlv.thy ===== *)
theory Ie_Tlv
  imports C_Base
begin

text \<open>
  Information elements (\<^verbatim>\<open>core/rtw_ieee80211.c\<close>): the writers \<open>rtw_set_fixed_ie\<close>,
  \<open>rtw_set_ie\<close> and its callers, the searches \<open>rtw_get_ie\<close> and \<open>rtw_get_ie_ex\<close>, the removal
  \<open>rtw_ies_remove_ie\<close>. The abstract view of a buffer of elements is a list of
  (element id, body) pairs, encoded by \<open>enc_ies\<close>; the locale \<open>ie_search\<close> states what a
  search over elements promises and derives that it finds the first match, and
  \<open>ie_delete\<close> that the loops which cut elements out of a buffer compute \<open>filter\<close>.
\<close>

subsection \<open>The abstract view: a list of elements\<close>

type_synonym ie = "u8 \<times> buf"

definition wf_ie :: "ie \<Rightarrow> bool" where
  "wf_ie x \<longleftrightarrow> length (snd x) \<le> 255"

definition enc_ie :: "ie \<Rightarrow> buf" where
  "enc_ie x = fst x # of_nat (length (snd x)) # snd x"

definition enc_ies :: "ie list \<Rightarrow> buf" where
  "enc_ies xs = concat (map enc_ie xs)"

fun first_off :: "(ie \<Rightarrow> bool) \<Rightarrow> ie list \<Rightarrow> nat option" where
  "first_off P [] = None"
| "first_off P (x # xs) = (if P x then Some 0
     else map_option ((+) (length (enc_ie x))) (first_off P xs))"

lemma length_enc_ie [simp]: "length (enc_ie x) = length (snd x) + 2"
  by (simp add: enc_ie_def)

lemma enc_ies_simps [simp]:
  "enc_ies [] = []"
  "enc_ies (x # xs) = enc_ie x @ enc_ies xs"
  "enc_ies (xs @ ys) = enc_ies xs @ enc_ies ys"
  by (simp_all add: enc_ies_def)

lemma rd_enc_ie [mem_simps]:
  "rd (enc_ie x @ suf) 0 = Some (fst x)"
  "rd (enc_ie x @ suf) (Suc 0) = Some (of_nat (length (snd x)))"
  by (simp_all add: enc_ie_def rd_def)

lemma rds_enc_ie_body [mem_simps]:
  "n \<le> length (snd x) \<Longrightarrow> rds (enc_ie x @ suf) (Suc (Suc 0)) n = Some (take n (snd x))"
  by (simp add: enc_ie_def rds_def)

lemma rds_enc_ie_whole [mem_simps]:
  "n = length (snd x) + 2 \<Longrightarrow> rds (enc_ie x @ suf) 0 n = Some (enc_ie x)"
  by (simp add: rds_def)

lemma wf_ie_unat [simp]: "wf_ie x \<Longrightarrow> unat (of_nat (length (snd x)) :: u8) = length (snd x)"
  by (simp add: wf_ie_def)

lemma first_off_None: "first_off P xs = None \<longleftrightarrow> (\<forall>x \<in> set xs. \<not> P x)"
  by (induction xs) auto

lemma first_off_split:
  "first_off P xs = Some n \<Longrightarrow>
   \<exists>ys x zs. xs = ys @ x # zs \<and> P x \<and> (\<forall>y \<in> set ys. \<not> P y) \<and> n = length (enc_ies ys)"
proof (induction xs arbitrary: n)
  case Nil
  then show ?case by simp
next
  case (Cons a xs)
  show ?case
  proof (cases "P a")
    case True
    with Cons.prems show ?thesis by (intro exI [of _ "[]"]) auto
  next
    case False
    with Cons.prems obtain m where m: "first_off P xs = Some m" "n = length (enc_ie a) + m"
      by auto
    with Cons.IH obtain ys x zs where
      "xs = ys @ x # zs" "P x" "\<forall>y \<in> set ys. \<not> P y" "m = length (enc_ies ys)" by blast
    with False m show ?thesis by (intro exI [of _ "a # ys"] exI [of _ x] exI [of _ zs]) auto
  qed
qed

lemma first_off_append_hit:
  "\<forall>y \<in> set ys. \<not> P y \<Longrightarrow> P x \<Longrightarrow> first_off P (ys @ x # zs) = Some (length (enc_ies ys))"
  by (induction ys) auto

subsection \<open>The interface of an element search\<close>

text \<open>
  \<open>srch b base n cnt\<close> is a search loop over the \<open>n\<close> bytes at offset \<open>base\<close> of the buffer \<open>b\<close>,
  at the loop counter \<open>cnt\<close>; its value is \<open>None\<close> for a fault, otherwise the counter of
  the element found, if any. \<open>hit\<close> is the element test in the abstract view, \<open>ok\<close> the
  well-formedness the search needs of every element and \<open>fits\<close> of the total length.
\<close>

locale ie_search =
  fixes srch :: "buf \<Rightarrow> nat \<Rightarrow> nat \<Rightarrow> nat \<Rightarrow> nat option option"
    and hit :: "ie \<Rightarrow> bool"
    and ok :: "ie \<Rightarrow> bool"
    and fits :: "nat \<Rightarrow> bool"
  assumes srch_end: "srch b base n n = Some None"
    and srch_hit: "ok x \<Longrightarrow> wf_ie x \<Longrightarrow> hit x \<Longrightarrow>
          fits (length done_ies + length (enc_ie x) + length rest) \<Longrightarrow>
          srch (pre @ done_ies @ enc_ie x @ rest @ post) (length pre)
            (length done_ies + length (enc_ie x) + length rest) (length done_ies)
          = Some (Some (length done_ies))"
    and srch_miss: "ok x \<Longrightarrow> wf_ie x \<Longrightarrow> \<not> hit x \<Longrightarrow>
          fits (length done_ies + length (enc_ie x) + length rest) \<Longrightarrow>
          srch (pre @ done_ies @ enc_ie x @ rest @ post) (length pre)
            (length done_ies + length (enc_ie x) + length rest) (length done_ies)
          = srch (pre @ done_ies @ enc_ie x @ rest @ post) (length pre)
            (length done_ies + length (enc_ie x) + length rest)
            (length done_ies + length (enc_ie x))"
begin

lemma srch_from:
  assumes "\<forall>x \<in> set xs. wf_ie x \<and> ok x" "fits (length done_ies + length (enc_ies xs))"
  shows "srch (pre @ done_ies @ enc_ies xs @ post) (length pre)
           (length done_ies + length (enc_ies xs)) (length done_ies)
         = Some (map_option ((+) (length done_ies)) (first_off hit xs))"
  using assms
proof (induction xs arbitrary: done_ies)
  case Nil
  then show ?case by (simp add: srch_end)
next
  case (Cons x xs)
  show ?case
  proof (cases "hit x")
    case True
    with Cons.prems srch_hit [of x done_ies "enc_ies xs" pre post] show ?thesis
      by (simp add: add.assoc)
  next
    case False
    have "srch (pre @ (done_ies @ enc_ie x) @ enc_ies xs @ post) (length pre)
            (length (done_ies @ enc_ie x) + length (enc_ies xs)) (length (done_ies @ enc_ie x))
          = Some (map_option ((+) (length (done_ies @ enc_ie x))) (first_off hit xs))"
      using Cons.prems by (intro Cons.IH) (auto simp: add.assoc)
    with False Cons.prems srch_miss [of x done_ies "enc_ies xs" pre post] show ?thesis
      by (cases "first_off hit xs") (simp_all add: add.assoc)
  qed
qed

lemma srch_first:
  assumes "\<forall>x \<in> set xs. wf_ie x \<and> ok x" "fits (length (enc_ies xs))"
  shows "srch (pre @ enc_ies xs @ post) (length pre) (length (enc_ies xs)) 0
         = Some (first_off hit xs)"
  using srch_from [of xs "[]" pre post] assms by (cases "first_off hit xs") simp_all

end

subsection \<open>Writing elements\<close>

definition rtw_set_fixed_ie :: "buf \<Rightarrow> nat \<Rightarrow> nat \<Rightarrow> buf \<Rightarrow> u32 \<Rightarrow> (buf \<times> nat \<times> u32) option" where
  "rtw_set_fixed_ie b pbuf len source frlen = do {
     x \<leftarrow> rds source 0 len;
     b' \<leftarrow> wrs b pbuf x;
     Some (b', pbuf + len, frlen + of_nat len) }"

definition rtw_set_ie ::
  "buf \<Rightarrow> nat \<Rightarrow> int \<Rightarrow> nat \<Rightarrow> buf \<Rightarrow> u32 option \<Rightarrow> (buf \<times> nat \<times> u32 option) option" where
  "rtw_set_ie b pbuf index len source frlen = do {
     b1 \<leftarrow> wr b pbuf (word_of_int index);
     b2 \<leftarrow> wr b1 (pbuf + 1) (of_nat len);
     b3 \<leftarrow> (if len > 0 then do { x \<leftarrow> rds source 0 len; wrs b2 (pbuf + 2) x } else Some b2);
     Some (b3, pbuf + len + 2, map_option (\<lambda>n. n + of_nat (len + 2)) frlen) }"

definition rtw_set_ie_ch_switch ::
  "buf \<Rightarrow> nat \<Rightarrow> u32 option \<Rightarrow> u8 \<Rightarrow> u8 \<Rightarrow> u8 \<Rightarrow> (buf \<times> nat \<times> u32 option) option" where
  "rtw_set_ie_ch_switch b p buf_len ch_switch_mode new_ch ch_switch_cnt =
     rtw_set_ie b p 37 3 [ch_switch_mode, new_ch, ch_switch_cnt] buf_len"

definition rtw_set_ie_secondary_ch_offset ::
  "buf \<Rightarrow> nat \<Rightarrow> u32 option \<Rightarrow> u8 \<Rightarrow> (buf \<times> nat \<times> u32 option) option" where
  "rtw_set_ie_secondary_ch_offset b p buf_len secondary_ch_offset =
     rtw_set_ie b p 62 1 [secondary_ch_offset] buf_len"

definition rtw_set_ie_mesh_ch_switch_parm ::
  "buf \<Rightarrow> nat \<Rightarrow> u32 option \<Rightarrow> u8 \<Rightarrow> u8 \<Rightarrow> u16 \<Rightarrow> u16 \<Rightarrow> (buf \<times> nat \<times> u32 option) option" where
  "rtw_set_ie_mesh_ch_switch_parm b p buf_len ttl flags reason precedence =
     rtw_set_ie b p 0x118 6
       ([ttl, flags] @ le16_bytes reason @ le16_bytes precedence) buf_len"

subsection \<open>Searching elements\<close>

text \<open>
  \<open>rtw_get_ie\<close>: \<open>pbuf\<close> is the offset of the first element, \<open>len\<close> the old value of the
  caller's \<open>*len\<close>, which a \<open>limit\<close> below 1 leaves as it was. The result is the offset
  of the element found (\<open>None\<close> for \<open>NULL\<close>) and the new \<open>*len\<close>.
\<close>

function rtw_get_ie_loop :: "buf \<Rightarrow> int \<Rightarrow> int \<Rightarrow> nat \<Rightarrow> nat \<Rightarrow> (nat option \<times> int) option" where
  "rtw_get_ie_loop b index limit p i =
     (case rd b p of None \<Rightarrow> None | Some c \<Rightarrow>
        if uint c = index then
          (case rd b (p + 1) of None \<Rightarrow> None | Some l \<Rightarrow> Some (Some p, uint l))
        else
          (case rd b (p + 1) of None \<Rightarrow> None | Some tmp \<Rightarrow>
             if limit \<le> int (i + (unat tmp + 2)) then Some (None, 0)
             else rtw_get_ie_loop b index limit (p + (unat tmp + 2)) (i + (unat tmp + 2))))"
  by pat_completeness auto
termination
proof (relation "measure (\<lambda>(b, index, limit, p, i). nat (limit - int i))", goal_cases)
  case (2 b index limit p i c tmp)
  then have "int (i + (unat tmp + 2)) < limit" by linarith
  then show ?case by (simp del: of_nat_add add: nat_less_eq_zless)
qed simp

declare rtw_get_ie_loop.simps [simp del]

definition rtw_get_ie :: "buf \<Rightarrow> nat \<Rightarrow> int \<Rightarrow> int \<Rightarrow> int \<Rightarrow> (nat option \<times> int) option" where
  "rtw_get_ie b pbuf index len limit =
     (if limit < 1 then Some (None, len) else rtw_get_ie_loop b index limit pbuf 0)"

text \<open>
  What \<open>rtw_get_ie_ex\<close>, \<open>rtw_get_wps_ie\<close>, \<open>rtw_get_owe_ie\<close>, \<open>rtw_get_p2p_ie\<close> and
  \<open>rtw_get_wfd_ie\<close> do with the element found: copy it to the caller's buffer and
  store its length, each where the caller's pointer is not \<open>NULL\<close>.
\<close>

definition copy_ie_out :: "buf \<Rightarrow> nat \<Rightarrow> buf option \<Rightarrow> u32 option \<Rightarrow> (buf option \<times> u32 option) option" where
  "copy_ie_out b p ie ielen = do {
     l \<leftarrow> rd b (p + 1);
     ie' \<leftarrow> (case ie of None \<Rightarrow> Some None
            | Some d \<Rightarrow> do { x \<leftarrow> rds b p (unat l + 2); d' \<leftarrow> wrs d 0 x; Some (Some d') });
     Some (ie', map_option (\<lambda>_. ucast l + 2) ielen) }"

function rtw_get_ie_ex_loop ::
  "buf \<Rightarrow> nat \<Rightarrow> nat \<Rightarrow> u8 \<Rightarrow> buf option \<Rightarrow> u8 \<Rightarrow> nat \<Rightarrow> nat option option" where
  "rtw_get_ie_ex_loop b in_ie in_len eid oui oui_len cnt =
     (if cnt < in_len then
        case rd b (in_ie + cnt) of None \<Rightarrow> None | Some e \<Rightarrow>
        (case (if eid = e then
                 (case oui of None \<Rightarrow> Some True
                  | Some u \<Rightarrow> rtw_memcmp b (in_ie + cnt + 2) u (unat oui_len))
               else Some False) of
           None \<Rightarrow> None
         | Some True \<Rightarrow> Some (Some cnt)
         | Some False \<Rightarrow>
             (case rd b (in_ie + cnt + 1) of None \<Rightarrow> None | Some l \<Rightarrow>
                rtw_get_ie_ex_loop b in_ie in_len eid oui oui_len (cnt + (unat l + 2))))
      else Some None)"
  by pat_completeness auto
termination
  by (relation "measure (\<lambda>(b, in_ie, in_len, eid, oui, oui_len, cnt). in_len - cnt)") auto

declare rtw_get_ie_ex_loop.simps [simp del]

definition rtw_get_ie_ex ::
  "buf \<Rightarrow> nat option \<Rightarrow> nat \<Rightarrow> u8 \<Rightarrow> buf option \<Rightarrow> u8 \<Rightarrow> buf option \<Rightarrow> u32 option
   \<Rightarrow> (nat option \<times> buf option \<times> u32 option) option" where
  "rtw_get_ie_ex b in_ie in_len eid oui oui_len ie ielen =
     (let ielen0 = map_option (\<lambda>_. 0) ielen in
      case in_ie of
        None \<Rightarrow> Some (None, ie, ielen0)
      | Some p \<Rightarrow>
          if in_len \<le> 0 then Some (None, ie, ielen0)
          else do {
            found \<leftarrow> rtw_get_ie_ex_loop b p in_len eid oui oui_len 0;
            (case found of None \<Rightarrow> Some (None, ie, ielen0)
             | Some cnt \<Rightarrow> do {
                 (ie', ielen') \<leftarrow> copy_ie_out b (p + cnt) ie ielen0;
                 Some (Some (p + cnt), ie', ielen') }) })"

subsection \<open>Removing elements\<close>

text \<open>
  \<open>rtw_ies_remove_ie\<close>: the state of the loop is the buffer, \<open>start\<close>, \<open>search_len\<close>,
  \<open>*ies_len\<close> and \<open>ret\<close>. \<open>remain_len\<close> is an unsigned subtraction and wraps when the
  element found ends beyond the buffer.
\<close>

definition rtw_ies_remove_ie_step ::
  "u8 \<Rightarrow> buf option \<Rightarrow> u8 \<Rightarrow> buf \<times> nat \<times> u32 \<times> u32 \<times> bool
   \<Rightarrow> (buf \<times> nat \<times> u32 \<times> u32 \<times> bool, buf \<times> u32 \<times> bool) iteration" where
  "rtw_ies_remove_ie_step eid oui oui_len s = (case s of (b, start, search_len, ies_len, ret) \<Rightarrow>
     iter_of (do {
       (target_ie, _, target_ielen) \<leftarrow>
          rtw_get_ie_ex b (Some start) (unat search_len) eid oui oui_len None (Some 0);
       (case (target_ie, target_ielen) of
          (Some t, Some l) \<Rightarrow>
            if l \<noteq> 0 then do {
              let remain_len = search_len - of_nat (t + unat l - start);
              b' \<leftarrow> rtw_memmove b t (t + unat l) (unat remain_len);
              Some (Next (b', t, remain_len, ies_len - l, True)) }
            else Some (Ret (b, ies_len, ret))
        | _ \<Rightarrow> Some (Ret (b, ies_len, ret))) }))"

definition rtw_ies_remove_ie ::
  "buf \<Rightarrow> nat option \<Rightarrow> u32 option \<Rightarrow> nat \<Rightarrow> u8 \<Rightarrow> buf option \<Rightarrow> u8 \<Rightarrow> (buf \<times> u32 option \<times> bool) option" where
  "rtw_ies_remove_ie b ies ies_len offset eid oui oui_len =
     (case (ies, ies_len) of
        (Some p, Some n) \<Rightarrow>
          if unat n \<le> offset then Some (b, ies_len, False)
          else do {
            (b', n', ret) \<leftarrow> run_loop (rtw_ies_remove_ie_step eid oui oui_len)
               (b, p + offset, n - of_nat offset, n, False);
            Some (b', Some n', ret) }
      | _ \<Rightarrow> Some (b, ies_len, False))"

subsection \<open>What the searches find\<close>

lemma rtw_get_ie_loop_shift:
  "rtw_get_ie_loop b index (limit + int k) p (i + k) = rtw_get_ie_loop b index limit p i"
proof (induction b index limit p i rule: rtw_get_ie_loop.induct)
  case (1 b index limit p i)
  note unfold_here = rtw_get_ie_loop.simps [of b index "limit + int k" p]
    rtw_get_ie_loop.simps [of b index limit p]
  show ?case
  proof (cases "\<exists>c tmp. rd b p = Some c \<and> uint c \<noteq> index \<and> rd b (p + 1) = Some tmp
      \<and> \<not> limit \<le> int (i + (unat tmp + 2))")
    case True
    then obtain c tmp where c: "rd b p = Some c" "uint c \<noteq> index" "rd b (p + 1) = Some tmp"
        "\<not> limit \<le> int (i + (unat tmp + 2))" by blast
    with "1.IH" have "rtw_get_ie_loop b index (limit + int k) (p + (unat tmp + 2)) (i + (unat tmp + 2) + k)
        = rtw_get_ie_loop b index limit (p + (unat tmp + 2)) (i + (unat tmp + 2))"
      by blast
    with c show ?thesis by (simp add: unfold_here ac_simps)
  next
    case False
    then show ?thesis by (cases "rd b p"; cases "rd b (p + 1)") (auto simp: unfold_here)
  qed
qed

lemma rtw_get_ie_miss_step:
  assumes "rd b p = Some c" "uint c \<noteq> index" "rd b (p + 1) = Some tmp" "1 \<le> limit"
  shows "map_option fst (rtw_get_ie b p index len limit)
       = map_option fst (rtw_get_ie b (p + (unat tmp + 2)) index len (limit - int (unat tmp + 2)))"
proof -
  have "rtw_get_ie_loop b index limit (p + (unat tmp + 2)) (unat tmp + 2)
     = rtw_get_ie_loop b index (limit - int (unat tmp + 2)) (p + (unat tmp + 2)) 0"
    using rtw_get_ie_loop_shift [of b index "limit - int (unat tmp + 2)" "unat tmp + 2"
        "p + (unat tmp + 2)" 0] by simp
  with assms show ?thesis
    by (auto simp: rtw_get_ie_def rtw_get_ie_loop.simps [of b index limit p])
qed

definition get_ie_srch :: "u8 \<Rightarrow> buf \<Rightarrow> nat \<Rightarrow> nat \<Rightarrow> nat \<Rightarrow> nat option option" where
  "get_ie_srch eid b base n cnt =
     map_option (map_option (\<lambda>p. p - base))
       (map_option fst (rtw_get_ie b (base + cnt) (uint eid) 0 (int n - int cnt)))"

interpretation get_ie: ie_search "get_ie_srch eid" "\<lambda>x. fst x = eid" "\<lambda>_. True" "\<lambda>_. True"
proof (unfold_locales, goal_cases)
  case (1 b base n)
  then show ?case by (simp add: get_ie_srch_def rtw_get_ie_def)
next
  case (2 x done_ies rest pre post)
  then show ?case
    by (simp add: get_ie_srch_def rtw_get_ie_def rtw_get_ie_loop.simps mem_simps add.assoc)
next
  case (3 x done_ies rest pre post)
  let ?b = "pre @ done_ies @ enc_ie x @ rest @ post"
  have r: "rd ?b (length pre + length done_ies) = Some (fst x)"
    "rd ?b (length pre + length done_ies + 1) = Some (of_nat (length (snd x)))"
    by (simp_all add: mem_simps add.assoc)
  from 3 have ne: "uint (fst x) \<noteq> uint eid" by (simp add: word_uint_eq_iff)
  note rtw_get_ie_miss_step [OF r(1) ne r(2), of "2 + int (length (snd x)) + int (length rest)" 0]
  with 3 show ?case
    by (simp add: get_ie_srch_def option.map_comp algebra_simps del: option.map_comp)
qed

lemma rtw_get_ie_loop_found:
  "rtw_get_ie_loop b index limit p i = Some (Some q, n) \<Longrightarrow> int i < limit \<Longrightarrow>
   p \<le> q \<and> int (q - p + i) < limit \<and> (\<exists>c l. rd b q = Some c \<and> uint c = index
     \<and> rd b (q + 1) = Some l \<and> n = uint l)"
proof (induction b index limit p i rule: rtw_get_ie_loop.induct)
  case (1 b index limit p i)
  from "1.prems"(1) obtain c tmp where c: "rd b p = Some c" "rd b (p + 1) = Some tmp"
    by (subst (asm) rtw_get_ie_loop.simps) (auto split: option.splits if_splits)
  show ?case
  proof (cases "uint c = index")
    case True
    with c "1.prems" show ?thesis by (simp add: rtw_get_ie_loop.simps [of b index limit p])
  next
    case False
    with c "1.prems" have lim: "\<not> limit \<le> int (i + (unat tmp + 2))"
      by (auto simp: rtw_get_ie_loop.simps [of b index limit p] split: if_splits)
    with False c "1.prems" have
      "rtw_get_ie_loop b index limit (p + (unat tmp + 2)) (i + (unat tmp + 2)) = Some (Some q, n)"
      by (simp add: rtw_get_ie_loop.simps [of b index limit p])
    with "1.IH" [OF c(1) False c(2) lim] lim show ?thesis by auto
  qed
qed

lemma rtw_get_ie_found:
  "rtw_get_ie b p index len limit = Some (Some q, n) \<Longrightarrow>
   p \<le> q \<and> int q < int p + limit \<and> (\<exists>c l. rd b q = Some c \<and> uint c = index
     \<and> rd b (q + 1) = Some l \<and> n = uint l)"
  using rtw_get_ie_loop_found [of b index limit p 0 q n]
  by (auto simp: rtw_get_ie_def split: if_splits)

lemma rtw_get_ie_loop_no_fault:
  "int (p - i) + limit < int (length b) \<Longrightarrow> i \<le> p \<Longrightarrow> int i < limit \<Longrightarrow>
   rtw_get_ie_loop b index limit p i \<noteq> None"
proof (induction b index limit p i rule: rtw_get_ie_loop.induct)
  case (1 b index limit p i)
  have "p + 1 < length b" using "1.prems" by linarith
  then obtain c tmp where c: "rd b p = Some c" "rd b (p + 1) = Some tmp"
    by (auto simp: rd_def)
  show ?case
  proof (cases "uint c = index \<or> limit \<le> int (i + (unat tmp + 2))")
    case True
    with c show ?thesis by (auto simp: rtw_get_ie_loop.simps [of b index limit p])
  next
    case False
    with c "1.prems" "1.IH" [OF c(1) _ c(2)]
    have "rtw_get_ie_loop b index limit (p + (unat tmp + 2)) (i + (unat tmp + 2)) \<noteq> None"
      by auto
    with False c show ?thesis by (simp add: rtw_get_ie_loop.simps [of b index limit p])
  qed
qed

subsection \<open>Removal of elements computes a filter\<close>

definition ie_ex_hit :: "u8 \<Rightarrow> buf option \<Rightarrow> u8 \<Rightarrow> ie \<Rightarrow> bool" where
  "ie_ex_hit eid oui oui_len x \<longleftrightarrow> fst x = eid \<and>
     (case oui of None \<Rightarrow> True | Some u \<Rightarrow> take (unat oui_len) (snd x) = take (unat oui_len) u)"

definition ie_ex_ok :: "u8 \<Rightarrow> buf option \<Rightarrow> u8 \<Rightarrow> ie \<Rightarrow> bool" where
  "ie_ex_ok eid oui oui_len x \<longleftrightarrow> (case oui of None \<Rightarrow> True
     | Some u \<Rightarrow> unat oui_len \<le> length u \<and> (fst x = eid \<longrightarrow> unat oui_len \<le> length (snd x)))"

interpretation get_ie_ex: ie_search
  "\<lambda>b base n cnt. rtw_get_ie_ex_loop b base n eid oui oui_len cnt"
  "ie_ex_hit eid oui oui_len" "ie_ex_ok eid oui oui_len" "\<lambda>_. True"
proof (unfold_locales, goal_cases)
  case (1 b base n)
  then show ?case by (simp add: rtw_get_ie_ex_loop.simps)
next
  case (2 x done_ies rest pre post)
  then show ?case
    by (subst rtw_get_ie_ex_loop.simps)
       (auto simp: ie_ex_hit_def ie_ex_ok_def rtw_memcmp_def mem_simps add.assoc
         split: option.splits)
next
  case (3 x done_ies rest pre post)
  then show ?case
    by (subst rtw_get_ie_ex_loop.simps)
       (auto simp: ie_ex_hit_def ie_ex_ok_def rtw_memcmp_def mem_simps add.assoc
         split: option.splits)
qed

lemma copy_ie_out_len:
  "copy_ie_out (pre @ enc_ie x @ post) (length pre) None (Some v)
   = Some (None, Some (ucast (of_nat (length (snd x)) :: u8) + 2))"
  by (simp add: copy_ie_out_def mem_simps)

lemma rtw_get_ie_ex_enc:
  assumes "\<forall>x \<in> set xs. wf_ie x \<and> ie_ex_ok eid oui oui_len x"
  shows "rtw_get_ie_ex (pre @ enc_ies xs @ post) (Some (length pre)) (length (enc_ies xs))
           eid oui oui_len None (Some v) =
         (case first_off (ie_ex_hit eid oui oui_len) xs of
            None \<Rightarrow> Some (None, None, Some 0)
          | Some n \<Rightarrow> map_option (\<lambda>(ie', l). (Some (length pre + n), ie', l))
              (copy_ie_out (pre @ enc_ies xs @ post) (length pre + n) None (Some 0)))"
proof (cases "enc_ies xs = []")
  case True
  then have "xs = []" by (cases xs) (auto simp: enc_ie_def)
  then show ?thesis by (simp add: rtw_get_ie_ex_def)
next
  case False
  then show ?thesis
    using get_ie_ex.srch_first [OF assms, of pre post]
    by (cases "first_off (ie_ex_hit eid oui oui_len) xs";
        cases "copy_ie_out (pre @ enc_ies xs @ post)
          (length pre + the (first_off (ie_ex_hit eid oui oui_len) xs)) None (Some 0)")
       (auto simp: rtw_get_ie_ex_def)
qed

text \<open>One removal: the bytes behind the element move down over it, the tail is left as junk.\<close>

lemma remove_one:
  "\<exists>junk. length junk = length (enc_ie x) \<and>
     rtw_memmove (pre @ enc_ies ys @ enc_ie x @ enc_ies zs @ post)
       (length pre + length (enc_ies ys))
       (length pre + length (enc_ies ys) + length (enc_ie x)) (length (enc_ies zs))
     = Some (pre @ enc_ies ys @ enc_ies zs @ junk @ post)"
proof -
  let ?junk = "drop (length (enc_ies zs)) (enc_ie x @ enc_ies zs)"
  have "rtw_memmove (pre @ enc_ies ys @ enc_ie x @ enc_ies zs @ post)
       (length pre + length (enc_ies ys))
       (length pre + length (enc_ies ys) + length (enc_ie x)) (length (enc_ies zs))
     = Some (pre @ enc_ies ys @ enc_ies zs @ ?junk @ post)"
    using rtw_memmove_down [of "pre @ enc_ies ys" "enc_ie x" "enc_ies zs" post] by simp
  moreover have "length ?junk = length (enc_ie x)" by simp
  ultimately show ?thesis by blast
qed

lemma u32_of_nat_diff: "n \<le> m \<Longrightarrow> (of_nat m :: u32) - of_nat n = of_nat (m - n)"
  by (simp add: of_nat_diff)

lemma ucast_len_u32:
  "n \<le> 255 \<Longrightarrow> (ucast (of_nat n :: u8) :: u32) + 2 = of_nat (n + 2)"
proof -
  assume "n \<le> 255"
  then have "unat (of_nat n :: u8) = n" by simp
  then have "(ucast (of_nat n :: u8) :: u32) = of_nat n" by (metis of_nat_unat)
  then show ?thesis by simp
qed

lemma rtw_ies_remove_ie_step_hit:
  assumes "\<forall>x \<in> set (ys @ x # zs). wf_ie x \<and> ie_ex_ok eid oui oui_len x"
    and hit: "ie_ex_hit eid oui oui_len x" "\<forall>y \<in> set ys. \<not> ie_ex_hit eid oui oui_len y"
    and "length (enc_ies (ys @ x # zs)) < 2 ^ 32"
  shows "\<exists>junk. length junk = length (enc_ie x) \<and>
    rtw_ies_remove_ie_step eid oui oui_len
      (pre @ enc_ies (ys @ x # zs) @ post, length pre, of_nat (length (enc_ies (ys @ x # zs))), N, ret)
    = Next ((pre @ enc_ies ys) @ enc_ies zs @ junk @ post, length (pre @ enc_ies ys),
        of_nat (length (enc_ies zs)), N - of_nat (length (enc_ie x)), True)"
proof -
  have wf: "length (snd x) \<le> 255" using assms(1) by (simp add: wf_ie_def)
  have len: "unat (of_nat (length (enc_ies (ys @ x # zs))) :: u32) = length (enc_ies (ys @ x # zs))"
    using assms(4) by (rule unat_of_nat_u32)
  have lx: "unat (of_nat (length (snd x) + 2) :: u32) = length (snd x) + 2"
    using wf by (intro unat_of_nat_u32) simp
  have lz: "unat (of_nat (length (enc_ies zs)) :: u32) = length (enc_ies zs)"
    using assms(4) by (intro unat_of_nat_u32) simp
  have c: "copy_ie_out (pre @ enc_ies (ys @ x # zs) @ post) (length pre + length (enc_ies ys)) None (Some 0)
      = Some (None, Some (of_nat (length (snd x) + 2)))"
    using copy_ie_out_len [of "pre @ enc_ies ys" x "enc_ies zs @ post" 0] wf
    by (simp add: ucast_len_u32 del: of_nat_add)
  have nz: "(of_nat (length (snd x) + 2) :: u32) \<noteq> 0" using lx by (metis add_is_0 unat_0 zero_neq_numeral)
  obtain junk where j: "length junk = length (enc_ie x)"
    "rtw_memmove (pre @ enc_ies (ys @ x # zs) @ post)
       (length pre + length (enc_ies ys))
       (length pre + length (enc_ies ys) + (length (snd x) + 2)) (length (enc_ies zs))
     = Some ((pre @ enc_ies ys) @ enc_ies zs @ junk @ post)"
    using remove_one [of x pre ys zs post] by auto
  have sub: "(of_nat (length (enc_ies (ys @ x # zs))) :: u32)
      - of_nat (length pre + length (enc_ies ys) + (length (snd x) + 2) - length pre)
      = of_nat (length (enc_ies zs))"
    by (subst u32_of_nat_diff) auto
  show ?thesis
    by (rule exI [of _ junk])
       (simp only: rtw_ies_remove_ie_step_def prod.case len rtw_get_ie_ex_enc [OF assms(1)]
          first_off_append_hit [OF hit(2) hit(1)] option.case c option.map prod.case
          Option.bind.simps fst_conv snd_conv lx nz sub lz j iter_of_simps Let_def if_True
          not_False_eq_True length_enc_ie length_append simp_thms)
qed

lemma rtw_ies_remove_ie_step_none:
  assumes "\<forall>x \<in> set xs. wf_ie x \<and> ie_ex_ok eid oui oui_len x"
    and "\<forall>x \<in> set xs. \<not> ie_ex_hit eid oui oui_len x" and "length (enc_ies xs) < 2 ^ 32"
  shows "rtw_ies_remove_ie_step eid oui oui_len
      (pre @ enc_ies xs @ post, length pre, of_nat (length (enc_ies xs)), N, ret)
    = Ret (pre @ enc_ies xs @ post, N, ret)"
  using assms rtw_get_ie_ex_enc [OF assms(1), of pre post 0]
  by (simp add: rtw_ies_remove_ie_step_def unat_of_nat_u32 first_off_None [THEN iffD2])

lemma rtw_ies_remove_ie_loop:
  assumes "\<forall>x \<in> set xs. wf_ie x \<and> ie_ex_ok eid oui oui_len x" "length (enc_ies xs) < 2 ^ 32"
  shows "\<exists>junk. length junk + length (enc_ies (filter (\<lambda>x. \<not> ie_ex_hit eid oui oui_len x) xs))
        = length (enc_ies xs) \<and>
      run_loop (rtw_ies_remove_ie_step eid oui oui_len)
        (pre @ enc_ies xs @ post, length pre, of_nat (length (enc_ies xs)), N, ret)
      = Some (pre @ enc_ies (filter (\<lambda>x. \<not> ie_ex_hit eid oui oui_len x) xs) @ junk @ post,
          N - of_nat (length junk), ret \<or> (\<exists>x \<in> set xs. ie_ex_hit eid oui oui_len x))"
  using assms
proof (induction "length xs" arbitrary: xs pre post N ret rule: less_induct)
  case less
  let ?hit = "ie_ex_hit eid oui oui_len"
  show ?case
  proof (cases "first_off ?hit xs")
    case None
    then have nh: "\<forall>x \<in> set xs. \<not> ?hit x" by (simp add: first_off_None)
    then have "filter (\<lambda>x. \<not> ?hit x) xs = xs" by simp
    with nh less.prems rtw_ies_remove_ie_step_none [of xs eid oui oui_len pre post N ret] show ?thesis
      by (intro exI [of _ "[]"]) (simp add: run_loop_Ret)
  next
    case (Some n)
    then obtain ys x zs where xs: "xs = ys @ x # zs" and h: "?hit x" "\<forall>y \<in> set ys. \<not> ?hit y"
      using first_off_split by blast
    then have fl: "filter (\<lambda>x. \<not> ?hit x) xs = ys @ filter (\<lambda>x. \<not> ?hit x) zs" by simp
    obtain j where j: "length j = length (enc_ie x)"
      "rtw_ies_remove_ie_step eid oui oui_len
         (pre @ enc_ies xs @ post, length pre, of_nat (length (enc_ies xs)), N, ret)
       = Next ((pre @ enc_ies ys) @ enc_ies zs @ j @ post, length (pre @ enc_ies ys),
           of_nat (length (enc_ies zs)), N - of_nat (length (enc_ie x)), True)"
      using rtw_ies_remove_ie_step_hit [OF _ h, of zs pre post N ret] less.prems xs by auto
    obtain k where k: "length k + length (enc_ies (filter (\<lambda>x. \<not> ?hit x) zs)) = length (enc_ies zs)"
      "run_loop (rtw_ies_remove_ie_step eid oui oui_len)
         ((pre @ enc_ies ys) @ enc_ies zs @ j @ post, length (pre @ enc_ies ys),
           of_nat (length (enc_ies zs)), N - of_nat (length (enc_ie x)), True)
       = Some ((pre @ enc_ies ys) @ enc_ies (filter (\<lambda>x. \<not> ?hit x) zs) @ k @ j @ post,
           N - of_nat (length (enc_ie x)) - of_nat (length k), True)"
      using less.hyps [of zs "pre @ enc_ies ys" "j @ post" "N - of_nat (length (enc_ie x))" True]
        less.prems xs by auto
    show ?thesis
      using j k xs h fl
      by (intro exI [of _ "k @ j"]) (auto simp: run_loop_Next algebra_simps)
  qed
qed

subsection \<open>Properties\<close>

lemma rtw_get_ie_enc:
  assumes "\<forall>x \<in> set xs. wf_ie x"
  shows "map_option fst (rtw_get_ie (pre @ enc_ies xs @ post) (length pre) (uint eid) len0
           (int (length (enc_ies xs))))
       = Some (map_option ((+) (length pre)) (first_off (\<lambda>x. fst x = eid) xs))"
proof -
  have eq: "map_option fst (rtw_get_ie b p i len0 lim) = map_option fst (rtw_get_ie b p i 0 lim)" for b p i lim
    by (simp add: rtw_get_ie_def)
  have s: "get_ie_srch eid (pre @ enc_ies xs @ post) (length pre) (length (enc_ies xs)) 0
      = Some (first_off (\<lambda>x. fst x = eid) xs)"
    using assms by (intro get_ie.srch_first) auto
  show ?thesis
  proof (cases "rtw_get_ie (pre @ enc_ies xs @ post) (length pre) (uint eid) 0 (int (length (enc_ies xs)))")
    case None
    with s show ?thesis by (simp add: get_ie_srch_def)
  next
    case (Some r)
    obtain q n where r: "r = (q, n)" by fastforce
    with s Some have f: "first_off (\<lambda>x. fst x = eid) xs = map_option (\<lambda>p. p - length pre) q"
      by (simp add: get_ie_srch_def)
    show ?thesis
    proof (cases q)
      case None
      with f Some r eq show ?thesis by simp
    next
      case (Some q')
      with r rtw_get_ie_found [of "pre @ enc_ies xs @ post" "length pre" "uint eid" 0
          "int (length (enc_ies xs))" q' n] \<open>rtw_get_ie _ _ _ _ _ = Some r\<close>
      have "length pre \<le> q'" by auto
      with f Some r eq \<open>rtw_get_ie _ _ _ _ _ = Some r\<close> show ?thesis by simp
    qed
  qed
qed

lemma rtw_get_ie_loop_none:
  "rtw_get_ie_loop b index limit p i = Some (None, n) \<Longrightarrow> n = 0"
proof (induction b index limit p i rule: rtw_get_ie_loop.induct)
  case (1 b index limit p i)
  then show ?case
    by (subst (asm) (2) rtw_get_ie_loop.simps) (auto split: option.splits if_splits)
qed

lemma rtw_get_ie_first_aux:
  assumes "\<forall>x \<in> set xs. wf_ie x" "xs \<noteq> []"
  shows "rtw_get_ie (pre @ enc_ies xs @ post) (length pre) (uint eid) len0 (int (length (enc_ies xs)))
       = Some (case find (\<lambda>x. fst x = eid) xs of
                 None \<Rightarrow> (None, 0)
               | Some x \<Rightarrow> (map_option ((+) (length pre)) (first_off (\<lambda>x. fst x = eid) xs),
                            int (length (snd x))))"
proof -
  let ?b = "pre @ enc_ies xs @ post"
  let ?r = "rtw_get_ie ?b (length pre) (uint eid) len0 (int (length (enc_ies xs)))"
  have pos: "1 \<le> length (enc_ies xs)" using assms(2) by (cases xs) auto
  have f: "map_option fst ?r = Some (map_option ((+) (length pre)) (first_off (\<lambda>x. fst x = eid) xs))"
    using assms(1) by (rule rtw_get_ie_enc)
  then obtain n where r: "?r = Some (map_option ((+) (length pre)) (first_off (\<lambda>x. fst x = eid) xs), n)"
    by (cases ?r) auto
  show ?thesis
  proof (cases "first_off (\<lambda>x. fst x = eid) xs")
    case None
    then have "find (\<lambda>x. fst x = eid) xs = None" by (auto simp: first_off_None find_None_iff)
    moreover have "n = 0" using r None pos
      by (auto simp: rtw_get_ie_def split: if_splits dest: rtw_get_ie_loop_none)
    ultimately show ?thesis using r None by simp
  next
    case (Some m)
    then obtain ys x zs where xs: "xs = ys @ x # zs" "fst x = eid" "\<forall>y \<in> set ys. fst y \<noteq> eid"
      "m = length (enc_ies ys)" using first_off_split [OF Some] by blast
    then have fd: "find (\<lambda>x. fst x = eid) xs = Some x"
      by (induction ys arbitrary: xs m) auto
    from r Some obtain l where l: "rd ?b (Suc (length pre + m)) = Some l" "n = uint l"
      using rtw_get_ie_found [of ?b "length pre" "uint eid" len0 "int (length (enc_ies xs))"
          "length pre + m" n] by auto
    have "rd ?b (Suc (length pre + m)) = Some (of_nat (length (snd x)))"
      using xs by (simp add: mem_simps)
    with l assms xs have "n = int (length (snd x))"
      by (metis option.inject wf_ie_unat in_set_conv_decomp uint_nat)
    with r Some fd show ?thesis by simp
  qed
qed

text \<open>C29. Refinement: on a buffer that holds a non-empty well-formed sequence of elements,
  \<open>rtw_get_ie\<close> returns the first element with the id asked for and the length of its body,
  or \<open>NULL\<close> with \<open>*len = 0\<close> when no element has that id.\<close>

theorem rtw_get_ie_first:
  assumes "\<forall>x \<in> set xs. wf_ie x" "xs \<noteq> []"
  shows "rtw_get_ie (pre @ enc_ies xs @ post) (length pre) (uint eid) len0 (int (length (enc_ies xs)))
       = Some (case find (\<lambda>x. fst x = eid) xs of
                 None \<Rightarrow> (None, 0)
               | Some x \<Rightarrow> (map_option ((+) (length pre)) (first_off (\<lambda>x. fst x = eid) xs),
                            int (length (snd x))))"
  using assms by (rule rtw_get_ie_first_aux)

theorem rtw_get_ie_first_witness:
  "rtw_get_ie ([9] @ enc_ies [(0, [65, 66]), (3, [6])] @ [7]) 1 3 0 7 = Some (Some 5, 1)"
proof -
  have wf: "\<forall>x \<in> set [(0, [65, 66]), (3 :: u8, [6 :: u8])]. wf_ie x" by (simp add: wf_ie_def)
  show ?thesis
    using rtw_get_ie_first [OF wf, of "[9]" "[7]" 3 0] by (simp add: enc_ie_def)
qed

text \<open>Safety: \<open>rtw_get_ie\<close> always returns, and without touching memory outside the buffer,
  when one byte beyond the \<open>limit\<close> it is given can be read; what it returns then lies inside
  the limit and carries the id asked for.\<close>

theorem rtw_get_ie_in_bounds:
  assumes "int p + limit < int (length b)"
  shows "\<exists>q n. rtw_get_ie b p index len0 limit = Some (q, n) \<and>
    (case q of None \<Rightarrow> True
     | Some q \<Rightarrow> p \<le> q \<and> int q < int p + limit \<and> uint (b ! q) = index \<and> n = uint (b ! (q + 1)))"
proof -
  have "rtw_get_ie b p index len0 limit \<noteq> None"
    using rtw_get_ie_loop_no_fault [of p 0 limit b index] assms by (auto simp: rtw_get_ie_def)
  then obtain q n where qn: "rtw_get_ie b p index len0 limit = Some (q, n)" by fastforce
  then show ?thesis
    by (cases q) (auto simp: rd_Some_iff dest: rtw_get_ie_found)
qed

theorem rtw_get_ie_in_bounds_witness:
  "int 0 + 3 < int (length [1, 200, 7, 7 :: u8]) \<and>
   (\<exists>q n. rtw_get_ie [1, 200, 7, 7] 0 5 0 3 = Some (q, n))"
  using rtw_get_ie_in_bounds [of 0 3 "[1, 200, 7, 7]" 5 0] by auto

text \<open>Error: the bound of the previous property is sharp. When the elements searched end one
  byte before the limit and none matches, the search reads the length byte of the truncated
  element at the limit: on a buffer of exactly \<open>limit\<close> bytes it leaves the buffer.\<close>

theorem rtw_get_ie_overread:
  assumes "\<forall>x \<in> set xs. wf_ie x \<and> fst x \<noteq> eid" "c \<noteq> eid"
  shows "rtw_get_ie (pre @ enc_ies xs @ [c]) (length pre) (uint eid) len0
           (int (length (enc_ies xs @ [c]))) = None"
  using assms(1)
proof (induction xs arbitrary: pre)
  case Nil
  from assms(2) show ?case
    by (simp add: rtw_get_ie_def rtw_get_ie_loop.simps mem_simps word_uint_eq_iff)
       (simp add: rd_def)
next
  case (Cons x xs)
  let ?b = "pre @ enc_ies (x # xs) @ [c]"
  have r: "rd ?b (length pre) = Some (fst x)"
    "rd ?b (length pre + 1) = Some (of_nat (length (snd x)))" by (simp_all add: mem_simps)
  have "map_option fst (rtw_get_ie ?b (length pre) (uint eid) len0 (int (length (enc_ies (x # xs) @ [c]))))
     = map_option fst (rtw_get_ie ((pre @ enc_ie x) @ enc_ies xs @ [c]) (length (pre @ enc_ie x))
         (uint eid) len0 (int (length (enc_ies xs @ [c]))))"
    using rtw_get_ie_miss_step [OF r(1) _ r(2), of "uint eid"] Cons.prems
    by (simp add: word_uint_eq_iff algebra_simps)
  then show ?case using Cons.IH [of "pre @ enc_ie x"] Cons.prems by simp
qed

theorem rtw_get_ie_overread_witness: "rtw_get_ie ([] @ enc_ies [(0, [65])] @ [42]) 0 3 0 4 = None"
  using rtw_get_ie_overread [of "[(0, [65])]" 3 42 "[]" 0] by (simp add: wf_ie_def)

lemma rtw_set_ie_enc:
  assumes "len \<le> length src" "len \<le> 255" "length old = len + 2"
  shows "rtw_set_ie (pre @ old @ post) (length pre) (uint eid) len src frlen =
       Some (pre @ enc_ie (eid, take len src) @ post, length pre + len + 2,
             map_option (\<lambda>n. n + of_nat (len + 2)) frlen)"
proof -
  from assms obtain o0 o1 os where old: "old = o0 # o1 # os" "length os = len"
    by (metis (no_types) add_2_eq_Suc' length_Suc_conv)
  have w: "wr (pre @ o0 # o1 # os @ post) (length pre) eid = Some (pre @ eid # o1 # os @ post)"
    using wr_here [of pre o0 "o1 # os @ post" eid] by simp
  have w': "wr (pre @ eid # o1 # os @ post) (Suc (length pre)) v = Some (pre @ eid # v # os @ post)" for v
    using wr_here [of "pre @ [eid]" o1 "os @ post" v] by simp
  have ws: "wrs (pre @ eid # v # os @ post) (Suc (Suc (length pre))) (take len src)
      = Some (pre @ eid # v # take len src @ post)" for v
    using wrs_here [of os "take len src" "pre @ [eid, v]" post] old assms by simp
  from old assms w' [of 0] show ?thesis
    by (cases "len = 0") (simp_all add: rtw_set_ie_def w w' ws enc_ie_def mem_simps)
qed

text \<open>Round trip: an element of at most 255 body bytes written by \<open>rtw_set_ie\<close> is the encoding
  of (id, body) at the place it was written, the frame length grows by its size, nothing else
  of the buffer changes, and \<open>rtw_get_ie\<close> finds it there with its length.\<close>

theorem rtw_set_get_ie:
  assumes "len \<le> length src" "len \<le> 255" "p + len + 2 \<le> length b"
  shows "\<exists>b'. rtw_set_ie b p (uint eid) len src frlen
           = Some (b', p + len + 2, map_option (\<lambda>n. n + of_nat (len + 2)) frlen)
       \<and> b' = take p b @ enc_ie (eid, take len src) @ drop (p + len + 2) b
       \<and> rtw_get_ie b' p (uint eid) len0 (int (len + 2)) = Some (Some p, int len)"
proof -
  let ?pre = "take p b" and ?old = "take (len + 2) (drop p b)" and ?post = "drop (p + len + 2) b"
  have b: "b = ?pre @ ?old @ ?post"
    by (metis append_take_drop_id drop_drop add.commute add.assoc)
  have lp: "length ?pre = p" and lo: "length ?old = len + 2" using assms by simp_all
  let ?b' = "?pre @ enc_ies [(eid, take len src)] @ ?post"
  have w: "rtw_set_ie b p (uint eid) len src frlen
      = Some (?b', p + len + 2, map_option (\<lambda>n. n + of_nat (len + 2)) frlen)"
    using rtw_set_ie_enc [OF assms(1,2) lo, of ?pre ?post eid frlen] b lp by simp
  have "rtw_get_ie ?b' (length ?pre) (uint eid) len0 (int (length (enc_ies [(eid, take len src)])))
      = Some (Some p, int len)"
    using assms lp
    by (subst rtw_get_ie_first_aux) (auto simp: wf_ie_def)
  moreover have "length (take len src) = len" using assms by simp
  ultimately show ?thesis using w lp by simp
qed

theorem rtw_set_get_ie_witness:
  "\<exists>b'. rtw_set_ie [1, 2, 3, 4, 5, 6] 1 (uint (3 :: u8)) 2 [9, 8, 7] (Some 10) = Some (b', 1 + 2 + 2, Some 14)
     \<and> rtw_get_ie b' 1 (uint (3 :: u8)) 0 (int (2 + 2)) = Some (Some 1, int 2)"
  using rtw_set_get_ie [of 2 "[9, 8, 7]" 1 "[1, 2, 3, 4, 5, 6]" 3 "Some 10" 0] by fastforce

lemma rtw_ies_remove_ie_enc:
  assumes "\<forall>x \<in> set xs. wf_ie x \<and> ie_ex_ok eid oui oui_len x"
    and "length pre = p + offset" and "offset + length (enc_ies xs) < 2 ^ 32"
  shows "\<exists>junk.
      length junk + length (enc_ies (filter (\<lambda>x. \<not> ie_ex_hit eid oui oui_len x) xs)) = length (enc_ies xs) \<and>
      rtw_ies_remove_ie (pre @ enc_ies xs @ post) (Some p) (Some (of_nat (offset + length (enc_ies xs))))
        offset eid oui oui_len
      = Some (pre @ enc_ies (filter (\<lambda>x. \<not> ie_ex_hit eid oui oui_len x) xs) @ junk @ post,
          Some (of_nat (offset + length (enc_ies xs) - length junk)),
          \<exists>x \<in> set xs. ie_ex_hit eid oui oui_len x)"
proof (cases "xs = []")
  case True
  with assms(3) show ?thesis
    by (intro exI [of _ "[]"]) (simp add: rtw_ies_remove_ie_def unat_of_nat_u32)
next
  case False
  then have pos: "0 < length (enc_ies xs)" by (cases xs) auto
  let ?N = "of_nat (offset + length (enc_ies xs)) :: u32"
  obtain junk where j: "length junk + length (enc_ies (filter (\<lambda>x. \<not> ie_ex_hit eid oui oui_len x) xs))
        = length (enc_ies xs)"
      "run_loop (rtw_ies_remove_ie_step eid oui oui_len)
        (pre @ enc_ies xs @ post, length pre, of_nat (length (enc_ies xs)), ?N, False)
      = Some (pre @ enc_ies (filter (\<lambda>x. \<not> ie_ex_hit eid oui oui_len x) xs) @ junk @ post,
          ?N - of_nat (length junk), False \<or> (\<exists>x \<in> set xs. ie_ex_hit eid oui oui_len x))"
    using rtw_ies_remove_ie_loop [OF assms(1), of pre post ?N False] assms(3) by auto
  have n: "unat ?N = offset + length (enc_ies xs)" using assms(3) by (rule unat_of_nat_u32)
  have s: "?N - of_nat offset = of_nat (length (enc_ies xs))" by simp
  have t: "?N - of_nat (length junk) = of_nat (offset + length (enc_ies xs) - length junk)"
    using j(1) by (intro u32_of_nat_diff) linarith
  show ?thesis
    by (intro exI [of _ junk] conjI j(1))
       (use j(2) n s t pos assms(2) in \<open>simp add: rtw_ies_remove_ie_def del: of_nat_add\<close>)
qed

text \<open>C28. Refinement: \<open>rtw_ies_remove_ie\<close> on a buffer of well-formed elements removes exactly the
  elements that match id and OUI, keeps the others in order, keeps every byte outside the
  searched region, and subtracts from \<open>*ies_len\<close> the bytes removed; it reports success iff it
  removed something.\<close>

theorem rtw_ies_remove_ie_filter:
  assumes "\<forall>x \<in> set xs. wf_ie x \<and> ie_ex_ok eid oui oui_len x"
    and "length pre = p + offset" and "offset + length (enc_ies xs) < 2 ^ 32"
  shows "\<exists>junk.
      length junk + length (enc_ies (filter (\<lambda>x. \<not> ie_ex_hit eid oui oui_len x) xs)) = length (enc_ies xs) \<and>
      rtw_ies_remove_ie (pre @ enc_ies xs @ post) (Some p) (Some (of_nat (offset + length (enc_ies xs))))
        offset eid oui oui_len
      = Some (pre @ enc_ies (filter (\<lambda>x. \<not> ie_ex_hit eid oui oui_len x) xs) @ junk @ post,
          Some (of_nat (offset + length (enc_ies xs) - length junk)),
          \<exists>x \<in> set xs. ie_ex_hit eid oui oui_len x)"
  using assms by (rule rtw_ies_remove_ie_enc)

theorem rtw_ies_remove_ie_filter_witness:
  "\<exists>junk. length junk = 6 \<and>
     rtw_ies_remove_ie ([1, 2] @ enc_ies [(221, [0, 80, 242, 1]), (3, [6])] @ [5]) (Some 0)
       (Some (of_nat (2 + 9))) 2 221 (Some [0, 80, 242, 1]) 4
     = Some ([1, 2] @ enc_ies [(3, [6])] @ junk @ [5], Some (of_nat 5), True)"
  using rtw_ies_remove_ie_filter [of "[(221, [0, 80, 242, 1]), (3, [6])]" 221 "Some [0, 80, 242, 1]" 4
      "[1, 2]" 0 2 "[5]"]
  by (auto simp: wf_ie_def ie_ex_ok_def ie_ex_hit_def)

end
