(* ===== verification/Ie_Rates.thy ===== *)
theory Ie_Rates
  imports Ie_Tlv
begin

text \<open>
  Rates and network types (\<^verbatim>\<open>core/rtw_ieee80211.c\<close>, \<^verbatim>\<open>core/rtw_wlan_util.c\<close>): the rate
  tables, classification of a rate set, the supported-rates element of a BSS
  (\<open>rtw_set_supported_rate\<close>, \<open>rtw_filter_suppport_rateie\<close>, \<open>rtw_update_rate_bymode\<close>,
  \<open>rtw_generate_ie\<close>) and the HT MCS tables. A rate array argument is the byte list from the
  pointer on; running off its end is \<open>None\<close>.
\<close>

subsection \<open>Rate tables\<close>

definition IEEE80211_BASIC_RATE_MASK :: u8 where "IEEE80211_BASIC_RATE_MASK = 0x80"

definition WIFI_CCKRATES :: buf where
  "WIFI_CCKRATES = [0x02 OR IEEE80211_BASIC_RATE_MASK, 0x04 OR IEEE80211_BASIC_RATE_MASK,
     0x0B OR IEEE80211_BASIC_RATE_MASK, 0x16 OR IEEE80211_BASIC_RATE_MASK]"

definition WIFI_OFDMRATES :: buf where
  "WIFI_OFDMRATES = [0x0C, 0x12, 0x18, 0x24, 0x30, 0x48, 0x60, 0x6C]"

definition rtw_basic_rate_cck :: buf where
  "rtw_basic_rate_cck = [0x02 OR IEEE80211_BASIC_RATE_MASK, 0x04 OR IEEE80211_BASIC_RATE_MASK,
     0x0B OR IEEE80211_BASIC_RATE_MASK, 0x16 OR IEEE80211_BASIC_RATE_MASK]"

definition rtw_basic_rate_ofdm :: buf where
  "rtw_basic_rate_ofdm = [0x0C OR IEEE80211_BASIC_RATE_MASK, 0x18 OR IEEE80211_BASIC_RATE_MASK,
     0x30 OR IEEE80211_BASIC_RATE_MASK]"

definition rtw_basic_rate_mix :: buf where
  "rtw_basic_rate_mix = [0x02 OR IEEE80211_BASIC_RATE_MASK, 0x04 OR IEEE80211_BASIC_RATE_MASK,
     0x0B OR IEEE80211_BASIC_RATE_MASK, 0x16 OR IEEE80211_BASIC_RATE_MASK,
     0x0C OR IEEE80211_BASIC_RATE_MASK, 0x18 OR IEEE80211_BASIC_RATE_MASK,
     0x30 OR IEEE80211_BASIC_RATE_MASK]"

definition rtw_is_cck_rate :: "u8 \<Rightarrow> bool" where
  "rtw_is_cck_rate rate = list_ex (\<lambda>r. r AND 0x7F = rate AND 0x7F) WIFI_CCKRATES"

definition rtw_is_ofdm_rate :: "u8 \<Rightarrow> bool" where
  "rtw_is_ofdm_rate rate = list_ex (\<lambda>r. r AND 0x7F = rate AND 0x7F) WIFI_OFDMRATES"

definition rtw_is_basic_rate_cck :: "u8 \<Rightarrow> bool" where
  "rtw_is_basic_rate_cck rate = list_ex (\<lambda>r. r AND 0x7F = rate AND 0x7F) rtw_basic_rate_cck"

definition rtw_is_basic_rate_ofdm :: "u8 \<Rightarrow> bool" where
  "rtw_is_basic_rate_ofdm rate = list_ex (\<lambda>r. r AND 0x7F = rate AND 0x7F) rtw_basic_rate_ofdm"

definition rtw_is_basic_rate_mix :: "u8 \<Rightarrow> bool" where
  "rtw_is_basic_rate_mix rate = list_ex (\<lambda>r. r AND 0x7F = rate AND 0x7F) rtw_basic_rate_mix"

subsection \<open>Rate sections\<close>

datatype rate_section = CCK | OFDM | HT_1SS | HT_2SS | HT_3SS | HT_4SS
  | VHT_1SS | VHT_2SS | VHT_3SS | VHT_4SS | RATE_SECTION_NUM

text \<open>The values of \<open>enum MGN_RATE\<close> from \<open>MGN_MCS0\<close> on are consecutive.\<close>

abbreviation (input) MGN_MCS :: "nat \<Rightarrow> nat" where "MGN_MCS k \<equiv> 0x80 + k"
abbreviation (input) MGN_VHT :: "nat \<Rightarrow> nat \<Rightarrow> nat" where "MGN_VHT ss k \<equiv> 0xA0 + 10 * (ss - 1) + k"

definition mgn_rates_cck :: "nat list" where "mgn_rates_cck = [0x02, 0x04, 0x0B, 0x16]"
definition mgn_rates_ofdm :: "nat list" where
  "mgn_rates_ofdm = [0x0C, 0x12, 0x18, 0x24, 0x30, 0x48, 0x60, 0x6C]"
definition mgn_rates_mcs0_7 :: "nat list" where "mgn_rates_mcs0_7 = map MGN_MCS [0..<8]"
definition mgn_rates_mcs8_15 :: "nat list" where "mgn_rates_mcs8_15 = map MGN_MCS [8..<16]"
definition mgn_rates_mcs16_23 :: "nat list" where "mgn_rates_mcs16_23 = map MGN_MCS [16..<24]"
definition mgn_rates_mcs24_31 :: "nat list" where "mgn_rates_mcs24_31 = map MGN_MCS [24..<32]"
definition mgn_rates_vht1ss :: "nat list" where "mgn_rates_vht1ss = map (MGN_VHT 1) [0..<10]"
definition mgn_rates_vht2ss :: "nat list" where "mgn_rates_vht2ss = map (MGN_VHT 2) [0..<10]"
definition mgn_rates_vht3ss :: "nat list" where "mgn_rates_vht3ss = map (MGN_VHT 3) [0..<10]"
definition mgn_rates_vht4ss :: "nat list" where "mgn_rates_vht4ss = map (MGN_VHT 4) [0..<10]"

definition mgn_rate_to_rs :: "nat \<Rightarrow> rate_section" where
  "mgn_rate_to_rs rate =
    (if rate = 0x02 \<or> rate = 0x04 \<or> rate = 0x0B \<or> rate = 0x16 then CCK
     else if 0x0C \<le> rate \<and> rate \<le> 0x6C \<and> rate \<noteq> 0x16 then OFDM
     else if MGN_MCS 0 \<le> rate \<and> rate \<le> MGN_MCS 7 then HT_1SS
     else if MGN_MCS 8 \<le> rate \<and> rate \<le> MGN_MCS 15 then HT_2SS
     else if MGN_MCS 16 \<le> rate \<and> rate \<le> MGN_MCS 23 then HT_3SS
     else if MGN_MCS 24 \<le> rate \<and> rate \<le> MGN_MCS 31 then HT_4SS
     else if MGN_VHT 1 0 \<le> rate \<and> rate \<le> MGN_VHT 1 9 then VHT_1SS
     else if MGN_VHT 2 0 \<le> rate \<and> rate \<le> MGN_VHT 2 9 then VHT_2SS
     else if MGN_VHT 3 0 \<le> rate \<and> rate \<le> MGN_VHT 3 9 then VHT_3SS
     else if MGN_VHT 4 0 \<le> rate \<and> rate \<le> MGN_VHT 4 9 then VHT_4SS
     else RATE_SECTION_NUM)"

record rate_section_ent =
  tx_num :: nat
  rate_num :: nat
  rates :: "nat list"

definition rates_by_sections :: "rate_section_ent list" where
  "rates_by_sections = [
     \<lparr>tx_num = 1, rate_num = 4, rates = mgn_rates_cck\<rparr>,
     \<lparr>tx_num = 1, rate_num = 8, rates = mgn_rates_ofdm\<rparr>,
     \<lparr>tx_num = 1, rate_num = 8, rates = mgn_rates_mcs0_7\<rparr>,
     \<lparr>tx_num = 2, rate_num = 8, rates = mgn_rates_mcs8_15\<rparr>,
     \<lparr>tx_num = 3, rate_num = 8, rates = mgn_rates_mcs16_23\<rparr>,
     \<lparr>tx_num = 4, rate_num = 8, rates = mgn_rates_mcs24_31\<rparr>,
     \<lparr>tx_num = 1, rate_num = 10, rates = mgn_rates_vht1ss\<rparr>,
     \<lparr>tx_num = 2, rate_num = 10, rates = mgn_rates_vht2ss\<rparr>,
     \<lparr>tx_num = 3, rate_num = 10, rates = mgn_rates_vht3ss\<rparr>,
     \<lparr>tx_num = 4, rate_num = 10, rates = mgn_rates_vht4ss\<rparr>]"

fun rs_index :: "rate_section \<Rightarrow> nat" where
  "rs_index CCK = 0" | "rs_index OFDM = 1" | "rs_index HT_1SS = 2" | "rs_index HT_2SS = 3"
| "rs_index HT_3SS = 4" | "rs_index HT_4SS = 5" | "rs_index VHT_1SS = 6" | "rs_index VHT_2SS = 7"
| "rs_index VHT_3SS = 8" | "rs_index VHT_4SS = 9" | "rs_index RATE_SECTION_NUM = 10"

definition rate_section_str :: "nat \<Rightarrow> string" where
  "rate_section_str section =
     [''CCK'', ''OFDM'', ''HT_1SS'', ''HT_2SS'', ''HT_3SS'', ''HT_4SS'', ''VHT_1SS'', ''VHT_2SS'',
      ''VHT_3SS'', ''VHT_4SS'', ''RATE_SECTION_UNKNOWN''] ! (if section \<ge> 10 then 10 else section)"

subsection \<open>Classification of a rate set\<close>

fun bit_value_scan :: "u8 list \<Rightarrow> nat \<Rightarrow> u8 \<Rightarrow> u32" where
  "bit_value_scan [] i val = 0"
| "bit_value_scan (r # rs) i val =
     (if r = 0 then 0 else if r = val then push_bit i 1 else bit_value_scan rs (Suc i) val)"

definition rtw_get_bit_value_from_ieee_value :: "u8 \<Rightarrow> u32" where
  "rtw_get_bit_value_from_ieee_value val =
     bit_value_scan [2, 4, 11, 22, 12, 18, 24, 36, 48, 72, 96, 108, 0] 0 val"

definition is_cck_val :: "u8 \<Rightarrow> bool" where
  "is_cck_val r \<longleftrightarrow> r AND 0x7f = 2 \<or> r AND 0x7f = 4 \<or> r AND 0x7f = 11 \<or> r AND 0x7f = 22"

fun rtw_get_cckrate_size :: "buf \<Rightarrow> nat \<Rightarrow> nat option" where
  "rtw_get_cckrate_size rate 0 = Some 0"
| "rtw_get_cckrate_size [] (Suc n) = None"
| "rtw_get_cckrate_size (r # rs) (Suc n) =
     (if is_cck_val r then map_option Suc (rtw_get_cckrate_size rs n) else Some 0)"

fun rtw_is_cckrates_included :: "buf \<Rightarrow> bool option" where
  "rtw_is_cckrates_included [] = None"
| "rtw_is_cckrates_included (r # rs) =
     (if r = 0 then Some False else if is_cck_val r then Some True
      else rtw_is_cckrates_included rs)"

fun rtw_is_cckratesonly_included :: "buf \<Rightarrow> bool option" where
  "rtw_is_cckratesonly_included [] = None"
| "rtw_is_cckratesonly_included (r # rs) =
     (if r = 0 then Some True else if \<not> is_cck_val r then Some False
      else rtw_is_cckratesonly_included rs)"

definition WIRELESS_INVALID :: nat where "WIRELESS_INVALID = 0"
definition WIRELESS_11B :: nat where "WIRELESS_11B = 1"
definition WIRELESS_11G :: nat where "WIRELESS_11G = 2"
definition WIRELESS_11A :: nat where "WIRELESS_11A = 4"
definition WIRELESS_11_24N :: nat where "WIRELESS_11_24N = 8"
definition WIRELESS_11_5N :: nat where "WIRELESS_11_5N = 16"
definition WIRELESS_11AC :: nat where "WIRELESS_11AC = 64"
definition WIRELESS_11BG :: nat where "WIRELESS_11BG = 3"
definition WIRELESS_11G_24N :: nat where "WIRELESS_11G_24N = 10"
definition WIRELESS_11A_5N :: nat where "WIRELESS_11A_5N = 20"
definition WIRELESS_11BG_24N :: nat where "WIRELESS_11BG_24N = 11"
definition WIRELESS_11_5AC :: nat where "WIRELESS_11_5AC = 68"
definition WIRELESS_11ABGN :: nat where "WIRELESS_11ABGN = 31"
definition WIRELESS_MODE_MAX :: nat where "WIRELESS_MODE_MAX = 95"

lemmas wireless_defs = WIRELESS_INVALID_def WIRELESS_11B_def WIRELESS_11G_def WIRELESS_11A_def
  WIRELESS_11_24N_def WIRELESS_11_5N_def WIRELESS_11AC_def WIRELESS_11BG_def WIRELESS_11G_24N_def
  WIRELESS_11A_5N_def WIRELESS_11BG_24N_def WIRELESS_11_5AC_def WIRELESS_11ABGN_def WIRELESS_MODE_MAX_def

definition rtw_check_network_type :: "buf \<Rightarrow> int \<Rightarrow> int \<Rightarrow> nat option" where
  "rtw_check_network_type rate ratelen channel =
     (if channel > 14 then do {
        c \<leftarrow> rtw_is_cckrates_included rate;
        Some (if c then WIRELESS_INVALID else WIRELESS_11A) }
      else do {
        only \<leftarrow> rtw_is_cckratesonly_included rate;
        if only then Some WIRELESS_11B
        else do {
          c \<leftarrow> rtw_is_cckrates_included rate;
          Some (if c then WIRELESS_11BG else WIRELESS_11G) } })"

subsection \<open>The rates of a BSS\<close>

text \<open>
  \<open>WLAN_BSSID_EX\<close> with the fields these operations touch: \<open>IEs\<close> is the array of
  \<open>MAX_IE_SZ\<close> bytes, whose first \<open>IELength\<close> bytes are in use: twelve bytes of fixed fields
  (timestamp, beacon interval, capability), then the elements. \<open>Reserved0\<close> is \<open>Reserved[0]\<close>, the
  type of the frame the BSS was learnt from.
\<close>

record wlan_bssid_ex =
  Reserved0 :: u8
  Ssid :: buf
  SsidLength :: nat
  Privacy :: u32
  BeaconPeriod :: u32
  ATIMWindow :: u32
  DSConfig :: u32
  SupportedRates :: buf
  IELength :: u32
  IEs :: buf

definition rtw_set_supported_rate :: "buf \<Rightarrow> nat \<Rightarrow> buf option" where
  "rtw_set_supported_rate sr mode = do {
     sr1 \<leftarrow> rtw_memset sr 0 0 16;
     if mode = WIRELESS_11B then wrs sr1 0 WIFI_CCKRATES
     else if mode \<in> {WIRELESS_11G, WIRELESS_11A, WIRELESS_11_5N, WIRELESS_11A_5N, WIRELESS_11_5AC}
       then wrs sr1 0 WIFI_OFDMRATES
     else if mode \<in> {WIRELESS_11BG, WIRELESS_11G_24N, WIRELESS_11_24N, WIRELESS_11BG_24N}
       then do { sr2 \<leftarrow> wrs sr1 0 WIFI_CCKRATES; wrs sr2 4 WIFI_OFDMRATES }
     else Some sr1 }"

text \<open>
  The loop of \<open>rtw_filter_suppport_rateie\<close>: \<open>n\<close> rates left, the next one at \<open>src\<close>;
  \<open>new_rate\<close> is an array of 16 bytes on the stack.
\<close>

fun filter_rate_loop :: "rate_section \<Rightarrow> buf \<Rightarrow> nat \<Rightarrow> nat \<Rightarrow> buf \<Rightarrow> nat \<Rightarrow> (buf \<times> nat) option" where
  "filter_rate_loop keep b src 0 new_rate idx = Some (new_rate, idx)"
| "filter_rate_loop keep b src (Suc n) new_rate idx = do {
     r \<leftarrow> rd b src;
     if (keep = CCK \<and> rtw_is_cck_rate r) \<or> (keep = OFDM \<and> rtw_is_ofdm_rate r) then do {
       nr \<leftarrow> wr new_rate idx
              (if rtw_is_basic_rate_ofdm r then r OR IEEE80211_BASIC_RATE_MASK else r);
       filter_rate_loop keep b (Suc src) n nr (Suc idx) }
     else filter_rate_loop keep b (Suc src) n new_rate idx }"

definition rtw_filter_suppport_rateie :: "wlan_bssid_ex \<Rightarrow> rate_section \<Rightarrow> wlan_bssid_ex option" where
  "rtw_filter_suppport_rateie bss keep = do {
     (found, ie_orilen) \<leftarrow> rtw_get_ie (IEs bss) 12 1 0 (sint (IELength bss - 12));
     (case found of None \<Rightarrow> Some bss
      | Some p \<Rightarrow> do {
          (new_rate, idx) \<leftarrow> filter_rate_loop keep (IEs bss) (p + 2) (nat ie_orilen) (replicate 16 0) 0;
          b1 \<leftarrow> wr (IEs bss) (p + 1) (of_nat idx);
          x \<leftarrow> rds new_rate 0 idx;
          b2 \<leftarrow> wrs b1 (p + 2) x;
          let remain_ies = p + 2 + nat ie_orilen;
          let remain_len = IELength bss - of_nat remain_ies;
          b3 \<leftarrow> rtw_memmove b2 (p + 2 + idx) remain_ies (unat remain_len);
          Some (bss\<lparr>IEs := b3, IELength := IELength bss - (of_nat (nat ie_orilen) - of_nat idx)\<rparr>) }) }"

definition rtw_update_rate_bymode :: "wlan_bssid_ex \<Rightarrow> nat \<Rightarrow> (wlan_bssid_ex \<times> nat) option" where
  "rtw_update_rate_bymode bss mode = do {
     let network_ielen = IELength bss;
     (bss', network_type) \<leftarrow>
       (if mode = WIRELESS_11B then do {
          bss1 \<leftarrow> rtw_filter_suppport_rateie bss CCK;
          (p, ie_len) \<leftarrow> rtw_get_ie (IEs bss1) 12 50 0 (sint (IELength bss1 - 12));
          (case p of None \<Rightarrow> Some (bss1, WIRELESS_11B)
           | Some _ \<Rightarrow> do {
               (b', _, _) \<leftarrow> rtw_ies_remove_ie (IEs bss1) (Some 0) (Some network_ielen) 12 50 None 0;
               Some (bss1\<lparr>IEs := b', IELength := IELength bss1 - word_of_int ie_len\<rparr>, WIRELESS_11B) }) }
        else if DSConfig bss > 14 then do {
          bss1 \<leftarrow> rtw_filter_suppport_rateie bss OFDM; Some (bss1, WIRELESS_11A) }
        else if even mode then do {
          bss1 \<leftarrow> rtw_filter_suppport_rateie bss OFDM; Some (bss1, WIRELESS_11G) }
        else Some (bss, WIRELESS_11BG));
     sr \<leftarrow> rtw_set_supported_rate (SupportedRates bss') network_type;
     Some (bss'\<lparr>SupportedRates := sr\<rparr>, network_type) }"

text \<open>\<open>rtw_get_rateset_len\<close>: the index of the first zero, but at most 13; reads \<open>rateset[13]\<close>.\<close>

function rateset_len_from :: "buf \<Rightarrow> nat \<Rightarrow> nat option" where
  "rateset_len_from rateset i =
     (case rd rateset i of None \<Rightarrow> None
      | Some r \<Rightarrow> if r = 0 then Some i else if i > 12 then Some i else rateset_len_from rateset (i + 1))"
  by pat_completeness auto
termination by (relation "measure (\<lambda>(b, i). 13 - i)") auto

declare rateset_len_from.simps [simp del]

definition rtw_get_rateset_len :: "buf \<Rightarrow> nat option" where
  "rtw_get_rateset_len rateset = rateset_len_from rateset 0"

definition u32_le_bytes :: "u32 \<Rightarrow> buf" where
  "u32_le_bytes v = [ucast v, ucast (drop_bit 8 v), ucast (drop_bit 16 v), ucast (drop_bit 24 v)]"

definition generate_ie_mode :: "nat \<Rightarrow> u32 \<Rightarrow> nat" where
  "generate_ie_mode wireless_mode ds =
     (if wireless_mode = WIRELESS_11ABGN then (if ds > 14 then WIRELESS_11A_5N else WIRELESS_11BG_24N)
      else if wireless_mode = WIRELESS_MODE_MAX then (if ds > 14 then WIRELESS_11_5AC else WIRELESS_11BG_24N)
      else wireless_mode)"

definition rtw_generate_ie :: "wlan_bssid_ex \<Rightarrow> nat \<Rightarrow> bool \<Rightarrow> (wlan_bssid_ex \<times> u32) option" where
  "rtw_generate_ie dev wireless_mode short_preamble = do {
     let b0 = IEs dev;
     b1 \<leftarrow> RTW_PUT_LE16 b0 8 (ucast (BeaconPeriod dev));
     let cap = (2 :: u16) OR (if short_preamble then 0x20 else 0) OR (if Privacy dev \<noteq> 0 then 0x10 else 0);
     b2 \<leftarrow> RTW_PUT_LE16 b1 10 cap;
     (b3, p3, sz3) \<leftarrow> rtw_set_ie b2 12 0 (SsidLength dev) (Ssid dev) (Some 12);
     sr \<leftarrow> rtw_set_supported_rate (SupportedRates dev) (generate_ie_mode wireless_mode (DSConfig dev));
     rateLen \<leftarrow> rtw_get_rateset_len sr;
     (b4, p4, sz4) \<leftarrow> (if rateLen > 8 then rtw_set_ie b3 p3 1 8 sr sz3 else rtw_set_ie b3 p3 1 rateLen sr sz3);
     (b5, p5, sz5) \<leftarrow> rtw_set_ie b4 p4 3 1 (u32_le_bytes (DSConfig dev)) sz4;
     (b6, p6, sz6) \<leftarrow> rtw_set_ie b5 p5 6 2 (u32_le_bytes (ATIMWindow dev)) sz5;
     (b7, p7, sz7) \<leftarrow> (if rateLen > 8 then rtw_set_ie b6 p6 50 (rateLen - 8) (drop 8 sr) sz6
                       else Some (b6, p6, sz6));
     sz \<leftarrow> sz7;
     Some (dev\<lparr>IEs := b7, SupportedRates := sr\<rparr>, sz) }"

subsection \<open>What the rate filter does to the elements\<close>

definition rate_kept :: "rate_section \<Rightarrow> u8 \<Rightarrow> bool" where
  "rate_kept keep r \<longleftrightarrow> (keep = CCK \<and> rtw_is_cck_rate r) \<or> (keep = OFDM \<and> rtw_is_ofdm_rate r)"

definition rate_mark :: "u8 \<Rightarrow> u8" where
  "rate_mark r = (if rtw_is_basic_rate_ofdm r then r OR IEEE80211_BASIC_RATE_MASK else r)"

abbreviation filter_rates :: "rate_section \<Rightarrow> buf \<Rightarrow> buf" where
  "filter_rates keep rs \<equiv> map rate_mark (filter (rate_kept keep) rs)"

lemma filter_rate_loop_enc:
  "filter_rate_loop keep (pre @ rs @ post) (length pre) (length rs) (acc @ replicate k 0) (length acc)
   = (if length (filter (rate_kept keep) rs) \<le> k
      then Some (acc @ filter_rates keep rs @ replicate (k - length (filter (rate_kept keep) rs)) 0,
                 length acc + length (filter (rate_kept keep) rs))
      else None)"
proof (induction rs arbitrary: pre acc k)
  case Nil
  then show ?case by simp
next
  case (Cons r rs)
  have rd: "rd (pre @ r # rs @ post) (length pre) = Some r" by (simp add: mem_simps)
  show ?case
  proof (cases "rate_kept keep r")
    case False
    with Cons.IH [of "pre @ [r]" acc k] show ?thesis
      by (simp add: rd rate_kept_def [symmetric] del: de_Morgan_disj)
  next
    case True
    show ?thesis
    proof (cases k)
      case 0
      then show ?thesis using True rd by (simp add: rate_kept_def [symmetric] wr_def)
    next
      case (Suc k')
      have w: "wr (acc @ replicate (Suc k') 0) (length acc) x = Some (acc @ x # replicate k' 0)" for x
        using wr_here [of acc 0 "replicate k' 0" x] by simp
      show ?thesis
        using True Cons.IH [of "pre @ [r]" "acc @ [rate_mark r]" k'] Suc
        by (simp add: rd w rate_kept_def [symmetric] rate_mark_def [symmetric] del: replicate.simps)
    qed
  qed
qed

lemma ielen_minus: "n < 2 ^ 31 \<Longrightarrow> sint (of_nat (12 + n) - 12 :: u32) = int n"
  using sint_of_nat_u32 [of n] by simp

lemma filter_rateie_found:
  assumes "length fx = 12" "\<forall>x \<in> set (ys @ (1, rs) # zs). wf_ie x" "\<forall>y \<in> set ys. fst y \<noteq> 1"
    and "12 + length (enc_ies (ys @ (1, rs) # zs)) < 2 ^ 31"
  shows "rtw_get_ie (fx @ enc_ies (ys @ (1, rs) # zs) @ post) 12 1 0
      (sint (of_nat (12 + length (enc_ies (ys @ (1, rs) # zs))) - 12 :: u32))
    = Some (Some (12 + length (enc_ies ys)), int (length rs))"
proof -
  have u: "sint (of_nat (12 + length (enc_ies (ys @ (1, rs) # zs))) - 12 :: u32)
      = int (length (enc_ies (ys @ (1, rs) # zs)))"
    using assms(4) ielen_minus [of "length (enc_ies (ys @ (1, rs) # zs))"] by simp
  have fd: "find (\<lambda>x. fst x = (1 :: u8)) (ys @ (1, rs) # zs) = Some (1, rs)"
    using assms(3) by (induction ys) auto
  have fo: "first_off (\<lambda>x. fst x = (1 :: u8)) (ys @ (1, rs) # zs) = Some (length (enc_ies ys))"
    using assms(3) by (intro first_off_append_hit) auto
  have "rtw_get_ie (fx @ enc_ies (ys @ (1, rs) # zs) @ post) (length fx) (uint (1 :: u8)) 0
      (int (length (enc_ies (ys @ (1, rs) # zs)))) = Some (Some (12 + length (enc_ies ys)), int (length rs))"
    using rtw_get_ie_first_aux [OF assms(2), of fx post 1 0] assms(1) by (simp add: fd fo)
  then show ?thesis unfolding u assms(1) by simp
qed

lemma filter_rateie_write:
  assumes "length nr \<le> length rs"
  shows "\<exists>junk. length junk = length rs - length nr \<and> (do {
      b1 \<leftarrow> wr (pre @ enc_ie (1, rs) @ enc_ies zs @ post) (length pre + 1) (of_nat (length nr));
      b2 \<leftarrow> wrs b1 (length pre + 2) nr;
      rtw_memmove b2 (length pre + 2 + length nr) (length pre + 2 + length rs) (length (enc_ies zs)) })
    = Some (pre @ enc_ie (1, nr) @ enc_ies zs @ junk @ post)"
proof -
  let ?pre2 = "pre @ [1, of_nat (length nr)]"
  let ?mid = "drop (length nr) rs"
  have w1: "wr (pre @ enc_ie (1, rs) @ enc_ies zs @ post) (length pre + 1) (of_nat (length nr))
      = Some (?pre2 @ take (length nr) rs @ ?mid @ enc_ies zs @ post)"
    using wr_here [of "pre @ [1]" "of_nat (length rs)" "rs @ enc_ies zs @ post" "of_nat (length nr)"]
    by (simp add: enc_ie_def)
  have w2: "wrs (?pre2 @ take (length nr) rs @ ?mid @ enc_ies zs @ post) (length pre + 2) nr
      = Some (?pre2 @ nr @ ?mid @ enc_ies zs @ post)"
    using wrs_here [of "take (length nr) rs" nr ?pre2 "?mid @ enc_ies zs @ post"] assms by simp
  have mv: "rtw_memmove (?pre2 @ nr @ ?mid @ enc_ies zs @ post) (length pre + 2 + length nr)
      (length pre + 2 + length rs) (length (enc_ies zs))
    = Some ((?pre2 @ nr) @ enc_ies zs @ drop (length (enc_ies zs)) (?mid @ enc_ies zs) @ post)"
    using rtw_memmove_down [of "?pre2 @ nr" ?mid "enc_ies zs" post] assms by simp
  show ?thesis
    by (rule exI [of _ "drop (length (enc_ies zs)) (?mid @ enc_ies zs)"])
       (simp only: w1 w2 mv Option.bind.simps, simp add: enc_ie_def del: drop_append)
qed

lemma filter_rateie_lengths:
  assumes "N = (of_nat (12 + length (enc_ies (ys @ (1, rs) # zs))) :: u32)" "length nr \<le> length rs"
  shows "N - of_nat (12 + length (enc_ies ys) + 2 + length rs) = of_nat (length (enc_ies zs))"
    and "N - (of_nat (length rs) - of_nat (length nr))
      = of_nat (12 + length (enc_ies (ys @ (1, nr) # zs)))"
proof -
  show "N - of_nat (12 + length (enc_ies ys) + 2 + length rs) = of_nat (length (enc_ies zs))"
    unfolding assms(1) by (subst u32_of_nat_diff) simp_all
  have d: "(of_nat (length rs) :: u32) - of_nat (length nr) = of_nat (length rs - length nr)"
    using assms(2) by (rule u32_of_nat_diff)
  show "N - (of_nat (length rs) - of_nat (length nr))
      = of_nat (12 + length (enc_ies (ys @ (1, nr) # zs)))"
    unfolding assms(1) d by (subst u32_of_nat_diff) (use assms(2) in simp_all)
qed

lemma filter_rateie_kept:
  assumes "IEs bss = fx @ enc_ies (ys @ (1, rs) # zs) @ post" "length fx = 12"
  shows "filter_rate_loop keep (IEs bss) (12 + length (enc_ies ys) + 2) (length rs) (replicate 16 0) 0
    = (if length (filter_rates keep rs) \<le> 16
       then Some (filter_rates keep rs @ replicate (16 - length (filter_rates keep rs)) 0,
                  length (filter_rates keep rs))
       else None)"
  using filter_rate_loop_enc [of keep "fx @ enc_ies ys @ [1, of_nat (length rs)]" rs "enc_ies zs @ post" "[]" 16]
    assms by (simp add: enc_ie_def)

subsection \<open>Properties\<close>

text \<open>Functional: the rate tables and the classification agree: every rate listed for a section
  is classified into that section by \<open>mgn_rate_to_rs\<close>, and the listed count is the length of
  the list.\<close>

theorem rates_by_sections_classified:
  "map (\<lambda>e. map (\<lambda>r. rs_index (mgn_rate_to_rs r)) (rates e)) rates_by_sections
   = map (\<lambda>i. replicate (rate_num (rates_by_sections ! i)) i) [0..<10]"
  by code_simp

text \<open>Refinement: \<open>rtw_filter_suppport_rateie\<close> replaces the rates of the supported-rates element by
  the rates of the section kept, in order and with the basic-rate bit set on the mandatory OFDM
  rates; every other element and every byte behind \<open>IELength\<close> is kept, and \<open>IELength\<close> is the
  length of what remains. It holds as long as at most 16 rates remain.\<close>

theorem rtw_filter_suppport_rateie_refines:
  assumes bss: "IEs bss = fx @ enc_ies (ys @ (1, rs) # zs) @ post"
      "IELength bss = of_nat (12 + length (enc_ies (ys @ (1, rs) # zs)))"
    and "length fx = 12" "\<forall>x \<in> set (ys @ (1, rs) # zs). wf_ie x" "\<forall>y \<in> set ys. fst y \<noteq> 1"
    and "12 + length (enc_ies (ys @ (1, rs) # zs)) < 2 ^ 31"
    and "length (filter (rate_kept keep) rs) \<le> 16"
  shows "\<exists>junk. length junk = length rs - length (filter (rate_kept keep) rs) \<and>
    rtw_filter_suppport_rateie bss keep = Some (bss\<lparr>
      IEs := fx @ enc_ies (ys @ (1, filter_rates keep rs) # zs) @ junk @ post,
      IELength := of_nat (12 + length (enc_ies (ys @ (1, filter_rates keep rs) # zs)))\<rparr>)"
proof -
  let ?nr = "filter_rates keep rs"
  have le: "length ?nr \<le> length rs" by simp
  have pre: "length (fx @ enc_ies ys) = 12 + length (enc_ies ys)" using assms(3) by simp
  have b: "IEs bss = (fx @ enc_ies ys) @ enc_ie (1, rs) @ enc_ies zs @ post" using bss by simp
  obtain junk where j: "length junk = length rs - length ?nr" "(do {
      b1 \<leftarrow> wr (IEs bss) (12 + length (enc_ies ys) + 1) (of_nat (length ?nr));
      b2 \<leftarrow> wrs b1 (12 + length (enc_ies ys) + 2) ?nr;
      rtw_memmove b2 (12 + length (enc_ies ys) + 2 + length ?nr)
        (12 + length (enc_ies ys) + 2 + length rs) (length (enc_ies zs)) })
    = Some ((fx @ enc_ies ys) @ enc_ie (1, ?nr) @ enc_ies zs @ junk @ post)"
    using filter_rateie_write [OF le, of "fx @ enc_ies ys" zs post] unfolding b pre by blast
  have rdl: "filter_rate_loop keep (IEs bss) (12 + length (enc_ies ys) + 2) (length rs) (replicate 16 0) 0
      = Some (?nr @ replicate (16 - length ?nr) 0, length ?nr)"
    using filter_rateie_kept [OF bss(1) assms(3), of keep] assms(7) by simp
  have cp: "rds (?nr @ replicate (16 - length ?nr) 0) 0 (length ?nr) = Some ?nr" by (simp add: rds_def)
  have urem: "unat (of_nat (length (enc_ies zs)) :: u32) = length (enc_ies zs)"
    using assms(6) by (intro unat_of_nat_u32) simp
  note lens = filter_rateie_lengths [OF bss(2) le]
  have "rtw_filter_suppport_rateie bss keep = Some (bss\<lparr>
      IEs := (fx @ enc_ies ys) @ enc_ie (1, ?nr) @ enc_ies zs @ junk @ post,
      IELength := of_nat (12 + length (enc_ies (ys @ (1, ?nr) # zs)))\<rparr>)"
  proof -
    have fnd: "rtw_get_ie (IEs bss) 12 1 0 (sint (IELength bss - 12))
        = Some (Some (12 + length (enc_ies ys)), int (length rs))"
      unfolding bss using assms(3-6) by (rule filter_rateie_found)
    from j(2) obtain b1 b2 where w:
      "wr (IEs bss) (12 + length (enc_ies ys) + 1) (of_nat (length ?nr)) = Some b1"
      "wrs b1 (12 + length (enc_ies ys) + 2) ?nr = Some b2"
      "rtw_memmove b2 (12 + length (enc_ies ys) + 2 + length ?nr)
        (12 + length (enc_ies ys) + 2 + length rs) (length (enc_ies zs))
       = Some ((fx @ enc_ies ys) @ enc_ie (1, ?nr) @ enc_ies zs @ junk @ post)"
      by (auto simp only: Option.bind_eq_Some_conv)
    show ?thesis
      by (simp only: rtw_filter_suppport_rateie_def fnd Option.bind.simps prod.case option.case
          nat_int rdl cp w Let_def lens urem)
  qed
  with j show ?thesis by auto
qed

definition bss_example :: "buf \<Rightarrow> u32 \<Rightarrow> wlan_bssid_ex" where
  "bss_example ies n = \<lparr>Reserved0 = 2, Ssid = [], SsidLength = 0, Privacy = 0, BeaconPeriod = 100, ATIMWindow = 0,
     DSConfig = 6, SupportedRates = replicate 16 0, IELength = n, IEs = ies\<rparr>"

theorem rtw_filter_suppport_rateie_refines_witness:
  "\<exists>junk. length junk = 1 \<and>
    rtw_filter_suppport_rateie
      (bss_example (replicate 12 0 @ enc_ies ([(0, [65])] @ (1, [0x82, 0x0c]) # [(3, [6])]) @ [9])
        (of_nat (12 + 10))) CCK
    = Some ((bss_example (replicate 12 0 @ enc_ies ([(0, [65])] @ (1, [0x82, 0x0c]) # [(3, [6])]) @ [9])
        (of_nat (12 + 10)))\<lparr>IEs := replicate 12 0 @ enc_ies ([(0, [65])] @ (1, [0x82]) # [(3, [6])]) @ junk @ [9],
           IELength := of_nat (12 + 9)\<rparr>)"
proof -
  have f: "filter (rate_kept CCK) [0x82, 0x0c] = [0x82]" "rate_mark 0x82 = 0x82" by code_simp+
  show ?thesis
    using rtw_filter_suppport_rateie_refines [of "bss_example (replicate 12 0 @
        enc_ies ([(0, [65])] @ (1, [0x82, 0x0c]) # [(3, [6])]) @ [9]) (of_nat (12 + 10))"
        "replicate 12 0" "[(0, [65])]" "[0x82, 0x0c]" "[(3, [6])]" "[9]" CCK]
    unfolding f list.map by (simp add: bss_example_def wf_ie_def)
qed

text \<open>Error: the 16-byte array \<open>new_rate\<close> is not guarded: a supported-rates element with more than
  16 rates of the section kept makes \<open>rtw_filter_suppport_rateie\<close> write beyond it.\<close>

theorem rtw_filter_suppport_rateie_overflow:
  assumes "IEs bss = fx @ enc_ies (ys @ (1, rs) # zs) @ post"
      "IELength bss = of_nat (12 + length (enc_ies (ys @ (1, rs) # zs)))"
    and "length fx = 12" "\<forall>x \<in> set (ys @ (1, rs) # zs). wf_ie x" "\<forall>y \<in> set ys. fst y \<noteq> 1"
    and "12 + length (enc_ies (ys @ (1, rs) # zs)) < 2 ^ 31"
    and "length (filter (rate_kept keep) rs) > 16"
  shows "rtw_filter_suppport_rateie bss keep = None"
proof -
  have fnd: "rtw_get_ie (IEs bss) 12 1 0 (sint (IELength bss - 12))
      = Some (Some (12 + length (enc_ies ys)), int (length rs))"
    unfolding assms(1,2) using assms(3-6) by (rule filter_rateie_found)
  have "filter_rate_loop keep (IEs bss) (12 + length (enc_ies ys) + 2) (length rs) (replicate 16 0) 0 = None"
    using filter_rateie_kept [OF assms(1,3), of keep] assms(7) by simp
  then show ?thesis
    by (simp only: rtw_filter_suppport_rateie_def fnd Option.bind.simps prod.case option.case nat_int)
qed

theorem rtw_filter_suppport_rateie_overflow_witness:
  "rtw_filter_suppport_rateie
     (bss_example (replicate 12 0 @ enc_ies ([] @ (1, replicate 17 0x82) # []) @ [])
       (of_nat (12 + length (enc_ies ([] @ (1, replicate 17 0x82) # []))))) CCK = None"
proof -
  have f: "length (filter (rate_kept CCK) (replicate 17 0x82)) > 16" by code_simp
  show ?thesis
    by (rule rtw_filter_suppport_rateie_overflow [OF _ _ _ _ _ _ f, of _ "replicate 12 0" "[]" "[]" "[]"])
       (simp_all add: bss_example_def wf_ie_def)
qed

lemma rtw_set_supported_rate_Some:
  assumes "16 \<le> length sr"
  shows "\<exists>sr'. rtw_set_supported_rate sr mode = Some sr' \<and> length sr' = length sr"
proof -
  have c: "length WIFI_CCKRATES = 4" "length WIFI_OFDMRATES = 8"
    by (simp_all add: WIFI_CCKRATES_def WIFI_OFDMRATES_def)
  from assms show ?thesis
    by (simp add: rtw_set_supported_rate_def rtw_memset_def wrs_def c)
qed

lemma rtw_ies_remove_ie_one:
  assumes "\<forall>x \<in> set (ys @ x # zs). wf_ie x" "fst x = eid" "\<forall>y \<in> set (ys @ zs). fst y \<noteq> eid"
    and "length fx = offset" "offset + length (enc_ies (ys @ x # zs)) < 2 ^ 32"
  shows "\<exists>junk. length junk = length (snd x) + 2 \<and>
    rtw_ies_remove_ie (fx @ enc_ies (ys @ x # zs) @ post) (Some 0)
      (Some (of_nat (offset + length (enc_ies (ys @ x # zs))))) offset eid None 0
    = Some (fx @ enc_ies (ys @ zs) @ junk @ post,
        Some (of_nat (offset + length (enc_ies (ys @ x # zs)) - length junk)), True)"
proof -
  have fl: "filter (\<lambda>x. \<not> ie_ex_hit eid None 0 x) (ys @ x # zs) = ys @ zs"
    using assms(2,3) by (auto simp: ie_ex_hit_def filter_id_conv)
  have ex: "\<exists>y \<in> set (ys @ x # zs). ie_ex_hit eid None 0 y"
    using assms(2) by (auto simp: ie_ex_hit_def)
  show ?thesis
    using rtw_ies_remove_ie_enc [of "ys @ x # zs" eid None 0 fx 0 offset post] assms ex
    unfolding fl by (auto simp: ie_ex_ok_def)
qed

text \<open>Error: when \<open>rtw_update_rate_bymode\<close> drops the extended-rates element (mode 802.11b, nothing to
  filter from the supported rates), the element leaves the buffer but \<open>IELength\<close> shrinks by the
  body length only: it stays two bytes longer than the elements that remain, so two stale bytes
  of the old contents are counted as an element header.\<close>

theorem rtw_update_rate_bymode_ielength:
  assumes bss: "IEs bss = fx @ enc_ies (ys @ (50, es) # zs) @ post"
      "IELength bss = of_nat (12 + length (enc_ies (ys @ (50, es) # zs)))"
      "16 \<le> length (SupportedRates bss)"
    and "length fx = 12" "\<forall>x \<in> set (ys @ (50, es) # zs). wf_ie x" "\<forall>y \<in> set (ys @ zs). fst y \<noteq> 50"
    and lt: "12 + length (enc_ies (ys @ (50, es) # zs)) < 2 ^ 31"
    and nofilter: "rtw_filter_suppport_rateie bss CCK = Some bss"
  shows "\<exists>bss' junk. rtw_update_rate_bymode bss WIRELESS_11B = Some (bss', WIRELESS_11B)
    \<and> IEs bss' = fx @ enc_ies (ys @ zs) @ junk @ post \<and> length junk = length es + 2
    \<and> IELength bss' = of_nat (12 + length (enc_ies (ys @ zs)) + 2)"
proof -
  let ?xs = "ys @ (50, es) # zs"
  obtain sr where sr: "rtw_set_supported_rate (SupportedRates bss) WIRELESS_11B = Some sr"
    using rtw_set_supported_rate_Some [OF bss(3)] by blast
  have fnd: "rtw_get_ie (IEs bss) 12 50 0 (sint (IELength bss - 12))
      = Some (Some (12 + length (enc_ies ys)), int (length es))"
  proof -
    have u: "sint (IELength bss - 12) = int (length (enc_ies ?xs))"
      unfolding bss using lt ielen_minus [of "length (enc_ies ?xs)"] by simp
    have "find (\<lambda>x. fst x = (50 :: u8)) ?xs = Some (50, es)"
      using assms(6) by (induction ys) auto
    moreover have "first_off (\<lambda>x. fst x = (50 :: u8)) ?xs = Some (length (enc_ies ys))"
      using assms(6) by (intro first_off_append_hit) auto
    ultimately show ?thesis
      using rtw_get_ie_first_aux [OF assms(5), of fx post 50 0] assms(4) bss(1) u by simp
  qed
  obtain junk where j: "length junk = length es + 2"
    "rtw_ies_remove_ie (IEs bss) (Some 0) (Some (IELength bss)) 12 50 None 0
     = Some (fx @ enc_ies (ys @ zs) @ junk @ post,
        Some (of_nat (12 + length (enc_ies ?xs) - length junk)), True)"
    using rtw_ies_remove_ie_one [OF assms(5) _ assms(6) assms(4), of post] lt bss by auto
  have len: "IELength bss - word_of_int (int (length es)) = of_nat (12 + length (enc_ies (ys @ zs)) + 2)"
  proof -
    have w: "word_of_int (int (length es)) = (of_nat (length es) :: u32)" by simp
    show ?thesis unfolding bss w by (subst u32_of_nat_diff) simp_all
  qed
  show ?thesis
    using j(1)
    by (intro exI [of _ "bss\<lparr>IEs := fx @ enc_ies (ys @ zs) @ junk @ post,
          IELength := of_nat (12 + length (enc_ies (ys @ zs)) + 2), SupportedRates := sr\<rparr>"] exI [of _ junk])
       (simp only: rtw_update_rate_bymode_def Let_def nofilter fnd j(2) len Option.bind.simps
          option.case prod.case if_True simp_thms, simp add: sr)
qed

theorem rtw_update_rate_bymode_ielength_witness:
  "\<exists>bss' junk. rtw_update_rate_bymode
      (bss_example (replicate 12 0 @ enc_ies ([] @ (50, [0x30]) # [(3, [6])]) @ []) (of_nat (12 + 6)))
      WIRELESS_11B = Some (bss', WIRELESS_11B)
    \<and> IEs bss' = replicate 12 0 @ enc_ies [(3, [6])] @ junk \<and> length junk = 3
    \<and> IELength bss' = of_nat (12 + 3 + 2)"
proof -
  let ?bss = "bss_example (replicate 12 0 @ enc_ies ([] @ (50, [0x30]) # [(3, [6])]) @ []) (of_nat (12 + 6))"
  have f: "rtw_filter_suppport_rateie ?bss CCK = Some ?bss" by code_simp
  show ?thesis
    using rtw_update_rate_bymode_ielength [OF _ _ _ _ _ _ _ f, of "replicate 12 0" "[]" "[0x30]" "[(3, [6])]" "[]"]
    by (simp add: bss_example_def wf_ie_def numeral_3_eq_3)
qed

end
