(* ===== verification/Ie_Sec.thy ===== *)
theory Ie_Sec
  imports Ie_Tlv
begin

text \<open>
  Security elements (\<^verbatim>\<open>core/rtw_ieee80211.c\<close>): the search for the WPA, RSN and WAPI elements
  (\<open>rtw_get_wpa_ie\<close>, \<open>rtw_get_wpa2_ie\<close>, \<open>rtw_get_sec_ie\<close>, \<open>rtw_get_wapi_ie\<close>), the suite
  selectors, and the parsers \<open>rtw_parse_wpa_ie\<close>, \<open>rtw_rsne_info_parse\<close> and
  \<open>rtw_parse_wpa2_ie\<close>. The pointers of \<open>struct rsne_info\<close> are offsets into the buffer,
  \<open>None\<close> for \<open>NULL\<close>; the parser is split at its stages (group suite, pairwise suites, AKM
  suites, capabilities, PMKIDs, group management suite), each calling the next.
\<close>

subsection \<open>Suite selectors\<close>

definition RTW_WPA_OUI_TYPE :: buf where "RTW_WPA_OUI_TYPE = [0x00, 0x50, 0xf2, 1]"

definition WPA_SUITE :: "u8 \<Rightarrow> buf" where "WPA_SUITE k = [0x00, 0x50, 0xf2, k]"
definition RSN_SUITE :: "u8 \<Rightarrow> buf" where "RSN_SUITE k = [0x00, 0x0f, 0xac, k]"

definition WPA_CIPHER_NONE :: u32 where "WPA_CIPHER_NONE = push_bit 0 1"
definition WPA_CIPHER_WEP40 :: u32 where "WPA_CIPHER_WEP40 = push_bit 1 1"
definition WPA_CIPHER_WEP104 :: u32 where "WPA_CIPHER_WEP104 = push_bit 2 1"
definition WPA_CIPHER_TKIP :: u32 where "WPA_CIPHER_TKIP = push_bit 3 1"
definition WPA_CIPHER_CCMP :: u32 where "WPA_CIPHER_CCMP = push_bit 4 1"
definition WPA_CIPHER_GCMP :: u32 where "WPA_CIPHER_GCMP = push_bit 5 1"
definition WPA_CIPHER_GCMP_256 :: u32 where "WPA_CIPHER_GCMP_256 = push_bit 6 1"
definition WPA_CIPHER_CCMP_256 :: u32 where "WPA_CIPHER_CCMP_256 = push_bit 7 1"
definition WPA_CIPHER_BIP_CMAC_128 :: u32 where "WPA_CIPHER_BIP_CMAC_128 = push_bit 8 1"
definition WPA_CIPHER_BIP_GMAC_128 :: u32 where "WPA_CIPHER_BIP_GMAC_128 = push_bit 9 1"
definition WPA_CIPHER_BIP_GMAC_256 :: u32 where "WPA_CIPHER_BIP_GMAC_256 = push_bit 10 1"
definition WPA_CIPHER_BIP_CMAC_256 :: u32 where "WPA_CIPHER_BIP_CMAC_256 = push_bit 11 1"

definition WLAN_AKM_TYPE_8021X :: u32 where "WLAN_AKM_TYPE_8021X = push_bit 0 1"

text \<open>A chain of \<open>if (_rtw_memcmp(s, SUITE, 4) == _TRUE) return BIT;\<close>, ended by \<open>return 0;\<close>.\<close>

fun suite_chain :: "buf \<Rightarrow> nat \<Rightarrow> (buf \<times> u32) list \<Rightarrow> u32 option" where
  "suite_chain b s [] = Some 0"
| "suite_chain b s ((suite, v) # rest) = do {
     eq \<leftarrow> rtw_memcmp b s suite 4;
     if eq then Some v else suite_chain b s rest }"

definition wpa_suites :: "(buf \<times> u32) list" where
  "wpa_suites = [(WPA_SUITE 0, WPA_CIPHER_NONE), (WPA_SUITE 1, WPA_CIPHER_WEP40),
     (WPA_SUITE 2, WPA_CIPHER_TKIP), (WPA_SUITE 4, WPA_CIPHER_CCMP), (WPA_SUITE 5, WPA_CIPHER_WEP104)]"

definition rsn_suites :: "(buf \<times> u32) list" where
  "rsn_suites = [(RSN_SUITE 0, WPA_CIPHER_NONE), (RSN_SUITE 1, WPA_CIPHER_WEP40),
     (RSN_SUITE 2, WPA_CIPHER_TKIP), (RSN_SUITE 4, WPA_CIPHER_CCMP), (RSN_SUITE 8, WPA_CIPHER_GCMP),
     (RSN_SUITE 9, WPA_CIPHER_GCMP_256), (RSN_SUITE 10, WPA_CIPHER_CCMP_256),
     (RSN_SUITE 5, WPA_CIPHER_WEP104), (RSN_SUITE 6, WPA_CIPHER_BIP_CMAC_128),
     (RSN_SUITE 11, WPA_CIPHER_BIP_GMAC_128), (RSN_SUITE 12, WPA_CIPHER_BIP_GMAC_256),
     (RSN_SUITE 13, WPA_CIPHER_BIP_CMAC_256)]"

definition akm_suites :: "(buf \<times> u32) list" where
  "akm_suites = [(RSN_SUITE 1, WLAN_AKM_TYPE_8021X), (RSN_SUITE 2, push_bit 1 1),
     (RSN_SUITE 3, push_bit 2 1), (RSN_SUITE 4, push_bit 3 1), (RSN_SUITE 5, push_bit 4 1),
     (RSN_SUITE 6, push_bit 5 1), (RSN_SUITE 7, push_bit 6 1), (RSN_SUITE 8, push_bit 7 1),
     (RSN_SUITE 9, push_bit 8 1), (RSN_SUITE 11, push_bit 9 1), (RSN_SUITE 12, push_bit 10 1),
     (RSN_SUITE 14, push_bit 11 1), (RSN_SUITE 15, push_bit 12 1), (RSN_SUITE 16, push_bit 13 1),
     (RSN_SUITE 17, push_bit 14 1)]"

definition rtw_get_wpa_cipher_suite :: "buf \<Rightarrow> nat \<Rightarrow> u32 option" where
  "rtw_get_wpa_cipher_suite b s = suite_chain b s wpa_suites"

definition rtw_get_rsn_cipher_suite :: "buf \<Rightarrow> nat \<Rightarrow> u32 option" where
  "rtw_get_rsn_cipher_suite b s = suite_chain b s rsn_suites"

definition rtw_get_akm_suite_bitmap :: "buf \<Rightarrow> nat \<Rightarrow> u32 option" where
  "rtw_get_akm_suite_bitmap b s = suite_chain b s akm_suites"

text \<open>The loop \<open>for (i = 0; i < cnt; i++) v |= f(list + 4 * i)\<close>.\<close>

fun suites_or :: "(buf \<Rightarrow> nat \<Rightarrow> u32 option) \<Rightarrow> buf \<Rightarrow> nat \<Rightarrow> nat \<Rightarrow> u32 \<Rightarrow> u32 option" where
  "suites_or f b pos 0 v = Some v"
| "suites_or f b pos (Suc n) v = do { c \<leftarrow> f b pos; suites_or f b (pos + 4) n (v OR c) }"

subsection \<open>Searching the WPA and RSN elements\<close>

text \<open>
  \<open>rtw_get_wpa_ie\<close>: \<open>pbuf\<close> and \<open>limit_new\<close> are the variables of the loop. The result is the
  offset of the element and \<open>*wpa_ie_len\<close>. The OUI type and the version are compared before
  the length of the element is looked at.
\<close>

definition wpa_ie_test :: "buf \<Rightarrow> nat \<Rightarrow> bool option" where
  "wpa_ie_test b pbuf = do {
     oui \<leftarrow> rtw_memcmp b (pbuf + 2) RTW_WPA_OUI_TYPE 4;
     if oui then do { val16 \<leftarrow> RTW_GET_LE16 b (pbuf + 6); Some (val16 = 1) }
     else Some False }"

function rtw_get_wpa_ie_loop :: "buf \<Rightarrow> nat \<Rightarrow> int \<Rightarrow> nat \<Rightarrow> int \<Rightarrow> (nat option \<times> int) option" where
  "rtw_get_wpa_ie_loop b pie limit pbuf limit_new =
     (case rtw_get_ie b pbuf 0xdd 0 limit_new of
        None \<Rightarrow> None
      | Some (None, _) \<Rightarrow> Some (None, 0)
      | Some (Some q, len) \<Rightarrow>
          (case wpa_ie_test b q of
             None \<Rightarrow> None
           | Some True \<Rightarrow> Some (Some q, len)
           | Some False \<Rightarrow>
               if limit - (int q - int pie) - 2 - len \<le> 0 then Some (None, 0)
               else rtw_get_wpa_ie_loop b pie limit (q + nat (2 + len))
                      (limit - (int q - int pie) - 2 - len)))"
  by pat_completeness auto
termination
proof (relation "measure (\<lambda>(b, pie, limit, pbuf, limit_new). nat (limit + int pie - int pbuf))", goal_cases)
  case (2 b pie limit pbuf limit_new a qo len q)
  then have "pbuf \<le> q" "0 \<le> len" using rtw_get_ie_found [of b pbuf "0xdd" 0 limit_new q len] by auto
  with 2 show ?case by (simp add: nat_less_eq_zless)
qed simp

declare rtw_get_wpa_ie_loop.simps [simp del]

definition rtw_get_wpa_ie :: "buf \<Rightarrow> nat \<Rightarrow> int \<Rightarrow> (nat option \<times> int) option" where
  "rtw_get_wpa_ie b pie limit = rtw_get_wpa_ie_loop b pie limit pie limit"

definition rtw_get_wpa2_ie :: "buf \<Rightarrow> nat \<Rightarrow> int \<Rightarrow> int \<Rightarrow> (nat option \<times> int) option" where
  "rtw_get_wpa2_ie b pie rsn_ie_len limit = rtw_get_ie b pie 0x30 rsn_ie_len limit"

subsection \<open>Parsing the WPA element\<close>

text \<open>
  \<open>rtw_parse_wpa_ie\<close> returns success and the new values of \<open>*group_cipher\<close>,
  \<open>*pairwise_cipher\<close> and \<open>*akm\<close> (which may be \<open>NULL\<close>). The two parts below the element check
  are the group suite and the pairwise suites with the AKM test.
\<close>

definition wpa_pairwise ::
  "buf \<Rightarrow> nat \<Rightarrow> int \<Rightarrow> u32 \<Rightarrow> u32 \<Rightarrow> u32 option \<Rightarrow> (bool \<times> u32 \<times> u32 \<times> u32 option) option" where
  "wpa_pairwise b pos left group_cipher pairwise_cipher akm = do {
     (ok, pos, left, pairwise_cipher) \<leftarrow>
       (if left \<ge> 2 then do {
          count \<leftarrow> RTW_GET_LE16 b pos;
          if count = 0 \<or> left - 2 < uint count * 4 then Some (False, pos, left, pairwise_cipher)
          else do {
            pc \<leftarrow> suites_or rtw_get_wpa_cipher_suite b (pos + 2) (unat count) pairwise_cipher;
            Some (True, pos + 2 + 4 * unat count, left - 2 - 4 * uint count, pc) } }
        else Some (left \<noteq> 1, pos, left, pairwise_cipher));
     if \<not> ok then Some (False, group_cipher, pairwise_cipher, akm)
     else (case akm of None \<Rightarrow> Some (True, group_cipher, pairwise_cipher, None)
           | Some a \<Rightarrow>
               if left \<ge> 6 then do {
                 m \<leftarrow> rtw_memcmp b (pos + 2) [0x00, 0x50, 0xf2, 1] 4;
                 Some (True, group_cipher, pairwise_cipher, Some (if m then WLAN_AKM_TYPE_8021X else a)) }
               else Some (True, group_cipher, pairwise_cipher, akm)) }"

definition rtw_parse_wpa_ie ::
  "buf \<Rightarrow> nat \<Rightarrow> int \<Rightarrow> u32 \<Rightarrow> u32 \<Rightarrow> u32 option \<Rightarrow> (bool \<times> u32 \<times> u32 \<times> u32 option) option" where
  "rtw_parse_wpa_ie b wpa_ie wpa_ie_len group_cipher pairwise_cipher akm =
     (if wpa_ie_len \<le> 0 then Some (False, group_cipher, pairwise_cipher, akm)
      else do {
        e \<leftarrow> rd b wpa_ie;
        good \<leftarrow> (if e \<noteq> 0xdd then Some False else do {
                  l \<leftarrow> rd b (wpa_ie + 1);
                  if l \<noteq> word_of_int (wpa_ie_len - 2) then Some False
                  else rtw_memcmp b (wpa_ie + 2) RTW_WPA_OUI_TYPE 4 });
        if \<not> good then Some (False, group_cipher, pairwise_cipher, akm)
        else let pos = wpa_ie + 8; left = wpa_ie_len - 8 in
          if left \<ge> 4 then do {
            gc \<leftarrow> rtw_get_wpa_cipher_suite b pos;
            wpa_pairwise b (pos + 4) (left - 4) gc pairwise_cipher akm }
          else if left > 0 then Some (False, group_cipher, pairwise_cipher, akm)
          else wpa_pairwise b pos left group_cipher pairwise_cipher akm })"

subsection \<open>Parsing the RSN element\<close>

record rsne_info =
  gcs :: "nat option"
  pcs_cnt :: u16
  pcs_list :: "nat option"
  akm_cnt :: u16
  akm_list :: "nat option"
  cap :: "nat option"
  pmkid_cnt :: u16
  pmkid_list :: "nat option"
  gmcs :: "nat option"
  err :: bool

definition rsne_info_zero :: rsne_info where
  "rsne_info_zero = \<lparr>gcs = None, pcs_cnt = 0, pcs_list = None, akm_cnt = 0, akm_list = None, cap = None,
     pmkid_cnt = 0, pmkid_list = None, gmcs = None, err = False\<rparr>"

text \<open>\<open>goto err\<close>, and \<open>if (ie + ie_len != pos) goto err; goto exit;\<close> with \<open>e\<close> for \<open>ie + ie_len\<close>.\<close>

definition rsne_err :: "rsne_info \<Rightarrow> (bool \<times> rsne_info) option" where
  "rsne_err info = Some (False, info\<lparr>err := True\<rparr>)"

definition rsne_stop :: "nat \<Rightarrow> nat \<Rightarrow> rsne_info \<Rightarrow> (bool \<times> rsne_info) option" where
  "rsne_stop e pos info = (if e \<noteq> pos then rsne_err info else Some (True, info))"

definition rsne_parse_gmcs :: "nat \<Rightarrow> nat \<Rightarrow> rsne_info \<Rightarrow> (bool \<times> rsne_info) option" where
  "rsne_parse_gmcs e pos info =
     (if e < pos + 4 then rsne_stop e pos info else Some (True, info\<lparr>gmcs := Some pos\<rparr>))"

definition rsne_parse_pmkid :: "buf \<Rightarrow> nat \<Rightarrow> nat \<Rightarrow> rsne_info \<Rightarrow> (bool \<times> rsne_info) option" where
  "rsne_parse_pmkid b e pos info =
     (if e < pos + 2 then rsne_stop e pos info
      else do {
        cnt \<leftarrow> RTW_GET_LE16 b pos;
        if e < pos + 2 + 16 * unat cnt then rsne_err info
        else rsne_parse_gmcs e (pos + 2 + 16 * unat cnt)
               (info\<lparr>pmkid_cnt := cnt, pmkid_list := Some (pos + 2)\<rparr>) })"

definition rsne_parse_cap :: "buf \<Rightarrow> nat \<Rightarrow> nat \<Rightarrow> rsne_info \<Rightarrow> (bool \<times> rsne_info) option" where
  "rsne_parse_cap b e pos info =
     (if e < pos + 2 then rsne_stop e pos info
      else rsne_parse_pmkid b e (pos + 2) (info\<lparr>cap := Some pos\<rparr>))"

definition rsne_parse_akm :: "buf \<Rightarrow> nat \<Rightarrow> nat \<Rightarrow> rsne_info \<Rightarrow> (bool \<times> rsne_info) option" where
  "rsne_parse_akm b e pos info =
     (if e < pos + 2 then rsne_stop e pos info
      else do {
        cnt \<leftarrow> RTW_GET_LE16 b pos;
        if e < pos + 2 + 4 * unat cnt then rsne_stop e (pos + 2) info
        else rsne_parse_cap b e (pos + 2 + 4 * unat cnt)
               (info\<lparr>akm_cnt := cnt, akm_list := Some (pos + 2)\<rparr>) })"

definition rsne_parse_pcs :: "buf \<Rightarrow> nat \<Rightarrow> nat \<Rightarrow> rsne_info \<Rightarrow> (bool \<times> rsne_info) option" where
  "rsne_parse_pcs b e pos info =
     (if e < pos + 2 then rsne_stop e pos info
      else do {
        cnt \<leftarrow> RTW_GET_LE16 b pos;
        if e < pos + 2 + 4 * unat cnt then rsne_stop e (pos + 2) info
        else rsne_parse_akm b e (pos + 2 + 4 * unat cnt)
               (info\<lparr>pcs_cnt := cnt, pcs_list := Some (pos + 2)\<rparr>) })"

definition rtw_rsne_info_parse :: "buf \<Rightarrow> nat \<Rightarrow> u32 \<Rightarrow> (bool \<times> rsne_info) option" where
  "rtw_rsne_info_parse b ie ie_len =
     (let e = ie + unat ie_len; info = rsne_info_zero in
      if e < ie + 4 then rsne_err info
      else do {
        eid \<leftarrow> rd b ie;
        bad \<leftarrow> (if eid \<noteq> 0x30 then Some True
               else do { l \<leftarrow> rd b (ie + 1); Some (ucast l \<noteq> ie_len - 2) });
        if bad then rsne_err info
        else do {
          ver \<leftarrow> RTW_GET_LE16 b (ie + 2);
          if ver \<noteq> 1 then rsne_err info
          else if e < ie + 4 + 4 then rsne_stop e (ie + 4) info
          else rsne_parse_pcs b e (ie + 8) (info\<lparr>gcs := Some (ie + 4)\<rparr>) } })"

text \<open>
  \<open>rtw_parse_wpa2_ie\<close>: each output pointer may be \<open>NULL\<close>; its argument here is the value it
  points to before the call.
\<close>

record wpa2_out =
  o_group :: "u32 option"
  o_pairwise :: "u32 option"
  o_gmcs :: "u32 option"
  o_akm :: "u32 option"
  o_mfp :: "u8 option"
  o_spp :: "u8 option"

definition set_out :: "'a option \<Rightarrow> 'a option \<Rightarrow> 'a option option" where
  "set_out p v = (case p of None \<Rightarrow> Some None | Some _ \<Rightarrow> map_option Some v)"

definition rsn_cap_bits :: "buf \<Rightarrow> nat \<Rightarrow> nat \<Rightarrow> u8 option" where
  "rsn_cap_bits b p off = do { v \<leftarrow> RTW_GET_LE16 b p; Some (ucast (drop_bit off v AND 3)) }"

definition rtw_parse_wpa2_ie :: "buf \<Rightarrow> nat \<Rightarrow> int \<Rightarrow> wpa2_out \<Rightarrow> (bool \<times> wpa2_out) option" where
  "rtw_parse_wpa2_ie b rsn_ie rsn_ie_len out = do {
     (ret, info) \<leftarrow> rtw_rsne_info_parse b rsn_ie (word_of_int rsn_ie_len);
     if \<not> ret then Some (False, out)
     else do {
       g \<leftarrow> set_out (o_group out)
              (case gcs info of None \<Rightarrow> Some 0 | Some p \<Rightarrow> rtw_get_rsn_cipher_suite b p);
       pw \<leftarrow> set_out (o_pairwise out)
              (case pcs_list info of None \<Rightarrow> Some 0
               | Some p \<Rightarrow> suites_or rtw_get_rsn_cipher_suite b p (unat (pcs_cnt info)) 0);
       gm \<leftarrow> set_out (o_gmcs out)
              (case gmcs info of None \<Rightarrow> Some WPA_CIPHER_BIP_CMAC_128
               | Some p \<Rightarrow> rtw_get_rsn_cipher_suite b p);
       ak \<leftarrow> set_out (o_akm out)
              (case akm_list info of None \<Rightarrow> Some 0
               | Some p \<Rightarrow> suites_or rtw_get_akm_suite_bitmap b p (unat (akm_cnt info)) 0);
       mf \<leftarrow> set_out (o_mfp out) (case cap info of None \<Rightarrow> Some 0 | Some p \<Rightarrow> rsn_cap_bits b p 6);
       sp \<leftarrow> set_out (o_spp out) (case cap info of None \<Rightarrow> Some 0 | Some p \<Rightarrow> rsn_cap_bits b p 10);
       Some (True, \<lparr>o_group = g, o_pairwise = pw, o_gmcs = gm, o_akm = ak, o_mfp = mf, o_spp = sp\<rparr>) } }"

subsection \<open>Collecting the WAPI, WPA and RSN elements of a frame\<close>

text \<open>
  \<open>rtw_get_wapi_ie\<close> and \<open>rtw_get_sec_ie\<close> walk all the elements behind the twelve fixed
  bytes; a later match overwrites an earlier one.
\<close>

definition copy_sec_ie :: "buf \<Rightarrow> nat \<Rightarrow> buf option \<Rightarrow> (buf option \<times> u16) option" where
  "copy_sec_ie b p dst = do {
     l \<leftarrow> rd b (p + 1);
     dst' \<leftarrow> (case dst of None \<Rightarrow> Some None
             | Some d \<Rightarrow> do { x \<leftarrow> rds b p (unat l + 2); d' \<leftarrow> wrs d 0 x; Some (Some d') });
     Some (dst', ucast l + 2) }"

function rtw_get_wapi_ie_loop ::
  "buf \<Rightarrow> nat \<Rightarrow> nat \<Rightarrow> nat \<Rightarrow> buf option \<Rightarrow> u16 option \<Rightarrow> (buf option \<times> u16 option) option" where
  "rtw_get_wapi_ie_loop b in_ie in_len cnt wapi_ie wapi_len =
     (if cnt < in_len then
        case do { authmode \<leftarrow> rd b (in_ie + cnt);
                  hit \<leftarrow> (if authmode \<noteq> 68 then Some False else do {
                    m1 \<leftarrow> rtw_memcmp b (in_ie + cnt + 6) [0x0, 0x14, 0x72, 0x01] 4;
                    if m1 then Some True else rtw_memcmp b (in_ie + cnt + 6) [0x0, 0x14, 0x72, 0x02] 4 });
                  (wie, wlen) \<leftarrow> (if hit then do { (d, n) \<leftarrow> copy_sec_ie b (in_ie + cnt) wapi_ie;
                                                  Some (d, map_option (\<lambda>_. n) wapi_len) }
                                  else Some (wapi_ie, wapi_len));
                  l \<leftarrow> rd b (in_ie + cnt + 1);
                  Some (wie, wlen, l) } of
          None \<Rightarrow> None
        | Some (wie, wlen, l) \<Rightarrow> rtw_get_wapi_ie_loop b in_ie in_len (cnt + (unat l + 2)) wie wlen
      else Some (wapi_ie, wapi_len))"
  by pat_completeness auto
termination
  by (relation "measure (\<lambda>(b, in_ie, in_len, cnt, w, n). in_len - cnt)") auto

definition rtw_get_wapi_ie ::
  "buf \<Rightarrow> nat option \<Rightarrow> nat \<Rightarrow> buf option \<Rightarrow> u16 option \<Rightarrow> (int \<times> buf option \<times> u16 option) option" where
  "rtw_get_wapi_ie b in_ie in_len wapi_ie wapi_len =
     (let wapi_len = map_option (\<lambda>_. 0) wapi_len in
      case in_ie of None \<Rightarrow> Some (0, wapi_ie, wapi_len)
      | Some p \<Rightarrow>
          if in_len \<le> 0 then Some (0, wapi_ie, wapi_len)
          else do {
            (d, n) \<leftarrow> rtw_get_wapi_ie_loop b p in_len 12 wapi_ie wapi_len;
            Some (case n of None \<Rightarrow> 0 | Some v \<Rightarrow> uint v, d, n) })"

text \<open>The destinations of \<open>rtw_get_sec_ie\<close>: the RSN and the WPA element with their lengths.\<close>

record sec_out =
  rsn_ie :: "buf option"
  rsn_len :: u16
  wpa_ie :: "buf option"
  wpa_len :: u16

function rtw_get_sec_ie_loop :: "buf \<Rightarrow> nat \<Rightarrow> nat \<Rightarrow> nat \<Rightarrow> sec_out \<Rightarrow> sec_out option" where
  "rtw_get_sec_ie_loop b in_ie in_len cnt out =
     (if cnt < in_len then
        case do { authmode \<leftarrow> rd b (in_ie + cnt);
                  hit \<leftarrow> (if authmode = 0xdd then rtw_memcmp b (in_ie + cnt + 2) [0x0, 0x50, 0xf2, 0x01] 4
                         else Some False);
                  out' \<leftarrow> (if hit then do { (d, n) \<leftarrow> copy_sec_ie b (in_ie + cnt) (wpa_ie out);
                                           Some (out\<lparr>wpa_ie := d, wpa_len := n\<rparr>) }
                          else if authmode = 0x30 then do { (d, n) \<leftarrow> copy_sec_ie b (in_ie + cnt) (rsn_ie out);
                                           Some (out\<lparr>rsn_ie := d, rsn_len := n\<rparr>) }
                          else Some out);
                  l \<leftarrow> rd b (in_ie + cnt + 1);
                  Some (out', l) } of
          None \<Rightarrow> None
        | Some (out', l) \<Rightarrow> rtw_get_sec_ie_loop b in_ie in_len (cnt + (unat l + 2)) out'
      else Some out)"
  by pat_completeness auto
termination
  by (relation "measure (\<lambda>(b, in_ie, in_len, cnt, out). in_len - cnt)") auto

declare rtw_get_sec_ie_loop.simps [simp del] rtw_get_wapi_ie_loop.simps [simp del]

definition rtw_get_sec_ie :: "buf \<Rightarrow> nat \<Rightarrow> nat \<Rightarrow> sec_out \<Rightarrow> (int \<times> sec_out) option" where
  "rtw_get_sec_ie b in_ie in_len out = do {
     out' \<leftarrow> rtw_get_sec_ie_loop b in_ie in_len 12 out;
     Some (uint (rsn_len out') + uint (wpa_len out'), out') }"

subsection \<open>AMSDU policy from the RSN capabilities\<close>

definition rtw_check_amsdu_disable :: "u8 \<Rightarrow> u8 \<Rightarrow> bool" where
  "rtw_check_amsdu_disable mode spp_opt =
     (if mode = 0 \<and> spp_opt AND 2 \<noteq> 0 then True
      else if mode = 1 \<and> spp_opt AND 1 = 0 then True
      else if mode = 2 then True
      else False)"

subsection \<open>The RSN parser stays inside the element\<close>

fun ptr_in :: "nat \<Rightarrow> nat \<Rightarrow> nat \<Rightarrow> nat option \<Rightarrow> bool" where
  "ptr_in lo e n None = True"
| "ptr_in lo e n (Some q) = (lo \<le> q \<and> q + n \<le> e)"

definition rsne_in :: "nat \<Rightarrow> nat \<Rightarrow> rsne_info \<Rightarrow> bool" where
  "rsne_in lo e info \<longleftrightarrow> ptr_in lo e 4 (gcs info)
     \<and> ptr_in lo e (4 * unat (pcs_cnt info)) (pcs_list info)
     \<and> ptr_in lo e (4 * unat (akm_cnt info)) (akm_list info)
     \<and> ptr_in lo e 2 (cap info)
     \<and> ptr_in lo e (16 * unat (pmkid_cnt info)) (pmkid_list info)
     \<and> ptr_in lo e 4 (gmcs info)"

definition rsne_good :: "nat \<Rightarrow> nat \<Rightarrow> (bool \<times> rsne_info) option \<Rightarrow> bool" where
  "rsne_good lo e r = (case r of None \<Rightarrow> False
     | Some (ret, info) \<Rightarrow> rsne_in lo e info \<and> ret = (\<not> err info))"

lemmas rsne_in_simps = rsne_in_def rsne_info_zero_def

lemma rsne_err_good: "rsne_in lo e info \<Longrightarrow> rsne_good lo e (rsne_err info)"
  by (simp add: rsne_good_def rsne_err_def rsne_in_simps)

lemma rsne_stop_good: "rsne_in lo e info \<Longrightarrow> \<not> err info \<Longrightarrow> rsne_good lo e (rsne_stop e' pos info)"
  by (simp add: rsne_stop_def rsne_err_good) (simp add: rsne_good_def)

lemma rsne_parse_gmcs_good:
  "rsne_in lo e info \<Longrightarrow> \<not> err info \<Longrightarrow> lo \<le> pos \<Longrightarrow> rsne_good lo e (rsne_parse_gmcs e pos info)"
  by (simp add: rsne_parse_gmcs_def rsne_stop_good) (simp add: rsne_good_def rsne_in_simps)

lemma LE16_Some: "i + 2 \<le> length b \<Longrightarrow> \<exists>v. RTW_GET_LE16 b i = Some v"
  by (metis RTW_GET_LE16_None not_less option.exhaust)

lemma rsne_parse_pmkid_good:
  assumes "rsne_in lo e info" "\<not> err info" "lo \<le> pos" "e \<le> length b"
  shows "rsne_good lo e (rsne_parse_pmkid b e pos info)"
proof (cases "e < pos + 2")
  case True
  then show ?thesis using assms by (simp add: rsne_parse_pmkid_def rsne_stop_good)
next
  case False
  then obtain v where "RTW_GET_LE16 b pos = Some v" using LE16_Some [of pos b] assms by auto
  with False assms show ?thesis
    by (auto simp: rsne_parse_pmkid_def rsne_err_good intro!: rsne_parse_gmcs_good)
       (simp add: rsne_in_simps)
qed

lemma rsne_parse_cap_good:
  assumes "rsne_in lo e info" "\<not> err info" "lo \<le> pos" "e \<le> length b"
  shows "rsne_good lo e (rsne_parse_cap b e pos info)"
  using assms
  by (auto simp: rsne_parse_cap_def rsne_stop_good intro!: rsne_parse_pmkid_good)
     (simp add: rsne_in_simps)

lemma rsne_parse_akm_good:
  assumes "rsne_in lo e info" "\<not> err info" "lo \<le> pos" "e \<le> length b"
  shows "rsne_good lo e (rsne_parse_akm b e pos info)"
proof (cases "e < pos + 2")
  case True
  then show ?thesis using assms by (simp add: rsne_parse_akm_def rsne_stop_good)
next
  case False
  then obtain v where "RTW_GET_LE16 b pos = Some v" using LE16_Some [of pos b] assms by auto
  with False assms show ?thesis
    by (auto simp: rsne_parse_akm_def rsne_stop_good intro!: rsne_parse_cap_good)
       (simp add: rsne_in_simps)
qed

lemma rsne_parse_pcs_good:
  assumes "rsne_in lo e info" "\<not> err info" "lo \<le> pos" "e \<le> length b"
  shows "rsne_good lo e (rsne_parse_pcs b e pos info)"
proof (cases "e < pos + 2")
  case True
  then show ?thesis using assms by (simp add: rsne_parse_pcs_def rsne_stop_good)
next
  case False
  then obtain v where "RTW_GET_LE16 b pos = Some v" using LE16_Some [of pos b] assms by auto
  with False assms show ?thesis
    by (auto simp: rsne_parse_pcs_def rsne_stop_good intro!: rsne_parse_akm_good)
       (simp add: rsne_in_simps)
qed

lemma rtw_rsne_info_parse_good:
  assumes "ie + unat ie_len \<le> length b"
  shows "rsne_good ie (ie + unat ie_len) (rtw_rsne_info_parse b ie ie_len)"
proof (cases "unat ie_len < 4")
  case True
  then show ?thesis
    by (simp add: rtw_rsne_info_parse_def rsne_err_good rsne_in_simps)
next
  case False
  with assms obtain x y where xy: "rd b ie = Some x" "rd b (Suc ie) = Some y" by (auto simp: rd_def)
  obtain v where v: "RTW_GET_LE16 b (Suc (Suc ie)) = Some v"
    using LE16_Some [of "Suc (Suc ie)" b] assms False by auto
  have z: "rsne_in ie (ie + unat ie_len) rsne_info_zero" "\<not> err rsne_info_zero"
    by (simp_all add: rsne_in_simps)
  show ?thesis
    using False xy v z assms
    by (auto simp: rtw_rsne_info_parse_def Let_def rsne_err_good rsne_stop_good
        intro!: rsne_parse_pcs_good) (simp_all add: rsne_in_simps)
qed

subsection \<open>Suites in a buffer\<close>

definition suite_of :: "(buf \<times> u32) list \<Rightarrow> buf \<Rightarrow> u32" where
  "suite_of tbl s = (case map_of tbl s of None \<Rightarrow> 0 | Some v \<Rightarrow> v)"

lemma suite_chain_Some:
  "\<forall>(k, v) \<in> set tbl. length k = 4 \<Longrightarrow> s + 4 \<le> length b \<Longrightarrow>
   suite_chain b s tbl = Some (suite_of tbl (take 4 (drop s b)))"
proof (induction tbl)
  case Nil
  then show ?case by (simp add: suite_of_def)
next
  case (Cons kv tbl)
  then show ?case by (cases kv) (auto simp: rtw_memcmp_Some suite_of_def)
qed

lemma rsn_suite_Some:
  "s + 4 \<le> length b \<Longrightarrow>
   rtw_get_rsn_cipher_suite b s = Some (suite_of rsn_suites (take 4 (drop s b)))"
  unfolding rtw_get_rsn_cipher_suite_def
  by (rule suite_chain_Some) (simp_all add: rsn_suites_def RSN_SUITE_def)

lemma akm_suite_Some:
  "s + 4 \<le> length b \<Longrightarrow>
   rtw_get_akm_suite_bitmap b s = Some (suite_of akm_suites (take 4 (drop s b)))"
  unfolding rtw_get_akm_suite_bitmap_def
  by (rule suite_chain_Some) (simp_all add: akm_suites_def RSN_SUITE_def)

lemma wpa_suite_Some:
  "s + 4 \<le> length b \<Longrightarrow>
   rtw_get_wpa_cipher_suite b s = Some (suite_of wpa_suites (take 4 (drop s b)))"
  unfolding rtw_get_wpa_cipher_suite_def
  by (rule suite_chain_Some) (simp_all add: wpa_suites_def WPA_SUITE_def)

lemma suites_or_Some:
  assumes "\<And>s. s + 4 \<le> length b \<Longrightarrow> \<exists>c. f b s = Some c" "pos + 4 * n \<le> length b"
  shows "\<exists>v'. suites_or f b pos n v = Some v'"
  using assms(2)
proof (induction n arbitrary: pos v)
  case (Suc n)
  then obtain c where "f b pos = Some c" using assms(1) [of pos] by auto
  with Suc show ?case by auto
qed simp

lemma suites_or_enc:
  assumes "\<And>s. s + 4 \<le> length (pre @ concat xs @ suf) \<Longrightarrow>
      f (pre @ concat xs @ suf) s = Some (suite_of tbl (take 4 (drop s (pre @ concat xs @ suf))))"
    and "\<forall>x \<in> set xs. length x = 4"
  shows "suites_or f (pre @ concat xs @ suf) (length pre) (length xs) v
       = Some (fold (\<lambda>x v. v OR suite_of tbl x) xs v)"
  using assms
proof (induction xs arbitrary: pre v)
  case (Cons x xs)
  have f: "f (pre @ concat (x # xs) @ suf) (length pre) = Some (suite_of tbl x)"
    using Cons.prems(1) [of "length pre"] Cons.prems(2) by simp
  have "suites_or f ((pre @ x) @ concat xs @ suf) (length (pre @ x)) (length xs) (v OR suite_of tbl x)
      = Some (fold (\<lambda>x v. v OR suite_of tbl x) xs (v OR suite_of tbl x))"
    using Cons.prems by (intro Cons.IH) simp_all
  with f Cons.prems(2) show ?case by simp
qed simp

subsection \<open>The RSN element: the abstract view and its encoding\<close>

record rsne =
  r_group :: buf
  r_pairwise :: "buf list"
  r_akms :: "buf list"
  r_cap :: u16
  r_pmkids :: "buf list"
  r_gmcs :: buf

definition cnt_bytes :: "'a list \<Rightarrow> buf" where
  "cnt_bytes xs = le16_bytes (of_nat (length xs))"

definition rsne_body :: "rsne \<Rightarrow> buf" where
  "rsne_body r = le16_bytes 1 @ r_group r @ cnt_bytes (r_pairwise r) @ concat (r_pairwise r)
     @ cnt_bytes (r_akms r) @ concat (r_akms r) @ le16_bytes (r_cap r)
     @ cnt_bytes (r_pmkids r) @ concat (r_pmkids r) @ r_gmcs r"

definition wf_rsne :: "rsne \<Rightarrow> bool" where
  "wf_rsne r \<longleftrightarrow> length (r_group r) = 4 \<and> length (r_gmcs r) = 4
     \<and> list_all (\<lambda>x. length x = 4) (r_pairwise r) \<and> list_all (\<lambda>x. length x = 4) (r_akms r)
     \<and> list_all (\<lambda>x. length x = 16) (r_pmkids r) \<and> length (rsne_body r) \<le> 255"

lemma length_cnt_bytes [simp]: "length (cnt_bytes xs) = 2"
  by (simp add: cnt_bytes_def)

lemma length_concat_const: "list_all (\<lambda>x. length x = k) xs \<Longrightarrow> length (concat xs) = k * length xs"
  by (induction xs) auto

lemma rsne_parse_pcs_enc:
  assumes "list_all (\<lambda>x. length x = 4) xs" "length xs < 65536" "length pre + 2 + 4 * length xs \<le> e"
  shows "rsne_parse_pcs (pre @ cnt_bytes xs @ concat xs @ suf) e (length pre) info
    = rsne_parse_akm (pre @ cnt_bytes xs @ concat xs @ suf) e (length pre + 2 + 4 * length xs)
        (info\<lparr>pcs_cnt := of_nat (length xs), pcs_list := Some (length pre + 2)\<rparr>)"
  using assms RTW_GET_LE16_skip [of pre "cnt_bytes xs @ concat xs @ suf" 0]
  by (simp add: rsne_parse_pcs_def cnt_bytes_def mem_simps unat_of_nat_u16)

lemma rsne_parse_akm_enc:
  assumes "list_all (\<lambda>x. length x = 4) xs" "length xs < 65536" "length pre + 2 + 4 * length xs \<le> e"
  shows "rsne_parse_akm (pre @ cnt_bytes xs @ concat xs @ suf) e (length pre) info
    = rsne_parse_cap (pre @ cnt_bytes xs @ concat xs @ suf) e (length pre + 2 + 4 * length xs)
        (info\<lparr>akm_cnt := of_nat (length xs), akm_list := Some (length pre + 2)\<rparr>)"
  using assms RTW_GET_LE16_skip [of pre "cnt_bytes xs @ concat xs @ suf" 0]
  by (simp add: rsne_parse_akm_def cnt_bytes_def mem_simps unat_of_nat_u16)

lemma rsne_parse_pmkid_enc:
  assumes "list_all (\<lambda>x. length x = 16) xs" "length xs < 65536" "length pre + 2 + 16 * length xs \<le> e"
  shows "rsne_parse_pmkid (pre @ cnt_bytes xs @ concat xs @ suf) e (length pre) info
    = rsne_parse_gmcs e (length pre + 2 + 16 * length xs)
        (info\<lparr>pmkid_cnt := of_nat (length xs), pmkid_list := Some (length pre + 2)\<rparr>)"
  using assms RTW_GET_LE16_skip [of pre "cnt_bytes xs @ concat xs @ suf" 0]
  by (simp add: rsne_parse_pmkid_def cnt_bytes_def mem_simps unat_of_nat_u16)

text \<open>The offsets of the parts of an encoded RSN element.\<close>

definition rsne_offs :: "rsne \<Rightarrow> nat \<Rightarrow> rsne_info" where
  "rsne_offs r p =
     (let p1 = p + 8; p2 = p1 + 2 + 4 * length (r_pairwise r); p3 = p2 + 2 + 4 * length (r_akms r);
          p4 = p3 + 2; p5 = p4 + 2 + 16 * length (r_pmkids r) in
      \<lparr>gcs = Some (p + 4), pcs_cnt = of_nat (length (r_pairwise r)), pcs_list = Some (p1 + 2),
       akm_cnt = of_nat (length (r_akms r)), akm_list = Some (p2 + 2), cap = Some p3,
       pmkid_cnt = of_nat (length (r_pmkids r)), pmkid_list = Some (p4 + 2), gmcs = Some p5, err = False\<rparr>)"

lemma length_rsne_body:
  "wf_rsne r \<Longrightarrow> length (rsne_body r)
     = 18 + 4 * length (r_pairwise r) + 4 * length (r_akms r) + 16 * length (r_pmkids r)"
  by (auto simp: wf_rsne_def rsne_body_def length_concat_const)

lemma rtw_rsne_info_parse_enc:
  assumes wf: "wf_rsne r"
  shows "rtw_rsne_info_parse (pre @ enc_ie (0x30, rsne_body r) @ post) (length pre)
      (of_nat (length (enc_ie (0x30, rsne_body r)))) = Some (True, rsne_offs r (length pre))"
proof -
  let ?b = "pre @ enc_ie (0x30, rsne_body r) @ post"
  let ?e = "length pre + length (enc_ie (0x30, rsne_body r))"
  define p0 where "p0 = pre @ [0x30, of_nat (length (rsne_body r))] @ le16_bytes 1 @ r_group r"
  define p1 where "p1 = p0 @ cnt_bytes (r_pairwise r) @ concat (r_pairwise r)"
  define p2 where "p2 = p1 @ cnt_bytes (r_akms r) @ concat (r_akms r)"
  define p3 where "p3 = p2 @ le16_bytes (r_cap r)"
  define s2 where "s2 = le16_bytes (r_cap r) @ cnt_bytes (r_pmkids r) @ concat (r_pmkids r) @ r_gmcs r @ post"
  define s1 where "s1 = cnt_bytes (r_akms r) @ concat (r_akms r) @ s2"
  have b0: "?b = p0 @ cnt_bytes (r_pairwise r) @ concat (r_pairwise r) @ s1"
    and b1: "?b = p1 @ cnt_bytes (r_akms r) @ concat (r_akms r) @ s2"
    and b3: "?b = p3 @ cnt_bytes (r_pmkids r) @ concat (r_pmkids r) @ r_gmcs r @ post"
    by (simp_all add: p0_def p1_def p2_def p3_def s1_def s2_def rsne_body_def enc_ie_def)
  have lb: "length (rsne_body r) \<le> 255" using wf by (simp add: wf_rsne_def)
  note ln = length_rsne_body [OF wf]
  have l0: "length p0 = length pre + 8" using wf by (simp add: p0_def wf_rsne_def)
  have l1: "length p1 = length pre + 8 + 2 + 4 * length (r_pairwise r)"
    using wf l0 by (simp add: p1_def wf_rsne_def length_concat_const)
  have l2: "length p2 = length p1 + 2 + 4 * length (r_akms r)"
    using wf by (simp add: p2_def wf_rsne_def length_concat_const)
  have l3: "length p3 = length p2 + 2" by (simp add: p3_def)
  have u: "unat (of_nat (length (enc_ie (0x30, rsne_body r))) :: u32) = length (enc_ie (0x30, rsne_body r))"
    using lb by (intro unat_of_nat_u32) simp
  have ver: "RTW_GET_LE16 ?b (length pre + 2) = Some 1"
    using RTW_GET_LE16_skip [of "pre @ [0x30, of_nat (length (rsne_body r))]" "rsne_body r @ post" 0]
    by (simp add: enc_ie_def rsne_body_def mem_simps)
  have hd: "rd ?b (length pre) = Some 0x30" "rd ?b (length pre + 1) = Some (of_nat (length (rsne_body r)))"
    by (simp_all add: mem_simps)
  have lenok: "ucast (of_nat (length (rsne_body r)) :: u8)
      = (of_nat (length (enc_ie (0x30, rsne_body r))) - 2 :: u32)"
    using ucast_len_u32 [OF lb] by (simp add: eq_diff_eq del: of_nat_add)
  have pcs: "rsne_parse_pcs ?b ?e (length p0) i = rsne_parse_akm ?b ?e (length p1)
      (i\<lparr>pcs_cnt := of_nat (length (r_pairwise r)), pcs_list := Some (length p0 + 2)\<rparr>)" for i
    using wf lb ln l0 l1 unfolding wf_rsne_def
    by (subst (1 2) b0, subst rsne_parse_pcs_enc) simp_all
  have akm: "rsne_parse_akm ?b ?e (length p1) i = rsne_parse_cap ?b ?e (length p2)
      (i\<lparr>akm_cnt := of_nat (length (r_akms r)), akm_list := Some (length p1 + 2)\<rparr>)" for i
    using wf lb ln l1 l2 unfolding wf_rsne_def
    by (subst (1 2) b1, subst rsne_parse_akm_enc) simp_all
  have cap: "rsne_parse_cap ?b ?e (length p2) i = rsne_parse_pmkid ?b ?e (length p3) (i\<lparr>cap := Some (length p2)\<rparr>)" for i
    using ln l1 l2 l3 by (simp add: rsne_parse_cap_def)
  have pmk: "rsne_parse_pmkid ?b ?e (length p3) i = rsne_parse_gmcs ?e (length p3 + 2 + 16 * length (r_pmkids r))
      (i\<lparr>pmkid_cnt := of_nat (length (r_pmkids r)), pmkid_list := Some (length p3 + 2)\<rparr>)" for i
    using wf lb ln l1 l2 l3 unfolding wf_rsne_def
    by (subst b3, subst rsne_parse_pmkid_enc) simp_all
  have "rtw_rsne_info_parse ?b (length pre) (of_nat (length (enc_ie (0x30, rsne_body r))))
      = rsne_parse_pcs ?b ?e (length p0) (rsne_info_zero\<lparr>gcs := Some (length pre + 4)\<rparr>)"
    using hd ver lenok ln l0 u by (simp add: rtw_rsne_info_parse_def Let_def)
  then show ?thesis
    using ln l0 l1 l2 l3 unfolding pcs akm cap pmk
    by (simp add: rsne_parse_gmcs_def rsne_offs_def rsne_info_zero_def Let_def)
qed

lemma rsne_parts:
  assumes "wf_rsne r" "b = pre @ enc_ie (0x30, rsne_body r) @ post"
  obtains P0 S0 P1 S1 P2 S2 P3 S3 P4 S4 where
    "b = P0 @ r_group r @ S0" "length P0 = length pre + 4"
    "b = P1 @ concat (r_pairwise r) @ S1" "length P1 = length pre + 10"
    "b = P2 @ concat (r_akms r) @ S2" "length P2 = length P1 + 4 * length (r_pairwise r) + 2"
    "b = P3 @ le16_bytes (r_cap r) @ S3" "length P3 = length P2 + 4 * length (r_akms r)"
    "b = P4 @ r_gmcs r @ S4" "length P4 = length P3 + 4 + 16 * length (r_pmkids r)"
proof -
  define P0 where "P0 = pre @ [0x30, of_nat (length (rsne_body r))] @ le16_bytes 1"
  define P1 where "P1 = P0 @ r_group r @ cnt_bytes (r_pairwise r)"
  define P2 where "P2 = P1 @ concat (r_pairwise r) @ cnt_bytes (r_akms r)"
  define P3 where "P3 = P2 @ concat (r_akms r)"
  define P4 where "P4 = P3 @ le16_bytes (r_cap r) @ cnt_bytes (r_pmkids r) @ concat (r_pmkids r)"
  define S4 where "S4 = post"
  define S3 where "S3 = cnt_bytes (r_pmkids r) @ concat (r_pmkids r) @ r_gmcs r @ S4"
  define S2 where "S2 = le16_bytes (r_cap r) @ S3"
  define S1 where "S1 = cnt_bytes (r_akms r) @ concat (r_akms r) @ S2"
  define S0 where "S0 = cnt_bytes (r_pairwise r) @ concat (r_pairwise r) @ S1"
  have p: "b = P4 @ r_gmcs r @ S4" "b = P3 @ le16_bytes (r_cap r) @ S3"
    "b = P2 @ concat (r_akms r) @ S2" "b = P1 @ concat (r_pairwise r) @ S1" "b = P0 @ r_group r @ S0"
    unfolding assms(2)
    by (simp_all add: P0_def P1_def P2_def P3_def P4_def S0_def S1_def S2_def S3_def S4_def
        rsne_body_def enc_ie_def)
  have l: "length P0 = length pre + 4" "length P1 = length pre + 10"
    "length P2 = length P1 + 4 * length (r_pairwise r) + 2" "length P3 = length P2 + 4 * length (r_akms r)"
    "length P4 = length P3 + 4 + 16 * length (r_pmkids r)"
    using assms(1) by (auto simp: P0_def P1_def P2_def P3_def P4_def wf_rsne_def length_concat_const)
  show ?thesis by (rule that [OF p(5) l(1) p(4) l(2) p(3) l(3) p(2) l(4) p(1) l(5)])
qed

subsection \<open>The search for the WPA element\<close>

definition wpa_hit :: "ie \<Rightarrow> bool" where
  "wpa_hit x \<longleftrightarrow> fst x = 0xdd \<and> take 4 (snd x) = RTW_WPA_OUI_TYPE \<and> take 2 (drop 4 (snd x)) = [1, 0]"

definition wpa_ok :: "ie \<Rightarrow> bool" where
  "wpa_ok x \<longleftrightarrow> (fst x = 0xdd \<longrightarrow> 6 \<le> length (snd x))"

definition wpa_srch :: "buf \<Rightarrow> nat \<Rightarrow> nat \<Rightarrow> nat \<Rightarrow> nat option option" where
  "wpa_srch b base n cnt =
     map_option (map_option (\<lambda>p. p - base))
       (map_option fst (rtw_get_wpa_ie_loop b base (int n) (base + cnt) (int n - int cnt)))"

lemma rtw_get_ie_miss_eq:
  assumes "rd b p = Some c" "uint c \<noteq> index" "rd b (p + 1) = Some tmp" "1 \<le> limit"
  shows "rtw_get_ie b p index 0 limit
       = rtw_get_ie b (p + (unat tmp + 2)) index 0 (limit - int (unat tmp + 2))"
  using assms rtw_get_ie_loop_shift [of b index "limit - int (unat tmp + 2)" "unat tmp + 2"
        "p + (unat tmp + 2)" 0]
  by (auto simp: rtw_get_ie_def rtw_get_ie_loop.simps [of b index limit p])

lemma be16_is_1: "be16 y x = 1 \<longleftrightarrow> x = 1 \<and> y = 0"
proof
  assume "be16 y x = 1"
  then have *: "bit (be16 y x) n = (n = 0)" for n by (simp add: bit_1_iff)
  have "bit x n = (n = 0)" for n
    using * [of n] by (cases "n < 8") (auto simp: be16_def bit_simps dest: bit_imp_le_length)
  moreover have "\<not> bit y n" for n
    using * [of "n + 8"] by (cases "n < 8") (auto simp: be16_def bit_simps dest: bit_imp_le_length)
  ultimately show "x = 1 \<and> y = 0" by (auto intro!: bit_word_eqI simp: bit_1_iff)
qed (simp add: be16_def)

lemma wpa_test_enc:
  assumes "wpa_ok x" "fst x = 0xdd" "q = length pre"
  shows "wpa_ie_test (pre @ enc_ie x @ suf) q = Some (wpa_hit x)"
proof -
  from assms obtain a0 a1 a2 a3 a4 a5 rest where x: "snd x = a0 # a1 # a2 # a3 # a4 # a5 # rest"
    unfolding wpa_ok_def by (auto simp: Suc_le_length_iff eval_nat_numeral)
  let ?b = "pre @ enc_ie x @ suf"
  have m: "rtw_memcmp ?b (q + 2) RTW_WPA_OUI_TYPE 4 = Some (take 4 (snd x) = RTW_WPA_OUI_TYPE)"
    using assms(3) x by (subst rtw_memcmp_Some) (simp_all add: RTW_WPA_OUI_TYPE_def enc_ie_def)
  have v: "RTW_GET_LE16 ?b (q + 6) = Some (be16 a5 a4)"
    using assms(3) x by (simp add: RTW_GET_LE16_def rd_def enc_ie_def nth_append)
  show ?thesis using assms(2) x unfolding wpa_ie_test_def m v by (simp add: wpa_hit_def be16_is_1)
qed

lemma rtw_get_wpa_ie_loop_cong:
  "rtw_get_ie b p 0xdd 0 l = rtw_get_ie b p' 0xdd 0 l' \<Longrightarrow>
   rtw_get_wpa_ie_loop b pie n p l = rtw_get_wpa_ie_loop b pie n p' l'"
  by (subst (1 2) rtw_get_wpa_ie_loop.simps) simp

interpretation wpa: ie_search wpa_srch wpa_hit wpa_ok "\<lambda>_. True"
proof (unfold_locales, goal_cases)
  case (1 b base n)
  then show ?case by (simp add: wpa_srch_def rtw_get_ie_def rtw_get_wpa_ie_loop.simps)
next
  case (2 x done_ies rest pre post)
  let ?b = "pre @ done_ies @ enc_ie x @ rest @ post"
  let ?q = "length pre + length done_ies"
  have t: "wpa_ie_test ?b ?q = Some True"
    using wpa_test_enc [of x ?q "pre @ done_ies" "rest @ post"] 2 by (simp add: wpa_hit_def)
  have g: "rtw_get_ie ?b ?q 0xdd 0 (2 + int (length (snd x)) + int (length rest)) = Some (Some ?q, int (length (snd x)))"
    using 2 wf_ie_unat [of x]
    by (simp add: rtw_get_ie_def rtw_get_ie_loop.simps mem_simps add.assoc wpa_hit_def uint_nat)
  have "rtw_get_wpa_ie_loop ?b (length pre) n ?q (2 + int (length (snd x)) + int (length rest))
      = Some (Some ?q, int (length (snd x)))" for n
    using g t by (simp add: rtw_get_wpa_ie_loop.simps [of ?b _ _ ?q])
  then show ?case by (simp add: wpa_srch_def add.commute add.left_commute)
next
  case (3 x done_ies rest pre post)
  let ?b = "pre @ done_ies @ enc_ie x @ rest @ post"
  let ?q = "length pre + length done_ies"
  let ?n = "int (length done_ies) + (2 + int (length (snd x))) + int (length rest)"
  let ?l = "2 + int (length (snd x)) + int (length rest)"
  have r: "rd ?b ?q = Some (fst x)" "rd ?b (?q + 1) = Some (of_nat (length (snd x)))"
    by (simp_all add: mem_simps add.assoc)
  have "rtw_get_wpa_ie_loop ?b (length pre) ?n ?q ?l
      = rtw_get_wpa_ie_loop ?b (length pre) ?n (?q + (length (snd x) + 2)) (int (length rest))"
  proof (cases "fst x = 0xdd")
    case False
    then have ne: "uint (fst x) \<noteq> 0xdd" by (simp add: word_uint_eq_iff)
    have "rtw_get_ie ?b ?q 0xdd 0 ?l = rtw_get_ie ?b (?q + (length (snd x) + 2)) 0xdd 0 (int (length rest))"
      using rtw_get_ie_miss_eq [OF r(1) ne r(2), of ?l] 3 by simp
    then show ?thesis by (rule rtw_get_wpa_ie_loop_cong)
  next
    case True
    have t: "wpa_ie_test ?b ?q = Some False"
      using wpa_test_enc [of x ?q "pre @ done_ies" "rest @ post"] 3 True by simp
    have g: "rtw_get_ie ?b ?q 0xdd 0 ?l = Some (Some ?q, int (length (snd x)))"
      using 3 True wf_ie_unat [of x]
      by (simp add: rtw_get_ie_def rtw_get_ie_loop.simps mem_simps add.assoc uint_nat)
    have e: "rtw_get_wpa_ie_loop ?b (length pre) ?n (?q + (length (snd x) + 2)) (int (length rest)) = Some (None, 0)"
      if "rest = []"
      using that by (subst rtw_get_wpa_ie_loop.simps) (simp add: rtw_get_ie_def)
    have nt: "nat (2 + int (length (snd x))) = length (snd x) + 2" by simp
    have lim: "?n - (int ?q - int (length pre)) - 2 - int (length (snd x)) = int (length rest)" by simp
    show ?thesis
      by (subst rtw_get_wpa_ie_loop.simps, simp only: g t nt lim option.case prod.case bool.case)
         (use e in auto)
  qed
  then show ?case by (simp add: wpa_srch_def algebra_simps)
qed

lemma rtw_get_wpa_ie_loop_found:
  "rtw_get_wpa_ie_loop b pie limit pbuf limit_new = Some (Some q, n) \<Longrightarrow> pbuf \<le> q"
proof (induction b pie limit pbuf limit_new rule: rtw_get_wpa_ie_loop.induct)
  case (1 b pie limit pbuf limit_new)
  from "1.prems" obtain p len where p: "rtw_get_ie b pbuf 0xdd 0 limit_new = Some (Some p, len)"
    by (subst (asm) rtw_get_wpa_ie_loop.simps) (auto split: option.splits prod.splits)
  then have le: "pbuf \<le> p" using rtw_get_ie_found by blast
  show ?case
    using "1.prems" "1.IH" [OF p refl refl] p le
    by (subst (asm) rtw_get_wpa_ie_loop.simps)
       (fastforce split: option.splits bool.splits if_splits)
qed

subsection \<open>The walk over all elements\<close>

definition put_ie :: "ie \<Rightarrow> buf option \<Rightarrow> buf option" where
  "put_ie x = map_option (\<lambda>d. enc_ie x @ drop (length (enc_ie x)) d)"

definition sec_step :: "ie \<Rightarrow> sec_out \<Rightarrow> sec_out" where
  "sec_step x out =
     (if fst x = 0xdd \<and> take 4 (snd x) = [0x0, 0x50, 0xf2, 0x01]
      then out\<lparr>wpa_ie := put_ie x (wpa_ie out), wpa_len := of_nat (length (enc_ie x))\<rparr>
      else if fst x = 0x30
      then out\<lparr>rsn_ie := put_ie x (rsn_ie out), rsn_len := of_nat (length (enc_ie x))\<rparr>
      else out)"

definition dst_ok :: "buf option \<Rightarrow> bool" where
  "dst_ok d \<longleftrightarrow> (case d of None \<Rightarrow> True | Some d \<Rightarrow> 257 \<le> length d)"

lemma ucast_len_u16: "n \<le> 255 \<Longrightarrow> (ucast (of_nat n :: u8) :: u16) + 2 = of_nat (n + 2)"
proof -
  assume "n \<le> 255"
  then have "unat (of_nat n :: u8) = n" by simp
  then have "(ucast (of_nat n :: u8) :: u16) = of_nat n" by (metis of_nat_unat)
  then show ?thesis by simp
qed

lemma copy_sec_ie_enc:
  assumes "wf_ie x" "dst_ok d" "p = length pre"
  shows "copy_sec_ie (pre @ enc_ie x @ suf) p d = Some (put_ie x d, of_nat (length (enc_ie x)))"
  using assms ucast_len_u16 [of "length (snd x)"]
  by (cases d) (simp_all add: copy_sec_ie_def mem_simps put_ie_def dst_ok_def wf_ie_def wrs_def)

lemma dst_ok_put: "wf_ie x \<Longrightarrow> dst_ok d \<Longrightarrow> dst_ok (put_ie x d)"
  by (cases d) (auto simp: dst_ok_def put_ie_def wf_ie_def)

lemma sec_loop_step:
  assumes "wf_ie x" "fst x = 0xdd \<longrightarrow> 4 \<le> length (snd x)" "dst_ok (wpa_ie out)" "dst_ok (rsn_ie out)"
  shows "rtw_get_sec_ie_loop (pre @ dn @ enc_ie x @ rest @ post) (length pre)
      (length dn + length (enc_ie x) + length rest) (length dn) out
    = rtw_get_sec_ie_loop (pre @ dn @ enc_ie x @ rest @ post) (length pre)
      (length dn + length (enc_ie x) + length rest) (length dn + length (enc_ie x)) (sec_step x out)"
proof -
  let ?b = "pre @ dn @ enc_ie x @ rest @ post"
  let ?q = "length pre + length dn"
  have r: "rd ?b ?q = Some (fst x)" "rd ?b (?q + 1) = Some (of_nat (length (snd x)))"
    by (simp_all add: mem_simps add.assoc)
  have m: "rtw_memcmp ?b (?q + 2) [0x0, 0x50, 0xf2, 0x01] 4 = Some (take 4 (snd x) = [0x0, 0x50, 0xf2, 0x01])"
    if "fst x = 0xdd"
    using that assms(2) by (subst rtw_memcmp_Some) (simp_all add: enc_ie_def)
  have c: "copy_sec_ie ?b ?q d = Some (put_ie x d, of_nat (length (enc_ie x)))" if "dst_ok d" for d
    using copy_sec_ie_enc [OF assms(1) that, of ?q "pre @ dn" "rest @ post"] by simp
  show ?thesis
    using assms r m c
    by (subst rtw_get_sec_ie_loop.simps) (auto simp: sec_step_def)
qed

lemma rtw_get_sec_ie_loop_enc:
  assumes "\<forall>x \<in> set xs. wf_ie x \<and> (fst x = 0xdd \<longrightarrow> 4 \<le> length (snd x))"
    and "dst_ok (wpa_ie out)" "dst_ok (rsn_ie out)"
  shows "rtw_get_sec_ie_loop (pre @ dn @ enc_ies xs @ post) (length pre)
      (length dn + length (enc_ies xs)) (length dn) out = Some (fold sec_step xs out)"
  using assms
proof (induction xs arbitrary: dn out)
  case Nil
  then show ?case by (simp add: rtw_get_sec_ie_loop.simps)
next
  case (Cons x xs)
  have "dst_ok (wpa_ie (sec_step x out))" "dst_ok (rsn_ie (sec_step x out))"
    using Cons.prems by (simp_all add: sec_step_def dst_ok_put)
  then have "rtw_get_sec_ie_loop (pre @ (dn @ enc_ie x) @ enc_ies xs @ post) (length pre)
      (length (dn @ enc_ie x) + length (enc_ies xs)) (length (dn @ enc_ie x)) (sec_step x out)
    = Some (fold sec_step xs (sec_step x out))"
    using Cons.prems by (intro Cons.IH) simp_all
  with sec_loop_step [of x out pre dn "enc_ies xs" post] Cons.prems show ?case
    by (simp add: add.assoc)
qed

subsection \<open>Properties\<close>

text \<open>C13. Safety: for every byte string, \<open>rtw_rsne_info_parse\<close> returns without touching memory outside
  the element it is given; every pointer it stores, with the count stored for it, stays inside
  the element, also when the parse fails, and it fails exactly when \<open>err\<close> is set.\<close>

theorem rtw_rsne_info_parse_safe:
  assumes "ie + unat ie_len \<le> length b"
  shows "\<exists>ret info. rtw_rsne_info_parse b ie ie_len = Some (ret, info)
    \<and> rsne_in ie (ie + unat ie_len) info \<and> ret = (\<not> err info)"
  using rtw_rsne_info_parse_good [OF assms]
  by (auto simp: rsne_good_def split: option.splits prod.splits)

theorem rtw_rsne_info_parse_safe_witness:
  "\<exists>ret info. rtw_rsne_info_parse [0x30, 6, 1, 0, 9, 9, 9, 9] 0 8 = Some (ret, info)
    \<and> rsne_in 0 (0 + unat (8 :: u32)) info \<and> ret = (\<not> err info)"
  using rtw_rsne_info_parse_safe [of 0 8 "[0x30, 6, 1, 0, 9, 9, 9, 9]"] by simp

text \<open>C18. Round trip: an RSN element built from a group suite, pairwise suites, AKM suites, capabilities,
  PMKIDs and a group management suite is parsed by \<open>rtw_parse_wpa2_ie\<close> into the cipher and AKM
  bitmaps of exactly these suites and the two option fields of these capabilities.\<close>

theorem rtw_parse_wpa2_ie_roundtrip:
  assumes "wf_rsne r"
  shows "rtw_parse_wpa2_ie (pre @ enc_ie (0x30, rsne_body r) @ post) (length pre)
      (int (length (enc_ie (0x30, rsne_body r))))
      \<lparr>o_group = Some g, o_pairwise = Some w, o_gmcs = Some m, o_akm = Some a, o_mfp = Some f, o_spp = Some s\<rparr>
    = Some (True, \<lparr>
        o_group = Some (suite_of rsn_suites (r_group r)),
        o_pairwise = Some (fold (\<lambda>x v. v OR suite_of rsn_suites x) (r_pairwise r) 0),
        o_gmcs = Some (suite_of rsn_suites (r_gmcs r)),
        o_akm = Some (fold (\<lambda>x v. v OR suite_of akm_suites x) (r_akms r) 0),
        o_mfp = Some (ucast (drop_bit 6 (r_cap r) AND 3)),
        o_spp = Some (ucast (drop_bit 10 (r_cap r) AND 3))\<rparr>)"
proof -
  let ?b = "pre @ enc_ie (0x30, rsne_body r) @ post"
  obtain P0 S0 P1 S1 P2 S2 P3 S3 P4 S4 where p:
    "?b = P0 @ r_group r @ S0" "length P0 = length pre + 4"
    "?b = P1 @ concat (r_pairwise r) @ S1" "length P1 = length pre + 10"
    "?b = P2 @ concat (r_akms r) @ S2" "length P2 = length P1 + 4 * length (r_pairwise r) + 2"
    "?b = P3 @ le16_bytes (r_cap r) @ S3" "length P3 = length P2 + 4 * length (r_akms r)"
    "?b = P4 @ r_gmcs r @ S4" "length P4 = length P3 + 4 + 16 * length (r_pmkids r)"
    by (rule rsne_parts [OF assms refl])
  have w: "length (r_group r) = 4" "length (r_gmcs r) = 4" "\<forall>x \<in> set (r_pairwise r). length x = 4"
    "\<forall>x \<in> set (r_akms r). length x = 4" "length (rsne_body r) \<le> 255"
    using assms by (simp_all add: wf_rsne_def list_all_iff)
  have u: "unat (of_nat (length (r_pairwise r)) :: u16) = length (r_pairwise r)"
    "unat (of_nat (length (r_akms r)) :: u16) = length (r_akms r)"
    using w(5) length_rsne_body [OF assms] by (simp_all add: unat_of_nat_u16)
  have grp: "rtw_get_rsn_cipher_suite ?b (length P0) = Some (suite_of rsn_suites (r_group r))"
    unfolding p(1) using w by (simp add: rsn_suite_Some)
  have gm: "rtw_get_rsn_cipher_suite ?b (length P4) = Some (suite_of rsn_suites (r_gmcs r))"
    unfolding p(9) using w by (simp add: rsn_suite_Some)
  have pw: "suites_or rtw_get_rsn_cipher_suite ?b (length P1) (length (r_pairwise r)) 0
      = Some (fold (\<lambda>x v. v OR suite_of rsn_suites x) (r_pairwise r) 0)"
    unfolding p(3) using w by (intro suites_or_enc rsn_suite_Some)
  have ak: "suites_or rtw_get_akm_suite_bitmap ?b (length P2) (length (r_akms r)) 0
      = Some (fold (\<lambda>x v. v OR suite_of akm_suites x) (r_akms r) 0)"
    unfolding p(5) using w by (intro suites_or_enc akm_suite_Some)
  have cp: "rsn_cap_bits ?b (length P3) k = Some (ucast (drop_bit k (r_cap r) AND 3))" for k
    unfolding p(7) using RTW_GET_LE16_skip [of P3 "le16_bytes (r_cap r) @ S3" 0]
    by (simp add: rsn_cap_bits_def mem_simps)
  have l: "word_of_int (int (length (enc_ie (0x30, rsne_body r))))
      = (of_nat (length (enc_ie (0x30, rsne_body r))) :: u32)" by simp
  have i: "rsne_offs r (length pre) = \<lparr>gcs = Some (length P0), pcs_cnt = of_nat (length (r_pairwise r)),
      pcs_list = Some (length P1), akm_cnt = of_nat (length (r_akms r)), akm_list = Some (length P2),
      cap = Some (length P3), pmkid_cnt = of_nat (length (r_pmkids r)),
      pmkid_list = Some (length P3 + 4), gmcs = Some (length P4), err = False\<rparr>"
    using p by (simp add: rsne_offs_def Let_def)
  show ?thesis
    using grp gm pw ak cp
    by (simp only: rtw_parse_wpa2_ie_def l rtw_rsne_info_parse_enc [OF assms] i)
       (simp add: set_out_def u)
qed

theorem rtw_parse_wpa2_ie_roundtrip_witness:
  "rtw_parse_wpa2_ie ([7] @ enc_ie (0x30, rsne_body \<lparr>r_group = RSN_SUITE 4, r_pairwise = [RSN_SUITE 4, RSN_SUITE 2],
        r_akms = [RSN_SUITE 2], r_cap = 0x8c0, r_pmkids = [], r_gmcs = RSN_SUITE 6\<rparr>) @ []) 1 32
      \<lparr>o_group = Some 0, o_pairwise = Some 0, o_gmcs = Some 0, o_akm = Some 0, o_mfp = Some 0, o_spp = Some 0\<rparr>
    = Some (True, \<lparr>o_group = Some 0x10, o_pairwise = Some 0x18, o_gmcs = Some 0x100, o_akm = Some 2,
        o_mfp = Some 3, o_spp = Some 2\<rparr>)"
proof -
  let ?r = "\<lparr>r_group = RSN_SUITE 4, r_pairwise = [RSN_SUITE 4, RSN_SUITE 2],
        r_akms = [RSN_SUITE 2], r_cap = 0x8c0, r_pmkids = [], r_gmcs = RSN_SUITE 6\<rparr>"
  have wf: "wf_rsne ?r" by code_simp
  have v: "int (length (enc_ie (0x30, rsne_body ?r))) = 32"
    "suite_of rsn_suites (r_group ?r) = 0x10" "suite_of rsn_suites (r_gmcs ?r) = 0x100"
    "fold (\<lambda>x v. v OR suite_of rsn_suites x) (r_pairwise ?r) 0 = 0x18"
    "fold (\<lambda>x v. v OR suite_of akm_suites x) (r_akms ?r) 0 = 2"
    "ucast (drop_bit 6 (r_cap ?r) AND 3) = (3 :: u8)" "ucast (drop_bit 10 (r_cap ?r) AND 3) = (2 :: u8)"
    by code_simp+
  show ?thesis
    using rtw_parse_wpa2_ie_roundtrip [OF wf, of "[7]" "[]" 0 0 0 0 0 0] unfolding v by simp
qed

text \<open>Refinement: on a buffer of well-formed elements whose vendor elements have at least six body
  bytes, \<open>rtw_get_wpa_ie\<close> returns the first vendor element with the WPA OUI type and version 1,
  past any number of other vendor elements, or \<open>NULL\<close>.\<close>

theorem rtw_get_wpa_ie_first:
  assumes "\<forall>x \<in> set xs. wf_ie x \<and> wpa_ok x"
  shows "map_option fst (rtw_get_wpa_ie (pre @ enc_ies xs @ post) (length pre) (int (length (enc_ies xs))))
       = Some (map_option ((+) (length pre)) (first_off wpa_hit xs))"
proof -
  let ?b = "pre @ enc_ies xs @ post"
  have s: "wpa_srch ?b (length pre) (length (enc_ies xs)) 0 = Some (first_off wpa_hit xs)"
    using assms by (intro wpa.srch_first) auto
  then obtain q n where r: "rtw_get_wpa_ie ?b (length pre) (int (length (enc_ies xs))) = Some (q, n)"
    "map_option (\<lambda>p. p - length pre) q = first_off wpa_hit xs"
    by (auto simp: wpa_srch_def rtw_get_wpa_ie_def)
  have "length pre \<le> q'" if "q = Some q'" for q'
    using r(1) that by (auto simp: rtw_get_wpa_ie_def dest: rtw_get_wpa_ie_loop_found)
  with r(1) r(2) [symmetric] show ?thesis by (cases q) auto
qed

theorem rtw_get_wpa_ie_first_witness:
  "map_option fst (rtw_get_wpa_ie ([5] @ enc_ies [(0xdd, [0, 0x50, 0xf2, 4, 1, 0]),
      (0xdd, [0, 0x50, 0xf2, 1, 1, 0, 0])] @ []) 1 17) = Some (Some 9)"
proof -
  let ?xs = "[(0xdd, [0, 0x50, 0xf2, 4, 1, 0]), (0xdd, [0, 0x50, 0xf2, 1, 1, 0, 0])] :: ie list"
  have f: "map_option ((+) (length [5 :: u8])) (first_off wpa_hit ?xs) = Some 9"
    "int (length (enc_ies ?xs)) = 17" by code_simp+
  show ?thesis
    using rtw_get_wpa_ie_first [of ?xs "[5]" "[]"] unfolding f by (simp add: wf_ie_def wpa_ok_def)
qed

text \<open>Refinement: \<open>rtw_get_sec_ie\<close> on a frame of twelve fixed bytes and well-formed elements computes
  the fold of one step per element: the last WPA element and the last RSN element win, each
  copied whole to the caller's buffer, with its length; the result is the sum of the lengths.\<close>

theorem rtw_get_sec_ie_fold:
  assumes "\<forall>x \<in> set xs. wf_ie x \<and> (fst x = 0xdd \<longrightarrow> 4 \<le> length (snd x))" "length fx = 12"
    and "dst_ok (wpa_ie out)" "dst_ok (rsn_ie out)"
  shows "rtw_get_sec_ie (pre @ fx @ enc_ies xs @ post) (length pre) (12 + length (enc_ies xs)) out
    = (let out' = fold sec_step xs out in Some (uint (rsn_len out') + uint (wpa_len out'), out'))"
  using rtw_get_sec_ie_loop_enc [OF assms(1,3,4), of pre fx post] assms(2)
  by (simp add: rtw_get_sec_ie_def Let_def)

theorem rtw_get_sec_ie_fold_witness:
  "rtw_get_sec_ie ([] @ replicate 12 0 @ enc_ies [(0x30, [1]), (3, [6]), (0x30, [2, 2])] @ []) 0 22
      \<lparr>rsn_ie = None, rsn_len = 0, wpa_ie = None, wpa_len = 0\<rparr>
    = Some (4, \<lparr>rsn_ie = None, rsn_len = 4, wpa_ie = None, wpa_len = 0\<rparr>)"
  using rtw_get_sec_ie_fold [of "[(0x30, [1]), (3, [6]), (0x30, [2, 2])]" "replicate 12 0"
      "\<lparr>rsn_ie = None, rsn_len = 0, wpa_ie = None, wpa_len = 0\<rparr>" "[]" "[]"]
  by (simp add: wf_ie_def dst_ok_def sec_step_def put_ie_def Let_def)

lemma wpa_pairwise_Some:
  assumes "int pos + left \<le> int (length b)"
  shows "\<exists>r. wpa_pairwise b pos left gc pc akm = Some r"
proof -
  obtain ok p l c where 1: "(if left \<ge> 2 then do {
          count \<leftarrow> RTW_GET_LE16 b pos;
          if count = 0 \<or> left - 2 < uint count * 4 then Some (False, pos, left, pc)
          else do {
            pc \<leftarrow> suites_or rtw_get_wpa_cipher_suite b (pos + 2) (unat count) pc;
            Some (True, pos + 2 + 4 * unat count, left - 2 - 4 * uint count, pc) } }
        else Some (left \<noteq> 1, pos, left, pc)) = Some (ok, p, l, c)" "int p + l \<le> int (length b)"
  proof (cases "left \<ge> 2")
    case True
    then obtain v where v: "RTW_GET_LE16 b pos = Some v" using LE16_Some [of pos b] assms by auto
    have u: "int (unat v) = uint v" by simp
    show ?thesis
    proof (cases "v = 0 \<or> left - 2 < uint v * 4")
      case True
      with v \<open>left \<ge> 2\<close> assms that show ?thesis by auto
    next
      case False
      then have "pos + 2 + 4 * unat v \<le> length b" using assms u by linarith
      then obtain c where "suites_or rtw_get_wpa_cipher_suite b (pos + 2) (unat v) pc = Some c"
        using suites_or_Some [of b rtw_get_wpa_cipher_suite "pos + 2" "unat v" pc] wpa_suite_Some by blast
      with v False \<open>left \<ge> 2\<close> assms that show ?thesis by auto
    qed
  next
    case False
    with assms that show ?thesis by auto
  qed
  have "rtw_memcmp b (p + 2) [0x00, 0x50, 0xf2, 1] 4 \<noteq> None" if "l \<ge> 6"
    using 1(2) that by (subst rtw_memcmp_eq_None) auto
  then show ?thesis unfolding wpa_pairwise_def 1(1)
    by (cases akm; cases ok; cases "l \<ge> 6") auto
qed

text \<open>Safety: \<open>rtw_parse_wpa_ie\<close> returns without touching memory outside the element for every byte
  string of at least six bytes, and for a length of zero or less without reading at all. (The
  OUI is compared before the length is checked: a shorter element is read beyond its end.)\<close>

theorem rtw_parse_wpa_ie_safe:
  assumes "n \<le> 0 \<or> 6 \<le> n \<and> int p + n \<le> int (length b)"
  shows "\<exists>r. rtw_parse_wpa_ie b p n gc pc akm = Some r"
proof (cases "n \<le> 0")
  case True
  then show ?thesis by (intro exI [of _ "(False, gc, pc, akm)"]) (simp add: rtw_parse_wpa_ie_def)
next
  case False
  with assms have n: "6 \<le> n" "int p + n \<le> int (length b)" by auto
  then have "p + 1 < length b" "p + 2 + 4 \<le> length b" by linarith+
  then obtain x y z where r: "rd b p = Some x" "rd b (Suc p) = Some y"
      "rtw_memcmp b (Suc (Suc p)) RTW_WPA_OUI_TYPE 4 = Some z"
    by (auto simp: rd_def rtw_memcmp_Some RTW_WPA_OUI_TYPE_def)
  have w1: "\<exists>r. wpa_pairwise b (p + 12) (n - 12) gc' pc akm = Some r" for gc'
    using wpa_pairwise_Some [of "p + 12" "n - 12" b gc' pc akm] n by simp
  have w2: "\<exists>r. wpa_pairwise b (p + 8) (n - 8) gc pc akm = Some r"
    using wpa_pairwise_Some [of "p + 8" "n - 8" b gc pc akm] n by simp
  have g: "\<exists>c. rtw_get_wpa_cipher_suite b (p + 8) = Some c" if "4 \<le> n - 8"
    using n that wpa_suite_Some [of "p + 8" b] by auto
  show ?thesis
    using False r w1 w2 g by (auto simp: rtw_parse_wpa_ie_def Let_def add.commute [of 12])
qed

theorem rtw_parse_wpa_ie_safe_witness:
  "\<exists>r. rtw_parse_wpa_ie [0xdd, 6, 0, 0x50, 0xf2, 1, 1, 0] 0 8 0 0 None = Some r"
  using rtw_parse_wpa_ie_safe [of 8 0 "[0xdd, 6, 0, 0x50, 0xf2, 1, 1, 0]" 0 0 None] by simp

end
