(* ===== verification/Ie_Elems.thy ===== *)
theory Ie_Elems
  imports Ie_Tlv
begin

text \<open>
  The element parser of management frames (\<^verbatim>\<open>core/rtw_ieee80211.c\<close>):
  \<open>rtw_ieee802_11_parse_elems\<close> and \<open>rtw_ieee802_11_parse_vendor_specific\<close>.
  \<open>struct rtw_ieee802_11_elems\<close> is one (pointer, length) pair per field; here it is a map
  from field names to (offset, length), \<open>None\<close> for a \<open>NULL\<close> pointer with length 0.
\<close>

subsection \<open>The parser\<close>

datatype elem_field =
    E_ssid | E_supp_rates | E_fh_params | E_ds_params | E_cf_params | E_tim | E_ibss_params
  | E_challenge | E_erp_info | E_ext_supp_rates | E_wpa_ie | E_rsn_ie | E_wme | E_wme_tspec | E_wps_ie
  | E_power_cap | E_supp_channels | E_mdie | E_ftie | E_timeout_int | E_ht_capabilities
  | E_ht_operation | E_vendor_ht_cap | E_vht_capabilities | E_vht_operation | E_vht_op_mode_notify
  | E_rm_en_cap

type_synonym elems = "elem_field \<rightharpoonup> nat \<times> u8"

datatype parse_res = ParseOK | ParseUnknown | ParseFailed

text \<open>The result is whether the element was ignored (return value -1), and the new structure.\<close>

definition rtw_ieee802_11_parse_vendor_specific :: "buf \<Rightarrow> nat \<Rightarrow> u8 \<Rightarrow> elems \<Rightarrow> (bool \<times> elems) option" where
  "rtw_ieee802_11_parse_vendor_specific b pos elen elems =
     (if elen < 4 then Some (True, elems)
      else do {
        oui \<leftarrow> RTW_GET_BE24 b pos;
        if oui = 0x0050f2 then do {
          t \<leftarrow> rd b (pos + 3);
          if t = 1 then Some (False, elems(E_wpa_ie \<mapsto> (pos, elen)))
          else if t = 2 then
            (if elen < 5 then Some (True, elems)
             else do {
               st \<leftarrow> rd b (pos + 4);
               if st = 0 \<or> st = 1 then Some (False, elems(E_wme \<mapsto> (pos, elen)))
               else if st = 2 then Some (False, elems(E_wme_tspec \<mapsto> (pos, elen)))
               else Some (True, elems) })
          else if t = 4 then Some (False, elems(E_wps_ie \<mapsto> (pos, elen)))
          else Some (True, elems) }
        else if oui = 0x00904c then do {
          t \<leftarrow> rd b (pos + 3);
          if t = 0x33 then Some (False, elems(E_vendor_ht_cap \<mapsto> (pos, elen)))
          else Some (True, elems) }
        else Some (True, elems) })"

text \<open>The \<open>switch (id)\<close> of \<open>rtw_ieee802_11_parse_elems\<close>, except for vendor elements.\<close>

definition elem_field_of_id :: "u8 \<Rightarrow> elem_field option" where
  "elem_field_of_id eid =
     (if eid = 0 then Some E_ssid else if eid = 1 then Some E_supp_rates
      else if eid = 2 then Some E_fh_params else if eid = 3 then Some E_ds_params
      else if eid = 4 then Some E_cf_params else if eid = 5 then Some E_tim
      else if eid = 6 then Some E_ibss_params else if eid = 16 then Some E_challenge
      else if eid = 42 then Some E_erp_info else if eid = 50 then Some E_ext_supp_rates
      else if eid = 48 then Some E_rsn_ie else if eid = 33 then Some E_power_cap
      else if eid = 36 then Some E_supp_channels else if eid = 54 then Some E_mdie
      else if eid = 55 then Some E_ftie else if eid = 56 then Some E_timeout_int
      else if eid = 45 then Some E_ht_capabilities else if eid = 61 then Some E_ht_operation
      else if eid = 191 then Some E_vht_capabilities else if eid = 192 then Some E_vht_operation
      else if eid = 199 then Some E_vht_op_mode_notify else if eid = 70 then Some E_rm_en_cap
      else None)"

definition parse_elem :: "buf \<Rightarrow> u8 \<Rightarrow> nat \<Rightarrow> u8 \<Rightarrow> elems \<Rightarrow> (bool \<times> elems) option" where
  "parse_elem b eid pos elen elems =
     (if eid = 221 then rtw_ieee802_11_parse_vendor_specific b pos elen elems
      else case elem_field_of_id eid of
             Some f \<Rightarrow> Some (False, elems(f \<mapsto> (pos, elen)))
           | None \<Rightarrow> Some (True, elems))"

function parse_elems_loop :: "buf \<Rightarrow> nat \<Rightarrow> nat \<Rightarrow> nat \<Rightarrow> elems \<Rightarrow> (parse_res \<times> elems) option" where
  "parse_elems_loop b pos left unknown elems =
     (if left \<ge> 2 then
        case rd b pos of None \<Rightarrow> None | Some eid \<Rightarrow>
        (case rd b (pos + 1) of None \<Rightarrow> None | Some elen \<Rightarrow>
           if unat elen > left - 2 then Some (ParseFailed, elems)
           else (case parse_elem b eid (pos + 2) elen elems of None \<Rightarrow> None
                 | Some (ign, elems') \<Rightarrow>
                     parse_elems_loop b (pos + 2 + unat elen) (left - 2 - unat elen)
                       (if ign then unknown + 1 else unknown) elems'))
      else Some (if left \<noteq> 0 then ParseFailed else if unknown \<noteq> 0 then ParseUnknown else ParseOK, elems))"
  by pat_completeness auto
termination
  by (relation "measure (\<lambda>(b, pos, left, unknown, elems). left)") auto

declare parse_elems_loop.simps [simp del]

definition rtw_ieee802_11_parse_elems :: "buf \<Rightarrow> nat \<Rightarrow> nat \<Rightarrow> (parse_res \<times> elems) option" where
  "rtw_ieee802_11_parse_elems b start len = parse_elems_loop b start len 0 Map.empty"

subsection \<open>The parser as a function of the element list\<close>

definition vendor_field :: "buf \<Rightarrow> elem_field option" where
  "vendor_field body =
     (if length body < 4 then None
      else if take 3 body = [0x00, 0x50, 0xf2] then
        (if body ! 3 = 1 then Some E_wpa_ie
         else if body ! 3 = 2 then
           (if length body < 5 then None
            else if body ! 4 = 0 \<or> body ! 4 = 1 then Some E_wme
            else if body ! 4 = 2 then Some E_wme_tspec else None)
         else if body ! 3 = 4 then Some E_wps_ie else None)
      else if take 3 body = [0x00, 0x90, 0x4c] then
        (if body ! 3 = 0x33 then Some E_vendor_ht_cap else None)
      else None)"

definition ie_field :: "ie \<Rightarrow> elem_field option" where
  "ie_field x = (if fst x = 221 then vendor_field (snd x) else elem_field_of_id (fst x))"

lemma BE24_eq_iff:
  "(push_bit 16 (ucast a) OR push_bit 8 (ucast b) OR ucast c :: u32)
     = (push_bit 16 (ucast a') OR push_bit 8 (ucast b') OR ucast c') \<longleftrightarrow>
   (a :: u8) = a' \<and> (b :: u8) = b' \<and> (c :: u8) = c'" (is "?l = ?r \<longleftrightarrow> _")
proof
  assume "?l = ?r"
  then have *: "bit ?l n = bit ?r n" for n by simp
  have "bit c n = bit c' n" if "n < 8" for n
    using * [of n] that by (auto simp: bit_simps dest: bit_imp_le_length)
  moreover have "bit b n = bit b' n" if "n < 8" for n
    using * [of "n + 8"] that by (auto simp: bit_simps dest: bit_imp_le_length)
  moreover have "bit a n = bit a' n" if "n < 8" for n
    using * [of "n + 16"] that by (auto simp: bit_simps dest: bit_imp_le_length)
  ultimately show "a = a' \<and> b = b' \<and> c = c'" by (auto intro!: bit_word_eqI)
qed simp

lemma BE24_ms: "(push_bit 16 (ucast a) OR push_bit 8 (ucast b) OR ucast c :: u32) = 0x0050f2
    \<longleftrightarrow> (a :: u8) = 0 \<and> (b :: u8) = 0x50 \<and> (c :: u8) = 0xf2"
  using BE24_eq_iff [of a b c 0 "0x50" "0xf2"] by simp

lemma BE24_bc: "(push_bit 16 (ucast a) OR push_bit 8 (ucast b) OR ucast c :: u32) = 0x00904c
    \<longleftrightarrow> (a :: u8) = 0 \<and> (b :: u8) = 0x90 \<and> (c :: u8) = 0x4c"
  using BE24_eq_iff [of a b c 0 "0x90" "0x4c"] by simp

lemma u8_less_numeral:
  "n < 256 \<Longrightarrow> (of_nat n :: u8) < 4 \<longleftrightarrow> n < 4"
  "n < 256 \<Longrightarrow> (of_nat n :: u8) < 5 \<longleftrightarrow> n < 5"
  by (simp_all add: word_less_nat_alt)

lemma parse_vendor_enc:
  assumes "length body \<le> 255" "p = length pre"
  shows "rtw_ieee802_11_parse_vendor_specific (pre @ body @ suf) p (of_nat (length body)) elems
    = Some (case vendor_field body of None \<Rightarrow> (True, elems)
            | Some f \<Rightarrow> (False, elems(f \<mapsto> (p, of_nat (length body)))))"
proof (cases "length body < 4")
  case True
  then show ?thesis
    by (simp add: rtw_ieee802_11_parse_vendor_specific_def vendor_field_def u8_less_numeral)
next
  case False
  then obtain a0 a1 a2 a3 rest where body: "body = a0 # a1 # a2 # a3 # rest"
    by (auto simp: not_less Suc_le_length_iff eval_nat_numeral)
  let ?b = "pre @ body @ suf"
  have r: "RTW_GET_BE24 ?b p = Some (push_bit 16 (ucast a0) OR push_bit 8 (ucast a1) OR ucast a2)"
    "rd ?b (p + 3) = Some a3"
    using assms(2) body by (simp_all add: RTW_GET_BE24_def rd_def nth_append)
  have r4: "rd ?b (p + 4) = Some (body ! 4)" if "5 \<le> length body"
    using assms(2) that by (simp add: rd_def nth_append)
  have lt: "(of_nat (length body) :: u8) < 4 \<longleftrightarrow> length body < 4"
    "(of_nat (length body) :: u8) < 5 \<longleftrightarrow> length body < 5"
    using assms(1) by (simp_all add: u8_less_numeral)
  have t: "take 3 body = [x, y, z] \<longleftrightarrow> a0 = x \<and> a1 = y \<and> a2 = z" for x y z
    using body by simp
  have n3: "body ! 3 = a3" using body by simp
  show ?thesis
  proof (cases "length body < 5")
    case True
    then show ?thesis
      using False
      by (simp add: rtw_ieee802_11_parse_vendor_specific_def vendor_field_def r lt BE24_ms BE24_bc t n3)
  next
    case False
    then have l5: "5 \<le> length body" by simp
    show ?thesis
      using False \<open>\<not> length body < 4\<close>
      by (simp add: rtw_ieee802_11_parse_vendor_specific_def vendor_field_def r r4 [OF l5] lt
          BE24_ms BE24_bc t n3)
  qed
qed

definition put_field :: "nat \<Rightarrow> ie \<Rightarrow> elems \<Rightarrow> elems" where
  "put_field p x elems = (case ie_field x of None \<Rightarrow> elems
     | Some f \<Rightarrow> elems(f \<mapsto> (p, of_nat (length (snd x)))))"

lemma parse_elem_enc:
  assumes "wf_ie x" "p = length pre"
  shows "parse_elem (pre @ enc_ie x @ suf) (fst x) (p + 2) (of_nat (length (snd x))) elems
    = Some (ie_field x = None, put_field (p + 2) x elems)"
  using assms parse_vendor_enc [of "snd x" "p + 2" "pre @ [fst x, of_nat (length (snd x))]" suf elems]
  by (auto simp: parse_elem_def put_field_def ie_field_def wf_ie_def enc_ie_def split: option.splits)

lemma parse_elems_loop_step:
  assumes "wf_ie x" "p = length pre" "length (snd x) + 2 \<le> left"
  shows "parse_elems_loop (pre @ enc_ie x @ suf) p left unknown elems
    = parse_elems_loop (pre @ enc_ie x @ suf) (p + length (enc_ie x)) (left - length (enc_ie x))
        (if ie_field x = None then unknown + 1 else unknown) (put_field (p + 2) x elems)"
proof -
  have "\<not> left - 2 < length (snd x)" using assms(3) by simp
  then show ?thesis
    using assms parse_elem_enc [OF assms(1,2), of suf elems]
    by (subst parse_elems_loop.simps) (simp add: mem_simps)
qed

text \<open>What the fields hold: the body of the last element for the field.\<close>

definition field_bytes :: "buf \<Rightarrow> elems \<Rightarrow> elem_field \<Rightarrow> buf option" where
  "field_bytes b elems f = map_option (\<lambda>(p, l). take (unat l) (drop p b)) (elems f)"

lemma field_bytes_put:
  assumes "wf_ie x" "p = length pre + 2"
  shows "field_bytes (pre @ enc_ie x @ suf) (put_field p x elems) f
    = (if ie_field x = Some f then Some (snd x) else field_bytes (pre @ enc_ie x @ suf) elems f)"
  using assms by (auto simp: field_bytes_def put_field_def enc_ie_def wf_ie_def split: option.splits)

definition parse_res_of :: "bool \<Rightarrow> parse_res" where
  "parse_res_of unknown = (if unknown then ParseUnknown else ParseOK)"

lemma find_snoc:
  "find P (ys @ [x]) = (case find P ys of None \<Rightarrow> if P x then Some x else None | Some y \<Rightarrow> Some y)"
  by (induction ys) auto

lemma parse_elems_loop_enc:
  assumes "\<forall>x \<in> set xs. wf_ie x" "p = length pre"
  shows "\<exists>elems'. parse_elems_loop (pre @ enc_ies xs @ post) p (length (enc_ies xs)) unknown elems
      = Some (parse_res_of (unknown \<noteq> 0 \<or> (\<exists>x \<in> set xs. ie_field x = None)), elems')
    \<and> (\<forall>f. field_bytes (pre @ enc_ies xs @ post) elems' f =
        (case find (\<lambda>x. ie_field x = Some f) (rev xs) of
           None \<Rightarrow> field_bytes (pre @ enc_ies xs @ post) elems f | Some x \<Rightarrow> Some (snd x)))"
  using assms
proof (induction xs arbitrary: pre p unknown elems)
  case Nil
  then show ?case by (simp add: parse_elems_loop.simps parse_res_of_def)
next
  case (Cons x xs)
  let ?b = "pre @ enc_ies (x # xs) @ post"
  let ?u = "if ie_field x = None then unknown + 1 else unknown"
  let ?e = "put_field (p + 2) x elems"
  have w: "\<forall>x \<in> set xs. wf_ie x" "p + length (enc_ie x) = length (pre @ enc_ie x)"
    using Cons.prems by simp_all
  have beq: "(pre @ enc_ie x) @ enc_ies xs @ post = ?b" by simp
  have step: "parse_elems_loop ?b p (length (enc_ies (x # xs))) unknown elems
    = parse_elems_loop ?b (p + length (enc_ie x)) (length (enc_ies xs)) ?u ?e"
    using parse_elems_loop_step [of x p pre "length (enc_ies (x # xs))" "enc_ies xs @ post"] Cons.prems
    by simp
  obtain elems' where e: "parse_elems_loop ?b (p + length (enc_ie x)) (length (enc_ies xs)) ?u ?e
      = Some (parse_res_of (?u \<noteq> 0 \<or> (\<exists>x \<in> set xs. ie_field x = None)), elems')"
    "\<forall>f. field_bytes ?b elems' f = (case find (\<lambda>x. ie_field x = Some f) (rev xs) of
           None \<Rightarrow> field_bytes ?b ?e f | Some x \<Rightarrow> Some (snd x))"
    using Cons.IH [OF w, of ?u ?e, unfolded beq] by (elim exE conjE)
  have fb: "field_bytes ?b ?e f = (if ie_field x = Some f then Some (snd x) else field_bytes ?b elems f)" for f
    using field_bytes_put [of x "p + 2" pre "enc_ies xs @ post" elems f] Cons.prems by simp
  have f: "field_bytes ?b elems' f = (case find (\<lambda>x. ie_field x = Some f) (rev (x # xs)) of
      None \<Rightarrow> field_bytes ?b elems f | Some x \<Rightarrow> Some (snd x))" for f
    unfolding e(2) [rule_format] fb rev.simps find_snoc by (simp split: option.split)
  have u: "(?u \<noteq> 0 \<or> (\<exists>x \<in> set xs. ie_field x = None))
      = (unknown \<noteq> 0 \<or> (\<exists>x \<in> set (x # xs). ie_field x = None))" by auto
  show ?case
    by (rule exI [of _ elems'], rule conjI [OF trans [OF step e(1) [unfolded u]]], rule allI, rule f)
qed

subsection \<open>The parser on any input\<close>

definition elems_in :: "nat \<Rightarrow> nat \<Rightarrow> elems \<Rightarrow> bool" where
  "elems_in lo e elems \<longleftrightarrow> (\<forall>f p l. elems f = Some (p, l) \<longrightarrow> lo \<le> p \<and> p + unat l \<le> e)"

definition is_ies :: "buf \<Rightarrow> bool" where
  "is_ies b \<longleftrightarrow> (\<exists>xs. (\<forall>x \<in> set xs. wf_ie x) \<and> b = enc_ies xs)"

lemma elems_in_empty [simp]: "elems_in lo e Map.empty"
  by (simp add: elems_in_def)

lemma parse_elem_any:
  assumes "elems_in lo e elems" "lo \<le> pos" "pos + unat elen \<le> e" "e \<le> length b"
  shows "\<exists>ign elems'. parse_elem b eid pos elen elems = Some (ign, elems') \<and> elems_in lo e elems'"
proof -
  let ?body = "take (unat elen) (drop pos b)"
  have l: "length ?body = unat elen" using assms(3,4) by simp
  have u: "(of_nat (unat elen) :: u8) = elen" by simp
  have b: "b = take pos b @ ?body @ drop (pos + unat elen) b"
    by (metis append_take_drop_id drop_drop add.commute)
  have "rtw_ieee802_11_parse_vendor_specific b pos elen elems
    = Some (case vendor_field ?body of None \<Rightarrow> (True, elems) | Some f \<Rightarrow> (False, elems(f \<mapsto> (pos, elen))))"
    using parse_vendor_enc [of ?body pos "take pos b" "drop (pos + unat elen) b" elems,
        unfolded l u] b assms(3,4) by simp
  moreover have "elems_in lo e (elems(f \<mapsto> (pos, elen)))" for f
    using assms(1-3) by (simp add: elems_in_def)
  ultimately show ?thesis using assms(1) by (auto simp: parse_elem_def split: option.splits)
qed

lemma is_ies_step:
  assumes "2 \<le> length c"
  shows "is_ies c \<longleftrightarrow> unat (c ! 1) \<le> length c - 2 \<and> is_ies (drop (2 + unat (c ! 1)) c)"
proof -
  from assms obtain a l r where c: "c = a # l # r"
    by (auto simp: Suc_le_length_iff eval_nat_numeral)
  have c1: "c ! 1 = l" using c by simp
  show ?thesis
  proof
    assume "is_ies c"
    then obtain xs where xs: "\<forall>x \<in> set xs. wf_ie x" "c = enc_ies xs" by (auto simp: is_ies_def)
    with c obtain x ys where x: "xs = x # ys" by (cases xs) auto
    with xs c have "l = of_nat (length (snd x))" "r = snd x @ enc_ies ys" by (auto simp: enc_ie_def)
    moreover from this xs x have "unat l = length (snd x)" by simp
    ultimately show "unat (c ! 1) \<le> length c - 2 \<and> is_ies (drop (2 + unat (c ! 1)) c)"
      using xs x c by (auto simp: is_ies_def)
  next
    assume *: "unat (c ! 1) \<le> length c - 2 \<and> is_ies (drop (2 + unat (c ! 1)) c)"
    then obtain ys where ys: "\<forall>x \<in> set ys. wf_ie x" "drop (unat l) r = enc_ies ys"
      using c by (auto simp: is_ies_def)
    let ?x = "(a, take (unat l) r)"
    have "length (snd ?x) = unat l" using * c by simp
    then have "wf_ie ?x" "c = enc_ies (?x # ys)" using ys c by (simp_all add: wf_ie_def enc_ie_def ys(2) [symmetric])
    with ys(1) show "is_ies c" unfolding is_ies_def by (metis set_ConsD)
  qed
qed

lemma is_ies_short: "length c < 2 \<Longrightarrow> is_ies c \<longleftrightarrow> c = []"
  unfolding is_ies_def by (auto, metis enc_ies_simps(1) enc_ies_simps(2) length_append length_enc_ie neq_Nil_conv
      not_add_less2 not_less add.commute add_leD1, metis empty_iff enc_ies_simps(1) list.set(1))

lemma parse_elems_loop_any:
  assumes "lo \<le> pos" "pos + left = e" "e \<le> length b" "elems_in lo e elems"
  shows "\<exists>res elems'. parse_elems_loop b pos left unknown elems = Some (res, elems')
    \<and> elems_in lo e elems' \<and> (res = ParseFailed \<longleftrightarrow> \<not> is_ies (take left (drop pos b)))"
  using assms
proof (induction left arbitrary: pos unknown elems rule: less_induct)
  case (less left)
  let ?c = "take left (drop pos b)"
  have lc: "length ?c = left" using less.prems by simp
  show ?case
  proof (cases "left < 2")
    case True
    with less.prems lc is_ies_short [of ?c] show ?thesis
      by (subst parse_elems_loop.simps) auto
  next
    case False
    then obtain x where x: "rd b pos = Some x" using less.prems by (auto simp: rd_def)
    have l: "rd b (pos + 1) = Some (?c ! 1)" using False less.prems by (simp add: rd_def)
    let ?l = "unat (?c ! 1)"
    note ies = is_ies_step [of ?c, unfolded lc]
    show ?thesis
    proof (cases "?l > left - 2")
      case True
      with False x l ies less.prems show ?thesis by (subst parse_elems_loop.simps) auto
    next
      case fit: False
      obtain ign elems' where p: "parse_elem b x (pos + 2) (?c ! 1) elems = Some (ign, elems')"
        "elems_in lo e elems'"
      proof -
        have le: "lo \<le> pos + 2" "pos + 2 + ?l \<le> e" using less.prems False fit by linarith+
        show ?thesis
          using that parse_elem_any [OF less.prems(4) le less.prems(3), of x] by blast
      qed
      have d: "drop (2 + ?l) ?c = take (left - 2 - ?l) (drop (pos + 2 + ?l) b)"
        by (simp add: drop_take add.commute add.left_commute)
      have "\<exists>res elems''. parse_elems_loop b (pos + 2 + ?l) (left - 2 - ?l)
          (if ign then unknown + 1 else unknown) elems' = Some (res, elems'')
        \<and> elems_in lo e elems'' \<and> (res = ParseFailed \<longleftrightarrow> \<not> is_ies (drop (2 + ?l) ?c))"
        unfolding d using less.prems p(2) False fit by (intro less.IH) auto
      moreover have "parse_elems_loop b pos left unknown elems = parse_elems_loop b (pos + 2 + ?l) (left - 2 - ?l)
          (if ign then unknown + 1 else unknown) elems'"
        using False fit x l p(1) by (subst parse_elems_loop.simps) simp
      ultimately show ?thesis using ies False fit by simp
    qed
  qed
qed

subsection \<open>Properties\<close>

text \<open>C12. Safety: for every byte string, \<open>rtw_ieee802_11_parse_elems\<close> returns and reads only inside it;
  every (pointer, length) pair it stores lies inside it; and it reports \<open>ParseFailed\<close> exactly
  when the bytes are not a sequence of complete elements.\<close>

theorem rtw_ieee802_11_parse_elems_safe:
  assumes "start + len \<le> length b"
  shows "\<exists>res elems. rtw_ieee802_11_parse_elems b start len = Some (res, elems)
    \<and> elems_in start (start + len) elems
    \<and> (res = ParseFailed \<longleftrightarrow> \<not> is_ies (take len (drop start b)))"
  using parse_elems_loop_any [of start start len "start + len" b Map.empty 0] assms
  by (simp add: rtw_ieee802_11_parse_elems_def)

theorem rtw_ieee802_11_parse_elems_safe_witness:
  "\<exists>res elems. rtw_ieee802_11_parse_elems [0, 1, 65, 3, 9] 0 5 = Some (res, elems)
    \<and> elems_in 0 5 elems \<and> (res = ParseFailed \<longleftrightarrow> \<not> is_ies [0, 1, 65, 3, 9])"
  using rtw_ieee802_11_parse_elems_safe [of 0 5 "[0, 1, 65, 3, 9]"] by simp

text \<open>C24. Refinement: on well-formed elements the parser stores for each field the body of the last
  element that belongs to the field, \<open>NULL\<close> when there is none, and returns \<open>ParseOK\<close> when
  every element is known and \<open>ParseUnknown\<close> otherwise.\<close>

theorem rtw_ieee802_11_parse_elems_last:
  assumes "\<forall>x \<in> set xs. wf_ie x"
  shows "\<exists>elems. rtw_ieee802_11_parse_elems (pre @ enc_ies xs @ post) (length pre) (length (enc_ies xs))
      = Some (if \<exists>x \<in> set xs. ie_field x = None then ParseUnknown else ParseOK, elems)
    \<and> (\<forall>f. field_bytes (pre @ enc_ies xs @ post) elems f
           = map_option snd (find (\<lambda>x. ie_field x = Some f) (rev xs)))"
proof -
  let ?b = "pre @ enc_ies xs @ post"
  obtain elems where e: "parse_elems_loop ?b (length pre) (length (enc_ies xs)) 0 Map.empty
      = Some (parse_res_of (0 \<noteq> (0 :: nat) \<or> (\<exists>x \<in> set xs. ie_field x = None)), elems)"
    "\<forall>f. field_bytes ?b elems f = (case find (\<lambda>x. ie_field x = Some f) (rev xs) of
        None \<Rightarrow> field_bytes ?b Map.empty f | Some x \<Rightarrow> Some (snd x))"
    using parse_elems_loop_enc [OF assms refl, of pre post 0 Map.empty] by (elim exE conjE) simp
  have "field_bytes ?b elems f = map_option snd (find (\<lambda>x. ie_field x = Some f) (rev xs))" for f
    unfolding e(2) [rule_format] by (simp add: field_bytes_def split: option.split)
  with e(1) show ?thesis
    by (intro exI [of _ elems]) (simp add: rtw_ieee802_11_parse_elems_def parse_res_of_def)
qed

theorem rtw_ieee802_11_parse_elems_last_witness:
  "\<exists>elems. rtw_ieee802_11_parse_elems ([] @ enc_ies [(0, [65]), (7, []), (0, [66, 67])] @ []) 0 9
      = Some (ParseUnknown, elems)
    \<and> field_bytes ([] @ enc_ies [(0, [65]), (7, []), (0, [66, 67])] @ []) elems E_ssid = Some [66, 67]"
proof -
  let ?xs = "[(0, [65]), (7, []), (0, [66, 67])] :: ie list"
  have v: "\<forall>x \<in> set ?xs. wf_ie x" "\<exists>x \<in> set ?xs. ie_field x = None" "length (enc_ies ?xs) = 9"
    "map_option snd (find (\<lambda>x. ie_field x = Some E_ssid) (rev ?xs)) = Some [66, 67]"
    by code_simp+
  show ?thesis
    using rtw_ieee802_11_parse_elems_last [OF v(1), of "[]" "[]"] v(2) unfolding v(3) v(4) [symmetric] by auto
qed

end
