(* ===== verification/Ie_Attr.thy ===== *)
theory Ie_Attr
  imports Ie_Rates
begin

text \<open>
  Vendor elements and their attributes (\<^verbatim>\<open>core/rtw_ieee80211.c\<close>): the searches for WPS, OWE,
  P2P and WFD elements, their removal, the attribute searches inside a WPS, P2P or WFD element,
  and the removal and merging of P2P parts. The four element searches are the same loop with
  another id and leading bytes, so they share \<open>vendor_ie_loop\<close>; the locale \<open>vendor_search\<close>
  carries their contract. The attribute loops advance by a 16-bit length that wraps around, so
  whether they end depends on the input: they are step functions run by \<open>run_loop\<close>.
\<close>

subsection \<open>Searching vendor elements\<close>

definition MAX_IE_SZ :: nat where "MAX_IE_SZ = 768"

definition vie_test :: "u8 \<Rightarrow> buf \<Rightarrow> buf \<Rightarrow> nat \<Rightarrow> bool option" where
  "vie_test eid pat b p = do {
     e \<leftarrow> rd b p;
     if e = eid then rtw_memcmp b (p + 2) pat (length pat) else Some False }"

function vendor_ie_loop :: "u8 \<Rightarrow> buf \<Rightarrow> buf \<Rightarrow> nat \<Rightarrow> nat \<Rightarrow> nat \<Rightarrow> nat option option" where
  "vendor_ie_loop eid pat b in_ie in_len cnt =
     (if cnt + 1 + 4 < in_len then
        case rd b (in_ie + cnt) of None \<Rightarrow> None | Some _ \<Rightarrow>
        if cnt + 1 + 4 \<ge> MAX_IE_SZ then Some None
        else (case vie_test eid pat b (in_ie + cnt) of None \<Rightarrow> None
              | Some True \<Rightarrow> Some (Some cnt)
              | Some False \<Rightarrow>
                  (case rd b (in_ie + cnt + 1) of None \<Rightarrow> None | Some l \<Rightarrow>
                     vendor_ie_loop eid pat b in_ie in_len (cnt + (unat l + 2))))
      else Some None)"
  by pat_completeness auto
termination
  by (relation "measure (\<lambda>(eid, pat, b, in_ie, in_len, cnt). in_len - cnt)") auto

declare vendor_ie_loop.simps [simp del]

definition get_vendor_ie ::
  "u8 \<Rightarrow> buf \<Rightarrow> buf \<Rightarrow> nat option \<Rightarrow> int \<Rightarrow> buf option \<Rightarrow> u32 option
   \<Rightarrow> (nat option \<times> buf option \<times> u32 option) option" where
  "get_vendor_ie eid pat b in_ie in_len ie ielen =
     (let ielen0 = map_option (\<lambda>_. 0) ielen in
      case in_ie of None \<Rightarrow> Some (None, ie, ielen0)
      | Some p \<Rightarrow>
          if in_len \<le> 0 then Some (None, ie, ielen0)
          else do {
            found \<leftarrow> vendor_ie_loop eid pat b p (nat in_len) 0;
            (case found of None \<Rightarrow> Some (None, ie, ielen0)
             | Some cnt \<Rightarrow> do {
                 (ie', ielen') \<leftarrow> copy_ie_out b (p + cnt) ie ielen0;
                 Some (Some (p + cnt), ie', ielen') }) })"

definition WPS_OUI :: buf where "WPS_OUI = [0x00, 0x50, 0xf2, 0x04]"
definition P2P_OUI :: buf where "P2P_OUI = [0x50, 0x6f, 0x9a, 0x09]"
definition WFD_OUI :: buf where "WFD_OUI = [0x50, 0x6f, 0x9a, 0x0a]"

definition rtw_get_wps_ie :: "buf \<Rightarrow> nat option \<Rightarrow> u32 \<Rightarrow> buf option \<Rightarrow> u32 option
   \<Rightarrow> (nat option \<times> buf option \<times> u32 option) option" where
  "rtw_get_wps_ie b in_ie in_len = get_vendor_ie 221 WPS_OUI b in_ie (uint in_len)"

definition rtw_get_owe_ie :: "buf \<Rightarrow> nat option \<Rightarrow> u32 \<Rightarrow> buf option \<Rightarrow> u32 option
   \<Rightarrow> (nat option \<times> buf option \<times> u32 option) option" where
  "rtw_get_owe_ie b in_ie in_len = get_vendor_ie 255 [32] b in_ie (uint in_len)"

definition rtw_get_p2p_ie :: "buf \<Rightarrow> nat option \<Rightarrow> u32 \<Rightarrow> buf option \<Rightarrow> u32 option
   \<Rightarrow> (nat option \<times> buf option \<times> u32 option) option" where
  "rtw_get_p2p_ie b in_ie in_len = get_vendor_ie 221 P2P_OUI b in_ie (sint in_len)"

definition rtw_get_wfd_ie :: "buf \<Rightarrow> nat option \<Rightarrow> u32 \<Rightarrow> buf option \<Rightarrow> u32 option
   \<Rightarrow> (nat option \<times> buf option \<times> u32 option) option" where
  "rtw_get_wfd_ie b in_ie in_len = get_vendor_ie 221 WFD_OUI b in_ie (sint in_len)"

definition rtw_is_wps_ie :: "buf \<Rightarrow> nat option \<Rightarrow> u32 \<Rightarrow> (bool \<times> u32) option" where
  "rtw_is_wps_ie b ie_ptr wps_ielen =
     (case ie_ptr of None \<Rightarrow> Some (False, wps_ielen)
      | Some p \<Rightarrow> do {
          eid \<leftarrow> rd b p;
          m \<leftarrow> (if eid = 0xdd then rtw_memcmp b (p + 2) WPS_OUI 4 else Some False);
          if m then do { l \<leftarrow> rd b (p + 1); Some (True, ucast l + 2) }
          else Some (False, wps_ielen) })"

datatype bss_type = BSS_TYPE_UNDEF | BSS_TYPE_PROB_REQ | BSS_TYPE_BCN | BSS_TYPE_PROB_RSP

definition rtw_get_wps_ie_from_scan_queue ::
  "buf \<Rightarrow> nat \<Rightarrow> u32 \<Rightarrow> buf option \<Rightarrow> u32 option \<Rightarrow> bss_type
   \<Rightarrow> (nat option \<times> buf option \<times> u32 option) option" where
  "rtw_get_wps_ie_from_scan_queue b in_ie in_len wps_ie wps_ielen frame_type =
     (case frame_type of
        BSS_TYPE_BCN \<Rightarrow> rtw_get_wps_ie b (Some (in_ie + 12)) (in_len - 12) wps_ie wps_ielen
      | BSS_TYPE_PROB_RSP \<Rightarrow> rtw_get_wps_ie b (Some (in_ie + 12)) (in_len - 12) wps_ie wps_ielen
      | BSS_TYPE_PROB_REQ \<Rightarrow> rtw_get_wps_ie b (Some (in_ie + 0)) (in_len - 0) wps_ie wps_ielen
      | BSS_TYPE_UNDEF \<Rightarrow> Some (None, wps_ie, wps_ielen))"

subsection \<open>Searching attributes\<close>

definition attr_out ::
  "buf \<Rightarrow> (nat \<times> u16) option \<Rightarrow> buf option \<Rightarrow> u32 option \<Rightarrow> (nat option \<times> buf option \<times> u32 option) option" where
  "attr_out b found buf_attr len_attr =
     (case found of None \<Rightarrow> Some (None, buf_attr, len_attr)
      | Some (p, attr_len) \<Rightarrow> do {
          d \<leftarrow> (case buf_attr of None \<Rightarrow> Some None
               | Some d \<Rightarrow> do { x \<leftarrow> rds b p (unat attr_len); d' \<leftarrow> wrs d 0 x; Some (Some d') });
          Some (Some p, d, map_option (\<lambda>_. ucast attr_len) len_attr) })"

definition wps_attr_step :: "buf \<Rightarrow> nat \<Rightarrow> u32 \<Rightarrow> u16 \<Rightarrow> nat \<Rightarrow> (nat, (nat \<times> u16) option) iteration" where
  "wps_attr_step b wps_ie wps_ielen target_attr_id attr_ptr =
     (if attr_ptr - wps_ie < unat wps_ielen then iter_of (do {
        attr_id \<leftarrow> RTW_GET_BE16 b attr_ptr;
        attr_data_len \<leftarrow> RTW_GET_BE16 b (attr_ptr + 2);
        let attr_len = attr_data_len + 4;
        Some (if attr_id = target_attr_id then Ret (Some (attr_ptr, attr_len))
              else Next (attr_ptr + unat attr_len)) })
      else Ret None)"

definition rtw_get_wps_attr ::
  "buf \<Rightarrow> nat \<Rightarrow> u32 \<Rightarrow> u16 \<Rightarrow> buf option \<Rightarrow> u32 option \<Rightarrow> (nat option \<times> buf option \<times> u32 option) option" where
  "rtw_get_wps_attr b wps_ie wps_ielen target_attr_id buf_attr len_attr = do {
     let len0 = map_option (\<lambda>_. 0) len_attr;
     e \<leftarrow> rd b wps_ie;
     good \<leftarrow> (if e \<noteq> 221 then Some False else rtw_memcmp b (wps_ie + 2) WPS_OUI 4);
     if \<not> good then Some (None, buf_attr, len0)
     else do {
       found \<leftarrow> run_loop (wps_attr_step b wps_ie wps_ielen target_attr_id) (wps_ie + 6);
       attr_out b found buf_attr len0 } }"

text \<open>
  The loop of \<open>rtw_get_p2p_attr\<close> and \<open>rtw_get_wfd_attr\<close>; they differ in the byte order of the
  attribute length, \<open>get16\<close>, and in the OUI.
\<close>

definition p2p_attr_step ::
  "(buf \<Rightarrow> nat \<Rightarrow> u16 option) \<Rightarrow> buf \<Rightarrow> nat \<Rightarrow> u32 \<Rightarrow> u8 \<Rightarrow> nat \<Rightarrow> (nat, (nat \<times> u16) option) iteration" where
  "p2p_attr_step get16 b ie ielen target_attr_id attr_ptr =
     (if attr_ptr - ie + 3 \<le> unat ielen then iter_of (do {
        attr_id \<leftarrow> rd b attr_ptr;
        attr_data_len \<leftarrow> get16 b (attr_ptr + 1);
        let attr_len = attr_data_len + 3;
        Some (if attr_ptr - ie + unat attr_len > unat ielen then Ret None
              else if attr_id = target_attr_id then Ret (Some (attr_ptr, attr_len))
              else Next (attr_ptr + unat attr_len)) })
      else Ret None)"

definition get_p2p_wfd_attr ::
  "(buf \<Rightarrow> nat \<Rightarrow> u16 option) \<Rightarrow> buf \<Rightarrow> buf \<Rightarrow> nat option \<Rightarrow> u32 \<Rightarrow> u8 \<Rightarrow> buf option \<Rightarrow> u32 option
   \<Rightarrow> (nat option \<times> buf option \<times> u32 option) option" where
  "get_p2p_wfd_attr get16 oui b ie ielen target_attr_id buf_attr len_attr =
     (let len0 = map_option (\<lambda>_. 0) len_attr in
      case ie of None \<Rightarrow> Some (None, buf_attr, len0)
      | Some p \<Rightarrow>
          if ielen \<le> 6 then Some (None, buf_attr, len0)
          else do {
            e \<leftarrow> rd b p;
            good \<leftarrow> (if e \<noteq> 221 then Some False else rtw_memcmp b (p + 2) oui 4);
            if \<not> good then Some (None, buf_attr, len0)
            else do {
              found \<leftarrow> run_loop (p2p_attr_step get16 b p ielen target_attr_id) (p + 6);
              attr_out b found buf_attr len0 } })"

definition rtw_get_p2p_attr :: "buf \<Rightarrow> nat option \<Rightarrow> u32 \<Rightarrow> u8 \<Rightarrow> buf option \<Rightarrow> u32 option
   \<Rightarrow> (nat option \<times> buf option \<times> u32 option) option" where
  "rtw_get_p2p_attr = get_p2p_wfd_attr RTW_GET_LE16 P2P_OUI"

definition rtw_get_wfd_attr :: "buf \<Rightarrow> nat option \<Rightarrow> u32 \<Rightarrow> u8 \<Rightarrow> buf option \<Rightarrow> u32 option
   \<Rightarrow> (nat option \<times> buf option \<times> u32 option) option" where
  "rtw_get_wfd_attr = get_p2p_wfd_attr RTW_GET_BE16 WFD_OUI"

text \<open>
  The content of an attribute found: \<open>hdr\<close> is the size of the attribute header. With a buffer
  and a length the content is clipped to the length; with a buffer alone one byte is copied.
\<close>

definition attr_content ::
  "buf \<Rightarrow> nat \<Rightarrow> (nat option \<times> u32) \<Rightarrow> buf option \<Rightarrow> u32 option \<Rightarrow> (nat option \<times> buf option \<times> u32 option) option" where
  "attr_content b hdr found buf_content len_content =
     (case found of
        (Some p, attr_len) \<Rightarrow>
          if attr_len \<noteq> 0 then do {
            let len' = map_option (\<lambda>n. if (buf_content \<noteq> None \<and> n > attr_len - of_nat hdr) \<or> buf_content = None
                                        then attr_len - of_nat hdr else n) len_content;
            d \<leftarrow> (case buf_content of None \<Rightarrow> Some None
                 | Some d \<Rightarrow> do {
                     x \<leftarrow> rds b (p + hdr) (case len' of Some n \<Rightarrow> unat n | None \<Rightarrow> 1);
                     d' \<leftarrow> wrs d 0 x; Some (Some d') });
            Some (Some (p + hdr), d, len') }
          else Some (None, buf_content, map_option (\<lambda>_. 0) len_content)
      | (None, _) \<Rightarrow> Some (None, buf_content, map_option (\<lambda>_. 0) len_content))"

definition rtw_get_wps_attr_content ::
  "buf \<Rightarrow> nat \<Rightarrow> u32 \<Rightarrow> u16 \<Rightarrow> buf option \<Rightarrow> u32 option \<Rightarrow> (nat option \<times> buf option \<times> u32 option) option" where
  "rtw_get_wps_attr_content b wps_ie wps_ielen target_attr_id buf_content len_content = do {
     (attr_ptr, _, attr_len) \<leftarrow> rtw_get_wps_attr b wps_ie wps_ielen target_attr_id None (Some 0);
     n \<leftarrow> attr_len;
     attr_content b 4 (attr_ptr, n) buf_content len_content }"

definition rtw_get_p2p_attr_content ::
  "buf \<Rightarrow> nat option \<Rightarrow> u32 \<Rightarrow> u8 \<Rightarrow> buf option \<Rightarrow> u32 option \<Rightarrow> (nat option \<times> buf option \<times> u32 option) option" where
  "rtw_get_p2p_attr_content b p2p_ie p2p_ielen target_attr_id buf_content len_content = do {
     (attr_ptr, _, attr_len) \<leftarrow> rtw_get_p2p_attr b p2p_ie p2p_ielen target_attr_id None (Some 0);
     n \<leftarrow> attr_len;
     attr_content b 3 (attr_ptr, n) buf_content len_content }"

definition rtw_get_wfd_attr_content ::
  "buf \<Rightarrow> nat option \<Rightarrow> u32 \<Rightarrow> u8 \<Rightarrow> buf option \<Rightarrow> u32 option \<Rightarrow> (nat option \<times> buf option \<times> u32 option) option" where
  "rtw_get_wfd_attr_content b wfd_ie wfd_ielen target_attr_id buf_content len_content = do {
     let len0 = map_option (\<lambda>_. 0) len_content;
     (attr_ptr, _, attr_len) \<leftarrow> rtw_get_wfd_attr b wfd_ie wfd_ielen target_attr_id None (Some 0);
     n \<leftarrow> attr_len;
     (case attr_ptr of
        Some p \<Rightarrow>
          if n \<noteq> 0 then do {
            d \<leftarrow> (case buf_content of None \<Rightarrow> Some None
                 | Some d \<Rightarrow> do { x \<leftarrow> rds b (p + 3) (unat (n - 3)); d' \<leftarrow> wrs d 0 x; Some (Some d') });
            Some (Some (p + 3), d, map_option (\<lambda>_. n - 3) len0) }
          else Some (None, buf_content, len0)
      | None \<Rightarrow> Some (None, buf_content, len0)) }"

definition rtw_set_p2p_attr_content :: "buf \<Rightarrow> nat \<Rightarrow> u8 \<Rightarrow> u16 \<Rightarrow> buf option \<Rightarrow> (buf \<times> u32) option" where
  "rtw_set_p2p_attr_content b pbuf attr_id attr_len pdata_attr = do {
     b1 \<leftarrow> wr b pbuf attr_id;
     b2 \<leftarrow> RTW_PUT_LE16 b1 (pbuf + 1) attr_len;
     b3 \<leftarrow> (case pdata_attr of None \<Rightarrow> Some b2
           | Some d \<Rightarrow> do { x \<leftarrow> rds d 0 (unat attr_len); wrs b2 (pbuf + 3) x });
     Some (b3, ucast attr_len + 3) }"

subsection \<open>Removing elements and attributes\<close>

text \<open>
  \<open>rtw_del_p2p_ie\<close> and \<open>rtw_del_wfd_ie\<close>: cut the element out, fill the freed bytes at the end
  with zeros, search again. \<open>get\<close> is the search; the state is the buffer and \<open>ies_len\<close>.
\<close>

definition cut_out :: "buf \<Rightarrow> nat \<Rightarrow> u32 \<Rightarrow> u32 \<Rightarrow> buf option" where
  "cut_out b target target_len remain_len = do {
     b1 \<leftarrow> rtw_memmove b target (target + unat target_len) (unat remain_len);
     rtw_memset b1 (target + unat remain_len) 0 (unat target_len) }"

definition del_ie_step ::
  "(buf \<Rightarrow> nat option \<Rightarrow> u32 \<Rightarrow> buf option \<Rightarrow> u32 option \<Rightarrow> (nat option \<times> buf option \<times> u32 option) option)
   \<Rightarrow> nat \<Rightarrow> buf \<times> u32 \<Rightarrow> (buf \<times> u32, buf \<times> u32) iteration" where
  "del_ie_step get ies s = (case s of (b, ies_len) \<Rightarrow> iter_of (do {
     (target_ie, _, len) \<leftarrow> get b (Some ies) ies_len None (Some 0);
     target_ie_len \<leftarrow> len;
     (case target_ie of
        Some t \<Rightarrow>
          if target_ie_len \<noteq> 0 then do {
            b' \<leftarrow> cut_out b t target_ie_len (ies_len - of_nat (t + unat target_ie_len - ies));
            Some (Next (b', ies_len - target_ie_len)) }
          else Some (Ret (b, ies_len))
      | None \<Rightarrow> Some (Ret (b, ies_len))) }))"

definition rtw_del_p2p_ie :: "buf \<Rightarrow> nat \<Rightarrow> u32 \<Rightarrow> (buf \<times> u32) option" where
  "rtw_del_p2p_ie b ies ies_len_ori = run_loop (del_ie_step rtw_get_p2p_ie ies) (b, ies_len_ori)"

definition rtw_del_wfd_ie :: "buf \<Rightarrow> nat \<Rightarrow> u32 \<Rightarrow> (buf \<times> u32) option" where
  "rtw_del_wfd_ie b ies ies_len_ori = run_loop (del_ie_step rtw_get_wfd_ie ies) (b, ies_len_ori)"

definition del_attr_step ::
  "(buf \<Rightarrow> nat option \<Rightarrow> u32 \<Rightarrow> u8 \<Rightarrow> buf option \<Rightarrow> u32 option \<Rightarrow> (nat option \<times> buf option \<times> u32 option) option)
   \<Rightarrow> nat \<Rightarrow> u8 \<Rightarrow> buf \<times> u32 \<Rightarrow> (buf \<times> u32, buf \<times> u32) iteration" where
  "del_attr_step get ie attr_id s = (case s of (b, ielen) \<Rightarrow> iter_of (do {
     (target_attr, _, len) \<leftarrow> get b (Some ie) ielen attr_id None (Some 0);
     target_attr_len \<leftarrow> len;
     (case target_attr of
        Some t \<Rightarrow>
          if target_attr_len \<noteq> 0 then do {
            b1 \<leftarrow> cut_out b t target_attr_len (ielen - of_nat (t + unat target_attr_len - ie));
            l \<leftarrow> rd b1 (ie + 1);
            b2 \<leftarrow> wr b1 (ie + 1) (l - ucast target_attr_len);
            Some (Next (b2, ielen - target_attr_len)) }
          else Some (Ret (b, ielen))
      | None \<Rightarrow> Some (Ret (b, ielen))) }))"

definition rtw_del_p2p_attr :: "buf \<Rightarrow> nat \<Rightarrow> u32 \<Rightarrow> u8 \<Rightarrow> (buf \<times> u32) option" where
  "rtw_del_p2p_attr b ie ielen_ori attr_id = run_loop (del_attr_step rtw_get_p2p_attr ie attr_id) (b, ielen_ori)"

definition rtw_del_wfd_attr :: "buf \<Rightarrow> nat \<Rightarrow> u32 \<Rightarrow> u8 \<Rightarrow> (buf \<times> u32) option" where
  "rtw_del_wfd_attr b ie ielen_ori attr_id = run_loop (del_attr_step rtw_get_wfd_attr ie attr_id) (b, ielen_ori)"

subsection \<open>The elements of a BSS\<close>

definition BSS_EX_FIXED_IE_OFFSET :: "wlan_bssid_ex \<Rightarrow> nat" where
  "BSS_EX_FIXED_IE_OFFSET bss = (if Reserved0 bss = 1 then 0 else 12)"

definition BSS_EX_TLV_IES_LEN :: "wlan_bssid_ex \<Rightarrow> u32" where
  "BSS_EX_TLV_IES_LEN bss = IELength bss - of_nat (BSS_EX_FIXED_IE_OFFSET bss)"

definition rtw_bss_ex_get_p2p_ie :: "wlan_bssid_ex \<Rightarrow> buf option \<Rightarrow> u32 option
   \<Rightarrow> (nat option \<times> buf option \<times> u32 option) option" where
  "rtw_bss_ex_get_p2p_ie bss = rtw_get_p2p_ie (IEs bss) (Some (BSS_EX_FIXED_IE_OFFSET bss)) (BSS_EX_TLV_IES_LEN bss)"

definition rtw_bss_ex_get_wfd_ie :: "wlan_bssid_ex \<Rightarrow> buf option \<Rightarrow> u32 option
   \<Rightarrow> (nat option \<times> buf option \<times> u32 option) option" where
  "rtw_bss_ex_get_wfd_ie bss = rtw_get_wfd_ie (IEs bss) (Some (BSS_EX_FIXED_IE_OFFSET bss)) (BSS_EX_TLV_IES_LEN bss)"

definition rtw_bss_ex_del_p2p_ie :: "wlan_bssid_ex \<Rightarrow> wlan_bssid_ex option" where
  "rtw_bss_ex_del_p2p_ie bss = do {
     let ies_len_ori = BSS_EX_TLV_IES_LEN bss;
     (b, ies_len) \<leftarrow> rtw_del_p2p_ie (IEs bss) (BSS_EX_FIXED_IE_OFFSET bss) ies_len_ori;
     Some (bss\<lparr>IEs := b, IELength := IELength bss - (ies_len_ori - ies_len)\<rparr>) }"

definition rtw_bss_ex_del_wfd_ie :: "wlan_bssid_ex \<Rightarrow> wlan_bssid_ex option" where
  "rtw_bss_ex_del_wfd_ie bss = do {
     let ies_len_ori = BSS_EX_TLV_IES_LEN bss;
     (b, ies_len) \<leftarrow> rtw_del_wfd_ie (IEs bss) (BSS_EX_FIXED_IE_OFFSET bss) ies_len_ori;
     Some (bss\<lparr>IEs := b, IELength := IELength bss - (ies_len_ori - ies_len)\<rparr>) }"

text \<open>
  \<open>rtw_bss_ex_del_p2p_attr\<close> and \<open>rtw_bss_ex_del_wfd_attr\<close>: the state is the BSS, \<open>ies\<close> and
  \<open>ies_len\<close>; \<open>get\<close> finds the next element and \<open>del\<close> removes the attribute from it.
\<close>

definition bss_ex_del_attr_step ::
  "(buf \<Rightarrow> nat option \<Rightarrow> u32 \<Rightarrow> buf option \<Rightarrow> u32 option \<Rightarrow> (nat option \<times> buf option \<times> u32 option) option)
   \<Rightarrow> (buf \<Rightarrow> nat \<Rightarrow> u32 \<Rightarrow> u8 \<Rightarrow> (buf \<times> u32) option)
   \<Rightarrow> u8 \<Rightarrow> wlan_bssid_ex \<times> nat \<times> u32 \<Rightarrow> (wlan_bssid_ex \<times> nat \<times> u32, wlan_bssid_ex) iteration" where
  "bss_ex_del_attr_step get del attr_id s = (case s of (bss, ies, ies_len) \<Rightarrow> iter_of (do {
     (ie, _, len) \<leftarrow> get (IEs bss) (Some ies) ies_len None (Some 0);
     ie_len_ori \<leftarrow> len;
     (case ie of
        None \<Rightarrow> Some (Ret bss)
      | Some ie \<Rightarrow> do {
          let next_ie_ori = ie + unat ie_len_ori;
          let remain_len = IELength bss - of_nat next_ie_ori;
          (b1, ie_len) \<leftarrow> del (IEs bss) ie ie_len_ori attr_id;
          if ie_len \<noteq> ie_len_ori then do {
            let next_ie = ie + unat ie_len;
            b2 \<leftarrow> rtw_memmove b1 next_ie next_ie_ori (unat remain_len);
            b3 \<leftarrow> rtw_memset b2 (next_ie + unat remain_len) 0 (unat (ie_len_ori - ie_len));
            Some (Next (bss\<lparr>IEs := b3, IELength := IELength bss - (ie_len_ori - ie_len)\<rparr>, next_ie, remain_len)) }
          else Some (Next (bss\<lparr>IEs := b1\<rparr>, next_ie_ori, remain_len)) }) }))"

definition rtw_bss_ex_del_p2p_attr :: "wlan_bssid_ex \<Rightarrow> u8 \<Rightarrow> wlan_bssid_ex option" where
  "rtw_bss_ex_del_p2p_attr bss attr_id =
     run_loop (bss_ex_del_attr_step rtw_get_p2p_ie rtw_del_p2p_attr attr_id)
       (bss, BSS_EX_FIXED_IE_OFFSET bss, BSS_EX_TLV_IES_LEN bss)"

definition rtw_bss_ex_del_wfd_attr :: "wlan_bssid_ex \<Rightarrow> u8 \<Rightarrow> wlan_bssid_ex option" where
  "rtw_bss_ex_del_wfd_attr bss attr_id =
     run_loop (bss_ex_del_attr_step rtw_get_wfd_ie rtw_del_wfd_attr attr_id)
       (bss, BSS_EX_FIXED_IE_OFFSET bss, BSS_EX_TLV_IES_LEN bss)"

subsection \<open>Merging P2P elements\<close>

text \<open>
  \<open>Length - 4\<close> of an element of fewer than four body bytes is negative: subtracted from the
  total by \<open>rtw_get_p2p_merged_ies_len\<close>, and an enormous \<open>size_t\<close> in \<open>rtw_p2p_merge_ies\<close>.
\<close>

function merged_ies_len_loop :: "buf \<Rightarrow> nat \<Rightarrow> nat \<Rightarrow> nat \<Rightarrow> int \<Rightarrow> int option" where
  "merged_ies_len_loop b in_ie in_len i len =
     (if i < in_len then
        case do { m \<leftarrow> vie_test 221 P2P_OUI b (in_ie + i); l \<leftarrow> rd b (in_ie + i + 1); Some (m, l) } of
          None \<Rightarrow> None
        | Some (m, l) \<Rightarrow>
            merged_ies_len_loop b in_ie in_len (i + (unat l + 2)) (if m then len + uint l - 4 else len)
      else Some len)"
  by pat_completeness auto
termination
  by (relation "measure (\<lambda>(b, in_ie, in_len, i, len). in_len - i)") auto

definition rtw_get_p2p_merged_ies_len :: "buf \<Rightarrow> nat \<Rightarrow> nat \<Rightarrow> u32 option" where
  "rtw_get_p2p_merged_ies_len b in_ie in_len =
     map_option (\<lambda>len. word_of_int (len + 4)) (merged_ies_len_loop b in_ie in_len 0 0)"

function p2p_merge_loop :: "buf \<Rightarrow> nat \<Rightarrow> nat \<Rightarrow> nat \<Rightarrow> u8 \<Rightarrow> buf \<Rightarrow> nat \<Rightarrow> (u8 \<times> buf) option" where
  "p2p_merge_loop b in_ie in_len i len merge_ie mp =
     (if i < in_len then
        case do { m \<leftarrow> vie_test 221 P2P_OUI b (in_ie + i);
                  l \<leftarrow> rd b (in_ie + i + 1);
                  if m then
                    (if l < 4 then None
                     else do { x \<leftarrow> rds b (in_ie + i + 2 + 4) (unat l - 4);
                               d \<leftarrow> wrs merge_ie mp x;
                               Some (l, len + (l - 4), d, mp + (unat l - 4)) })
                  else Some (l, len, merge_ie, mp) } of
          None \<Rightarrow> None
        | Some (l, len', d, mp') \<Rightarrow> p2p_merge_loop b in_ie in_len (i + (unat l + 2)) len' d mp'
      else Some (len, merge_ie))"
  by pat_completeness auto
termination
  by (relation "measure (\<lambda>(b, in_ie, in_len, i, len, d, mp). in_len - i)") auto

declare merged_ies_len_loop.simps [simp del] p2p_merge_loop.simps [simp del]

definition rtw_p2p_merge_ies :: "buf \<Rightarrow> nat \<Rightarrow> nat \<Rightarrow> buf option \<Rightarrow> (int \<times> buf option) option" where
  "rtw_p2p_merge_ies b in_ie in_len merge_ie =
     (case merge_ie of None \<Rightarrow> Some (0, None)
      | Some d \<Rightarrow> do {
          d1 \<leftarrow> wrs d 0 ([0xDD, 0x00] @ P2P_OUI);
          (len, d2) \<leftarrow> p2p_merge_loop b in_ie in_len 0 0 d1 6;
          Some (uint len + 4, Some d2) })"

subsection \<open>The contract of the vendor searches\<close>

definition vie_hit :: "u8 \<Rightarrow> buf \<Rightarrow> ie \<Rightarrow> bool" where
  "vie_hit eid pat x \<longleftrightarrow> fst x = eid \<and> take (length pat) (snd x) = pat"

definition vie_ok :: "u8 \<Rightarrow> ie \<Rightarrow> bool" where
  "vie_ok eid x \<longleftrightarrow> (fst x = eid \<longrightarrow> 4 \<le> length (snd x))"

lemma vie_test_enc:
  assumes "vie_ok eid x" "length pat \<le> 4" "p = length pre"
  shows "vie_test eid pat (pre @ enc_ie x @ suf) p = Some (vie_hit eid pat x)"
  using assms by (auto simp: vie_test_def mem_simps vie_hit_def vie_ok_def rtw_memcmp_Some enc_ie_def)

locale vendor_search =
  fixes eid :: u8 and pat :: buf
  assumes pat4: "length pat \<le> 4"

sublocale vendor_search \<subseteq> ie_search "vendor_ie_loop eid pat" "vie_hit eid pat" "vie_ok eid" "\<lambda>n. n \<le> 768"
proof (unfold_locales, goal_cases)
  case (1 b base n)
  then show ?case by (simp add: vendor_ie_loop.simps)
next
  case (2 x dn rest pre post)
  let ?b = "pre @ dn @ enc_ie x @ rest @ post"
  have r: "rd ?b (length pre + length dn) = Some (fst x)" by (simp add: mem_simps)
  have t: "vie_test eid pat ?b (length pre + length dn) = Some True"
    using vie_test_enc [of eid x pat "length pre + length dn" "pre @ dn" "rest @ post"] 2 pat4 by simp
  from 2 have "4 \<le> length (snd x)" by (simp add: vie_ok_def vie_hit_def)
  with 2 r t show ?case by (subst vendor_ie_loop.simps) (simp add: MAX_IE_SZ_def)
next
  case (3 x dn rest pre post)
  let ?b = "pre @ dn @ enc_ie x @ rest @ post"
  have r: "rd ?b (length pre + length dn) = Some (fst x)"
    "rd ?b (length pre + length dn + 1) = Some (of_nat (length (snd x)))" by (simp_all add: mem_simps add.assoc)
  have t: "vie_test eid pat ?b (length pre + length dn) = Some False"
    using vie_test_enc [of eid x pat "length pre + length dn" "pre @ dn" "rest @ post"] 3 pat4 by simp
  have short: "length (snd x) + length rest \<le> 3 \<Longrightarrow>
      vendor_ie_loop eid pat ?b (length pre) (length dn + length (enc_ie x) + length rest)
        (length dn + length (enc_ie x)) = Some None"
    by (subst vendor_ie_loop.simps) simp
  show ?case
  proof (cases "length (snd x) + length rest \<le> 3")
    case True
    with short show ?thesis by (subst vendor_ie_loop.simps) simp
  next
    case False
    with 3 r t show ?thesis by (subst vendor_ie_loop.simps) (simp add: MAX_IE_SZ_def)
  qed
qed

lemma length_enc_ies_filter: "length (enc_ies (filter P xs)) \<le> length (enc_ies xs)"
  by (induction xs) auto

lemma copy_vendor_len:
  "wf_ie x \<Longrightarrow> p = length pre \<Longrightarrow>
   copy_ie_out (pre @ enc_ie x @ suf) p None (Some n) = Some (None, Some (of_nat (length (enc_ie x))))"
  using ucast_len_u32 [of "length (snd x)"] by (simp add: copy_ie_out_def mem_simps wf_ie_def)

lemma cut_out_enc:
  assumes "length mid < 2 ^ 32" "length suf < 2 ^ 32"
  shows "cut_out (pre @ mid @ suf @ post) (length pre) (of_nat (length mid)) (of_nat (length suf))
    = Some (pre @ suf @ replicate (length mid) 0 @ post)"
proof -
  have u: "unat (of_nat (length mid) :: u32) = length mid" "unat (of_nat (length suf) :: u32) = length suf"
    using assms by (simp_all add: unat_of_nat_u32)
  have l: "length (drop (length suf) (mid @ suf)) = length (replicate (length mid) (0 :: u8))" by simp
  have "wrs ((pre @ suf) @ drop (length suf) (mid @ suf) @ post) (length (pre @ suf)) (replicate (length mid) 0)
    = Some ((pre @ suf) @ replicate (length mid) 0 @ post)"
    by (rule wrs_here [OF l])
  then show ?thesis
    using rtw_memmove_down [of pre mid suf post] by (simp add: cut_out_def u rtw_memset_def del: drop_append)
qed

context vendor_search
begin

lemma get_enc:
  assumes "\<forall>x \<in> set xs. wf_ie x \<and> vie_ok eid x" "length (enc_ies xs) \<le> 768"
  shows "get_vendor_ie eid pat (pre @ enc_ies xs @ post) (Some (length pre)) (int (length (enc_ies xs))) None (Some n)
    = Some (case find (vie_hit eid pat) xs of
        None \<Rightarrow> (None, None, Some 0)
      | Some x \<Rightarrow> (map_option ((+) (length pre)) (first_off (vie_hit eid pat) xs), None,
                   Some (of_nat (length (enc_ie x)))))"
proof (cases "first_off (vie_hit eid pat) xs")
  case None
  then have "find (vie_hit eid pat) xs = None" by (auto simp: first_off_None find_None_iff)
  with None srch_first [OF assms, of pre post] show ?thesis
    by (simp add: get_vendor_ie_def Let_def)
next
  case (Some m)
  obtain ys x zs where xs: "xs = ys @ x # zs" "vie_hit eid pat x" "\<forall>y \<in> set ys. \<not> vie_hit eid pat y"
    "m = length (enc_ies ys)" using first_off_split [OF Some] by blast
  have fd: "find (vie_hit eid pat) xs = Some x" unfolding xs(1) using xs(2,3) by (induction ys) auto
  have b: "pre @ enc_ies xs @ post = (pre @ enc_ies ys) @ enc_ie x @ enc_ies zs @ post" using xs(1) by simp
  have c: "copy_ie_out (pre @ enc_ies xs @ post) (length pre + m) None (Some 0)
      = Some (None, Some (of_nat (length (enc_ie x))))"
    unfolding b using xs assms(1) by (intro copy_vendor_len) auto
  have "0 < length (enc_ies xs)" using xs(1) by simp
  with Some fd c srch_first [OF assms, of pre post] show ?thesis
    by (simp add: get_vendor_ie_def Let_def)
qed

lemma del_step:
  assumes "\<forall>x \<in> set xs. wf_ie x \<and> vie_ok eid x" "length (enc_ies xs) \<le> 768"
    and "xs = ys @ x # zs" "vie_hit eid pat x" "\<forall>y \<in> set ys. \<not> vie_hit eid pat y"
    and get: "\<And>b p n. get b p n = get_vendor_ie eid pat b p (sint n)"
  shows "del_ie_step get (length pre) (pre @ enc_ies xs @ post, of_nat (length (enc_ies xs)))
    = Next (pre @ enc_ies (ys @ zs) @ replicate (length (enc_ie x)) 0 @ post,
        of_nat (length (enc_ies (ys @ zs))))"
proof -
  let ?n = "length (enc_ies xs)" and ?l = "length (enc_ie x)"
  have fd: "find (vie_hit eid pat) xs = Some x" unfolding assms(3) using assms(4,5) by (induction ys) auto
  have fo: "first_off (vie_hit eid pat) xs = Some (length (enc_ies ys))"
    unfolding assms(3) using assms(4,5) by (intro first_off_append_hit) auto
  have sn: "sint (of_nat ?n :: u32) = int ?n" using assms(2) by (intro sint_of_nat_u32) simp
  have l: "?l \<le> 257" using assms(1,3) by (auto simp: wf_ie_def)
  have ul: "unat (of_nat ?l :: u32) = ?l" using l by (intro unat_of_nat_u32) simp
  then have nz: "(of_nat ?l :: u32) \<noteq> 0" by (metis length_enc_ie add_is_0 unat_0 zero_neq_numeral)
  have n: "?n = length (enc_ies ys) + ?l + length (enc_ies zs)" by (simp add: assms(3))
  have rem: "(of_nat ?n :: u32) - of_nat (length pre + length (enc_ies ys) + ?l - length pre)
      = of_nat (length (enc_ies zs))"
    unfolding n by (subst u32_of_nat_diff) simp_all
  have len': "(of_nat ?n :: u32) - of_nat ?l = of_nat (length (enc_ies (ys @ zs)))"
    unfolding n by (subst u32_of_nat_diff) simp_all
  have cut: "cut_out (pre @ enc_ies xs @ post) (length pre + length (enc_ies ys)) (of_nat ?l)
      (of_nat (length (enc_ies zs))) = Some (pre @ enc_ies (ys @ zs) @ replicate ?l 0 @ post)"
    using cut_out_enc [of "enc_ie x" "enc_ies zs" "pre @ enc_ies ys" post] l n assms(2,3) by simp
  have g: "get (pre @ enc_ies xs @ post) (Some (length pre)) (of_nat ?n) None (Some 0)
      = Some (Some (length pre + length (enc_ies ys)), None, Some (of_nat ?l))"
    unfolding get sn using get_enc [OF assms(1,2), of pre post 0] by (simp add: fd fo del: length_enc_ie)
  show ?thesis
    by (simp only: del_ie_step_def prod.case g Option.bind.simps option.case nz ul rem cut len'
        iter_of_simps simp_thms if_True not_False_eq_True)
qed

lemma del_run:
  assumes "\<forall>x \<in> set xs. wf_ie x \<and> vie_ok eid x" "length (enc_ies xs) \<le> 768"
    and get: "\<And>b p n. get b p n = get_vendor_ie eid pat b p (sint n)"
  shows "run_loop (del_ie_step get (length pre)) (pre @ enc_ies xs @ post, of_nat (length (enc_ies xs)))
    = (let xs' = filter (\<lambda>x. \<not> vie_hit eid pat x) xs in
       Some (pre @ enc_ies xs' @ replicate (length (enc_ies xs) - length (enc_ies xs')) 0 @ post,
             of_nat (length (enc_ies xs'))))"
  using assms(1,2)
proof (induction "length xs" arbitrary: xs post rule: less_induct)
  case less
  show ?case
  proof (cases "first_off (vie_hit eid pat) xs")
    case None
    then have nh: "\<forall>x \<in> set xs. \<not> vie_hit eid pat x" by (simp add: first_off_None)
    then have fl: "filter (\<lambda>x. \<not> vie_hit eid pat x) xs = xs" by (simp add: filter_id_conv)
    have fd: "find (vie_hit eid pat) xs = None" using nh by (auto simp: find_None_iff)
    have sn: "sint (of_nat (length (enc_ies xs)) :: u32) = int (length (enc_ies xs))"
      using less.prems(2) by (intro sint_of_nat_u32) simp
    have "get (pre @ enc_ies xs @ post) (Some (length pre)) (of_nat (length (enc_ies xs))) None (Some 0)
        = Some (None, None, Some 0)"
      unfolding get sn using get_enc [OF less.prems, of pre post 0] by (simp add: fd)
    then have "del_ie_step get (length pre) (pre @ enc_ies xs @ post, of_nat (length (enc_ies xs)))
        = Ret (pre @ enc_ies xs @ post, of_nat (length (enc_ies xs)))"
      by (simp add: del_ie_step_def)
    then show ?thesis unfolding fl Let_def by (simp add: run_loop_Ret)
  next
    case (Some m)
    obtain ys x zs where xs: "xs = ys @ x # zs" "vie_hit eid pat x" "\<forall>y \<in> set ys. \<not> vie_hit eid pat y"
      using first_off_split [OF Some] by blast
    note step = del_step [OF less.prems xs get, of pre post]
    have fl: "filter (\<lambda>x. \<not> vie_hit eid pat x) xs = filter (\<lambda>x. \<not> vie_hit eid pat x) (ys @ zs)"
      using xs by simp
    let ?xs' = "filter (\<lambda>x. \<not> vie_hit eid pat x) (ys @ zs)"
    have le: "length (enc_ies ?xs') \<le> length (enc_ies (ys @ zs))"
      by (rule length_enc_ies_filter)
    have "run_loop (del_ie_step get (length pre))
        (pre @ enc_ies (ys @ zs) @ replicate (length (enc_ie x)) 0 @ post, of_nat (length (enc_ies (ys @ zs))))
      = (let xs' = filter (\<lambda>x. \<not> vie_hit eid pat x) (ys @ zs) in
       Some (pre @ enc_ies xs' @ replicate (length (enc_ies (ys @ zs)) - length (enc_ies xs')) 0
               @ replicate (length (enc_ie x)) 0 @ post,
             of_nat (length (enc_ies xs'))))"
      using less.prems xs by (intro less.hyps) auto
    moreover have "length (enc_ies (ys @ zs)) - length (enc_ies ?xs') + length (enc_ie x)
        = length (enc_ies xs) - length (enc_ies ?xs')"
      using le xs(1) by simp
    ultimately show ?thesis
      unfolding run_loop_Next [of "del_ie_step get (length pre)", OF step] fl Let_def
      by (metis (no_types, lifting) append.assoc replicate_add)
  qed
qed

end

interpretation wps: vendor_search 221 WPS_OUI by unfold_locales (simp add: WPS_OUI_def)
interpretation owe: vendor_search 255 "[32]" by unfold_locales simp
interpretation p2p: vendor_search 221 P2P_OUI by unfold_locales (simp add: P2P_OUI_def)
interpretation wfd: vendor_search 221 WFD_OUI by unfold_locales (simp add: WFD_OUI_def)

subsection \<open>Attributes as a list\<close>

type_synonym attr = "u8 \<times> buf"

definition enc_attr :: "attr \<Rightarrow> buf" where
  "enc_attr a = fst a # le16_bytes (of_nat (length (snd a))) @ snd a"

definition enc_attrs :: "attr list \<Rightarrow> buf" where
  "enc_attrs as = concat (map enc_attr as)"

definition p2p_ie :: "u8 \<Rightarrow> attr list \<Rightarrow> buf" where
  "p2p_ie l as = [221, l] @ P2P_OUI @ enc_attrs as"

lemma length_enc_attr [simp]: "length (enc_attr a) = length (snd a) + 3"
  by (simp add: enc_attr_def)

lemma enc_attrs_simps [simp]:
  "enc_attrs [] = []" "enc_attrs (a # as) = enc_attr a @ enc_attrs as"
  "enc_attrs (as @ bs) = enc_attrs as @ enc_attrs bs"
  by (simp_all add: enc_attrs_def)

lemma length_p2p_ie [simp]: "length (p2p_ie l as) = 6 + length (enc_attrs as)"
  by (simp add: p2p_ie_def P2P_OUI_def)

lemma p2p_attr_step_enc:
  assumes "q = length pre + length dn" "ielen = of_nat (length dn + length (enc_attr a) + length rest)"
    and "length dn + length (enc_attr a) + length rest < 65536"
  shows "p2p_attr_step RTW_GET_LE16 (pre @ dn @ enc_attr a @ rest @ post) (length pre) ielen target q
    = (if fst a = target then Ret (Some (q, of_nat (length (enc_attr a)))) else Next (q + length (enc_attr a)))"
proof -
  let ?b = "pre @ dn @ enc_attr a @ rest @ post"
  have i: "rd ?b q = Some (fst a)"
    using assms(1) rd_here_plus(2) [of "pre @ dn" "enc_attr a @ rest @ post"]
    by (simp add: enc_attr_def mem_simps)
  have l: "RTW_GET_LE16 ?b (q + 1) = Some (of_nat (length (snd a)))"
    using RTW_GET_LE16_skip [of "pre @ dn @ [fst a]" "le16_bytes (of_nat (length (snd a))) @ snd a @ rest @ post" 0] assms(1)
    by (simp add: enc_attr_def mem_simps)
  have u: "unat ielen = length dn + length (enc_attr a) + length rest"
    unfolding assms(2) using assms(3) by (intro unat_of_nat_u32) simp
  have w: "(of_nat (length (snd a)) + 3 :: u16) = of_nat (length (enc_attr a))" by simp
  have uw: "unat (of_nat (length (enc_attr a)) :: u16) = length (enc_attr a)"
    using assms(3) by (intro unat_of_nat_u16) simp
  show ?thesis
    using assms(1) i l by (simp add: p2p_attr_step_def u w uw Let_def del: length_enc_attr) simp
qed

lemma p2p_attr_run:
  assumes "ielen = of_nat (length dn + length (enc_attrs as))" "length dn + length (enc_attrs as) < 65536"
    and "\<forall>a \<in> set as. fst a \<noteq> target"
  shows "run_loop (p2p_attr_step RTW_GET_LE16 (pre @ dn @ enc_attrs as @ post) (length pre) ielen target)
      (length pre + length dn) = Some None"
  using assms
proof (induction as arbitrary: dn)
  case Nil
  then have "unat ielen = length dn" using unat_of_nat_u32 [of "length dn"] by simp
  then show ?case by (intro run_loop_Ret) (simp add: p2p_attr_step_def)
next
  case (Cons a as)
  have "p2p_attr_step RTW_GET_LE16 (pre @ dn @ enc_attrs (a # as) @ post) (length pre) ielen target
      (length pre + length dn) = Next (length pre + length (dn @ enc_attr a))"
    using p2p_attr_step_enc [of "length pre + length dn" pre dn ielen a "enc_attrs as" post target] Cons.prems
    by (simp add: add.assoc)
  then show ?case
    using Cons.IH [of "dn @ enc_attr a"] Cons.prems
    by (simp add: run_loop_Next add.assoc)
qed

lemma p2p_attr_run_hit:
  assumes "ielen = of_nat (length dn + length (enc_attrs (as @ a # bs)))"
    and "length dn + length (enc_attrs (as @ a # bs)) < 65536"
    and "\<forall>a \<in> set as. fst a \<noteq> fst a'" "fst a = fst a'"
  shows "run_loop (p2p_attr_step RTW_GET_LE16 (pre @ dn @ enc_attrs (as @ a # bs) @ post) (length pre) ielen (fst a'))
      (length pre + length dn)
    = Some (Some (length pre + length dn + length (enc_attrs as), of_nat (length (enc_attr a))))"
  using assms
proof (induction as arbitrary: dn)
  case Nil
  then have "p2p_attr_step RTW_GET_LE16 (pre @ dn @ enc_attrs ([] @ a # bs) @ post) (length pre) ielen (fst a')
      (length pre + length dn) = Ret (Some (length pre + length dn, of_nat (length (enc_attr a))))"
    using p2p_attr_step_enc [of "length pre + length dn" pre dn ielen a "enc_attrs bs" post "fst a'"]
    by (simp add: add.assoc)
  then show ?case by (simp add: run_loop_Ret)
next
  case (Cons c as)
  have "p2p_attr_step RTW_GET_LE16 (pre @ dn @ enc_attrs ((c # as) @ a # bs) @ post) (length pre) ielen (fst a')
      (length pre + length dn) = Next (length pre + length (dn @ enc_attr c))"
    using p2p_attr_step_enc [of "length pre + length dn" pre dn ielen c "enc_attrs (as @ a # bs)" post "fst a'"] Cons.prems
    by (simp add: add.assoc)
  then show ?case
    using Cons.IH [of "dn @ enc_attr c"] Cons.prems
    by (simp add: run_loop_Next add.assoc)
qed

lemma get_p2p_attr_head:
  assumes "as \<noteq> []" "length (p2p_ie l as) < 65536"
  shows "rtw_get_p2p_attr (pre @ p2p_ie l as @ post) (Some (length pre)) (of_nat (length (p2p_ie l as))) target None (Some n)
    = do { found \<leftarrow> run_loop (p2p_attr_step RTW_GET_LE16 (pre @ ([221, l] @ P2P_OUI) @ enc_attrs as @ post) (length pre)
              (of_nat (length (p2p_ie l as))) target) (length pre + 6);
           attr_out (pre @ p2p_ie l as @ post) found None (Some 0) }"
proof -
  let ?b = "pre @ p2p_ie l as @ post"
  have p: "0 < length (enc_attrs as)" using assms(1) by (cases as) auto
  have u: "unat (of_nat (length (p2p_ie l as)) :: u32) = length (p2p_ie l as)"
    using assms(2) by (intro unat_of_nat_u32) simp
  have six: "unat (6 :: u32) = 6" by simp
  have big: "\<not> (of_nat (length (p2p_ie l as)) :: u32) \<le> 6"
    unfolding word_le_nat_alt u six using p by simp
  have r: "rd ?b (length pre) = Some 221" by (simp add: p2p_ie_def mem_simps)
  have m: "rtw_memcmp ?b (length pre + 2) P2P_OUI 4 = Some True"
    by (subst rtw_memcmp_Some) (simp_all add: p2p_ie_def P2P_OUI_def)
  show ?thesis
    using big r m by (simp add: rtw_get_p2p_attr_def get_p2p_wfd_attr_def Let_def p2p_ie_def del: length_p2p_ie)
qed

subsection \<open>Merging as a function of the element list\<close>

definition p2p_bodies :: "ie list \<Rightarrow> buf" where
  "p2p_bodies xs = concat (map (\<lambda>x. drop 4 (snd x)) (filter (vie_hit 221 P2P_OUI) xs))"

lemma p2p_bodies_simps [simp]:
  "p2p_bodies [] = []"
  "p2p_bodies (x # xs) = (if vie_hit 221 P2P_OUI x then drop 4 (snd x) @ p2p_bodies xs else p2p_bodies xs)"
  by (simp_all add: p2p_bodies_def)

lemma merge_reads:
  assumes "wf_ie x" "vie_ok 221 x" "b = pre @ dn @ enc_ie x @ rest @ post"
  shows "vie_test 221 P2P_OUI b (length pre + length dn) = Some (vie_hit 221 P2P_OUI x)"
    and "rd b (length pre + length dn + 1) = Some (of_nat (length (snd x)))"
    and "vie_hit 221 P2P_OUI x \<Longrightarrow> 4 \<le> length (snd x)"
    and "vie_hit 221 P2P_OUI x \<Longrightarrow>
      rds b (length pre + length dn + 2 + 4) (length (snd x) - 4) = Some (drop 4 (snd x))"
proof -
  show "vie_test 221 P2P_OUI b (length pre + length dn) = Some (vie_hit 221 P2P_OUI x)"
    using vie_test_enc [of 221 x P2P_OUI "length pre + length dn" "pre @ dn" "rest @ post"] assms
    by (simp add: P2P_OUI_def)
  show "rd b (length pre + length dn + 1) = Some (of_nat (length (snd x)))"
    using assms by (simp add: mem_simps add.assoc)
  show l: "vie_hit 221 P2P_OUI x \<Longrightarrow> 4 \<le> length (snd x)"
    using assms(2) by (simp add: vie_hit_def vie_ok_def)
  show "vie_hit 221 P2P_OUI x \<Longrightarrow>
      rds b (length pre + length dn + 2 + 4) (length (snd x) - 4) = Some (drop 4 (snd x))"
    using l assms(3) by (simp add: rds_def enc_ie_def)
qed

lemma merged_ies_len_enc:
  assumes "\<forall>x \<in> set xs. wf_ie x \<and> vie_ok 221 x"
  shows "merged_ies_len_loop (pre @ dn @ enc_ies xs @ post) (length pre) (length dn + length (enc_ies xs)) (length dn) len
    = Some (len + int (length (p2p_bodies xs)))"
  using assms
proof (induction xs arbitrary: dn len)
  case Nil
  then show ?case by (simp add: merged_ies_len_loop.simps)
next
  case (Cons x xs)
  let ?b = "pre @ dn @ enc_ies (x # xs) @ post"
  note r = merge_reads [of x ?b pre dn "enc_ies xs" post]
  have u: "uint (of_nat (length (snd x)) :: u8) = int (length (snd x))"
    using Cons.prems by (simp add: uint_nat)
  show ?case
    using Cons.IH [of "dn @ enc_ie x"] r Cons.prems u
    by (subst merged_ies_len_loop.simps) (auto simp: add.assoc of_nat_diff)
qed

lemma u8_len_minus4: "4 \<le> n \<Longrightarrow> (of_nat n :: u8) - 4 = of_nat (n - 4)"
  by (simp add: of_nat_diff)

lemma u8_ge4: "4 \<le> n \<Longrightarrow> n \<le> 255 \<Longrightarrow> \<not> (of_nat n :: u8) < 4"
  by (simp add: word_less_nat_alt)

lemma p2p_merge_loop_enc:
  assumes "\<forall>x \<in> set xs. wf_ie x \<and> vie_ok 221 x" "length (p2p_bodies xs) \<le> length old"
  shows "p2p_merge_loop (pre @ dn @ enc_ies xs @ post) (length pre) (length dn + length (enc_ies xs)) (length dn)
      len (acc @ old) (length acc)
    = Some (len + of_nat (length (p2p_bodies xs)), acc @ p2p_bodies xs @ drop (length (p2p_bodies xs)) old)"
  using assms
proof (induction xs arbitrary: dn len acc old)
  case Nil
  then show ?case by (simp add: p2p_merge_loop.simps)
next
  case (Cons x xs)
  let ?b = "pre @ dn @ enc_ies (x # xs) @ post"
  have x: "wf_ie x" "vie_ok 221 x" "length (snd x) \<le> 255" using Cons.prems by (auto simp: wf_ie_def)
  have b: "?b = pre @ dn @ enc_ie x @ enc_ies xs @ post" by simp
  note r = merge_reads [OF x(1,2) b]
  show ?case
  proof (cases "vie_hit 221 P2P_OUI x")
    case False
    then show ?thesis
      using Cons.IH [of old "dn @ enc_ie x" len acc] r x Cons.prems
      by (subst p2p_merge_loop.simps) (simp add: add.assoc)
  next
    case True
    let ?d = "drop 4 (snd x)"
    have ge: "\<not> (of_nat (length (snd x)) :: u8) < 4" using r(3) [OF True] x(3) by (rule u8_ge4)
    have m4: "(of_nat (length (snd x)) :: u8) - 4 = of_nat (length ?d)"
      using u8_len_minus4 [OF r(3) [OF True]] by simp
    have ol: "length ?d \<le> length old" "length (p2p_bodies xs) \<le> length (drop (length ?d) old)"
      using Cons.prems(2) True by auto
    have w: "wrs (acc @ old) (length acc) ?d = Some ((acc @ ?d) @ drop (length ?d) old)"
      using wrs_here [of "take (length ?d) old" ?d acc "drop (length ?d) old"] ol by simp
    have ul: "unat (of_nat (length (snd x)) :: u8) = length (snd x)" using x(1) by simp
    have ne: "enc_ies (x # xs) \<noteq> []" by (simp add: enc_ie_def)
    have l4: "length (snd x) - 4 = length ?d" by simp
    have "p2p_merge_loop ?b (length pre) (length dn + length (enc_ies (x # xs))) (length dn) len (acc @ old) (length acc)
      = p2p_merge_loop ?b (length pre) (length dn + length (enc_ies (x # xs))) (length dn + (length (snd x) + 2))
          (len + of_nat (length ?d)) ((acc @ ?d) @ drop (length ?d) old) (length (acc @ ?d))"
      using r(1,2) r(4) [OF True] True w
      by (subst p2p_merge_loop.simps)
         (simp add: ul ge m4 ne l4 del: length_drop enc_ies_simps append_assoc)
    also have "\<dots> = Some (len + of_nat (length ?d) + of_nat (length (p2p_bodies xs)),
        (acc @ ?d) @ p2p_bodies xs @ drop (length (p2p_bodies xs)) (drop (length ?d) old))"
      using Cons.IH [OF _ ol(2), of "dn @ enc_ie x" "len + of_nat (length ?d)" "acc @ ?d"] Cons.prems(1)
      by (simp add: add.assoc)
    finally show ?thesis using True by (simp add: add.commute add.left_commute del: length_drop)
  qed
qed

subsection \<open>Properties\<close>

text \<open>C25. Refinement: on a BSS whose elements are well formed and at most 768 bytes,
  \<open>rtw_bss_ex_del_p2p_ie\<close> leaves exactly the elements that are not P2P elements, in order,
  zeroes the bytes freed, keeps the fixed fields and the bytes behind, and sets \<open>IELength\<close> to
  what remains.\<close>

theorem rtw_bss_ex_del_p2p_ie_filter:
  assumes "IEs bss = fx @ enc_ies xs @ post" "IELength bss = of_nat (length fx + length (enc_ies xs))"
    and "length fx = BSS_EX_FIXED_IE_OFFSET bss"
    and "\<forall>x \<in> set xs. wf_ie x \<and> vie_ok 221 x" "length (enc_ies xs) \<le> 768"
  shows "rtw_bss_ex_del_p2p_ie bss =
    (let xs' = filter (\<lambda>x. \<not> vie_hit 221 P2P_OUI x) xs in
     Some (bss\<lparr>IEs := fx @ enc_ies xs' @ replicate (length (enc_ies xs) - length (enc_ies xs')) 0 @ post,
               IELength := of_nat (length fx + length (enc_ies xs'))\<rparr>))"
proof -
  let ?xs' = "filter (\<lambda>x. \<not> vie_hit 221 P2P_OUI x) xs"
  have t: "BSS_EX_TLV_IES_LEN bss = of_nat (length (enc_ies xs))"
    unfolding BSS_EX_TLV_IES_LEN_def assms(2) assms(3) [symmetric] by simp
  have d: "rtw_del_p2p_ie (IEs bss) (BSS_EX_FIXED_IE_OFFSET bss) (of_nat (length (enc_ies xs)))
    = Some (fx @ enc_ies ?xs' @ replicate (length (enc_ies xs) - length (enc_ies ?xs')) 0 @ post,
        of_nat (length (enc_ies ?xs')))"
    unfolding rtw_del_p2p_ie_def assms(1) assms(3) [symmetric]
    using p2p.del_run [OF assms(4,5), of rtw_get_p2p_ie fx post]
    by (simp add: rtw_get_p2p_ie_def Let_def)
  have "IELength bss - (of_nat (length (enc_ies xs)) - of_nat (length (enc_ies ?xs')))
      = (of_nat (length fx + length (enc_ies ?xs')) :: u32)"
    unfolding assms(2) by simp
  then show ?thesis
    by (simp only: rtw_bss_ex_del_p2p_ie_def t Let_def d Option.bind.simps prod.case)
qed

theorem rtw_bss_ex_del_p2p_ie_filter_witness:
  "rtw_bss_ex_del_p2p_ie (bss_example (replicate 12 0 @
      enc_ies [(0, [65]), (221, [0x50, 0x6f, 0x9a, 0x09, 1]), (3, [6])] @ [7]) (of_nat 25))
   = Some (bss_example (replicate 12 0 @ enc_ies [(0, [65]), (3, [6])] @ [0, 0, 0, 0, 0, 0, 0] @ [7]) (of_nat 18))"
  using rtw_bss_ex_del_p2p_ie_filter [of "bss_example (replicate 12 0 @
      enc_ies [(0, [65]), (221, [0x50, 0x6f, 0x9a, 0x09, 1]), (3, [6])] @ [7]) (of_nat 25)" "replicate 12 0"
      "[(0, [65]), (221, [0x50, 0x6f, 0x9a, 0x09, 1]), (3, [6])]" "[7]"]
  by (simp add: bss_example_def BSS_EX_FIXED_IE_OFFSET_def wf_ie_def vie_ok_def vie_hit_def P2P_OUI_def)

text \<open>Round trip: in a P2P element built from a list of attributes (id, little-endian length, data),
  \<open>rtw_get_p2p_attr_content\<close> returns the first attribute with the id asked for: the pointer to
  its data and the length of the data.\<close>

theorem rtw_get_p2p_attr_content_roundtrip:
  assumes "\<forall>a \<in> set as. fst a \<noteq> aid" "length (p2p_ie l (as @ (aid, d) # bs)) < 65536"
  shows "\<exists>q. rtw_get_p2p_attr_content (pre @ p2p_ie l (as @ (aid, d) # bs) @ post) (Some (length pre))
      (of_nat (length (p2p_ie l (as @ (aid, d) # bs)))) aid None (Some n) = Some (Some q, None, Some (of_nat (length d)))
    \<and> take (length d) (drop q (pre @ p2p_ie l (as @ (aid, d) # bs) @ post)) = d"
proof -
  let ?as = "as @ (aid, d) # bs"
  let ?b = "pre @ p2p_ie l ?as @ post"
  let ?q = "length pre + 6 + length (enc_attrs as)"
  have six: "length ([221, l] @ P2P_OUI) = 6" by (simp add: P2P_OUI_def)
  have run: "run_loop (p2p_attr_step RTW_GET_LE16 (pre @ ([221, l] @ P2P_OUI) @ enc_attrs ?as @ post) (length pre)
      (of_nat (length (p2p_ie l ?as))) aid) (length pre + 6) = Some (Some (?q, of_nat (length d + 3)))"
    using p2p_attr_run_hit [of _ "[221, l] @ P2P_OUI" as "(aid, d)" bs "(aid, d)" pre post, OF refl] assms
    unfolding six by simp
  have g: "rtw_get_p2p_attr ?b (Some (length pre)) (of_nat (length (p2p_ie l ?as))) aid None (Some 0)
      = Some (Some ?q, None, Some (ucast (of_nat (length d + 3) :: u16)))"
    using get_p2p_attr_head [of ?as l pre post aid 0] run assms(2) by (simp add: attr_out_def)
  have "unat (of_nat (length d + 3) :: u16) = length d + 3"
    using assms(2) by (intro unat_of_nat_u16) simp
  then have uc: "(ucast (of_nat (length d + 3) :: u16) :: u32) = of_nat (length d + 3)" by (metis of_nat_unat)
  have nz: "unat (of_nat (length d + 3) :: u32) \<noteq> 0"
    using assms(2) unat_of_nat_u32 [of "length d + 3"] by simp
  have "(of_nat (length d + 3) :: u32) \<noteq> 0"
    using nz by (metis unat_0)
  then have "rtw_get_p2p_attr_content ?b (Some (length pre)) (of_nat (length (p2p_ie l ?as))) aid None (Some n)
      = Some (Some (?q + 3), None, Some (of_nat (length d)))"
    using g [unfolded uc] by (simp add: rtw_get_p2p_attr_content_def attr_content_def)
  moreover have "take (length d) (drop (?q + 3) ?b) = d"
  proof -
    let ?h = "pre @ [221, l] @ P2P_OUI @ enc_attrs as @ [aid] @ le16_bytes (of_nat (length d))"
    have h: "?b = ?h @ d @ enc_attrs bs @ post" "length ?h = ?q + 3"
      by (simp_all add: p2p_ie_def enc_attr_def P2P_OUI_def)
    show ?thesis unfolding h(1) by (rule take_drop_here [OF h(2) [symmetric]])
  qed
  ultimately show ?thesis by blast
qed

theorem rtw_get_p2p_attr_content_roundtrip_witness:
  "\<exists>q. rtw_get_p2p_attr_content ([9] @ p2p_ie 14 ([(2, [1, 2])] @ (6, [7, 8]) # []) @ []) (Some (length [9 :: u8]))
      (of_nat (length (p2p_ie 14 ([(2, [1, 2])] @ (6, [7, 8]) # [])))) 6 None (Some 0)
      = Some (Some q, None, Some (of_nat (length [7, 8 :: u8])))
    \<and> take (length [7, 8 :: u8]) (drop q ([9] @ p2p_ie 14 ([(2, [1, 2])] @ (6, [7, 8]) # []) @ [])) = [7, 8]"
  by (rule rtw_get_p2p_attr_content_roundtrip) simp_all

text \<open>C38. Error: the length of a WPS attribute plus its header wraps around in 16 bits. An attribute of
  another id whose length field is 0xFFFC advances \<open>rtw_get_wps_attr\<close> by zero bytes: the loop
  comes back to the same state and never returns. One such attribute in a received element
  hangs the search.\<close>

theorem rtw_get_wps_attr_hangs:
  assumes "aid \<noteq> target" "6 < wps_ielen"
  shows "wps_attr_step (pre @ [221, l] @ WPS_OUI @ be16_bytes aid @ [0xFF, 0xFC] @ post) (length pre) wps_ielen
           target (length pre + 6) = Next (length pre + 6)
    \<and> rtw_get_wps_attr (pre @ [221, l] @ WPS_OUI @ be16_bytes aid @ [0xFF, 0xFC] @ post) (length pre) wps_ielen
           target buf_attr len_attr = None"
proof -
  let ?b = "pre @ [221, l] @ WPS_OUI @ be16_bytes aid @ [0xFF, 0xFC] @ post"
  have n: "6 < unat wps_ielen" using assms(2) by (simp add: word_less_nat_alt)
  have w: "length ([221, l] @ WPS_OUI) = 6" by (simp add: WPS_OUI_def)
  have i: "RTW_GET_BE16 ?b (length pre + 6) = Some aid"
    using RTW_GET_BE16_at [of "length pre + 6" "pre @ [221, l] @ WPS_OUI" aid "[0xFF, 0xFC] @ post"] w by simp
  have c: "[0xFF, 0xFC] @ post = be16_bytes 0xFFFC @ post" by (simp add: be16_bytes_def)
  have d: "RTW_GET_BE16 ?b (length pre + 6 + 2) = Some 0xFFFC"
    unfolding c
    using RTW_GET_BE16_at [of "length pre + 6 + 2" "pre @ [221, l] @ WPS_OUI @ be16_bytes aid" "0xFFFC" post] w by simp
  have step: "wps_attr_step ?b (length pre) wps_ielen target (length pre + 6) = Next (length pre + 6)"
    using n i d assms(1) by (simp add: wps_attr_step_def Let_def)
  have r: "rd ?b (length pre) = Some 221" by (simp add: mem_simps)
  have m: "rtw_memcmp ?b (length pre + 2) WPS_OUI 4 = Some True"
    by (subst rtw_memcmp_Some) (simp_all add: WPS_OUI_def)
  have "rtw_get_wps_attr ?b (length pre) wps_ielen target buf_attr len_attr = None"
    using r m run_loop_stuck [of "wps_attr_step ?b (length pre) wps_ielen target" "length pre + 6", OF step]
    by (simp add: rtw_get_wps_attr_def Let_def)
  with step show ?thesis by blast
qed

theorem rtw_get_wps_attr_hangs_witness:
  "wps_attr_step ([] @ [221, 8] @ WPS_OUI @ be16_bytes 0x104A @ [0xFF, 0xFC] @ []) (length ([] :: buf)) 10
     0x1041 (length ([] :: buf) + 6) = Next (length ([] :: buf) + 6)"
  using rtw_get_wps_attr_hangs [of "0x104A" "0x1041" 10 "[]" 8 "[]" None None] by simp

text \<open>Error: the same wrap-around in \<open>rtw_get_p2p_attr\<close>: the check that the attribute fits is made on
  the wrapped length, so an attribute of another id with length 0xFFFD (sum zero) passes it and
  the loop never ends.\<close>

theorem rtw_get_p2p_attr_hangs:
  assumes "aid \<noteq> target" "9 \<le> p2p_ielen"
  shows "p2p_attr_step RTW_GET_LE16 (pre @ [221, l] @ P2P_OUI @ [aid, 0xFD, 0xFF] @ post) (length pre) p2p_ielen
           target (length pre + 6) = Next (length pre + 6)
    \<and> rtw_get_p2p_attr (pre @ [221, l] @ P2P_OUI @ [aid, 0xFD, 0xFF] @ post) (Some (length pre)) p2p_ielen
           target buf_attr len_attr = None"
proof -
  let ?b = "pre @ [221, l] @ P2P_OUI @ [aid, 0xFD, 0xFF] @ post"
  have n: "9 \<le> unat p2p_ielen" using assms(2) by (simp add: word_le_nat_alt)
  have w: "length ([221, l] @ P2P_OUI) = 6" by (simp add: P2P_OUI_def)
  have i: "rd ?b (length pre + 6) = Some aid"
    using w by (simp add: rd_def nth_append)
  have c: "[aid, 0xFD, 0xFF] @ post = aid # le16_bytes 0xFFFD @ post" by (simp add: le16_bytes_def)
  have d: "RTW_GET_LE16 ?b (length pre + 6 + 1) = Some 0xFFFD"
    unfolding c
    using RTW_GET_LE16_at [of "length pre + 6 + 1" "pre @ [221, l] @ P2P_OUI @ [aid]" "0xFFFD" post] w by simp
  have step: "p2p_attr_step RTW_GET_LE16 ?b (length pre) p2p_ielen target (length pre + 6) = Next (length pre + 6)"
    using n i d assms(1) by (simp add: p2p_attr_step_def Let_def)
  have r: "rd ?b (length pre) = Some 221" by (simp add: mem_simps)
  have m: "rtw_memcmp ?b (length pre + 2) P2P_OUI 4 = Some True"
    by (subst rtw_memcmp_Some) (simp_all add: P2P_OUI_def)
  have "rtw_get_p2p_attr ?b (Some (length pre)) p2p_ielen target buf_attr len_attr = None"
    using r m n run_loop_stuck [of "p2p_attr_step RTW_GET_LE16 ?b (length pre) p2p_ielen target" "length pre + 6", OF step]
    by (simp add: rtw_get_p2p_attr_def get_p2p_wfd_attr_def Let_def word_le_nat_alt)
  with step show ?thesis by blast
qed

theorem rtw_get_p2p_attr_hangs_witness:
  "rtw_get_p2p_attr ([] @ [221, 7] @ P2P_OUI @ [2, 0xFD, 0xFF] @ []) (Some (length ([] :: buf))) 9 6 None (Some 0) = None"
  using rtw_get_p2p_attr_hangs [of 2 6 9 "[]" 7 "[]" None "Some 0"] by simp

text \<open>Functional: \<open>rtw_p2p_merge_ies\<close> concatenates the bodies of the P2P elements behind one header; its
  return value is the length modulo 256 plus 4, because \<open>len\<close> is a \<open>u8\<close>, while
  \<open>rtw_get_p2p_merged_ies_len\<close> returns the full length: the two agree only below 256 bytes. The
  length byte of the merged element stays 0.\<close>

theorem rtw_p2p_merge_ies_concat:
  assumes "\<forall>x \<in> set xs. wf_ie x \<and> vie_ok 221 x" "6 + length (p2p_bodies xs) \<le> length d"
  shows "rtw_p2p_merge_ies (pre @ enc_ies xs @ post) (length pre) (length (enc_ies xs)) (Some d)
      = Some (int (length (p2p_bodies xs) mod 256) + 4,
              Some ([0xDD, 0] @ P2P_OUI @ p2p_bodies xs @ drop (6 + length (p2p_bodies xs)) d))
    \<and> rtw_get_p2p_merged_ies_len (pre @ enc_ies xs @ post) (length pre) (length (enc_ies xs))
      = Some (of_nat (length (p2p_bodies xs) + 4))"
proof
  let ?h = "[0xDD, 0x00] @ P2P_OUI"
  have lh: "length ?h = 6" by (simp add: P2P_OUI_def)
  have w: "wrs d 0 ?h = Some (?h @ drop 6 d)" using assms(2) unfolding wrs_def lh by simp
  have ol: "length (p2p_bodies xs) \<le> length (drop 6 d)" using assms(2) by simp
  have "p2p_merge_loop (pre @ enc_ies xs @ post) (length pre) (length (enc_ies xs)) 0 0 (?h @ drop 6 d) 6
    = Some (of_nat (length (p2p_bodies xs)), ?h @ p2p_bodies xs @ drop (length (p2p_bodies xs)) (drop 6 d))"
    using p2p_merge_loop_enc [OF assms(1) ol, of pre "[]" post 0 ?h] unfolding lh by simp
  then show "rtw_p2p_merge_ies (pre @ enc_ies xs @ post) (length pre) (length (enc_ies xs)) (Some d)
      = Some (int (length (p2p_bodies xs) mod 256) + 4,
              Some ([0xDD, 0] @ P2P_OUI @ p2p_bodies xs @ drop (6 + length (p2p_bodies xs)) d))"
    using w by (simp add: rtw_p2p_merge_ies_def unsigned_of_nat take_bit_eq_mod add.commute zmod_int)
  show "rtw_get_p2p_merged_ies_len (pre @ enc_ies xs @ post) (length pre) (length (enc_ies xs))
      = Some (of_nat (length (p2p_bodies xs) + 4))"
    using merged_ies_len_enc [OF assms(1), of pre "[]" post 0]
    by (simp add: rtw_get_p2p_merged_ies_len_def)
qed

theorem rtw_p2p_merge_ies_concat_witness:
  "rtw_p2p_merge_ies ([] @ enc_ies [(221, [0x50, 0x6f, 0x9a, 9, 1]), (221, [0x50, 0x6f, 0x9a, 9, 2, 3])] @ [])
     (length ([] :: buf)) (length (enc_ies [(221, [0x50, 0x6f, 0x9a, 9, 1]), (221, [0x50, 0x6f, 0x9a, 9, 2, 3])]))
     (Some (replicate 9 0))
   = Some (7, Some ([0xDD, 0] @ P2P_OUI @ [1, 2, 3]))"
  using rtw_p2p_merge_ies_concat [of "[(221, [0x50, 0x6f, 0x9a, 9, 1]), (221, [0x50, 0x6f, 0x9a, 9, 2, 3])]"
      "replicate 9 0" "[]" "[]"]
  by (simp add: wf_ie_def vie_ok_def vie_hit_def P2P_OUI_def)

end
