(* ===== verification/Recv_Frame.thy ===== *)
theory Recv_Frame
  imports C_Base
begin

text \<open>
  Receive frames (\<^verbatim>\<open>include/rtw_recv.h\<close>: \<open>recv_frame_hdr\<close>, \<open>rx_pkt_attrib\<close>, \<open>recvframe_pull\<close>,
  \<open>recvframe_put\<close>, \<open>recvframe_pull_tail\<close>; \<^verbatim>\<open>core/rtw_recv.c\<close>: \<open>rtw_alloc_recvframe\<close>,
  \<open>rtw_init_recvframe\<close>, \<open>rtw_free_recvframe\<close>, \<open>rtw_free_recvframe_queue\<close>). The bytes of the packet buffer, from
  \<open>rx_head\<close> to \<open>rx_end\<close>, are \<open>mem\<close>; \<open>rx_data\<close> and \<open>rx_tail\<close> are offsets from \<open>rx_head\<close>. A
  released buffer is the empty \<open>mem\<close>, so that an access through a stale pointer is a fault.
  \<open>frame_id\<close> is the address of the structure, \<open>frame_sta\<close> the pointer \<open>psta\<close> (an offset in the station pool) and
  \<open>preorder_tid\<close> the pointer \<open>preorder_ctrl\<close> (an index into the reordering controls of that station).
\<close>

record rx_frame =
  seq_num :: u16
  qos :: bool
  frame_id :: nat
  hdrlen :: u8
  to_fr_ds :: u8
  amsdu :: u8
  priority :: u8
  frag_num :: u8
  mfrag :: u8
  order :: u8
  privacy :: u8
  bdecrypted :: u8
  encrypt :: u8
  iv_len :: u8
  icv_len :: u8
  dst :: buf
  src :: buf
  ta :: buf
  ra :: buf
  bssid :: buf
  ack_policy :: u8
  key_index :: u8
  physts_rpt_valid :: bool
  keytrack :: int
  rlen :: u32
  mem :: buf
  rx_data :: nat
  rx_tail :: nat
  frame_sta :: "nat option"
  preorder_tid :: "nat option"

subsection \<open>The window of a frame onto its buffer\<close>

text \<open>The first component of a result says whether the pointer is not \<open>NULL\<close>.\<close>

definition recvframe_pull :: "rx_frame \<Rightarrow> nat \<Rightarrow> bool \<times> rx_frame" where
  "recvframe_pull f sz =
     (if rx_data f + sz > rx_tail f then (False, f)
      else (True, f\<lparr>rx_data := rx_data f + sz, rlen := rlen f - of_nat sz\<rparr>))"

definition recvframe_put :: "rx_frame \<Rightarrow> nat \<Rightarrow> bool \<times> rx_frame" where
  "recvframe_put f sz =
     (if rx_tail f + sz > length (mem f) then (False, f)
      else (True, f\<lparr>rx_tail := rx_tail f + sz, rlen := rlen f + of_nat sz\<rparr>))"

definition recvframe_pull_tail :: "rx_frame \<Rightarrow> nat \<Rightarrow> bool \<times> rx_frame" where
  "recvframe_pull_tail f sz =
     (if rx_tail f < rx_data f + sz then (False, f)
      else (True, f\<lparr>rx_tail := rx_tail f - sz, rlen := rlen f - of_nat sz\<rparr>))"

text \<open>The bytes of a frame, and the agreement of its pointers and its length.\<close>

definition rdata :: "rx_frame \<Rightarrow> buf" where
  "rdata f = take (rx_tail f - rx_data f) (drop (rx_data f) (mem f))"

definition frame_ok :: "rx_frame \<Rightarrow> bool" where
  "frame_ok f \<longleftrightarrow> rx_data f \<le> rx_tail f \<and> rx_tail f \<le> length (mem f) \<and> length (mem f) < 2 ^ 31
     \<and> rlen f = of_nat (rx_tail f - rx_data f)"

lemma frame_ok_length: "frame_ok f \<Longrightarrow> length (rdata f) = rx_tail f - rx_data f"
  by (auto simp: frame_ok_def rdata_def)

lemma frame_ok_rlen:
  assumes "frame_ok f"
  shows "unat (rlen f) = length (rdata f)"
proof -
  have "rx_tail f - rx_data f < 2 ^ 32" using assms by (auto simp: frame_ok_def)
  then have "unat (of_nat (rx_tail f - rx_data f) :: u32) = rx_tail f - rx_data f"
    unfolding unat_of_nat by (simp add: take_bit_nat_eq_self)
  with assms show ?thesis unfolding frame_ok_length [OF assms] by (simp only: frame_ok_def)
qed

lemma recvframe_pull_ok:
  assumes "frame_ok f"
  shows "recvframe_pull f sz = (if sz \<le> length (rdata f)
    then (True, f\<lparr>rx_data := rx_data f + sz, rlen := rlen f - of_nat sz\<rparr>) else (False, f))"
    and "frame_ok (snd (recvframe_pull f sz))"
    and "rdata (snd (recvframe_pull f sz)) = (if sz \<le> length (rdata f) then drop sz (rdata f) else rdata f)"
proof -
  have l: "rx_data f + sz \<le> rx_tail f \<longleftrightarrow> sz \<le> length (rdata f)"
    using assms by (auto simp: frame_ok_length frame_ok_def)
  show p: "recvframe_pull f sz = (if sz \<le> length (rdata f)
    then (True, f\<lparr>rx_data := rx_data f + sz, rlen := rlen f - of_nat sz\<rparr>) else (False, f))"
    using l by (auto simp: recvframe_pull_def)
  show "frame_ok (snd (recvframe_pull f sz))"
    using assms l by (auto simp: p frame_ok_def simp flip: of_nat_diff)
  show "rdata (snd (recvframe_pull f sz)) = (if sz \<le> length (rdata f) then drop sz (rdata f) else rdata f)"
    by (auto simp: p rdata_def drop_take ac_simps)
qed

lemma recvframe_pull_tail_ok:
  assumes "frame_ok f" "sz \<le> length (rdata f)"
  shows "recvframe_pull_tail f sz = (True, f\<lparr>rx_tail := rx_tail f - sz, rlen := rlen f - of_nat sz\<rparr>)"
    and "frame_ok (snd (recvframe_pull_tail f sz))"
    and "rdata (snd (recvframe_pull_tail f sz)) = take (length (rdata f) - sz) (rdata f)"
proof -
  have l: "rx_data f + sz \<le> rx_tail f" using assms by (auto simp: frame_ok_length) (auto simp: frame_ok_def)
  then show p: "recvframe_pull_tail f sz = (True, f\<lparr>rx_tail := rx_tail f - sz, rlen := rlen f - of_nat sz\<rparr>)"
    by (simp add: recvframe_pull_tail_def)
  have s: "rx_tail f - sz - rx_data f = (rx_tail f - rx_data f) - sz" by simp
  then show "frame_ok (snd (recvframe_pull_tail f sz))"
    using assms l unfolding p by (auto simp: frame_ok_def of_nat_diff)
  show "rdata (snd (recvframe_pull_tail f sz)) = take (length (rdata f) - sz) (rdata f)"
    using frame_ok_length [OF assms(1)] by (simp add: p rdata_def add.commute)
qed

text \<open>Bytes written behind the tail and then taken in by \<open>recvframe_put\<close> extend the frame.\<close>

lemma recvframe_append_ok:
  assumes "frame_ok f" "rx_tail f + length d \<le> length (mem f)"
  shows "\<exists>m. wrs (mem f) (rx_tail f) d = Some m \<and> length m = length (mem f) \<and>
    frame_ok (snd (recvframe_put (f\<lparr>mem := m\<rparr>) (length d))) \<and>
    rdata (snd (recvframe_put (f\<lparr>mem := m\<rparr>) (length d))) = rdata f @ d"
proof -
  define m where "m = take (rx_tail f) (mem f) @ d @ drop (rx_tail f + length d) (mem f)"
  have w: "wrs (mem f) (rx_tail f) d = Some m" using assms by (simp add: wrs_def m_def)
  have lm: "length m = length (mem f)" using w by (rule wrs_length)
  have le: "rx_data f \<le> rx_tail f" "rx_tail f \<le> length (mem f)" using assms(1) by (simp_all add: frame_ok_def)
  have "drop (rx_data f) m = rdata f @ d @ drop (rx_tail f + length d) (mem f)"
    using le by (simp add: m_def rdata_def drop_take)
  then have "take (rx_tail f + length d - rx_data f) (drop (rx_data f) m) = rdata f @ d"
    using le frame_ok_length [OF assms(1)] by simp
  moreover have "of_nat (rx_tail f - rx_data f) + of_nat (length d) = (of_nat (rx_tail f + length d - rx_data f) :: u32)"
    using le by (simp flip: of_nat_add)
  ultimately show ?thesis using assms w lm le
    by (simp add: recvframe_put_def frame_ok_def rdata_def)
qed

subsection \<open>The pool of free frames\<close>

record recv_pool =
  free_recv_queue :: "rx_frame list"
  free_recvframe_cnt :: u32

definition rtw_alloc_recvframe :: "'a recv_pool_scheme \<Rightarrow> rx_frame option \<times> 'a recv_pool_scheme" where
  "rtw_alloc_recvframe p =
     (case free_recv_queue p of
        [] \<Rightarrow> (None, p)
      | f # q \<Rightarrow> (Some f, p\<lparr>free_recv_queue := q, free_recvframe_cnt := free_recvframe_cnt p - 1\<rparr>))"

definition rtw_init_recvframe :: "rx_frame \<Rightarrow> rx_frame" where
  "rtw_init_recvframe f = f\<lparr>rlen := 0\<rparr>"

text \<open>\<open>rtw_list_delete\<close> takes the frame out of the list it is linked in, the free list included.\<close>

definition rtw_free_recvframe :: "rx_frame \<Rightarrow> 'a recv_pool_scheme \<Rightarrow> 'a recv_pool_scheme" where
  "rtw_free_recvframe f p =
     p\<lparr>free_recv_queue := filter (\<lambda>g. frame_id g \<noteq> frame_id f) (free_recv_queue p)
         @ [f\<lparr>mem := [], rlen := 0, physts_rpt_valid := False\<rparr>],
       free_recvframe_cnt := free_recvframe_cnt p + 1\<rparr>"

text \<open>The loop over a queue; the queue is empty afterwards.\<close>

definition rtw_free_recvframe_queue :: "rx_frame list \<Rightarrow> 'a recv_pool_scheme \<Rightarrow> 'a recv_pool_scheme" where
  "rtw_free_recvframe_queue q p = fold rtw_free_recvframe q p"

text \<open>
  The pool counts its frames; releasing a frame that is in use adds it at the end, and keeps the count right.
\<close>

definition pool_ids :: "'a recv_pool_scheme \<Rightarrow> nat list" where
  "pool_ids p = map frame_id (free_recv_queue p)"

definition pool_ok :: "'a recv_pool_scheme \<Rightarrow> bool" where
  "pool_ok p \<longleftrightarrow> distinct (pool_ids p) \<and> free_recvframe_cnt p = of_nat (length (free_recv_queue p))"

lemma rtw_free_recvframe_ids:
  assumes "frame_id f \<notin> set (pool_ids p)"
  shows "pool_ids (rtw_free_recvframe f p) = pool_ids p @ [frame_id f]"
    and "pool_ok (rtw_free_recvframe f p) = pool_ok p"
proof -
  have "filter (\<lambda>g. frame_id g \<noteq> frame_id f) (free_recv_queue p) = free_recv_queue p"
    using assms by (intro filter_True) (metis image_eqI list.set_map pool_ids_def)
  then have "rtw_free_recvframe f p = p\<lparr>free_recv_queue := free_recv_queue p @ [f\<lparr>mem := [], rlen := 0, physts_rpt_valid := False\<rparr>],
       free_recvframe_cnt := free_recvframe_cnt p + 1\<rparr>" by (simp add: rtw_free_recvframe_def)
  then show "pool_ids (rtw_free_recvframe f p) = pool_ids p @ [frame_id f]"
    "pool_ok (rtw_free_recvframe f p) = pool_ok p"
    using assms by (auto simp: pool_ids_def pool_ok_def)
qed

lemma rtw_free_recvframe_queue_ids:
  "distinct (map frame_id q) \<Longrightarrow> set (map frame_id q) \<inter> set (pool_ids p) = {} \<Longrightarrow>
   pool_ids (rtw_free_recvframe_queue q p) = pool_ids p @ map frame_id q \<and>
   pool_ok (rtw_free_recvframe_queue q p) = pool_ok p"
proof (induction q arbitrary: p)
  case (Cons f q)
  have "frame_id f \<notin> set (pool_ids p)" using Cons.prems(2) by auto
  note F = rtw_free_recvframe_ids [OF this]
  have "set (map frame_id q) \<inter> set (pool_ids (rtw_free_recvframe f p)) = {}"
    using Cons.prems F(1) by auto
  from Cons.IH [OF _ this] Cons.prems(1) F show ?case by (simp add: rtw_free_recvframe_queue_def)
qed (simp add: rtw_free_recvframe_queue_def)

text \<open>A frame and a queue behind it, released in this order.\<close>

lemma rtw_free_recvframe_then_queue:
  assumes "distinct (pool_ids p @ frame_id f # map frame_id q)"
  shows "pool_ids (rtw_free_recvframe_queue q (rtw_free_recvframe f p)) = pool_ids p @ frame_id f # map frame_id q"
    and "pool_ok (rtw_free_recvframe_queue q (rtw_free_recvframe f p)) = pool_ok p"
  using assms rtw_free_recvframe_queue_ids [of q "rtw_free_recvframe f p"] rtw_free_recvframe_ids [of f p] by auto

lemma rtw_free_recvframe_more [simp]:
  "recv_pool.more (rtw_free_recvframe f p) = recv_pool.more p"
  "recv_pool.more (rtw_free_recvframe_queue q p) = recv_pool.more p"
  unfolding rtw_free_recvframe_queue_def
  by (induction q arbitrary: p) (auto simp: rtw_free_recvframe_def)

end
