(* ===== verification/Recv_Reorder.thy ===== *)
theory Recv_Reorder
  imports Recv_Frame "HOL-Library.Multiset"
begin

text \<open>
  The receive reordering buffer of an A-MPDU stream (\<^verbatim>\<open>core/rtw_recv.c\<close>:
  \<open>check_indicate_seq\<close>, \<open>enqueue_reorder_recvframe\<close>, \<open>recv_indicatepkts_in_order\<close>,
  \<open>recv_indicatepkt_reorder\<close>, \<open>rtw_reordering_ctrl_timeout_handler\<close> and the tail of
  \<open>recv_func_posthandle\<close>; \<^verbatim>\<open>core/rtw_mlme_ext.c\<close>: \<open>add_ba_rsp_hdl\<close>, \<open>OnAction_back\<close> (DELBA),
  \<open>rtw_delba_check\<close>; \<^verbatim>\<open>core/rtw_mlme.c\<close>: \<open>rtw_joinbss_update_stainfo\<close>). Sequence numbers are
  16-bit words counting modulo 4096. \<open>recv_process_mpdu\<close>, which hands a frame to the network
  stack, is a function from frames to success; the frames it was called on, in order, are the
  list \<open>indicated\<close>. The frame and timer handlers work on the queue under its lock, and the steps of a
  block-ack session set single fields, so that they interleave as whole steps.
\<close>

subsection \<open>State\<close>

record recv_reorder_ctrl =
  enable :: bool
  indicate_seq :: u16
  wsize_b :: u8
  ampdu_size :: u8
  pending_recvframe_queue :: "rx_frame list"
  bReorderWaiting :: bool
  reordering_ctrl_timer :: bool
  rec_abba_rsp_ack :: bool

record recv_priv =
  rx_drop :: u64
  dbg_rx_drop_count :: u64
  dbg_rx_ampdu_drop_count :: u64
  dbg_rx_ampdu_forced_indicate_count :: u64
  dbg_rx_ampdu_loss_count :: u64
  dbg_rx_ampdu_window_shift_cnt :: u64
  indicated :: "rx_frame list"

definition SN_LESS :: "u16 \<Rightarrow> u16 \<Rightarrow> bool" where
  "SN_LESS a b \<longleftrightarrow> (a - b) AND 0x800 \<noteq> 0"

definition SN_EQUAL :: "u16 \<Rightarrow> u16 \<Rightarrow> bool" where
  "SN_EQUAL a b \<longleftrightarrow> a = b"

text \<open>The reordering part of a station as \<open>_rtw_alloc_stainfo\<close> and \<open>rtw_joinbss_update_stainfo\<close> set it up.\<close>

definition reorder_ctrl_init :: recv_reorder_ctrl where
  "reorder_ctrl_init = \<lparr>enable = False, indicate_seq = 0xffff, wsize_b = 64, ampdu_size = 0xff,
     pending_recvframe_queue = [], bReorderWaiting = False, reordering_ctrl_timer = False,
     rec_abba_rsp_ack = False\<rparr>"

subsection \<open>Operations\<close>

definition check_indicate_seq ::
  "recv_priv \<Rightarrow> recv_reorder_ctrl \<Rightarrow> u16 \<Rightarrow> bool \<times> recv_priv \<times> recv_reorder_ctrl" where
  "check_indicate_seq pv c seq =
     (let wsize = ucast (wsize_b c);
          c1 = (if indicate_seq c = 0xFFFF then c\<lparr>indicate_seq := seq\<rparr> else c);
          wend = (indicate_seq c1 + wsize - 1) AND 0xFFF in
      if SN_LESS seq (indicate_seq c1) then (False, pv, c1)
      else if SN_EQUAL seq (indicate_seq c1) then
        (True, pv, c1\<lparr>indicate_seq := (indicate_seq c1 + 1) AND 0xFFF\<rparr>)
      else if SN_LESS wend seq then
        (True, pv\<lparr>dbg_rx_ampdu_window_shift_cnt := dbg_rx_ampdu_window_shift_cnt pv + 1\<rparr>,
         c1\<lparr>indicate_seq := (if uint seq \<ge> uint (wsize_b c) - 1 then seq + 1 - wsize
                              else 0xFFF - (wsize - (seq + 1)) + 1)\<rparr>)
      else (True, pv, c1))"

text \<open>\<open>None\<close>: a frame with the same sequence number is queued, nothing is inserted.\<close>

fun enqueue_reorder_recvframe :: "rx_frame \<Rightarrow> rx_frame list \<Rightarrow> rx_frame list option" where
  "enqueue_reorder_recvframe f [] = Some [f]"
| "enqueue_reorder_recvframe f (g # gs) =
     (if SN_LESS (seq_num g) (seq_num f) then map_option ((#) g) (enqueue_reorder_recvframe f gs)
      else if SN_EQUAL (seq_num g) (seq_num f) then None
      else Some (f # g # gs))"

definition recv_indicatepkts_pkt_loss_cnt :: "recv_priv \<Rightarrow> u64 \<Rightarrow> u64 \<Rightarrow> recv_priv" where
  "recv_indicatepkts_pkt_loss_cnt pv prev_seq current_seq =
     (let n = (if current_seq < prev_seq then 4096 + current_seq - prev_seq else current_seq - prev_seq) in
      pv\<lparr>dbg_rx_ampdu_loss_count := dbg_rx_ampdu_loss_count pv + n, rx_drop := rx_drop pv + n\<rparr>)"

text \<open>
  The loop of \<open>recv_indicatepkts_in_order\<close>: \<open>indicate_seq\<close>, the queue and \<open>bPktInBuf\<close> go in;
  \<open>indicate_seq\<close>, the frames processed, the queue left and \<open>bPktInBuf\<close> come out.
\<close>

fun indicate_loop :: "u16 \<Rightarrow> rx_frame list \<Rightarrow> bool \<Rightarrow> u16 \<times> rx_frame list \<times> rx_frame list \<times> bool" where
  "indicate_loop iseq [] bPktInBuf = (iseq, [], [], bPktInBuf)"
| "indicate_loop iseq (f # fs) bPktInBuf =
     (if \<not> SN_LESS iseq (seq_num f) then
        (case indicate_loop (if SN_EQUAL iseq (seq_num f) then (iseq + 1) AND 0xFFF else iseq) fs False of
           (iseq', del, rest, b) \<Rightarrow> (iseq', f # del, rest, b))
      else (iseq, [], f # fs, True))"

definition process_mpdus :: "(rx_frame \<Rightarrow> bool) \<Rightarrow> rx_frame list \<Rightarrow> recv_priv \<Rightarrow> recv_priv" where
  "process_mpdus recv_process_mpdu del pv =
     pv\<lparr>indicated := indicated pv @ del,
        dbg_rx_drop_count := dbg_rx_drop_count pv + of_nat (length (filter (\<lambda>f. \<not> recv_process_mpdu f) del))\<rparr>"

definition recv_indicatepkts_in_order ::
  "(rx_frame \<Rightarrow> bool) \<Rightarrow> recv_priv \<Rightarrow> recv_reorder_ctrl \<Rightarrow> bool \<Rightarrow> bool \<times> recv_priv \<times> recv_reorder_ctrl" where
  "recv_indicatepkts_in_order recv_process_mpdu pv c bforced =
     (let pv1 = (if bforced then pv\<lparr>dbg_rx_ampdu_forced_indicate_count := dbg_rx_ampdu_forced_indicate_count pv + 1\<rparr>
                 else pv) in
      if bforced \<and> pending_recvframe_queue c = [] then (True, pv1, c)
      else
        let (pv2, iseq) =
              (if bforced then
                 let s = seq_num (hd (pending_recvframe_queue c)) in
                 (recv_indicatepkts_pkt_loss_cnt pv1 (ucast (indicate_seq c)) (ucast s), s)
               else (pv1, indicate_seq c));
            (iseq', del, rest, b) = indicate_loop iseq (pending_recvframe_queue c) False in
        (b, process_mpdus recv_process_mpdu del pv2,
         c\<lparr>indicate_seq := iseq', pending_recvframe_queue := rest\<rparr>))"

datatype rx_ret = RX_SUCCESS | RX_FAIL | RX_HANDLED

text \<open>The indication step of \<open>recv_indicatepkt_reorder\<close>, with the timer armed or cancelled.\<close>

definition reorder_indicate ::
  "(rx_frame \<Rightarrow> bool) \<Rightarrow> recv_priv \<Rightarrow> recv_reorder_ctrl \<Rightarrow> rx_ret \<times> recv_priv \<times> recv_reorder_ctrl option" where
  "reorder_indicate recv_process_mpdu pv c =
     (let (b, pv3, c3) = recv_indicatepkts_in_order recv_process_mpdu pv c False in
      if b then
        (RX_HANDLED, pv3,
         Some (if \<not> bReorderWaiting c3
               then c3\<lparr>bReorderWaiting := True, reordering_ctrl_timer := True\<rparr> else c3))
      else
        (RX_HANDLED, pv3, Some (c3\<lparr>bReorderWaiting := False, reordering_ctrl_timer := False\<rparr>)))"

definition recv_indicatepkt_reorder ::
  "(rx_frame \<Rightarrow> bool) \<Rightarrow> recv_priv \<Rightarrow> recv_reorder_ctrl option \<Rightarrow> rx_frame
   \<Rightarrow> rx_ret \<times> recv_priv \<times> recv_reorder_ctrl option" where
  "recv_indicatepkt_reorder recv_process_mpdu pv preorder_ctrl f =
     (case preorder_ctrl of
        None \<Rightarrow> (RX_SUCCESS, pv, None)
      | Some c \<Rightarrow>
          if \<not> qos f \<or> \<not> enable c then (RX_SUCCESS, pv, Some c)
          else
            let c1 = (if rec_abba_rsp_ack c then c\<lparr>rec_abba_rsp_ack := False, indicate_seq := 0xFFFF\<rparr> else c);
                (ok, pv2, c2) = check_indicate_seq pv c1 (seq_num f) in
            if \<not> ok then
              (RX_FAIL, pv2\<lparr>dbg_rx_ampdu_drop_count := dbg_rx_ampdu_drop_count pv2 + 1\<rparr>, Some c2)
            else
              (case enqueue_reorder_recvframe f (pending_recvframe_queue c2) of
                 None \<Rightarrow> (RX_FAIL, pv2, Some c2)
               | Some q \<Rightarrow>
                   reorder_indicate recv_process_mpdu pv2 (c2\<lparr>pending_recvframe_queue := q\<rparr>)))"

text \<open>The timer has fired, so it is not armed when the handler starts.\<close>

definition rtw_reordering_ctrl_timeout_handler ::
  "(rx_frame \<Rightarrow> bool) \<Rightarrow> bool \<Rightarrow> recv_priv \<Rightarrow> recv_reorder_ctrl \<Rightarrow> recv_priv \<times> recv_reorder_ctrl" where
  "rtw_reordering_ctrl_timeout_handler recv_process_mpdu cannot_run pv c =
     (if cannot_run then (pv, c\<lparr>reordering_ctrl_timer := False\<rparr>)
      else
        let (b, pv1, c1) = recv_indicatepkts_in_order recv_process_mpdu pv
              (c\<lparr>reordering_ctrl_timer := False, bReorderWaiting := False\<rparr>) True in
        (pv1, if b then c1\<lparr>reordering_ctrl_timer := True\<rparr> else c1))"

definition recv_set_iseq_before_mpdu_process :: "recv_reorder_ctrl option \<Rightarrow> u16 \<Rightarrow> recv_reorder_ctrl option" where
  "recv_set_iseq_before_mpdu_process c seq = map_option (\<lambda>c. c\<lparr>indicate_seq := seq\<rparr>) c"

definition recv_set_iseq_after_mpdu_process :: "recv_reorder_ctrl option \<Rightarrow> recv_reorder_ctrl option" where
  "recv_set_iseq_after_mpdu_process c = map_option (\<lambda>c. c\<lparr>indicate_seq := (indicate_seq c + 1) mod 4096\<rparr>) c"

text \<open>\<open>recv_func_posthandle\<close> from the reordering step on.\<close>

definition recv_posthandle_reorder ::
  "(rx_frame \<Rightarrow> bool) \<Rightarrow> recv_priv \<Rightarrow> recv_reorder_ctrl option \<Rightarrow> rx_frame
   \<Rightarrow> rx_ret \<times> recv_priv \<times> recv_reorder_ctrl option" where
  "recv_posthandle_reorder recv_process_mpdu pv c f =
     (case recv_indicatepkt_reorder recv_process_mpdu pv c f of
        (RX_FAIL, pv1, c1) \<Rightarrow> (RX_FAIL, pv1\<lparr>dbg_rx_drop_count := dbg_rx_drop_count pv1 + 1\<rparr>, c1)
      | (RX_HANDLED, pv1, c1) \<Rightarrow> (RX_HANDLED, pv1, c1)
      | (RX_SUCCESS, pv1, c1) \<Rightarrow>
          let c2 = recv_set_iseq_before_mpdu_process c1 (seq_num f);
              ok = recv_process_mpdu f;
              pv2 = pv1\<lparr>indicated := indicated pv1 @ [f]\<rparr>;
              c3 = recv_set_iseq_after_mpdu_process c2 in
          if ok then (RX_SUCCESS, pv2, c3)
          else (RX_FAIL, pv2\<lparr>dbg_rx_drop_count := dbg_rx_drop_count pv2 + 1\<rparr>, c3))"

text \<open>\<open>add_ba_rsp_hdl\<close>: the answer to an ADDBA request, accepted (status 0) or rejected (37).\<close>

definition add_ba_rsp_hdl :: "recv_reorder_ctrl \<Rightarrow> nat \<Rightarrow> u8 \<Rightarrow> recv_reorder_ctrl" where
  "add_ba_rsp_hdl c status ba_size =
     (let c1 = c\<lparr>rec_abba_rsp_ack := True\<rparr> in
      if status = 0 then c1\<lparr>enable := True, ampdu_size := ba_size\<rparr>
      else if status = 37 then c1\<lparr>enable := False\<rparr> else c1)"

subsection \<open>Distances between sequence numbers\<close>

definition sn_dist :: "u16 \<Rightarrow> u16 \<Rightarrow> nat" where
  "sn_dist a b = nat ((uint b - uint a) mod 4096)"

definition sn_ok :: "u16 \<Rightarrow> bool" where
  "sn_ok a \<longleftrightarrow> uint a < 4096"

lemma sn_dist_less: "sn_dist a b < 4096"
  by (simp add: sn_dist_def nat_less_iff)

lemma int_sn_dist: "int (sn_dist a b) = (uint b - uint a) mod 4096"
  by (simp add: sn_dist_def)

lemma and_0x800: "(w :: u16) AND 0x800 \<noteq> 0 \<longleftrightarrow> bit w 11"
proof -
  have p: "(0x800 :: u16) = push_bit 11 1" by simp
  show ?thesis unfolding p
    using and_exp_eq_0_iff_not_bit [of w 11] by (simp add: push_bit_eq_mult)
qed

lemma bit_11_mod: "bit (x mod 65536 :: int) 11 \<longleftrightarrow> 2048 \<le> x mod 4096"
proof -
  define y where "y = x mod 65536"
  have m: "y mod 4096 = x mod 4096" by (simp add: y_def mod_mod_cancel)
  define q r where "q = y div 4096" and "r = y mod 4096"
  have y: "y = r + 2048 * (2 * q)" by (simp add: q_def r_def)
  have r: "0 \<le> r" "r < 4096" by (simp_all add: r_def)
  have "y div 2048 = 2 * q + r div 2048" unfolding y by (subst div_mult_self2) simp_all
  moreover have "r div 2048 = (if 2048 \<le> r then 1 else 0)"
    using r by (auto intro: int_div_pos_eq [where r = "r - 2048"])
  ultimately show ?thesis using m by (simp add: bit_iff_odd y_def [symmetric] r_def)
qed

lemma SN_LESS_dist: "SN_LESS a b \<longleftrightarrow> 2048 \<le> sn_dist b a"
proof -
  have "SN_LESS a b \<longleftrightarrow> bit (uint (a - b)) 11" by (simp add: SN_LESS_def and_0x800 bit_uint_iff)
  also have "uint (a - b) = (uint a - uint b) mod 65536"
    by (simp add: uint_word_arith_bintrs take_bit_eq_mod)
  finally show ?thesis by (simp add: bit_11_mod sn_dist_def le_nat_iff)
qed

lemma sn_dist_eq_0: "sn_ok a \<Longrightarrow> sn_ok b \<Longrightarrow> sn_dist a b = 0 \<longleftrightarrow> a = b"
proof -
  assume ok: "sn_ok a" "sn_ok b"
  have "sn_dist a b = 0 \<longleftrightarrow> (uint b - uint a) mod 4096 = 0"
    by (simp add: sn_dist_def) (metis order_antisym pos_mod_sign zero_less_numeral)
  also have "\<dots> \<longleftrightarrow> uint b mod 4096 = uint a mod 4096" by (simp add: mod_eq_dvd_iff mod_eq_0_iff_dvd)
  finally show ?thesis using ok by (simp add: sn_ok_def word_uint_eq_iff) auto
qed

lemma sn_dist_same [simp]: "sn_dist a a = 0"
  by (simp add: sn_dist_def)

text \<open>Going from \<open>a\<close> by way of \<open>b\<close>: distances from \<open>a\<close> decide the distance from \<open>b\<close> to \<open>c\<close>.\<close>

lemma sn_dist_from:
  "sn_dist b c = (if sn_dist a b \<le> sn_dist a c then sn_dist a c - sn_dist a b
                  else 4096 - (sn_dist a b - sn_dist a c))"
proof -
  let ?p = "(uint b - uint a) mod 4096" and ?q = "(uint c - uint a) mod 4096"
  have "(uint c - uint b) mod 4096 = (?q - ?p) mod 4096"
    by (simp add: mod_diff_eq)
  moreover have "0 \<le> ?p" "?p < 4096" "0 \<le> ?q" "?q < 4096" by simp_all
  moreover have "(?q - ?p) mod 4096 = (if ?p \<le> ?q then ?q - ?p else ?q - ?p + 4096)"
  proof (cases "?p \<le> ?q")
    case True
    then show ?thesis by (subst mod_pos_pos_trivial) auto
  next
    case False
    have "(?q - ?p) mod 4096 = (?q - ?p + 4096) mod 4096" by simp
    also have "\<dots> = ?q - ?p + 4096" using False by (intro mod_pos_pos_trivial) auto
    finally show ?thesis using False by simp
  qed
  ultimately have "int (sn_dist b c) = (if ?p \<le> ?q then ?q - ?p else ?q - ?p + 4096)"
    by (simp add: int_sn_dist)
  then show ?thesis unfolding int_sn_dist [symmetric] by (simp split: if_splits)
qed

lemma SN_LESS_from:
  assumes "sn_dist a b < 2048 + sn_dist a c" "sn_dist a c \<le> 2048 + sn_dist a b"
  shows "SN_LESS b c \<longleftrightarrow> sn_dist a b < sn_dist a c"
  using assms sn_dist_from [of c b a] unfolding SN_LESS_dist by (auto split: if_splits)

lemma sn_eq_from: "sn_ok b \<Longrightarrow> sn_ok c \<Longrightarrow> b = c \<longleftrightarrow> sn_dist a b = sn_dist a c"
  using sn_dist_from [of b c a] sn_dist_eq_0 [of b c] sn_dist_less [of a b] by (auto split: if_splits)

lemma uint_and_0xFFF: "uint ((w :: u16) AND 0xFFF) = uint w mod 4096"
proof -
  have m: "(0xFFF :: u16) = mask 12" by (simp add: mask_eq_exp_minus_1)
  show ?thesis unfolding m take_bit_eq_mask [symmetric]
    by (subst unsigned_take_bit_eq) (simp add: take_bit_eq_mod)
qed

lemma uint_add_mod: "uint (a + b :: u16) mod 4096 = (uint a + uint b) mod 4096"
  by (simp add: uint_word_arith_bintrs take_bit_eq_mod mod_mod_cancel)

lemma uint_sub_mod: "uint (a - b :: u16) mod 4096 = (uint a - uint b) mod 4096"
  by (simp add: uint_word_arith_bintrs take_bit_eq_mod mod_mod_cancel)

lemma sn_ok_and [simp]: "sn_ok (w AND 0xFFF)"
  by (simp add: sn_ok_def uint_and_0xFFF)

lemma sn_dist_mod: "uint b mod 4096 = x mod 4096 \<Longrightarrow> sn_dist a b = nat ((x - uint a) mod 4096)"
  unfolding sn_dist_def by (metis mod_diff_left_eq)

lemma sn_dist_succ:
  assumes "sn_dist a b < 4095"
  shows "sn_dist a ((b + 1) AND 0xFFF) = sn_dist a b + 1"
proof -
  have "uint ((b + 1) AND 0xFFF) mod 4096 = (uint b + 1) mod 4096"
    using uint_add_mod [of b 1] by (simp add: uint_and_0xFFF)
  then have "sn_dist a ((b + 1) AND 0xFFF) = nat ((uint b + 1 - uint a) mod 4096)" by (rule sn_dist_mod)
  also have "(uint b + 1 - uint a) mod 4096 = (int (sn_dist a b) + 1) mod 4096"
  proof -
    have "uint b + 1 - uint a = 1 + (uint b - uint a)" by simp
    then show ?thesis unfolding int_sn_dist by (metis add.commute mod_add_right_eq)
  qed
  finally show ?thesis using assms by (simp add: nat_add_distrib)
qed

subsection \<open>Queues relative to a base\<close>

abbreviation sn_key :: "u16 \<Rightarrow> rx_frame \<Rightarrow> nat" where
  "sn_key base f \<equiv> sn_dist base (seq_num f)"

definition queue_ok :: "u16 \<Rightarrow> rx_frame list \<Rightarrow> bool" where
  "queue_ok base fs \<longleftrightarrow> list_all (\<lambda>f. sn_ok (seq_num f) \<and> sn_key base f < 2048) fs
     \<and> sorted_wrt (<) (map (sn_key base) fs)"

lemma queue_ok_Cons [simp]:
  "queue_ok base (f # fs) \<longleftrightarrow> sn_ok (seq_num f) \<and> sn_key base f < 2048
     \<and> (\<forall>g \<in> set fs. sn_key base f < sn_key base g) \<and> queue_ok base fs"
  by (auto simp: queue_ok_def)

lemma queue_ok_Nil [simp]: "queue_ok base []"
  by (simp add: queue_ok_def)

lemma queue_ok_mem: "queue_ok base fs \<Longrightarrow> f \<in> set fs \<Longrightarrow> sn_ok (seq_num f) \<and> sn_key base f < 2048"
  by (auto simp: queue_ok_def list_all_iff)

lemma enqueue_spec:
  assumes "queue_ok base fs" "sn_ok (seq_num f)" "sn_key base f < 2048"
  shows "case enqueue_reorder_recvframe f fs of
      None \<Rightarrow> (\<exists>g \<in> set fs. seq_num g = seq_num f)
    | Some q \<Rightarrow> (\<exists>xs ys. fs = xs @ ys \<and> q = xs @ f # ys) \<and> queue_ok base q"
  using assms(1)
proof (induction fs)
  case Nil
  then show ?case using assms by simp
next
  case (Cons g gs)
  then have less: "SN_LESS (seq_num g) (seq_num f) \<longleftrightarrow> sn_key base g < sn_key base f"
    and eq: "seq_num g = seq_num f \<longleftrightarrow> sn_key base g = sn_key base f"
    using assms SN_LESS_from [of base "seq_num g" "seq_num f"] sn_eq_from [of "seq_num g" "seq_num f" base]
    by auto
  consider "sn_key base g < sn_key base f" | "sn_key base g = sn_key base f" | "sn_key base f < sn_key base g"
    by linarith
  then show ?case
  proof cases
    case 1
    show ?thesis
    proof (cases "enqueue_reorder_recvframe f gs")
      case None
      with 1 less Cons show ?thesis by (auto simp: SN_EQUAL_def)
    next
      case (Some q)
      with Cons obtain xs ys where q: "gs = xs @ ys" "q = xs @ f # ys" "queue_ok base q" by auto
      from q Cons.prems 1 have "queue_ok base (g # q)" by auto
      moreover have "\<exists>xs ys. g # gs = xs @ ys \<and> g # q = xs @ f # ys"
        by (rule exI [of _ "g # xs"], rule exI [of _ ys]) (simp add: q)
      ultimately show ?thesis using 1 less Some by simp
    qed
  next
    case 2
    with less eq show ?thesis by (auto simp: SN_EQUAL_def)
  next
    case 3
    have "\<exists>xs ys. g # gs = xs @ ys \<and> f # g # gs = xs @ f # ys"
      by (rule exI [of _ "[]"], rule exI [of _ "g # gs"]) simp
    moreover have "queue_ok base (f # g # gs)" using 3 Cons.prems assms by auto
    ultimately show ?thesis using 3 less eq by (simp add: SN_EQUAL_def)
  qed
qed

lemma indicate_loop_spec:
  assumes "queue_ok base fs" "sn_ok iseq" "\<forall>f \<in> set fs. sn_dist base iseq < 2048 + sn_key base f"
    and "sn_dist base iseq \<le> 2048"
  shows "case indicate_loop iseq fs b0 of (iseq', del, rest, b) \<Rightarrow>
      fs = del @ rest \<and> sn_ok iseq' \<and> sn_dist base iseq \<le> sn_dist base iseq' \<and> sn_dist base iseq' \<le> 2048
    \<and> (\<forall>f \<in> set del. sn_key base f < sn_dist base iseq' \<or> sn_key base f < sn_dist base iseq)
    \<and> (\<forall>f \<in> set rest. sn_dist base iseq' < sn_key base f)
    \<and> b = (if fs = [] then b0 else rest \<noteq> [])"
  using assms
proof (induction iseq fs b0 rule: indicate_loop.induct)
  case (1 iseq b)
  then show ?case by simp
next
  case (2 iseq f fs b)
  from "2.prems" have less: "SN_LESS iseq (seq_num f) \<longleftrightarrow> sn_dist base iseq < sn_key base f"
    by (intro SN_LESS_from) auto
  from "2.prems" have eq: "iseq = seq_num f \<longleftrightarrow> sn_dist base iseq = sn_key base f"
    by (intro sn_eq_from) auto
  show ?case
  proof (cases "sn_dist base iseq < sn_key base f")
    case True
    with less "2.prems" show ?thesis by auto
  next
    case False
    let ?i = "if SN_EQUAL iseq (seq_num f) then (iseq + 1) AND 0xFFF else iseq"
    have di: "sn_dist base ?i = (if sn_dist base iseq = sn_key base f then sn_dist base iseq + 1 else sn_dist base iseq)"
      using eq "2.prems"(1) sn_dist_succ [of base iseq] by (auto simp: SN_EQUAL_def)
    have ok: "sn_ok ?i" using "2.prems"(2) by simp
    obtain iseq' del rest b' where r: "indicate_loop ?i fs False = (iseq', del, rest, b')"
      by (metis prod_cases4)
    have "case indicate_loop ?i fs False of (iseq', del, rest, b) \<Rightarrow>
        fs = del @ rest \<and> sn_ok iseq' \<and> sn_dist base ?i \<le> sn_dist base iseq' \<and> sn_dist base iseq' \<le> 2048
      \<and> (\<forall>f \<in> set del. sn_key base f < sn_dist base iseq' \<or> sn_key base f < sn_dist base ?i)
      \<and> (\<forall>f \<in> set rest. sn_dist base iseq' < sn_key base f)
      \<and> b = (if fs = [] then False else rest \<noteq> [])"
      using "2.prems" False less di ok by (intro "2.IH") (auto split: if_splits)
    then show ?thesis
      using r False less di by (auto split: if_splits)
  qed
qed

subsection \<open>The window\<close>

definition reorder_inv :: "recv_reorder_ctrl \<Rightarrow> bool" where
  "reorder_inv c \<longleftrightarrow> wsize_b c \<noteq> 0 \<and>
     (if indicate_seq c = 0xFFFF then pending_recvframe_queue c = []
      else sn_ok (indicate_seq c) \<and> queue_ok (indicate_seq c) (pending_recvframe_queue c)
         \<and> list_all (\<lambda>f. 0 < sn_key (indicate_seq c) f \<and> sn_key (indicate_seq c) f < unat (wsize_b c))
             (pending_recvframe_queue c))"

text \<open>The first sequence number of the window when a frame arrives: the frame's own, if none is set.\<close>

definition win_base :: "recv_reorder_ctrl \<Rightarrow> u16 \<Rightarrow> u16" where
  "win_base c s = (if indicate_seq c = 0xFFFF then s else indicate_seq c)"

definition win_shift :: "recv_reorder_ctrl \<Rightarrow> u16 \<Rightarrow> nat" where
  "win_shift c s = (let d = sn_dist (win_base c s) s; w = unat (wsize_b c) in
     if d = 0 then 1 else if w \<le> d then d + 1 - w else 0)"

lemma u16_of_int: "uint (word_of_int x :: u16) = x mod 65536"
  by (simp add: uint_word_of_int_eq take_bit_eq_mod)

lemma wend_dist:
  assumes "w \<noteq> (0 :: u8)"
  shows "sn_dist base ((base + ucast w - 1) AND 0xFFF) = unat w - 1"
proof -
  have e: "base + ucast w - 1 = word_of_int (uint base + uint w - 1)" by simp
  have "uint ((base + ucast w - 1) AND 0xFFF) mod 4096 = (uint base + uint w - 1) mod 4096"
    unfolding e uint_and_0xFFF u16_of_int by (simp add: mod_mod_cancel)
  then have "sn_dist base ((base + ucast w - 1) AND 0xFFF) = nat ((uint base + uint w - 1 - uint base) mod 4096)"
    by (rule sn_dist_mod)
  also have "uint base + uint w - 1 - uint base = int (unat w - 1)"
  proof -
    have "uint w = int (unat w)" "1 \<le> unat w" using assms by (simp_all add: Suc_le_eq unat_gt_0)
    then show ?thesis by linarith
  qed
  also have "nat (int (unat w - 1) mod 4096) = (unat w - 1) mod 4096"
    by (metis nat_int of_nat_mod of_nat_numeral)
  also have "\<dots> = unat w - 1" using unat_u8_less [of w] by (intro mod_less) linarith
  finally show ?thesis .
qed

lemma shift_seq:
  assumes "sn_ok s" "w \<noteq> (0 :: u8)"
    and i: "i = (if uint s \<ge> uint w - 1 then s + 1 - ucast w else 0xFFF - (ucast w - (s + 1)) + 1)"
  shows "sn_ok i" "uint i mod 4096 = (uint s + 1 - uint w) mod 4096"
proof -
  have w: "0 \<le> uint w" "uint w < 256" using uint_lt2p [of w] by simp_all
  have s: "0 \<le> uint s" "uint s < 4096" using assms(1) by (simp_all add: sn_ok_def)
  show "sn_ok i" "uint i mod 4096 = (uint s + 1 - uint w) mod 4096"
  proof -
    consider (hi) "uint s \<ge> uint w - 1" | (lo) "uint s < uint w - 1" by linarith
    then have "sn_ok i \<and> uint i mod 4096 = (uint s + 1 - uint w) mod 4096"
    proof cases
      case hi
      then have "i = word_of_int (uint s + 1 - uint w)" using i by simp
      then have u: "uint i = uint s + 1 - uint w"
        using hi s w by (simp only: u16_of_int) (intro mod_pos_pos_trivial; linarith)
      moreover have "uint w \<noteq> 0" using assms(2) by (simp add: word_uint_eq_iff)
      ultimately have "uint i < 4096" using s w by linarith
      then show ?thesis using u by (simp add: sn_ok_def)
    next
      case lo
      then have "i = word_of_int (4095 - (uint w - (uint s + 1)) + 1)" using i by simp
      then have u: "uint i = 4096 + (uint s + 1 - uint w)"
        using lo s w by (simp only: u16_of_int) (subst mod_pos_pos_trivial; linarith)
      have "uint i < 4096" using u lo by linarith
      moreover have "uint i mod 4096 = (uint s + 1 - uint w) mod 4096"
        unfolding u by (rule mod_add_self1)
      ultimately show ?thesis by (simp add: sn_ok_def)
    qed
    then show "sn_ok i" "uint i mod 4096 = (uint s + 1 - uint w) mod 4096" by auto
  qed
qed

lemma check_indicate_seq_spec:
  assumes "sn_ok s" "wsize_b c \<noteq> 0" "sn_ok (win_base c s)"
  shows "case check_indicate_seq pv c s of (ok, pv', c') \<Rightarrow>
      indicated pv' = indicated pv \<and> ok = (sn_dist (win_base c s) s < 2048)
    \<and> (if ok then (\<exists>i. c' = c\<lparr>indicate_seq := i\<rparr> \<and> sn_ok i \<and> sn_dist (win_base c s) i = win_shift c s)
       else c' = c\<lparr>indicate_seq := win_base c s\<rparr> \<and> pv' = pv)"
proof -
  define base w d where "base = win_base c s" and "w = unat (wsize_b c)" and "d = sn_dist base s"
  have w: "1 \<le> w" "w \<le> 255" using assms(2) by (simp_all add: w_def Suc_le_eq unat_gt_0)
  have c1: "(if indicate_seq c = 0xFFFF then c\<lparr>indicate_seq := s\<rparr> else c) = c\<lparr>indicate_seq := base\<rparr>"
    by (simp add: base_def win_base_def)
  let ?wend = "(base + ucast (wsize_b c) - 1) AND 0xFFF"
  have we: "sn_dist base ?wend = w - 1" using wend_dist [OF assms(2)] by (simp add: w_def)
  have old: "SN_LESS s base \<longleftrightarrow> 2048 \<le> d" by (simp add: SN_LESS_dist d_def)
  have eq: "s = base \<longleftrightarrow> d = 0"
    using sn_dist_eq_0 [of base s] assms by (auto simp: d_def base_def)
  have beyond: "SN_LESS ?wend s \<longleftrightarrow> w - 1 < d" if "d < 2048"
    using SN_LESS_from [of base ?wend s] that w by (simp add: we d_def)
  let ?i = "if uint s \<ge> uint (wsize_b c) - 1 then s + 1 - ucast (wsize_b c) else 0xFFF - (ucast (wsize_b c) - (s + 1)) + 1"
  note sh = shift_seq [OF assms(1,2), of ?i, OF refl]
  have si: "sn_dist base ?i = d + 1 - w" if "w \<le> d" "d < 2048"
  proof -
    have "sn_dist base ?i = nat ((uint s + 1 - uint (wsize_b c) - uint base) mod 4096)"
      using sh(2) by (rule sn_dist_mod)
    also have "(uint s + 1 - uint (wsize_b c) - uint base) mod 4096 = (int d + 1 - int w) mod 4096"
    proof -
      have "uint s + 1 - uint (wsize_b c) - uint base = (uint s - uint base) + (1 - int w)"
        by (simp add: w_def)
      then show ?thesis unfolding d_def int_sn_dist by (metis add_diff_eq mod_add_left_eq)
    qed
    also have "int d + 1 - int w = int (d + 1 - w)" using that by simp
    finally show ?thesis using that by (simp add: nat_mod_as_int [symmetric])
  qed
  have sc: "sn_dist base ((base + 1) AND 0xFFF) = 1" using sn_dist_succ [of base base] by simp
  have ws: "win_shift c s = (if d = 0 then 1 else if w \<le> d then d + 1 - w else 0)"
    by (simp add: win_shift_def Let_def base_def d_def w_def)
  have eqn: "check_indicate_seq pv c s =
      (if SN_LESS s base then (False, pv, c\<lparr>indicate_seq := base\<rparr>)
       else if s = base then (True, pv, c\<lparr>indicate_seq := (base + 1) AND 0xFFF\<rparr>)
       else if SN_LESS ?wend s then
         (True, pv\<lparr>dbg_rx_ampdu_window_shift_cnt := dbg_rx_ampdu_window_shift_cnt pv + 1\<rparr>, c\<lparr>indicate_seq := ?i\<rparr>)
       else (True, pv, c\<lparr>indicate_seq := base\<rparr>))"
    unfolding check_indicate_seq_def Let_def c1 SN_EQUAL_def by simp
  consider "2048 \<le> d" | "d = 0" | "0 < d" "d < w" | "w \<le> d" "0 < d" "d < 2048" by linarith
  then show ?thesis
  proof cases
    case 1
    then show ?thesis unfolding eqn old base_def [symmetric] d_def [symmetric] by simp
  next
    case 2
    then show ?thesis unfolding eqn old ws base_def [symmetric] d_def [symmetric] using sc eq by auto
  next
    case 3
    then have "\<not> SN_LESS ?wend s" "s \<noteq> base" "d < 2048" using beyond eq w by auto
    with 3 assms(3) show ?thesis
      unfolding eqn old ws base_def [symmetric] d_def [symmetric] by auto
  next
    case 4
    then have "SN_LESS ?wend s" "s \<noteq> base" using beyond eq w by auto
    moreover have "\<exists>i. c\<lparr>indicate_seq := ?i\<rparr> = c\<lparr>indicate_seq := i\<rparr> \<and> sn_ok i \<and> sn_dist base i = d + 1 - w"
      using si [OF 4(1,3)] sh(1) by blast
    ultimately show ?thesis
      unfolding eqn old ws base_def [symmetric] d_def [symmetric] using 4 by (simp del: if_split_asm)
  qed
qed

lemma rebase:
  assumes "queue_ok base fs" "\<forall>f \<in> set fs. sn_dist base i < sn_key base f"
  shows "queue_ok i fs" "\<forall>f \<in> set fs. sn_key i f = sn_key base f - sn_dist base i"
proof -
  have k: "sn_key i f = sn_key base f - sn_dist base i" if "f \<in> set fs" for f
    using sn_dist_from [of i "seq_num f" base] assms(2) that by (auto split: if_splits)
  then show "\<forall>f \<in> set fs. sn_key i f = sn_key base f - sn_dist base i" by blast
  show "queue_ok i fs"
    using assms k
  proof (induction fs)
    case (Cons f fs)
    have "sn_key i f < sn_key i g" if "g \<in> set fs" for g
      using Cons.prems that by (auto intro: diff_less_mono)
    with Cons show ?case by (auto intro: le_less_trans)
  qed simp
qed

lemma reorder_inv_base:
  assumes "reorder_inv c" "sn_ok s"
  shows "sn_ok (win_base c s)" "queue_ok (win_base c s) (pending_recvframe_queue c)"
    "\<forall>g \<in> set (pending_recvframe_queue c). 0 < sn_key (win_base c s) g \<and> sn_key (win_base c s) g < unat (wsize_b c)"
  using assms by (auto simp: reorder_inv_def win_base_def list_all_iff)

lemma indicate_loop_inv:
  assumes q: "queue_ok base q" "sn_ok i" "sn_dist base i < 2048" "q \<noteq> []" "wsize_b c \<noteq> 0"
    and k: "\<forall>f \<in> set q. sn_key base f < sn_dist base i + unat (wsize_b c)"
  shows "\<exists>i' del rest. indicate_loop i q False = (i', del, rest, rest \<noteq> []) \<and> q = del @ rest
    \<and> (\<forall>f \<in> set rest. sn_dist base i < sn_key base f)
    \<and> reorder_inv (c\<lparr>indicate_seq := i', pending_recvframe_queue := rest\<rparr>)"
proof -
  obtain i' del rest b where r: "indicate_loop i q False = (i', del, rest, b)" by (metis prod_cases4)
  have sp: "q = del @ rest" "sn_ok i'" "sn_dist base i \<le> sn_dist base i'"
    "\<forall>f \<in> set rest. sn_dist base i' < sn_key base f" "b = (rest \<noteq> [])"
    using indicate_loop_spec [OF q(1,2), of False] q(3,4) unfolding r by auto
  have qr: "queue_ok base rest" using q(1) sp(1) by (auto simp: queue_ok_def sorted_wrt_append)
  note rb = rebase [OF qr sp(4)]
  have "0 < sn_key i' f \<and> sn_key i' f < unat (wsize_b c)" if "f \<in> set rest" for f
  proof -
    have "sn_key base f < sn_dist base i + unat (wsize_b c)" using k sp(1) that by auto
    then show ?thesis using rb(2) sp(3,4) that by fastforce
  qed
  moreover have "i' \<noteq> 0xFFFF" using sp(2) by (auto simp: sn_ok_def)
  ultimately have "reorder_inv (c\<lparr>indicate_seq := i', pending_recvframe_queue := rest\<rparr>)"
    using q(5) sp(2) rb(1) by (auto simp: reorder_inv_def list_all_iff)
  moreover have "\<forall>f \<in> set rest. sn_dist base i < sn_key base f" using sp(3,4) by fastforce
  ultimately show ?thesis using r sp(1,5) by blast
qed

lemma in_order_normal:
  assumes "queue_ok base q" "sn_ok i" "sn_dist base i < 2048" "i = indicate_seq c" "q = pending_recvframe_queue c"
    and "wsize_b c \<noteq> 0" "\<forall>f \<in> set q. sn_key base f < sn_dist base i + unat (wsize_b c)" "q \<noteq> []"
  shows "\<exists>del i' rest. recv_indicatepkts_in_order pm pv c False
      = (rest \<noteq> [], process_mpdus pm del pv, c\<lparr>indicate_seq := i', pending_recvframe_queue := rest\<rparr>)
    \<and> q = del @ rest \<and> reorder_inv (c\<lparr>indicate_seq := i', pending_recvframe_queue := rest\<rparr>)"
proof -
  obtain i' del rest where r: "indicate_loop i q False = (i', del, rest, rest \<noteq> [])" "q = del @ rest"
    "reorder_inv (c\<lparr>indicate_seq := i', pending_recvframe_queue := rest\<rparr>)"
    using indicate_loop_inv [OF assms(1-3,8,6,7)] by blast
  show ?thesis
    by (rule exI [of _ del], rule exI [of _ i'], rule exI [of _ rest])
       (use r assms(4,5) in \<open>simp add: recv_indicatepkts_in_order_def Let_def\<close>)
qed

lemma in_order_forced:
  assumes inv: "reorder_inv c" and ne: "pending_recvframe_queue c = f # fs"
  shows "\<exists>del i' rest pv'. recv_indicatepkts_in_order pm pv c True
      = (rest \<noteq> [], pv', c\<lparr>indicate_seq := i', pending_recvframe_queue := rest\<rparr>)
    \<and> indicated pv' = indicated pv @ del \<and> del \<noteq> []
    \<and> pending_recvframe_queue c = del @ rest \<and> reorder_inv (c\<lparr>indicate_seq := i', pending_recvframe_queue := rest\<rparr>)"
proof -
  let ?base = "indicate_seq c" and ?s = "seq_num f"
  have b: "wsize_b c \<noteq> 0" "queue_ok ?base (f # fs)"
    "\<forall>g \<in> set (f # fs). 0 < sn_key ?base g \<and> sn_key ?base g < unat (wsize_b c)"
    using inv ne by (auto simp: reorder_inv_def list_all_iff split: if_splits)
  have k: "sn_ok ?s" "sn_dist ?base ?s < 2048"
    "\<forall>g \<in> set (f # fs). sn_key ?base g < sn_dist ?base ?s + unat (wsize_b c)"
    using b(2,3) by (auto intro: trans_less_add2)
  obtain i' del rest where r: "indicate_loop ?s (f # fs) False = (i', del, rest, rest \<noteq> [])" "f # fs = del @ rest"
    "\<forall>g \<in> set rest. sn_dist ?base ?s < sn_key ?base g"
    "reorder_inv (c\<lparr>indicate_seq := i', pending_recvframe_queue := rest\<rparr>)"
    using indicate_loop_inv [OF b(2) k(1,2) _ b(1) k(3)] by blast
  define pv2 where "pv2 = recv_indicatepkts_pkt_loss_cnt
      (pv\<lparr>dbg_rx_ampdu_forced_indicate_count := dbg_rx_ampdu_forced_indicate_count pv + 1\<rparr>) (ucast ?base) (ucast ?s)"
  have "recv_indicatepkts_in_order pm pv c True
      = (rest \<noteq> [], process_mpdus pm del pv2, c\<lparr>indicate_seq := i', pending_recvframe_queue := rest\<rparr>)"
    using r(1) ne by (simp add: recv_indicatepkts_in_order_def Let_def pv2_def)
  moreover have "indicated (process_mpdus pm del pv2) = indicated pv @ del"
    by (simp add: process_mpdus_def pv2_def recv_indicatepkts_pkt_loss_cnt_def Let_def)
  moreover have "del \<noteq> []" using r(2,3) by (cases del) auto
  ultimately show ?thesis using r(2,4) ne by metis
qed

lemma win_shift_bounds:
  assumes "reorder_inv c" "sn_ok s" "sn_dist (win_base c s) s < 2048"
  shows "win_shift c s < 2048" "sn_dist (win_base c s) s < win_shift c s + unat (wsize_b c)"
proof -
  have "1 \<le> unat (wsize_b c)" using assms(1) by (simp add: reorder_inv_def Suc_le_eq unat_gt_0)
  then show "win_shift c s < 2048" "sn_dist (win_base c s) s < win_shift c s + unat (wsize_b c)"
    using assms(3) by (auto simp: win_shift_def Let_def)
qed

lemma reorder_indicate_spec:
  assumes "queue_ok base q" "sn_ok (indicate_seq c)" "sn_dist base (indicate_seq c) < 2048"
    and "q = pending_recvframe_queue c" "wsize_b c \<noteq> 0" "q \<noteq> []"
    and "\<forall>f \<in> set q. sn_key base f < sn_dist base (indicate_seq c) + unat (wsize_b c)"
  shows "\<exists>del pv' c'. reorder_indicate pm pv c = (RX_HANDLED, pv', Some c')
    \<and> indicated pv' = indicated pv @ del \<and> q = del @ pending_recvframe_queue c' \<and> reorder_inv c'
    \<and> enable c' = enable c \<and> rec_abba_rsp_ack c' = rec_abba_rsp_ack c
    \<and> (bReorderWaiting c' \<longleftrightarrow> pending_recvframe_queue c' \<noteq> [])"
proof -
  obtain del i' rest where r: "recv_indicatepkts_in_order pm pv c False
      = (rest \<noteq> [], process_mpdus pm del pv, c\<lparr>indicate_seq := i', pending_recvframe_queue := rest\<rparr>)"
    "q = del @ rest" "reorder_inv (c\<lparr>indicate_seq := i', pending_recvframe_queue := rest\<rparr>)"
    using in_order_normal [OF assms(1-3) refl assms(4,5,7,6)] by blast
  let ?c = "c\<lparr>indicate_seq := i', pending_recvframe_queue := rest\<rparr>"
  define c' where "c' = (if rest \<noteq> [] then (if \<not> bReorderWaiting c
      then ?c\<lparr>bReorderWaiting := True, reordering_ctrl_timer := True\<rparr> else ?c)
      else ?c\<lparr>bReorderWaiting := False, reordering_ctrl_timer := False\<rparr>)"
  have "reorder_indicate pm pv c = (RX_HANDLED, process_mpdus pm del pv, Some c')"
    by (simp add: reorder_indicate_def r(1) c'_def)
  moreover have "reorder_inv c'" "pending_recvframe_queue c' = rest" "enable c' = enable c"
    "rec_abba_rsp_ack c' = rec_abba_rsp_ack c" "bReorderWaiting c' \<longleftrightarrow> rest \<noteq> []"
    using r(3) by (auto simp: c'_def reorder_inv_def)
  moreover have "indicated (process_mpdus pm del pv) = indicated pv @ del" by (simp add: process_mpdus_def)
  ultimately show ?thesis using r(2) by blast
qed

lemma reorder_accept:
  assumes inv: "reorder_inv c" "sn_ok (seq_num f)" and base: "base = win_base c (seq_num f)"
    and lt: "sn_dist base (seq_num f) < 2048"
    and i: "sn_ok i" "sn_dist base i = win_shift c (seq_num f)"
    and q: "pending_recvframe_queue c = xs @ ys" "q = xs @ f # ys" "queue_ok base q"
  shows "\<exists>del pv' c'. reorder_indicate pm pv (c\<lparr>indicate_seq := i, pending_recvframe_queue := q\<rparr>)
      = (RX_HANDLED, pv', Some c')
    \<and> indicated pv' = indicated pv @ del \<and> q = del @ pending_recvframe_queue c' \<and> reorder_inv c'
    \<and> enable c' = enable c \<and> rec_abba_rsp_ack c' = rec_abba_rsp_ack c
    \<and> (bReorderWaiting c' \<longleftrightarrow> pending_recvframe_queue c' \<noteq> [])"
proof -
  let ?c = "c\<lparr>indicate_seq := i, pending_recvframe_queue := q\<rparr>"
  have w: "wsize_b c \<noteq> 0" using inv(1) by (simp add: reorder_inv_def)
  note b = reorder_inv_base [OF inv, folded base]
  note sb = win_shift_bounds [OF inv, folded base, OF lt]
  have kq: "sn_key base g < sn_dist base i + unat (wsize_b c)" if "g \<in> set q" for g
  proof (cases "g = f")
    case True
    then show ?thesis using sb(2) i(2) by simp
  next
    case False
    then have "g \<in> set (pending_recvframe_queue c)" using that q(1,2) by auto
    then have "sn_key base g < unat (wsize_b c)" using b(3) by blast
    then show ?thesis by linarith
  qed
  show ?thesis
    using reorder_indicate_spec [of base q ?c pm pv] q(2,3) i sb(1) w kq by simp
qed

lemma queue_ok_nodup:
  assumes "queue_ok base (xs @ f # ys)" "g \<in> set (xs @ ys)"
  shows "seq_num g \<noteq> seq_num f"
proof -
  have "sn_key base g \<noteq> sn_key base f" using assms by (auto simp: queue_ok_def sorted_wrt_append)
  then show ?thesis by auto
qed

definition reject :: "recv_reorder_ctrl \<Rightarrow> rx_frame \<Rightarrow> bool" where
  "reject c f \<longleftrightarrow> 2048 \<le> sn_dist (win_base c (seq_num f)) (seq_num f)
     \<or> list_ex (\<lambda>g. seq_num g = seq_num f) (pending_recvframe_queue c)"

lemma reorder_unfold:
  assumes "enable c" "qos f" "\<not> rec_abba_rsp_ack c" "check_indicate_seq pv c (seq_num f) = (ok, pv1, c1)"
  shows "recv_indicatepkt_reorder pm pv (Some c) f =
    (if \<not> ok then (RX_FAIL, pv1\<lparr>dbg_rx_ampdu_drop_count := dbg_rx_ampdu_drop_count pv1 + 1\<rparr>, Some c1)
     else case enqueue_reorder_recvframe f (pending_recvframe_queue c1) of
        None \<Rightarrow> (RX_FAIL, pv1, Some c1)
      | Some q \<Rightarrow> reorder_indicate pm pv1 (c1\<lparr>pending_recvframe_queue := q\<rparr>))"
  using assms by (simp add: recv_indicatepkt_reorder_def Let_def)

lemma base_is_seq:
  "sn_dist (win_base c s) s \<noteq> 0 \<Longrightarrow> win_base c s = indicate_seq c"
  by (auto simp: win_base_def split: if_splits)

text \<open>One frame of the stream, with no ADDBA restart pending: rejected, or accepted.\<close>

lemma reorder_reject:
  assumes inv: "reorder_inv c" and en: "enable c" "qos f" "sn_ok (seq_num f)" "\<not> rec_abba_rsp_ack c"
    and rej: "reject c f"
  shows "\<exists>pv'. recv_indicatepkt_reorder pm pv (Some c) f = (RX_FAIL, pv', Some c) \<and> indicated pv' = indicated pv"
proof -
  let ?s = "seq_num f"
  have w: "wsize_b c \<noteq> 0" using inv by (simp add: reorder_inv_def)
  note b = reorder_inv_base [OF inv en(3)]
  obtain ok pv1 c1 where ck: "check_indicate_seq pv c ?s = (ok, pv1, c1)" by (metis prod_cases3)
  have sp: "indicated pv1 = indicated pv" "ok = (sn_dist (win_base c ?s) ?s < 2048)"
    "if ok then (\<exists>i. c1 = c\<lparr>indicate_seq := i\<rparr> \<and> sn_ok i \<and> sn_dist (win_base c ?s) i = win_shift c ?s)
       else c1 = c\<lparr>indicate_seq := win_base c ?s\<rparr> \<and> pv1 = pv"
    using check_indicate_seq_spec [OF en(3) w b(1), of pv] unfolding ck by auto
  note R = reorder_unfold [OF en(1,2,4) ck, of pm]
  show ?thesis
  proof (cases "sn_dist (win_base c ?s) ?s < 2048")
    case False
    then have "c1 = c" using sp(2,3) base_is_seq [of c ?s] by simp
    then show ?thesis using R sp(1,2) False by simp
  next
    case True
    then obtain g where g: "g \<in> set (pending_recvframe_queue c)" "seq_num g = ?s"
      using rej by (auto simp: reject_def list_ex_iff)
    then have d: "0 < sn_dist (win_base c ?s) ?s" "sn_dist (win_base c ?s) ?s < unat (wsize_b c)"
      using b(3) by fastforce+
    obtain i where i: "c1 = c\<lparr>indicate_seq := i\<rparr>" "sn_ok i" "sn_dist (win_base c ?s) i = win_shift c ?s"
      using sp(2,3) True by auto
    then have "sn_dist (win_base c ?s) i = 0" using d by (simp add: win_shift_def Let_def)
    then have "c1 = c" using sn_dist_eq_0 [OF b(1) i(2)] base_is_seq [of c ?s] d i(1) by simp
    moreover have "enqueue_reorder_recvframe f (pending_recvframe_queue c) = None"
      using enqueue_spec [OF b(2) en(3) True] g
      by (cases "enqueue_reorder_recvframe f (pending_recvframe_queue c)")
         (use queue_ok_nodup in fastforce)+
    ultimately show ?thesis using R sp(1,2) True by simp
  qed
qed

lemma reorder_accepted:
  assumes inv: "reorder_inv c" and en: "enable c" "qos f" "sn_ok (seq_num f)" "\<not> rec_abba_rsp_ack c"
    and acc: "\<not> reject c f"
  shows "\<exists>pv' c' xs ys del. recv_indicatepkt_reorder pm pv (Some c) f = (RX_HANDLED, pv', Some c')
    \<and> pending_recvframe_queue c = xs @ ys \<and> indicated pv' = indicated pv @ del
    \<and> del @ pending_recvframe_queue c' = xs @ f # ys
    \<and> queue_ok (win_base c (seq_num f)) (del @ pending_recvframe_queue c')
    \<and> reorder_inv c' \<and> enable c' \<and> \<not> rec_abba_rsp_ack c'
    \<and> (bReorderWaiting c' \<longleftrightarrow> pending_recvframe_queue c' \<noteq> [])"
proof -
  let ?s = "seq_num f"
  have w: "wsize_b c \<noteq> 0" using inv by (simp add: reorder_inv_def)
  note b = reorder_inv_base [OF inv en(3)]
  have lt: "sn_dist (win_base c ?s) ?s < 2048" using acc by (simp add: reject_def)
  obtain ok pv1 c1 where ck: "check_indicate_seq pv c ?s = (ok, pv1, c1)" by (metis prod_cases3)
  obtain i where i: "c1 = c\<lparr>indicate_seq := i\<rparr>" "sn_ok i" "sn_dist (win_base c ?s) i = win_shift c ?s"
    and sp: "indicated pv1 = indicated pv" "ok"
    using check_indicate_seq_spec [OF en(3) w b(1), of pv] lt unfolding ck by auto
  obtain q where q: "enqueue_reorder_recvframe f (pending_recvframe_queue c) = Some q"
    using enqueue_spec [OF b(2) en(3) lt] acc
    by (cases "enqueue_reorder_recvframe f (pending_recvframe_queue c)") (auto simp: reject_def list_ex_iff)
  then obtain xs ys where xy: "pending_recvframe_queue c = xs @ ys" "q = xs @ f # ys"
    "queue_ok (win_base c ?s) q"
    using enqueue_spec [OF b(2) en(3) lt] by auto
  have "recv_indicatepkt_reorder pm pv (Some c) f
      = reorder_indicate pm pv1 (c\<lparr>indicate_seq := i, pending_recvframe_queue := q\<rparr>)"
    using reorder_unfold [OF en(1,2,4) ck, of pm] sp(2) i(1) q by simp
  then show ?thesis
    using reorder_accept [OF inv en(3) refl lt i(2,3) xy, of pm pv1] sp(1) en(1,4) xy by metis
qed

subsection \<open>Frames are moved, not made or lost\<close>

text \<open>Reordering moves frames between its queue and the network stack.\<close>

lemma indicate_loop_split: "case indicate_loop iseq fs b of (i', del, rest, b') \<Rightarrow> fs = del @ rest"
  by (induction iseq fs b rule: indicate_loop.induct) (auto split: prod.splits)

lemma enqueue_mset: "enqueue_reorder_recvframe f q = Some q' \<Longrightarrow> mset q' = add_mset f (mset q)"
  by (induction f q arbitrary: q' rule: enqueue_reorder_recvframe.induct) (auto split: if_splits)

lemma in_order_frames:
  assumes "recv_indicatepkts_in_order pm pv c bf = (b, pv', c')"
  shows "\<exists>del. indicated pv' = indicated pv @ del \<and> pending_recvframe_queue c = del @ pending_recvframe_queue c'"
proof -
  have ind: "indicated (recv_indicatepkts_pkt_loss_cnt v x y) = indicated v" for v x y
    by (simp add: recv_indicatepkts_pkt_loss_cnt_def Let_def)
  have sp: "indicate_loop iseq (pending_recvframe_queue c) bb = (i', del, rest, b') \<Longrightarrow> pending_recvframe_queue c = del @ rest"
    for iseq bb i' del rest b' using indicate_loop_split [where iseq = iseq and fs = "pending_recvframe_queue c" and b = bb] by simp
  show ?thesis
    using assms unfolding recv_indicatepkts_in_order_def process_mpdus_def Let_def
    by (auto simp: ind dest!: sp split: if_splits prod.splits)
qed

lemma check_indicate_seq_frames:
  "check_indicate_seq pv c seq = (ok, pv', c') \<Longrightarrow> indicated pv' = indicated pv \<and> pending_recvframe_queue c' = pending_recvframe_queue c"
  by (auto simp: check_indicate_seq_def Let_def split: if_splits)

lemma reorder_indicate_frames:
  assumes "reorder_indicate pm pv c = (ret, pv', c')"
  shows "ret = RX_HANDLED \<and> (\<exists>del d. c' = Some d \<and> indicated pv' = indicated pv @ del \<and> pending_recvframe_queue c = del @ pending_recvframe_queue d)"
proof -
  obtain b pv3 c3 where r: "recv_indicatepkts_in_order pm pv c False = (b, pv3, c3)" by (metis prod_cases3)
  then show ?thesis using in_order_frames [OF r] assms by (auto simp: reorder_indicate_def split: if_splits)
qed

lemma reorder_frames:
  assumes "recv_indicatepkt_reorder pm pv co f = (ret, pv', co')"
  shows "\<exists>del. indicated pv' = indicated pv @ del \<and>
    (if ret = RX_HANDLED then \<exists>c c'. co = Some c \<and> co' = Some c' \<and>
       mset del + mset (pending_recvframe_queue c') = add_mset f (mset (pending_recvframe_queue c))
     else del = [] \<and> map_option pending_recvframe_queue co' = map_option pending_recvframe_queue co)"
proof (cases co)
  case None
  then show ?thesis using assms by (auto simp: recv_indicatepkt_reorder_def)
next
  case (Some c)
  define c1 where "c1 = (if rec_abba_rsp_ack c then c\<lparr>rec_abba_rsp_ack := False, indicate_seq := 0xFFFF\<rparr> else c)"
  have c1: "pending_recvframe_queue c1 = pending_recvframe_queue c" by (simp add: c1_def)
  obtain ok pv2 c2 where k: "check_indicate_seq pv c1 (seq_num f) = (ok, pv2, c2)" by (metis prod_cases3)
  note k' = check_indicate_seq_frames [OF k]
  consider "\<not> qos f \<or> \<not> enable c" | "qos f" "enable c" "\<not> ok" | "qos f" "enable c" ok "enqueue_reorder_recvframe f (pending_recvframe_queue c2) = None"
    | q where "qos f" "enable c" ok "enqueue_reorder_recvframe f (pending_recvframe_queue c2) = Some q" by fastforce
  then show ?thesis
  proof cases
    case 4
    then have "reorder_indicate pm pv2 (c2\<lparr>pending_recvframe_queue := q\<rparr>) = (ret, pv', co')"
      using assms Some k by (simp add: recv_indicatepkt_reorder_def c1_def [symmetric])
    from reorder_indicate_frames [OF this] obtain del d where
      "ret = RX_HANDLED" "co' = Some d" "indicated pv' = indicated pv2 @ del" "q = del @ pending_recvframe_queue d" by auto
    moreover have "mset q = add_mset f (mset (pending_recvframe_queue c))" using enqueue_mset [OF 4(4)] k' c1 by simp
    ultimately show ?thesis using Some k' by auto
  qed (use assms Some k k' c1 in \<open>auto simp: recv_indicatepkt_reorder_def c1_def [symmetric]\<close>)
qed

lemma in_order_timer:
  assumes "recv_indicatepkts_in_order pm pv c bf = (b, pv', c')"
  shows "reordering_ctrl_timer c' = reordering_ctrl_timer c" "bReorderWaiting c' = bReorderWaiting c" "pending_recvframe_queue c' \<noteq> [] \<Longrightarrow> b"
proof -
  have b: "indicate_loop iseq fs b0 = (i', del, rest, b') \<Longrightarrow> rest \<noteq> [] \<Longrightarrow> b'" for iseq fs b0 i' del rest b'
    by (induction iseq fs b0 arbitrary: i' del rest b' rule: indicate_loop.induct) (auto split: if_splits prod.splits)
  show "reordering_ctrl_timer c' = reordering_ctrl_timer c" "bReorderWaiting c' = bReorderWaiting c" "pending_recvframe_queue c' \<noteq> [] \<Longrightarrow> b"
    using assms unfolding recv_indicatepkts_in_order_def Let_def by (auto dest!: b split: if_splits prod.splits)
qed

subsection \<open>Runs\<close>

text \<open>
  The end of a block-ack session: \<open>rx_delba\<close> is the DELBA branch of \<open>OnAction_back\<close> for a frame from the originator,
  \<open>tx_delba\<close> what \<open>rtw_delba_check\<close> and \<open>send_delba_sta_tid\<close> leave when the driver ends a session itself (\<open>ok\<close>: the frame was sent), and
  \<open>join_reset\<close> the loop of \<open>rtw_joinbss_update_stainfo\<close> over the streams of the station.
\<close>

definition rx_delba :: "recv_reorder_ctrl \<Rightarrow> recv_reorder_ctrl" where
  "rx_delba c = c\<lparr>enable := False, ampdu_size := 0xff\<rparr>"

definition tx_delba :: "bool \<Rightarrow> recv_reorder_ctrl \<Rightarrow> recv_reorder_ctrl" where
  "tx_delba ok c = (let c = c\<lparr>enable := False\<rparr> in if ok then c\<lparr>ampdu_size := 0xff\<rparr> else c)"

definition join_reset :: "recv_reorder_ctrl \<Rightarrow> recv_reorder_ctrl" where
  "join_reset c = c\<lparr>enable := False, indicate_seq := 0xffff, rec_abba_rsp_ack := False, wsize_b := 64, ampdu_size := 0xff\<rparr>"

text \<open>
  The trace of a run, which the code does not keep: the frames that arrived, those the reordering refused, whether the driver was
  stopped, and whether the stream was disturbed while frames were queued: a frame arrived after the session had ended (it
  bypasses the queue and moves the window), or after the answer to an ADDBA request (it restarts the window), or the station
  joined again.
\<close>

record reorder_trace =
  tr_arrived :: "rx_frame list"
  tr_refused :: "rx_frame list"
  tr_stopped :: bool
  tr_disturbed :: bool

definition trace_init :: reorder_trace where
  "trace_init = \<lparr>tr_arrived = [], tr_refused = [], tr_stopped = False, tr_disturbed = False\<rparr>"

definition trace_frame :: "rx_ret \<Rightarrow> recv_reorder_ctrl \<Rightarrow> rx_frame \<Rightarrow> reorder_trace \<Rightarrow> reorder_trace" where
  "trace_frame r c f t = t\<lparr>tr_arrived := tr_arrived t @ [f], tr_refused := tr_refused t @ (if r = RX_FAIL then [f] else []),
     tr_disturbed := (tr_disturbed t \<or> pending_recvframe_queue c \<noteq> [] \<and> (\<not> qos f \<or> \<not> enable c \<or> rec_abba_rsp_ack c))\<rparr>"

text \<open>
  The steps of one stream, each possible in every state: a frame, the timer, the answer to an ADDBA request, the two kinds of
  DELBA, and a new join.
\<close>

inductive reorder_run ::
  "(rx_frame \<Rightarrow> bool) \<Rightarrow> reorder_trace \<times> recv_priv \<times> recv_reorder_ctrl \<Rightarrow> reorder_trace \<times> recv_priv \<times> recv_reorder_ctrl \<Rightarrow> bool"
  for pm where
  frame: "recv_posthandle_reorder pm pv (Some c) f = (ret, pv', Some c') \<Longrightarrow>
     reorder_run pm (t, pv, c) (trace_frame (fst (recv_indicatepkt_reorder pm pv (Some c) f)) c f t, pv', c')"
| timeout: "rtw_reordering_ctrl_timeout_handler pm cannot_run pv c = (pv', c') \<Longrightarrow>
     reorder_run pm (t, pv, c) (t\<lparr>tr_stopped := (tr_stopped t \<or> cannot_run)\<rparr>, pv', c')"
| addba: "reorder_run pm (t, pv, c) (t, pv, add_ba_rsp_hdl c status ba_size)"
| delba: "reorder_run pm (t, pv, c) (t, pv, rx_delba c)"
| delba_sent: "reorder_run pm (t, pv, c) (t, pv, tx_delba ok c)"
| join: "reorder_run pm (t, pv, c) (t\<lparr>tr_disturbed := (tr_disturbed t \<or> pending_recvframe_queue c \<noteq> [])\<rparr>, pv, join_reset c)"

text \<open>What holds in every run, and what holds as long as the stream was not disturbed.\<close>

definition trace_ok :: "reorder_trace \<Rightarrow> recv_priv \<Rightarrow> recv_reorder_ctrl \<Rightarrow> bool" where
  "trace_ok t pv c \<longleftrightarrow> mset (tr_arrived t) = mset (indicated pv) + mset (pending_recvframe_queue c) + mset (tr_refused t)"

definition timer_ok :: "recv_reorder_ctrl \<Rightarrow> bool" where
  "timer_ok c \<longleftrightarrow> (pending_recvframe_queue c \<noteq> [] \<or> bReorderWaiting c \<longrightarrow> reordering_ctrl_timer c)"

definition run_inv :: "reorder_trace \<times> recv_priv \<times> recv_reorder_ctrl \<Rightarrow> bool" where
  "run_inv x \<longleftrightarrow> (case x of (t, pv, c) \<Rightarrow> trace_ok t pv c \<and> (\<not> tr_stopped t \<longrightarrow> timer_ok c) \<and>
     (\<not> tr_disturbed t \<and> (\<forall>f \<in> set (tr_arrived t). sn_ok (seq_num f)) \<longrightarrow> reorder_inv c))"

text \<open>The session steps touch neither the queue nor the timer, and the window only when it is restarted.\<close>

lemma session_steps:
  "pending_recvframe_queue (add_ba_rsp_hdl c st n) = pending_recvframe_queue c" "timer_ok (add_ba_rsp_hdl c st n) = timer_ok c"
  "reorder_inv (add_ba_rsp_hdl c st n) = reorder_inv c"
  "pending_recvframe_queue (rx_delba c) = pending_recvframe_queue c" "timer_ok (rx_delba c) = timer_ok c" "reorder_inv (rx_delba c) = reorder_inv c"
  "pending_recvframe_queue (tx_delba ok c) = pending_recvframe_queue c" "timer_ok (tx_delba ok c) = timer_ok c" "reorder_inv (tx_delba ok c) = reorder_inv c"
  "pending_recvframe_queue (join_reset c) = pending_recvframe_queue c" "timer_ok (join_reset c) = timer_ok c"
  "pending_recvframe_queue c = [] \<Longrightarrow> reorder_inv (join_reset c)"
  by (simp_all add: add_ba_rsp_hdl_def rx_delba_def tx_delba_def join_reset_def timer_ok_def reorder_inv_def Let_def)

lemma reorder_restart:
  assumes "enable c" "qos f" "rec_abba_rsp_ack c"
  shows "recv_indicatepkt_reorder pm pv (Some c) f
    = recv_indicatepkt_reorder pm pv (Some (c\<lparr>rec_abba_rsp_ack := False, indicate_seq := 0xFFFF\<rparr>)) f"
  using assms by (simp add: recv_indicatepkt_reorder_def Let_def)

lemma reorder_frame_inv:
  assumes "reorder_inv c" "rec_abba_rsp_ack c \<Longrightarrow> pending_recvframe_queue c = []" "enable c" "qos f" "sn_ok (seq_num f)"
    and "recv_indicatepkt_reorder pm pv (Some c) f = (ret, pv', Some c')"
  shows "reorder_inv c'"
proof -
  have main: "reorder_inv c''"
    if "reorder_inv d" "enable d" "\<not> rec_abba_rsp_ack d"
      "recv_indicatepkt_reorder pm pv (Some d) f = (r, p, Some c'')" for d r p c''
    using that reorder_reject [OF that(1,2) assms(4,5) that(3), of pm pv] reorder_accepted [OF that(1,2) assms(4,5) that(3), of pm pv]
    by (cases "reject d f") auto
  show ?thesis
  proof (cases "rec_abba_rsp_ack c")
    case True
    let ?d = "c\<lparr>rec_abba_rsp_ack := False, indicate_seq := 0xFFFF\<rparr>"
    have "reorder_inv ?d" using assms(1,2) True by (simp add: reorder_inv_def)
    then show ?thesis
      using main [of ?d] assms(3,6) reorder_restart [OF assms(3,4) True, of pm pv] by simp
  next
    case False
    then show ?thesis using main [of c] assms by simp
  qed
qed

lemma sn_ok_mod [simp]: "sn_ok (w mod 4096)"
  by (simp add: sn_ok_def uint_mod_distrib)

lemma timeout_spec:
  assumes "reorder_inv c"
  shows "\<exists>del pv' c'. rtw_reordering_ctrl_timeout_handler pm False pv c = (pv', c')
    \<and> indicated pv' = indicated pv @ del \<and> pending_recvframe_queue c = del @ pending_recvframe_queue c'
    \<and> reorder_inv c' \<and> rec_abba_rsp_ack c' = rec_abba_rsp_ack c
    \<and> (pending_recvframe_queue c \<noteq> [] \<longrightarrow> del \<noteq> [])
    \<and> reordering_ctrl_timer c' = (pending_recvframe_queue c = [] \<or> pending_recvframe_queue c' \<noteq> [])"
proof -
  let ?c = "c\<lparr>reordering_ctrl_timer := False, bReorderWaiting := False\<rparr>"
  have inv: "reorder_inv ?c" using assms by (simp add: reorder_inv_def)
  show ?thesis
  proof (cases "pending_recvframe_queue c")
    case Nil
    then show ?thesis
      using assms
      by (auto simp: rtw_reordering_ctrl_timeout_handler_def recv_indicatepkts_in_order_def Let_def reorder_inv_def)
  next
    case (Cons f fs)
    then have ne: "pending_recvframe_queue ?c = f # fs" by simp
    obtain del i' rest pv' where r: "recv_indicatepkts_in_order pm pv ?c True
        = (rest \<noteq> [], pv', ?c\<lparr>indicate_seq := i', pending_recvframe_queue := rest\<rparr>)"
      "indicated pv' = indicated pv @ del" "del \<noteq> []" "pending_recvframe_queue ?c = del @ rest"
      "reorder_inv (?c\<lparr>indicate_seq := i', pending_recvframe_queue := rest\<rparr>)"
      using in_order_forced [OF inv ne, of pm pv] by blast
    let ?c' = "if rest \<noteq> [] then ?c\<lparr>indicate_seq := i', pending_recvframe_queue := rest, reordering_ctrl_timer := True\<rparr>
      else ?c\<lparr>indicate_seq := i', pending_recvframe_queue := rest\<rparr>"
    have "rtw_reordering_ctrl_timeout_handler pm False pv c = (pv', ?c')"
      using r(1) by (simp add: rtw_reordering_ctrl_timeout_handler_def)
    moreover have "reorder_inv ?c'" using r(5) by (auto simp: reorder_inv_def)
    moreover have "pending_recvframe_queue ?c' = rest" "rec_abba_rsp_ack ?c' = rec_abba_rsp_ack c"
      "reordering_ctrl_timer ?c' = (rest \<noteq> [])" by simp_all
    ultimately show ?thesis using r(2-4) Cons by (metis ne list.distinct(1))
  qed
qed

text \<open>The control block that \<open>recv_posthandle_reorder\<close> leaves.\<close>

lemma posthandle_ctrl:
  assumes "recv_posthandle_reorder pm pv (Some c) f = (ret, pv', Some c')" "recv_indicatepkt_reorder pm pv (Some c) f = (r, pv1, d)"
  shows "(r = RX_SUCCESS \<and> \<not> (enable c \<and> qos f) \<and> c' = c\<lparr>indicate_seq := (seq_num f + 1) mod 4096\<rparr> \<and> indicated pv' = indicated pv @ [f])
    \<or> (r \<noteq> RX_SUCCESS \<and> enable c \<and> qos f \<and> d = Some c' \<and> indicated pv' = indicated pv1)"
proof (cases "enable c \<and> qos f")
  case True
  then have "r \<noteq> RX_SUCCESS"
    using assms(2) by (auto simp: recv_indicatepkt_reorder_def reorder_indicate_def Let_def split: prod.splits option.splits if_splits)
  then show ?thesis using assms True by (cases r) (auto simp: recv_posthandle_reorder_def)
next
  case False
  then have "recv_indicatepkt_reorder pm pv (Some c) f = (RX_SUCCESS, pv, Some c)" by (auto simp: recv_indicatepkt_reorder_def)
  then show ?thesis using assms False by (auto simp: recv_posthandle_reorder_def recv_set_iseq_before_mpdu_process_def
        recv_set_iseq_after_mpdu_process_def Let_def split: if_splits)
qed

lemma check_indicate_seq_timer:
  "check_indicate_seq pv c seq = (ok, pv', c') \<Longrightarrow> reordering_ctrl_timer c' = reordering_ctrl_timer c \<and> bReorderWaiting c' = bReorderWaiting c"
  by (auto simp: check_indicate_seq_def Let_def split: if_splits)

lemma reorder_timer:
  assumes "recv_indicatepkt_reorder pm pv (Some c) f = (r, pv', Some c')" "timer_ok c"
  shows "timer_ok c'"
proof -
  define c1 where "c1 = (if rec_abba_rsp_ack c then c\<lparr>rec_abba_rsp_ack := False, indicate_seq := 0xFFFF\<rparr> else c)"
  obtain ok pv2 c2 where k: "check_indicate_seq pv c1 (seq_num f) = (ok, pv2, c2)" by (metis prod_cases3)
  have 2: "timer_ok c2" "bReorderWaiting c2 \<longrightarrow> reordering_ctrl_timer c2"
    using check_indicate_seq_timer [OF k] check_indicate_seq_frames [OF k] assms(2) by (auto simp: timer_ok_def c1_def)
  consider "\<not> qos f \<or> \<not> enable c" | "qos f" "enable c" "\<not> ok \<or> enqueue_reorder_recvframe f (pending_recvframe_queue c2) = None"
    | q where "qos f" "enable c" ok "enqueue_reorder_recvframe f (pending_recvframe_queue c2) = Some q" by fastforce
  then show ?thesis
  proof cases
    case 1
    then show ?thesis using assms by (auto simp: recv_indicatepkt_reorder_def)
  next
    case 2
    then show ?thesis using assms(1) k \<open>timer_ok c2\<close> by (auto simp: recv_indicatepkt_reorder_def c1_def [symmetric] split: option.splits if_splits)
  next
    case 3
    obtain b pv3 c3 where i: "recv_indicatepkts_in_order pm pv2 (c2\<lparr>pending_recvframe_queue := q\<rparr>) False = (b, pv3, c3)" by (metis prod_cases3)
    have "reorder_indicate pm pv2 (c2\<lparr>pending_recvframe_queue := q\<rparr>) = (r, pv', Some c')"
      using assms(1) 3 k by (simp add: recv_indicatepkt_reorder_def c1_def [symmetric])
    then show ?thesis using i in_order_timer [OF i] 2(2) by (auto simp: reorder_indicate_def timer_ok_def split: if_splits)
  qed
qed

lemma frame_step_inv:
  assumes "run_inv (t, pv, c)" "recv_posthandle_reorder pm pv (Some c) f = (ret, pv', Some c')"
  shows "run_inv (trace_frame (fst (recv_indicatepkt_reorder pm pv (Some c) f)) c f t, pv', c')"
proof -
  obtain r pv1 d where rr: "recv_indicatepkt_reorder pm pv (Some c) f = (r, pv1, d)" by (metis prod_cases3)
  note p = posthandle_ctrl [OF assms(2) rr]
  let ?t = "trace_frame r c f t"
  have acc: "trace_ok ?t pv' c'"
    using assms(1) p reorder_frames [OF rr] by (cases r) (auto simp: run_inv_def trace_ok_def trace_frame_def)
  have tim: "timer_ok c'" if "timer_ok c"
    using p reorder_timer [of pm pv c f r pv1] rr that by (auto simp: timer_ok_def)
  have win: "reorder_inv c'" if u: "\<not> tr_disturbed ?t" "\<forall>g \<in> set (tr_arrived ?t). sn_ok (seq_num g)"
  proof -
    have inv: "reorder_inv c" and sn: "sn_ok (seq_num f)"
      and cl: "pending_recvframe_queue c \<noteq> [] \<Longrightarrow> qos f \<and> enable c \<and> \<not> rec_abba_rsp_ack c"
      using assms(1) u by (auto simp: run_inv_def trace_frame_def)
    show ?thesis
    proof (cases "enable c \<and> qos f")
      case True
      then show ?thesis using reorder_frame_inv [OF inv _ _ _ sn, of pm pv r pv1 c'] rr p cl by auto
    next
      case False
      then have "pending_recvframe_queue c = []" using cl by blast
      then show ?thesis using False p inv by (auto simp: reorder_inv_def)
    qed
  qed
  show ?thesis using acc tim win assms(1) unfolding rr fst_conv by (auto simp: run_inv_def trace_frame_def)
qed

lemma timeout_step_inv:
  assumes "run_inv (t, pv, c)" "rtw_reordering_ctrl_timeout_handler pm cr pv c = (pv', c')"
  shows "run_inv (t\<lparr>tr_stopped := (tr_stopped t \<or> cr)\<rparr>, pv', c')"
proof (cases cr)
  case True
  then show ?thesis using assms
    by (auto simp: rtw_reordering_ctrl_timeout_handler_def run_inv_def reorder_inv_def trace_ok_def)
next
  case False
  let ?c = "c\<lparr>reordering_ctrl_timer := False, bReorderWaiting := False\<rparr>"
  obtain b pv1 c1 where i: "recv_indicatepkts_in_order pm pv ?c True = (b, pv1, c1)" by (metis prod_cases3)
  have h: "pv' = pv1" "c' = (if b then c1\<lparr>reordering_ctrl_timer := True\<rparr> else c1)"
    using assms(2) False i by (auto simp: rtw_reordering_ctrl_timeout_handler_def)
  have "trace_ok (t\<lparr>tr_stopped := (tr_stopped t \<or> cr)\<rparr>) pv' c'" using in_order_frames [OF i] assms(1) h by (auto simp: run_inv_def trace_ok_def)
  moreover have "timer_ok c'" using in_order_timer [OF i] h by (auto simp: timer_ok_def)
  moreover have "reorder_inv c'" if "reorder_inv c" using timeout_spec [OF that, of pm pv] assms(2) False by auto
  ultimately show ?thesis using assms(1) by (auto simp: run_inv_def)
qed

lemma run_step_inv: "reorder_run pm x y \<Longrightarrow> run_inv x \<Longrightarrow> run_inv y"
  by (induction rule: reorder_run.induct)
     (simp_all only: frame_step_inv timeout_step_inv, auto simp: run_inv_def trace_ok_def session_steps)

subsection \<open>Properties\<close>

definition example_frame :: "u16 \<Rightarrow> rx_frame" where
  "example_frame n = \<lparr>seq_num = n, qos = True, frame_id = 1, hdrlen = 26, to_fr_ds = 2, amsdu = 0, priority = 0, frag_num = 0,
     mfrag = 0, order = 0, privacy = 0, bdecrypted = 0, encrypt = 0, iv_len = 0, icv_len = 0, dst = [], src = [], ta = [], ra = [], bssid = [], ack_policy = 0,
     key_index = 0, physts_rpt_valid = False, keytrack = 0, rlen = 0, mem = [], rx_data = 0, rx_tail = 0, frame_sta = None, preorder_tid = None\<rparr>"

definition recv_priv_zero :: recv_priv where
  "recv_priv_zero = \<lparr>rx_drop = 0, dbg_rx_drop_count = 0, dbg_rx_ampdu_drop_count = 0,
     dbg_rx_ampdu_forced_indicate_count = 0, dbg_rx_ampdu_loss_count = 0, dbg_rx_ampdu_window_shift_cnt = 0,
     indicated = []\<rparr>"


text \<open>The run of the example: a session is set up, frame 10 is delivered, frame 12 is queued, and an ADDBA request is answered again.\<close>

definition example_run :: "u16 list \<Rightarrow> reorder_trace \<times> recv_priv \<times> recv_reorder_ctrl" where
  "example_run ns = foldl (\<lambda>(t, pv, c) n. case recv_posthandle_reorder (\<lambda>_. True) pv (Some c) (example_frame n) of
       (r, pv', c') \<Rightarrow> (trace_frame (fst (recv_indicatepkt_reorder (\<lambda>_. True) pv (Some c) (example_frame n))) c (example_frame n) t, pv', the c'))
     (trace_init, recv_priv_zero, add_ba_rsp_hdl reorder_ctrl_init 0 64) ns"

lemma posthandle_Some: "\<exists>ret pv' c'. recv_posthandle_reorder pm pv (Some c) f = (ret, pv', Some c')"
  by (auto simp: recv_posthandle_reorder_def recv_indicatepkt_reorder_def reorder_indicate_def recv_set_iseq_before_mpdu_process_def
      recv_set_iseq_after_mpdu_process_def Let_def split: prod.splits option.splits if_splits rx_ret.splits)

lemma example_run_reached: "(reorder_run (\<lambda>_. True))\<^sup>*\<^sup>* (trace_init, recv_priv_zero, reorder_ctrl_init) (example_run ns)"
proof (induction ns rule: rev_induct)
  case Nil
  show ?case unfolding example_run_def by (simp add: r_into_rtranclp reorder_run.addba)
next
  case (snoc n ns)
  obtain t pv c where x: "example_run ns = (t, pv, c)" by (metis prod_cases3)
  obtain ret pv' c' where r: "recv_posthandle_reorder (\<lambda>_. True) pv (Some c) (example_frame n) = (ret, pv', Some c')" using posthandle_Some by blast
  have "example_run (ns @ [n]) = (trace_frame (fst (recv_indicatepkt_reorder (\<lambda>_. True) pv (Some c) (example_frame n))) c (example_frame n) t, pv', c')"
    using x r by (simp add: example_run_def)
  then show ?case using snoc.IH reorder_run.frame [OF r, of t] unfolding x by simp
qed


text \<open>C36. Error: an ADDBA request that is answered while a frame \<open>g\<close> is queued makes a stream forget its window. The next frame restarts the
  window behind itself; when the queued frame \<open>g\<close> is further ahead of it than the window is wide (and less than half the
  sequence space), \<open>g\<close> stays queued outside the window.\<close>

theorem add_ba_rsp_hdl_breaks_window:
  assumes "pending_recvframe_queue c = [g]" "qos f" "sn_ok (seq_num f)" "reorder_inv c"
    and "unat (wsize_b c) < sn_dist (seq_num f) (seq_num g)" "sn_dist (seq_num f) (seq_num g) < 2048"
  shows "\<exists>pv' c'. recv_indicatepkt_reorder pm pv (Some (add_ba_rsp_hdl c 0 n)) f = (RX_HANDLED, pv', Some c')
    \<and> indicated pv' = indicated pv @ [f] \<and> pending_recvframe_queue c' = [g] \<and> indicate_seq c' = (seq_num f + 1) AND 0xFFF
    \<and> unat (wsize_b c') \<le> sn_dist (indicate_seq c') (seq_num g) \<and> \<not> reorder_inv c'"
proof -
  let ?s = "seq_num f" and ?g = "seq_num g"
  let ?i = "(?s + 1) AND 0xFFF"
  have s: "?s \<noteq> 0xFFFF" using assms(3) by (auto simp: sn_ok_def)
  have i: "sn_dist ?s ?i = 1" using sn_dist_succ [of ?s ?s] by simp
  have w: "1 < sn_dist ?s ?g" using assms(4,5) by (auto simp: reorder_inv_def dest: unat_gt_0 [THEN iffD2])
  have d: "sn_dist ?i ?g = sn_dist ?s ?g - 1" using sn_dist_from [of ?i ?g ?s] i assms(5) by simp
  have L: "\<not> SN_LESS ?g ?s" "\<not> SN_LESS ?s ?s" "\<not> SN_LESS ?i ?s" "SN_LESS ?i ?g" "?i \<noteq> ?s" "?g \<noteq> ?s"
    using w assms(6) i d sn_dist_from [of ?s ?g ?s] sn_dist_from [of ?g ?i ?i] sn_dist_from [of ?g ?i ?s]
    by (auto simp: SN_LESS_dist split: if_splits)
  let ?c = "c\<lparr>rec_abba_rsp_ack := False, enable := True, ampdu_size := n, indicate_seq := ?i, pending_recvframe_queue := [g]\<rparr>"
  let ?c' = "if bReorderWaiting c then ?c else ?c\<lparr>bReorderWaiting := True, reordering_ctrl_timer := True\<rparr>"
  have "\<exists>pv'. recv_indicatepkt_reorder pm pv (Some (add_ba_rsp_hdl c 0 n)) f = (RX_HANDLED, pv', Some ?c') \<and> indicated pv' = indicated pv @ [f]"
    using assms(1,2) s L by (simp add: recv_indicatepkt_reorder_def add_ba_rsp_hdl_def check_indicate_seq_def SN_EQUAL_def reorder_indicate_def
        recv_indicatepkts_in_order_def process_mpdus_def Let_def)
  moreover have "pending_recvframe_queue ?c' = [g]" "indicate_seq ?c' = ?i" "wsize_b ?c' = wsize_b c" by simp_all
  moreover have "\<not> reorder_inv ?c'" "unat (wsize_b c) \<le> sn_dist ?i ?g" using d assms(5) sn_ok_and [of "?s + 1"]
    by (auto simp: reorder_inv_def sn_ok_def)
  ultimately show ?thesis by metis
qed

theorem add_ba_rsp_hdl_breaks_window_witness:
  "\<exists>pv' c'. recv_indicatepkt_reorder (\<lambda>_. True) recv_priv_zero (Some (add_ba_rsp_hdl (snd (snd (example_run [10, 12]))) 0 64)) (example_frame 3000)
     = (RX_HANDLED, pv', Some c') \<and> pending_recvframe_queue c' = [example_frame 12] \<and> indicate_seq c' = 3001 \<and> \<not> reorder_inv c'"
proof -
  let ?c = "snd (snd (example_run [10, 12]))" and ?f = "example_frame 3000" and ?g = "example_frame 12"
  have h: "pending_recvframe_queue ?c = [?g]" "qos ?f" "sn_ok (seq_num ?f)" "reorder_inv ?c"
    "unat (wsize_b ?c) < sn_dist (seq_num ?f) (seq_num ?g)" "sn_dist (seq_num ?f) (seq_num ?g) < 2048" "(seq_num ?f + 1) AND 0xFFF = 3001" by code_simp+
  show ?thesis using add_ba_rsp_hdl_breaks_window [OF h(1-6), of "\<lambda>_. True" recv_priv_zero 64] unfolding h(7) by blast
qed

text \<open>C17. Functional: what one frame does to a stream in a reachable state. A frame before the window, or
  one whose sequence number is queued, is refused and the stream stays as it was. Any other
  frame is inserted at its place in the queue, and then a prefix of the queue is handed to the
  network stack: nothing is lost, nothing is delivered twice, and what was delivered and what
  is left are in increasing order of sequence numbers from the start of the window.\<close>

theorem recv_indicatepkt_reorder_in_order:
  assumes "reorder_inv c" "enable c" "qos f" "sn_ok (seq_num f)" "\<not> rec_abba_rsp_ack c"
  shows "if reject c f
    then \<exists>pv'. recv_indicatepkt_reorder pm pv (Some c) f = (RX_FAIL, pv', Some c) \<and> indicated pv' = indicated pv
    else \<exists>pv' c' xs ys del. recv_indicatepkt_reorder pm pv (Some c) f = (RX_HANDLED, pv', Some c')
      \<and> pending_recvframe_queue c = xs @ ys \<and> indicated pv' = indicated pv @ del
      \<and> del @ pending_recvframe_queue c' = xs @ f # ys
      \<and> queue_ok (win_base c (seq_num f)) (del @ pending_recvframe_queue c')
      \<and> reorder_inv c'"
  using reorder_reject [OF assms, of pm pv] reorder_accepted [OF assms, of pm pv] by (auto; blast)

theorem recv_indicatepkt_reorder_in_order_witness:
  "\<exists>pv' c' xs ys del. recv_indicatepkt_reorder (\<lambda>_. True) recv_priv_zero
      (Some (reorder_ctrl_init\<lparr>enable := True\<rparr>)) (example_frame 4095) = (RX_HANDLED, pv', Some c')
    \<and> indicated pv' = [] @ del \<and> del @ pending_recvframe_queue c' = xs @ (example_frame 4095) # ys"
proof -
  let ?c = "reorder_ctrl_init\<lparr>enable := True\<rparr>" and ?f = "(example_frame 4095)"
  have h: "reorder_inv ?c" "enable ?c" "qos ?f" "sn_ok (seq_num ?f)" "\<not> rec_abba_rsp_ack ?c" "\<not> reject ?c ?f"
    by code_simp+
  show ?thesis
    using recv_indicatepkt_reorder_in_order [OF h(1-5), of "\<lambda>_. True" recv_priv_zero] h(6)
    by (simp add: recv_priv_zero_def) blast
qed

text \<open>C39. Liveness: when the timer fires on a non-empty queue, at least the first frame is handed to the
  network stack; the frames delivered are a prefix of the queue, the window invariant holds
  again, and the timer is armed exactly when frames are left: a missing frame delays the frames
  behind it by a bounded number of time-outs.\<close>

theorem rtw_reordering_ctrl_timeout_progress:
  assumes "reorder_inv c" "pending_recvframe_queue c \<noteq> []"
  shows "\<exists>del pv' c'. rtw_reordering_ctrl_timeout_handler pm False pv c = (pv', c') \<and> del \<noteq> []
    \<and> indicated pv' = indicated pv @ del \<and> pending_recvframe_queue c = del @ pending_recvframe_queue c'
    \<and> reorder_inv c' \<and> reordering_ctrl_timer c' = (pending_recvframe_queue c' \<noteq> [])"
  using timeout_spec [OF assms(1), of pm pv] assms(2) by blast

theorem rtw_reordering_ctrl_timeout_progress_witness:
  "\<exists>del pv' c'. rtw_reordering_ctrl_timeout_handler (\<lambda>_. True) False recv_priv_zero
      (reorder_ctrl_init\<lparr>indicate_seq := 4095, pending_recvframe_queue := [example_frame 1]\<rparr>)
      = (pv', c') \<and> del \<noteq> [] \<and> indicated pv' = [] @ del"
proof -
  let ?c = "reorder_ctrl_init\<lparr>indicate_seq := 4095, pending_recvframe_queue := [example_frame 1]\<rparr>"
  have h: "reorder_inv ?c" "pending_recvframe_queue ?c \<noteq> []" by code_simp+
  show ?thesis
    using rtw_reordering_ctrl_timeout_progress [OF h, of "\<lambda>_. True" recv_priv_zero]
    by (simp add: recv_priv_zero_def) blast
qed

text \<open>Error: a time-out on an empty queue (the queue can empty while the handler waits for the lock)
  changes nothing but arms the timer again: \<open>recv_indicatepkts_in_order\<close> returns \<open>_TRUE\<close> for a
  forced call on an empty queue. The timer keeps firing until a frame of the stream arrives.\<close>

theorem rtw_reordering_ctrl_timeout_rearms:
  assumes "pending_recvframe_queue c = []"
  shows "((\<lambda>(pv, c). rtw_reordering_ctrl_timeout_handler pm False pv c) ^^ Suc n) (pv, c)
    = (pv\<lparr>dbg_rx_ampdu_forced_indicate_count := dbg_rx_ampdu_forced_indicate_count pv + of_nat (Suc n)\<rparr>,
       c\<lparr>bReorderWaiting := False, reordering_ctrl_timer := True\<rparr>)"
  using assms
  by (induction n)
     (simp_all add: rtw_reordering_ctrl_timeout_handler_def recv_indicatepkts_in_order_def Let_def ac_simps)

theorem rtw_reordering_ctrl_timeout_rearms_witness:
  "reordering_ctrl_timer (snd (((\<lambda>(pv, c). rtw_reordering_ctrl_timeout_handler (\<lambda>_. True) False pv c) ^^ Suc 2)
     (recv_priv_zero, reorder_ctrl_init)))"
  using rtw_reordering_ctrl_timeout_rearms [of reorder_ctrl_init 2 "\<lambda>_. True" recv_priv_zero]
  by (simp add: reorder_ctrl_init_def)

end
