(* ===== verification/Sta_Table.thy ===== *)
theory Sta_Table
  imports Recv_Reorder
begin

text \<open>
  The station table (\<^verbatim>\<open>core/rtw_sta_mgt.c\<close>, \<^verbatim>\<open>include/sta_info.h\<close>): the pool of \<open>NUM_STA\<close> station
  entries, the queue of free entries, the hash table over MAC addresses, the association ids
  of the AP mode, and the bitmaps over association ids (\<^verbatim>\<open>core/rtw_wlan_util.c\<close>).

  A pointer to a station is the offset of its entry in the pool (\<open>rtw_stainfo_offset\<close>); a list
  head with its linked entries is a list of offsets, and \<open>rtw_list_delete\<close>, which is
  \<open>list_del_init\<close>, removes an entry from the list it is linked in. The handlers run under
  \<open>sta_hash_lock\<close>. The calls of allocation and release into other components (hardware MAC ids,
  the rate control of the HAL, radio measurement, the interface status) are not part of this model;
  pre-link stations are off (\<open>CONFIG_RTW_PRE_LINK_STA\<close> is 0).
\<close>

definition NUM_STA :: nat where "NUM_STA = 32"

text \<open>A transmit queue of one access category: linked to the hardware queue or not, its frames, its count.\<close>

record tx_servq =
  tx_pending :: bool
  sta_pending :: "nat list"
  qcnt :: int

record sta_info =
  mac_addr :: buf
  sta_state :: u32
  aid :: u16
  UncstKey :: buf
  tid_rxseq :: "u16 list"
  bmc_tid_rxseq :: "u16 list"
  rxcache_iv :: "buf list"
  nonqos_rxseq :: u16
  nonqos_bmc_rxseq :: u16
  RxMgmtFrameSeqNum :: u16
  recvreorder_ctrl :: "recv_reorder_ctrl list"
  defrag_q :: "rx_frame list"
  auth_list :: bool
  tx_queue :: "nat list"
  sleep_q :: "nat list"
  sleepq_len :: u32
  mgmt_sleep_q :: "nat list"
  mgmt_sleepq_len :: u32
  servqs :: "tx_servq list"
  dot11w_expire_timer :: bool
  addba_retry_timer :: bool
  tracker_q :: "nat list"
  expire_to :: u32
  sleepq_ac_len :: u32
  uapsd :: "u8 list"
  sta_keytrack :: int
  dot11tkiprxmickey :: buf
  duplicate_cnt :: u32
  last_tid :: u8
  sta_flags :: u32
  dot118021XPrivacy :: u32
  ieee8021x_blocked :: bool

text \<open>
  The pools frames go back to: receive frames, transmit frames (by number), and the counts \<open>accnt\<close> of the
  hardware queues in the order of \<open>hwxmits\<close> (vo, vi, be, bk, mgmt), which is also the order of
  \<open>servqs\<close>. \<open>uapsd\<close> stands for \<open>qos_info\<close>, \<open>max_sp_len\<close>, the four \<open>uapsd\<close> bytes and \<open>has_legacy_ac\<close>.
\<close>

record frame_pools = recv_pool +
  free_xmit_queue :: "nat list"
  accnt :: "int list"

record sta_priv =
  stainfo :: "sta_info list"
  free_sta_queue :: "nat list"
  sta_hash :: "nat list list"
  asoc_sta_count :: int
  auth_list_cnt :: u8
  sta_aid :: "nat option list"
  max_aid :: u16
  started_aid :: u16
  rr_aid :: bool
  max_num_sta :: u16
  aid_bmp_len :: u8
  sta_dz_bitmap :: buf
  tim_bitmap :: buf

subsection \<open>Bitmaps over ids\<close>

definition rtw_bmp_is_set :: "buf \<Rightarrow> u8 \<Rightarrow> u8 \<Rightarrow> bool" where
  "rtw_bmp_is_set bmp bmp_len i = (if unat i div 8 \<ge> unat bmp_len then False else bit (bmp ! (unat i div 8)) (unat i mod 8))"

definition rtw_bmp_set :: "buf \<Rightarrow> u8 \<Rightarrow> u8 \<Rightarrow> buf" where
  "rtw_bmp_set bmp bmp_len i =
     (if unat i div 8 < unat bmp_len
      then bmp[unat i div 8 := bmp ! (unat i div 8) OR push_bit (unat i mod 8) 1] else bmp)"

definition rtw_bmp_clear :: "buf \<Rightarrow> u8 \<Rightarrow> u8 \<Rightarrow> buf" where
  "rtw_bmp_clear bmp bmp_len i =
     (if unat i div 8 < unat bmp_len
      then bmp[unat i div 8 := bmp ! (unat i div 8) AND NOT (push_bit (unat i mod 8) 1)] else bmp)"

definition rtw_bmp_not_empty :: "buf \<Rightarrow> u8 \<Rightarrow> bool" where
  "rtw_bmp_not_empty bmp bmp_len = list_ex (\<lambda>i. bmp ! i \<noteq> 0) [0..<unat bmp_len]"

definition rtw_bmp_not_empty_exclude_bit0 :: "buf \<Rightarrow> u8 \<Rightarrow> bool" where
  "rtw_bmp_not_empty_exclude_bit0 bmp bmp_len =
     list_ex (\<lambda>i. if i = 0 then bmp ! i AND 0xFE \<noteq> 0 else bmp ! i \<noteq> 0) [0..<unat bmp_len]"

subsection \<open>Set-up\<close>

definition reorder_ctrl_zero :: recv_reorder_ctrl where
  "reorder_ctrl_zero = \<lparr>enable = False, indicate_seq = 0, wsize_b = 0, ampdu_size = 0,
     pending_recvframe_queue = [], bReorderWaiting = False, reordering_ctrl_timer = False,
     rec_abba_rsp_ack = False\<rparr>"

definition rtw_init_stainfo :: sta_info where
  "rtw_init_stainfo = \<lparr>mac_addr = replicate 6 0, sta_state = 0, aid = 0, UncstKey = replicate 32 0,
     tid_rxseq = replicate 16 0, bmc_tid_rxseq = replicate 16 0, rxcache_iv = replicate 16 (replicate 8 0),
     nonqos_rxseq = 0, nonqos_bmc_rxseq = 0, RxMgmtFrameSeqNum = 0,
     recvreorder_ctrl = replicate 16 reorder_ctrl_zero, defrag_q = [], auth_list = False,
     tx_queue = [], sleep_q = [], sleepq_len = 0, mgmt_sleep_q = [], mgmt_sleepq_len = 0,
     servqs = replicate 5 \<lparr>tx_pending = False, sta_pending = [], qcnt = 0\<rparr>, dot11w_expire_timer = False,
     addba_retry_timer = False, tracker_q = [], expire_to = 0, sleepq_ac_len = 0, uapsd = replicate 7 0,
     sta_keytrack = 0, dot11tkiprxmickey = replicate 16 0, duplicate_cnt = 0, last_tid = 0, sta_flags = 0, dot118021XPrivacy = 0, ieee8021x_blocked = False\<rparr>"

definition AID_BMP_LEN :: "nat \<Rightarrow> nat" where
  "AID_BMP_LEN m = (m + 1) div 8 + (if (m + 1) mod 8 \<noteq> 0 then 1 else 0)"

text \<open>\<open>macid_num\<close> is \<open>macid_ctl->num\<close>; the memory allocations succeed.\<close>

definition rtw_init_sta_priv :: "u8 \<Rightarrow> sta_priv" where
  "rtw_init_sta_priv macid_num =
     \<lparr>stainfo = replicate NUM_STA rtw_init_stainfo, free_sta_queue = [0..<NUM_STA],
      sta_hash = replicate NUM_STA [], asoc_sta_count = 0, auth_list_cnt = 0,
      sta_aid = replicate (unat macid_num) None, max_aid = ucast macid_num, started_aid = 1, rr_aid = False,
      max_num_sta = of_nat NUM_STA, aid_bmp_len = of_nat (AID_BMP_LEN (unat macid_num)),
      sta_dz_bitmap = replicate (unat (of_nat (AID_BMP_LEN (unat macid_num)) :: u8)) 0,
      tim_bitmap = replicate (unat (of_nat (AID_BMP_LEN (unat macid_num)) :: u8)) 0\<rparr>"

subsection \<open>The hash table\<close>

definition wifi_mac_hash :: "buf \<Rightarrow> u32" where
  "wifi_mac_hash mac =
     (let x = ucast (mac ! 0);
          x = push_bit 2 x XOR ucast (mac ! 1);
          x = push_bit 2 x XOR ucast (mac ! 2);
          x = push_bit 2 x XOR ucast (mac ! 3);
          x = push_bit 2 x XOR ucast (mac ! 4);
          x = push_bit 2 x XOR ucast (mac ! 5);
          x = x XOR drop_bit 8 x in
      x AND (of_nat NUM_STA - 1))"

definition bc_addr :: buf where "bc_addr = replicate 6 0xff"

definition is_mcast :: "buf \<Rightarrow> bool" where "is_mcast a \<longleftrightarrow> a ! 0 AND 0x01 \<noteq> 0"

fun find_sta :: "sta_info list \<Rightarrow> buf \<Rightarrow> nat list \<Rightarrow> nat option" where
  "find_sta stas addr [] = None"
| "find_sta stas addr (i # is) = (if mac_addr (stas ! i) = addr then Some i else find_sta stas addr is)"

definition rtw_get_stainfo :: "sta_priv \<Rightarrow> buf option \<Rightarrow> nat option" where
  "rtw_get_stainfo st hwaddr =
     (case hwaddr of
        None \<Rightarrow> None
      | Some hwaddr \<Rightarrow>
          let addr = (if is_mcast hwaddr then bc_addr else hwaddr) in
          find_sta (stainfo st) addr (sta_hash st ! unat (wifi_mac_hash addr)))"

definition rtw_get_bcmc_stainfo :: "sta_priv \<Rightarrow> nat option" where
  "rtw_get_bcmc_stainfo st = rtw_get_stainfo st (Some bc_addr)"

definition rtw_alloc_stainfo :: "sta_priv \<Rightarrow> buf \<Rightarrow> nat option \<times> sta_priv" where
  "rtw_alloc_stainfo st hwaddr =
     (case free_sta_queue st of
        [] \<Rightarrow> (None, st)
      | i # q \<Rightarrow>
          let s = rtw_init_stainfo\<lparr>mac_addr := take 6 hwaddr\<rparr>;
              index = unat (wifi_mac_hash hwaddr);
              st = st\<lparr>free_sta_queue := q\<rparr> in
          if index \<ge> NUM_STA then (None, st\<lparr>stainfo := (stainfo st)[i := s]\<rparr>)
          else
            let s = s\<lparr>tid_rxseq := replicate 16 0xffff, bmc_tid_rxseq := replicate 16 0xffff,
                      rxcache_iv := replicate 16 (replicate 8 0), nonqos_bmc_rxseq := 0xffff, nonqos_rxseq := 0xffff,
                      recvreorder_ctrl := replicate 16 reorder_ctrl_init, RxMgmtFrameSeqNum := 0xffff, sta_keytrack := 0\<rparr> in
            (Some i, st\<lparr>stainfo := (stainfo st)[i := s],
                        sta_hash := (sta_hash st)[index := sta_hash st ! index @ [i]],
                        asoc_sta_count := asoc_sta_count st + 1\<rparr>))"

definition rtw_init_bcmc_stainfo :: "sta_priv \<Rightarrow> nat option \<times> sta_priv" where
  "rtw_init_bcmc_stainfo st = rtw_alloc_stainfo st bc_addr"

definition WIFI_ASOC_STATE :: u32 where "WIFI_ASOC_STATE = 0x00000001"

text \<open>
  The transmit queues of a station are emptied: the frames go back to the pool, and the counts of
  the hardware queues go down by the count of each access category.
\<close>

definition release_tx :: "sta_info \<Rightarrow> frame_pools \<Rightarrow> sta_info \<times> frame_pools" where
  "release_tx s p =
     (s\<lparr>tx_queue := [], sleep_q := [], sleepq_len := 0, mgmt_sleep_q := [], mgmt_sleepq_len := 0,
        servqs := map (\<lambda>_. \<lparr>tx_pending = False, sta_pending = [], qcnt = 0\<rparr>) (servqs s)\<rparr>,
      p\<lparr>free_xmit_queue := free_xmit_queue p @ tx_queue s @ sleep_q s @ mgmt_sleep_q s @ concat (map sta_pending (servqs s)),
        accnt := map2 (\<lambda>n q. n - qcnt q) (accnt p) (servqs s)\<rparr>)"

text \<open>
  The release of the buffered frames of one stream: the frames go back to the queue of free
  receive frames.
\<close>

definition clear_reorder :: "recv_reorder_ctrl \<Rightarrow> recv_reorder_ctrl" where
  "clear_reorder c = c\<lparr>rec_abba_rsp_ack := False, reordering_ctrl_timer := False, pending_recvframe_queue := []\<rparr>"

definition unlink :: "nat \<Rightarrow> nat list list \<Rightarrow> nat list list" where
  "unlink i = map (filter (\<lambda>j. j \<noteq> i))"

text \<open>The part of the release that only the AP mode has: bitmaps and association id.\<close>

definition release_aid :: "nat \<Rightarrow> sta_priv \<Rightarrow> sta_priv" where
  "release_aid i st =
     (let a = aid (stainfo st ! i);
          st = st\<lparr>sta_dz_bitmap := rtw_bmp_clear (sta_dz_bitmap st) (aid_bmp_len st) (ucast a),
                  tim_bitmap := rtw_bmp_clear (tim_bitmap st) (aid_bmp_len st) (ucast a)\<rparr> in
      if 0 < a \<and> sta_aid st ! (unat a - 1) = Some i
      then st\<lparr>sta_aid := (sta_aid st)[unat a - 1 := None], stainfo := (stainfo st)[i := (stainfo st ! i)\<lparr>aid := 0\<rparr>]\<rparr>
      else st)"

definition rtw_free_stainfo :: "bool \<Rightarrow> sta_priv \<Rightarrow> frame_pools \<Rightarrow> nat option \<Rightarrow> sta_priv \<times> frame_pools" where
  "rtw_free_stainfo ap st p psta =
     (case psta of
        None \<Rightarrow> (st, p)
      | Some i \<Rightarrow>
          let s = (stainfo st ! i)\<lparr>sta_state := sta_state (stainfo st ! i) AND NOT WIFI_ASOC_STATE\<rparr>;
              (s, p) = release_tx s p;
              frames = concat (map pending_recvframe_queue (recvreorder_ctrl s)) @ defrag_q s;
              s' = s\<lparr>dot11w_expire_timer := False, addba_retry_timer := False,
                     recvreorder_ctrl := map clear_reorder (recvreorder_ctrl s), defrag_q := [], auth_list := False,
                     expire_to := 0, sleepq_ac_len := 0, uapsd := replicate 7 0, tracker_q := []\<rparr>;
              st = st\<lparr>sta_hash := unlink i (sta_hash st), asoc_sta_count := asoc_sta_count st - 1,
                      stainfo := (stainfo st)[i := s'],
                      auth_list_cnt := (if auth_list s then auth_list_cnt st - 1 else auth_list_cnt st)\<rparr>;
              st = (if ap then release_aid i st else st) in
          (st\<lparr>free_sta_queue := free_sta_queue st @ [i]\<rparr>, rtw_free_recvframe_queue frames p))"

text \<open>The offsets \<open>rtw_free_all_stainfo\<close> collects, bucket by bucket.\<close>

definition free_sta_list :: "sta_priv \<Rightarrow> nat list" where
  "free_sta_list st = filter (\<lambda>i. rtw_get_bcmc_stainfo st \<noteq> Some i) (concat (sta_hash st))"

definition rtw_free_all_stainfo :: "bool \<Rightarrow> sta_priv \<Rightarrow> frame_pools \<Rightarrow> sta_priv \<times> frame_pools" where
  "rtw_free_all_stainfo ap st q =
     (if asoc_sta_count st = 1 then (st, q)
      else
        let l = free_sta_list st;
            st = st\<lparr>sta_hash := fold unlink l (sta_hash st)\<rparr> in
        fold (\<lambda>i (st, q). rtw_free_stainfo ap st q (Some i)) l (st, q))"

subsection \<open>Association ids\<close>

text \<open>The search loop: the result is \<open>i\<close>, \<open>aid\<close> and \<open>used_cnt\<close> at its end.\<close>

function aid_search :: "sta_priv \<Rightarrow> nat \<Rightarrow> nat \<Rightarrow> nat \<Rightarrow> nat \<times> nat \<times> nat" where
  "aid_search st i a used_cnt =
     (if i < unat (max_aid st) then
        let a = (i + unat (started_aid st) - 1) mod unat (max_aid st) + 1 in
        if sta_aid st ! (a - 1) = None then (i, a, used_cnt)
        else if used_cnt + 1 \<ge> unat (max_num_sta st) then (i, a, used_cnt + 1)
        else aid_search st (i + 1) a (used_cnt + 1)
      else (i, a, used_cnt))"
  by pat_completeness auto
termination
  by (relation "measure (\<lambda>(st, i, a, used_cnt). unat (max_aid st) - i)") auto

declare aid_search.simps [simp del]

definition rtw_aid_alloc :: "sta_priv \<Rightarrow> nat \<Rightarrow> nat \<times> sta_priv" where
  "rtw_aid_alloc st sta =
     (let (i, a, used_cnt) = aid_search st 0 0 0;
          a = (if i \<ge> unat (max_aid st) \<or> used_cnt \<ge> unat (max_num_sta st) then 0 else a);
          st = st\<lparr>stainfo := (stainfo st)[sta := (stainfo st ! sta)\<lparr>aid := of_nat a\<rparr>]\<rparr> in
      if a \<noteq> 0 then
        (a, st\<lparr>sta_aid := (sta_aid st)[a - 1 := Some sta],
               started_aid := (if rr_aid st then of_nat (a mod unat (max_aid st) + 1) else started_aid st)\<rparr>)
      else (a, st))"


subsection \<open>Invariant of the table\<close>

abbreviation hashed :: "sta_priv \<Rightarrow> nat list" where
  "hashed st \<equiv> concat (sta_hash st)"

definition sta_inv :: "sta_priv \<Rightarrow> bool" where
  "sta_inv st \<longleftrightarrow> length (stainfo st) = NUM_STA \<and> length (sta_hash st) = NUM_STA
     \<and> distinct (free_sta_queue st @ hashed st) \<and> set (free_sta_queue st @ hashed st) = {..<NUM_STA}
     \<and> (\<forall>b < NUM_STA. \<forall>i \<in> set (sta_hash st ! b).
          length (mac_addr (stainfo st ! i)) = 6 \<and> unat (wifi_mac_hash (mac_addr (stainfo st ! i))) = b)
     \<and> inj_on (\<lambda>i. mac_addr (stainfo st ! i)) (set (hashed st))
     \<and> asoc_sta_count st = int (length (hashed st))"

lemma wifi_mac_hash_less: "unat (wifi_mac_hash mac) < NUM_STA"
proof -
  have "unat (w AND (of_nat NUM_STA - 1) :: u32) < NUM_STA" for w
  proof -
    have "w AND 31 \<le> (31 :: u32)" by (rule word_and_le1)
    then show ?thesis by (simp add: NUM_STA_def word_le_nat_alt)
  qed
  then show ?thesis unfolding wifi_mac_hash_def Let_def .
qed

lemma find_sta_None: "find_sta stas a is = None \<longleftrightarrow> (\<forall>i \<in> set is. mac_addr (stas ! i) \<noteq> a)"
  by (induction "is") auto

lemma find_sta_Some:
  "inj_on (\<lambda>i. mac_addr (stas ! i)) (set is) \<Longrightarrow>
   find_sta stas a is = Some i \<longleftrightarrow> i \<in> set is \<and> mac_addr (stas ! i) = a"
  by (induction "is") (auto simp: inj_on_def)

definition sta_key :: "buf \<Rightarrow> buf" where
  "sta_key mac = (if is_mcast mac then bc_addr else mac)"

lemma sta_inv_bucket: "sta_inv st \<Longrightarrow> i \<in> set (hashed st) \<longleftrightarrow> i \<in> set (sta_hash st ! unat (wifi_mac_hash (mac_addr (stainfo st ! i))))"
  unfolding sta_inv_def in_set_conv_nth [of _ "sta_hash st"] set_concat
  by (auto simp: in_set_conv_nth [of _ "sta_hash st"] wifi_mac_hash_less) (metis nth_mem wifi_mac_hash_less)

text \<open>The lookup finds exactly the hashed station with the address (the broadcast entry for a multicast one).\<close>

lemma rtw_get_stainfo_iff:
  assumes "sta_inv st"
  shows "rtw_get_stainfo st (Some mac) = Some i \<longleftrightarrow> i \<in> set (hashed st) \<and> mac_addr (stainfo st ! i) = sta_key mac"
proof -
  let ?b = "sta_hash st ! unat (wifi_mac_hash (sta_key mac))"
  have "set ?b \<subseteq> set (hashed st)"
    using assms wifi_mac_hash_less [of "sta_key mac"] by (auto simp: sta_inv_def)
  then have "inj_on (\<lambda>i. mac_addr (stainfo st ! i)) (set ?b)"
    using assms inj_on_subset unfolding sta_inv_def by blast
  then have "rtw_get_stainfo st (Some mac) = Some i \<longleftrightarrow> i \<in> set ?b \<and> mac_addr (stainfo st ! i) = sta_key mac"
    by (simp add: rtw_get_stainfo_def sta_key_def Let_def find_sta_Some)
  then show ?thesis using sta_inv_bucket [OF assms, of i] by auto
qed

lemma rtw_get_stainfo_None:
  assumes "sta_inv st"
  shows "rtw_get_stainfo st (Some mac) = None \<longleftrightarrow> (\<forall>i \<in> set (hashed st). mac_addr (stainfo st ! i) \<noteq> sta_key mac)"
  using rtw_get_stainfo_iff [OF assms] by (metis not_None_eq option.distinct(1))


lemma concat_update_append:
  "b < length xss \<Longrightarrow> set (concat (xss[b := xss ! b @ [i]])) = insert i (set (concat xss))"
  "b < length xss \<Longrightarrow> length (concat (xss[b := xss ! b @ [i]])) = Suc (length (concat xss))"
  "b < length xss \<Longrightarrow> i \<notin> set (concat xss) \<Longrightarrow> distinct (concat (xss[b := xss ! b @ [i]])) = distinct (concat xss)"
proof -
  assume "b < length xss"
  then have u: "xss[b := xss ! b @ [i]] = take b xss @ (xss ! b @ [i]) # drop (Suc b) xss"
    and v: "xss = take b xss @ xss ! b # drop (Suc b) xss"
    by (simp_all add: upd_conv_take_nth_drop id_take_nth_drop)
  show "set (concat (xss[b := xss ! b @ [i]])) = insert i (set (concat xss))"
    unfolding u by (subst (4) v) auto
  show "length (concat (xss[b := xss ! b @ [i]])) = Suc (length (concat xss))"
    unfolding u by (subst (4) v) (simp add: length_concat)
  assume "i \<notin> set (concat xss)"
  then have "i \<notin> set (concat (take b xss)) \<union> set (xss ! b) \<union> set (concat (drop (Suc b) xss))"
    by (subst (asm) v) auto
  then show "distinct (concat (xss[b := xss ! b @ [i]])) = distinct (concat xss)"
    unfolding u by (subst (4) v) auto
qed

lemma alloc_fields:
  assumes "sta_inv st" "free_sta_queue st = i # q" "length mac = 6"
  shows "\<exists>s. rtw_alloc_stainfo st mac = (Some i, st\<lparr>free_sta_queue := q, stainfo := (stainfo st)[i := s],
      sta_hash := (sta_hash st)[unat (wifi_mac_hash mac) := sta_hash st ! unat (wifi_mac_hash mac) @ [i]],
      asoc_sta_count := asoc_sta_count st + 1\<rparr>) \<and> mac_addr s = mac"
proof (intro exI conjI)
  show "rtw_alloc_stainfo st mac = (Some i, st\<lparr>free_sta_queue := q, stainfo := (stainfo st)
      [i := rtw_init_stainfo\<lparr>mac_addr := mac, tid_rxseq := replicate 16 0xffff, bmc_tid_rxseq := replicate 16 0xffff,
              rxcache_iv := replicate 16 (replicate 8 0), nonqos_bmc_rxseq := 0xffff, nonqos_rxseq := 0xffff,
              recvreorder_ctrl := replicate 16 reorder_ctrl_init, RxMgmtFrameSeqNum := 0xffff, sta_keytrack := 0\<rparr>],
      sta_hash := (sta_hash st)[unat (wifi_mac_hash mac) := sta_hash st ! unat (wifi_mac_hash mac) @ [i]],
      asoc_sta_count := asoc_sta_count st + 1\<rparr>)"
    using assms wifi_mac_hash_less [of mac] by (simp add: rtw_alloc_stainfo_def Let_def)
qed simp

lemma inj_on_update:
  "inj_on (\<lambda>j. f (xs ! j)) H \<Longrightarrow> i \<notin> H \<Longrightarrow> i < length xs \<Longrightarrow> \<forall>j \<in> H. f (xs ! j) \<noteq> f x
   \<Longrightarrow> inj_on (\<lambda>j. f (xs[i := x] ! j)) (insert i H)"
  by (auto simp: inj_on_def nth_list_update)

lemma sta_inv_alloc:
  assumes "sta_inv st" "free_sta_queue st = i # q" "length mac = 6" "\<forall>j \<in> set (hashed st). mac_addr (stainfo st ! j) \<noteq> mac"
  shows "sta_inv (snd (rtw_alloc_stainfo st mac))"
    and "set (hashed (snd (rtw_alloc_stainfo st mac))) = insert i (set (hashed st))"
    and "i \<notin> set (hashed st)"
    and "mac_addr (stainfo (snd (rtw_alloc_stainfo st mac)) ! i) = mac"
    and "\<And>j. j \<in> set (hashed st) \<Longrightarrow> stainfo (snd (rtw_alloc_stainfo st mac)) ! j = stainfo st ! j"
    and "fst (rtw_alloc_stainfo st mac) = Some i"
proof -
  let ?b = "unat (wifi_mac_hash mac)"
  obtain s where a: "rtw_alloc_stainfo st mac = (Some i, st\<lparr>free_sta_queue := q, stainfo := (stainfo st)[i := s],
      sta_hash := (sta_hash st)[?b := sta_hash st ! ?b @ [i]], asoc_sta_count := asoc_sta_count st + 1\<rparr>)" and s: "mac_addr s = mac"
    using alloc_fields [OF assms(1-3)] by blast
  have inv: "length (stainfo st) = NUM_STA" "length (sta_hash st) = NUM_STA" "distinct (free_sta_queue st @ hashed st)"
    "set (free_sta_queue st @ hashed st) = {..<NUM_STA}" "asoc_sta_count st = int (length (hashed st))"
    "inj_on (\<lambda>i. mac_addr (stainfo st ! i)) (set (hashed st))"
    "\<And>b j. b < NUM_STA \<Longrightarrow> j \<in> set (sta_hash st ! b) \<Longrightarrow>
      length (mac_addr (stainfo st ! j)) = 6 \<and> unat (wifi_mac_hash (mac_addr (stainfo st ! j))) = b"
    using assms(1) by (auto simp: sta_inv_def)
  have b: "?b < length (sta_hash st)" using wifi_mac_hash_less inv(2) by simp
  show i: "i \<notin> set (hashed st)" using inv(3) assms(2) by auto
  have iN: "i < NUM_STA" using inv(4) assms(2) by auto
  show h: "set (hashed (snd (rtw_alloc_stainfo st mac))) = insert i (set (hashed st))"
    unfolding a using concat_update_append(1) [OF b] by simp
  show "mac_addr (stainfo (snd (rtw_alloc_stainfo st mac)) ! i) = mac" using iN inv(1) s by (simp add: a)
  show o: "\<And>j. j \<in> set (hashed st) \<Longrightarrow> stainfo (snd (rtw_alloc_stainfo st mac)) ! j = stainfo st ! j"
  proof -
    fix j assume "j \<in> set (hashed st)"
    with i have "i \<noteq> j" by auto
    then show "stainfo (snd (rtw_alloc_stainfo st mac)) ! j = stainfo st ! j" by (simp add: a)
  qed
  show "fst (rtw_alloc_stainfo st mac) = Some i" by (simp add: a)
  have bk: "length (mac_addr ((stainfo st)[i := s] ! j)) = 6 \<and> unat (wifi_mac_hash (mac_addr ((stainfo st)[i := s] ! j))) = c"
    if c: "c < NUM_STA" and j: "j \<in> set ((sta_hash st)[?b := sta_hash st ! ?b @ [i]] ! c)" for c j
  proof (cases "j = i")
    case True
    then have "c = ?b" using j i c inv(2) b by (auto simp: nth_list_update split: if_splits)
    then show ?thesis using True iN inv(1) s assms(3) by simp
  next
    case False
    then have "j \<in> set (sta_hash st ! c)" using j b by (auto simp: nth_list_update split: if_splits)
    then show ?thesis using False inv(7) [OF c] by simp
  qed
  have inj: "inj_on (\<lambda>j. mac_addr ((stainfo st)[i := s] ! j)) (insert i (set (hashed st)))"
    using inj_on_update [OF inv(6) i, of s] inv(1) iN s assms(4) by simp
  show "sta_inv (snd (rtw_alloc_stainfo st mac))"
    unfolding sta_inv_def a
    using concat_update_append [OF b, of i] i inv assms(2) bk inj by (auto simp: )
qed


lemma unlink_simps [simp]: "length (unlink i h) = length h" "b < length h \<Longrightarrow> unlink i h ! b = filter (\<lambda>j. j \<noteq> i) (h ! b)"
  by (simp_all add: unlink_def)

lemma concat_unlink: "concat (unlink i h) = filter (\<lambda>j. j \<noteq> i) (concat h)"
  by (simp add: unlink_def filter_concat)

lemma length_filter_neq: "distinct xs \<Longrightarrow> i \<in> set xs \<Longrightarrow> Suc (length (filter (\<lambda>j. j \<noteq> i) xs)) = length xs"
proof (induction xs)
  case (Cons x xs)
  show ?case
  proof (cases "x = i")
    case True
    then have "filter (\<lambda>j. j \<noteq> i) xs = xs" using Cons.prems by (intro filter_True) auto
    then show ?thesis using True by simp
  qed (use Cons in auto)
qed simp

lemma mac_addr_update: "mac_addr s = mac_addr (xs ! i) \<Longrightarrow> mac_addr (xs[i := s] ! j) = mac_addr (xs ! j)"
  by (cases "i < length xs") (auto simp: nth_list_update list_update_beyond)

lemma release_aid_table [simp]:
  "free_sta_queue (release_aid i st) = free_sta_queue st" "sta_hash (release_aid i st) = sta_hash st"
  "asoc_sta_count (release_aid i st) = asoc_sta_count st" "length (stainfo (release_aid i st)) = length (stainfo st)"
  "mac_addr (stainfo (release_aid i st) ! j) = mac_addr (stainfo st ! j)"
  by (simp_all add: release_aid_def Let_def mac_addr_update)

lemma free_fields:
  defines "st' ap st q i \<equiv> fst (rtw_free_stainfo ap st q (Some i))"
  shows "free_sta_queue (st' ap st q i) = free_sta_queue st @ [i]" "sta_hash (st' ap st q i) = unlink i (sta_hash st)"
    "asoc_sta_count (st' ap st q i) = asoc_sta_count st - 1" "length (stainfo (st' ap st q i)) = length (stainfo st)"
    "mac_addr (stainfo (st' ap st q i) ! j) = mac_addr (stainfo st ! j)"
  by (simp_all add: st'_def rtw_free_stainfo_def release_tx_def Let_def mac_addr_update)

text \<open>
  The state while \<open>rtw_free_all_stainfo\<close> releases the stations \<open>l\<close> it has already unlinked: they are
  in neither list, but still counted.
\<close>

definition sta_inv_out :: "sta_priv \<Rightarrow> nat list \<Rightarrow> bool" where
  "sta_inv_out st l \<longleftrightarrow> length (stainfo st) = NUM_STA \<and> length (sta_hash st) = NUM_STA
     \<and> distinct (free_sta_queue st @ hashed st @ l) \<and> set (free_sta_queue st @ hashed st @ l) = {..<NUM_STA}
     \<and> (\<forall>b < NUM_STA. \<forall>i \<in> set (sta_hash st ! b).
          length (mac_addr (stainfo st ! i)) = 6 \<and> unat (wifi_mac_hash (mac_addr (stainfo st ! i))) = b)
     \<and> inj_on (\<lambda>i. mac_addr (stainfo st ! i)) (set (hashed st))
     \<and> asoc_sta_count st = int (length (hashed st) + length l)"

lemma sta_inv_out_Nil: "sta_inv_out st [] = sta_inv st"
  by (simp add: sta_inv_out_def sta_inv_def)

lemma sta_inv_unlink:
  assumes "sta_inv_out st l" "i \<in> set (hashed st)"
  shows "sta_inv_out (st\<lparr>sta_hash := unlink i (sta_hash st)\<rparr>) (l @ [i])"
proof -
  have d: "distinct (hashed st)" using assms(1) by (simp add: sta_inv_out_def)
  from length_filter_neq [OF this assms(2)] have "length (filter (\<lambda>j. j \<noteq> i) (hashed st)) + 1 = length (hashed st)" by simp
  then show ?thesis
    using assms by (auto simp: sta_inv_out_def concat_unlink inj_on_def)
qed

lemma sta_inv_out_free:
  assumes "sta_inv_out st (i # l)"
  shows "sta_inv_out (fst (rtw_free_stainfo ap st q (Some i))) l"
proof -
  have "i \<notin> set (hashed st)" using assms by (auto simp: sta_inv_out_def)
  then have u: "unlink i (sta_hash st) = sta_hash st"
    by (auto simp: unlink_def intro!: map_idI filter_True)
  show ?thesis
    using assms by (auto simp: sta_inv_out_def free_fields u)
qed


lemma sta_inv_free:
  assumes "sta_inv st" "i \<in> set (hashed st)"
  shows "sta_inv (fst (rtw_free_stainfo ap st q (Some i)))"
proof -
  have "sta_inv_out (st\<lparr>sta_hash := unlink i (sta_hash st)\<rparr>) [i]"
    using sta_inv_unlink [of st "[]" i] assms by (simp add: sta_inv_out_Nil)
  then have "sta_inv_out (fst (rtw_free_stainfo ap st q (Some i))) []"
    by (auto simp: sta_inv_out_def free_fields)
  then show ?thesis by (simp add: sta_inv_out_Nil)
qed

lemma sta_inv_unlinks:
  "sta_inv_out st k \<Longrightarrow> distinct l \<Longrightarrow> set l \<subseteq> set (hashed st)
   \<Longrightarrow> sta_inv_out (st\<lparr>sta_hash := fold unlink l (sta_hash st)\<rparr>) (k @ l)
     \<and> hashed (st\<lparr>sta_hash := fold unlink l (sta_hash st)\<rparr>) = filter (\<lambda>j. j \<notin> set l) (hashed st)"
proof (induction l arbitrary: st k)
  case (Cons i l)
  let ?st = "st\<lparr>sta_hash := unlink i (sta_hash st)\<rparr>"
  have "sta_inv_out ?st (k @ [i])" using sta_inv_unlink [OF Cons.prems(1)] Cons.prems(3) by simp
  moreover have "set l \<subseteq> set (hashed ?st)" using Cons.prems(2,3) by (auto simp: concat_unlink)
  ultimately show ?case using Cons.IH [of ?st "k @ [i]"] Cons.prems(2) by (auto simp: concat_unlink conj_commute)
qed simp

lemma sta_inv_frees:
  "sta_inv_out st l \<Longrightarrow> sta_inv (fst (fold (\<lambda>i (st, q). rtw_free_stainfo ap st q (Some i)) l (st, q)))
   \<and> hashed (fst (fold (\<lambda>i (st, q). rtw_free_stainfo ap st q (Some i)) l (st, q))) = hashed st
   \<and> (\<forall>j. mac_addr (stainfo (fst (fold (\<lambda>i (st, q). rtw_free_stainfo ap st q (Some i)) l (st, q))) ! j) = mac_addr (stainfo st ! j))"
proof (induction l arbitrary: st q)
  case Nil
  then show ?case by (simp add: sta_inv_out_Nil)
next
  case (Cons i l)
  obtain st' q' where e: "rtw_free_stainfo ap st q (Some i) = (st', q')" by fastforce
  have "sta_inv_out st' l" using sta_inv_out_free [OF Cons.prems, of ap q] e by simp
  moreover have "i \<notin> set (hashed st)" using Cons.prems by (auto simp: sta_inv_out_def)
  then have "filter (\<lambda>j. j \<noteq> i) (hashed st) = hashed st" by (intro filter_True) auto
  then have "hashed st' = hashed st" using free_fields(2) [of ap st q i] e by (simp add: concat_unlink)
  moreover have "mac_addr (stainfo st' ! j) = mac_addr (stainfo st ! j)" for j using free_fields(5) [of ap st q i j] e by simp
  ultimately show ?case using Cons.IH [of st' q'] e by simp
qed

lemma free_all_spec:
  assumes "sta_inv st" "asoc_sta_count st \<noteq> 1"
  shows "sta_inv (fst (rtw_free_all_stainfo ap st q))"
    and "hashed (fst (rtw_free_all_stainfo ap st q)) = filter (\<lambda>i. rtw_get_bcmc_stainfo st = Some i) (hashed st)"
    and "mac_addr (stainfo (fst (rtw_free_all_stainfo ap st q)) ! j) = mac_addr (stainfo st ! j)"
proof -
  have d: "distinct (free_sta_list st)" "set (free_sta_list st) \<subseteq> set (hashed st)"
    using assms(1) by (auto simp: free_sta_list_def sta_inv_def)
  note u = sta_inv_unlinks [OF _ d, of "[]", unfolded sta_inv_out_Nil, OF assms(1)]
  note f = sta_inv_frees [of _ "free_sta_list st" ap q]
  have e: "filter (\<lambda>j. j \<notin> set (free_sta_list st)) (hashed st) = filter (\<lambda>i. rtw_get_bcmc_stainfo st = Some i) (hashed st)"
    by (rule filter_cong) (auto simp: free_sta_list_def)
  show "sta_inv (fst (rtw_free_all_stainfo ap st q))"
    "hashed (fst (rtw_free_all_stainfo ap st q)) = filter (\<lambda>i. rtw_get_bcmc_stainfo st = Some i) (hashed st)"
    "mac_addr (stainfo (fst (rtw_free_all_stainfo ap st q)) ! j) = mac_addr (stainfo st ! j)"
    using assms(2) u f [of "st\<lparr>sta_hash := fold unlink (free_sta_list st) (sta_hash st)\<rparr>"] e
    by (simp_all add: rtw_free_all_stainfo_def Let_def)
qed


subsection \<open>The contract of the table\<close>

text \<open>
  What the rest of the driver relies on: a lookup by address, allocation of a new address, release
  of a station that was found.
\<close>

locale station_table =
  fixes inv :: "'s \<Rightarrow> bool" and get :: "'s \<Rightarrow> buf \<Rightarrow> nat option" and alloc :: "'s \<Rightarrow> buf \<Rightarrow> nat option \<times> 's"
    and release :: "'s \<Rightarrow> nat \<Rightarrow> 's" and room :: "'s \<Rightarrow> bool" and ok :: "buf \<Rightarrow> bool" and key :: "buf \<Rightarrow> buf"
  assumes alloc_full: "\<not> room s \<Longrightarrow> alloc s m = (None, s)"
    and alloc_new: "inv s \<Longrightarrow> ok m \<Longrightarrow> get s m = None \<Longrightarrow> room s \<Longrightarrow>
      \<exists>i s'. alloc s m = (Some i, s') \<and> inv s' \<and> (\<forall>m'. get s' m' = (if key m' = key m then Some i else get s m'))"
    and release_get: "inv s \<Longrightarrow> get s m = Some i \<Longrightarrow>
      inv (release s i) \<and> (\<forall>m'. get (release s i) m' = (if key m' = key m then None else get s m'))"
    and get_key: "key m = key m' \<Longrightarrow> get s m = get s m'"
begin

lemma alloc_release:
  assumes "inv s" "ok m" "get s m = None" "alloc s m = (Some i, s')"
  shows "inv (release s' i)" "get (release s' i) m' = get s m'"
proof -
  have "room s" using alloc_full [of s m] assms(4) by auto
  from alloc_new [OF assms(1-3) this] assms(4)
  have a: "inv s'" "\<And>m'. get s' m' = (if key m' = key m then Some i else get s m')" by auto
  then have "get s' m = Some i" by simp
  from release_get [OF a(1) this] a(2) get_key [of m' m s] assms(3)
  show "inv (release s' i)" "get (release s' i) m' = get s m'" by auto
qed

lemma alloc_twice:
  assumes "inv s" "ok m" "get s m = None" "alloc s m = (Some i, s')" "ok m'" "key m' \<noteq> key m" "get s m' = None"
    and "alloc s' m' = (Some j, s'')"
  shows "get s'' m = Some i" "get s'' m' = Some j"
proof -
  have r: "room s" "room s'" using alloc_full [of s m] alloc_full [of s' m'] assms(4,8) by auto
  from alloc_new [OF assms(1-3) r(1)] assms(4)
  have a: "inv s'" "\<And>m'. get s' m' = (if key m' = key m then Some i else get s m')" by auto
  then have "get s' m' = None" using assms(6,7) by simp
  from alloc_new [OF a(1) assms(5) this r(2)] assms(8) a(2) assms(6)
  show "get s'' m = Some i" "get s'' m' = Some j" by auto
qed

end

definition addr_ok :: "buf \<Rightarrow> bool" where
  "addr_ok m \<longleftrightarrow> length m = 6 \<and> sta_key m = m"

lemma get_eqI:
  assumes "sta_inv st" "sta_inv st'"
    and "\<And>i. (i \<in> set (hashed st) \<and> mac_addr (stainfo st ! i) = sta_key m) = (i \<in> set (hashed st') \<and> mac_addr (stainfo st' ! i) = sta_key m)"
  shows "rtw_get_stainfo st (Some m) = rtw_get_stainfo st' (Some m)"
  using assms rtw_get_stainfo_iff [OF assms(1), of m] rtw_get_stainfo_iff [OF assms(2), of m]
  by (metis not_Some_eq)

interpretation sta: station_table sta_inv "\<lambda>st m. rtw_get_stainfo st (Some m)" rtw_alloc_stainfo
  "\<lambda>st i. fst (rtw_free_stainfo ap st q (Some i))" "\<lambda>st. free_sta_queue st \<noteq> []" addr_ok sta_key for ap q
proof (unfold_locales, goal_cases)
  case (1 s m)
  then show ?case by (simp add: rtw_alloc_stainfo_def)
next
  case (2 s m)
  obtain i fq where fq: "free_sta_queue s = i # fq" using 2(4) by (cases "free_sta_queue s") auto
  have n: "\<forall>j \<in> set (hashed s). mac_addr (stainfo s ! j) \<noteq> m"
    using 2(2,3) rtw_get_stainfo_None [OF 2(1), of m] by (simp add: addr_ok_def)
  note a = sta_inv_alloc [OF 2(1) fq _ n]
  have l: "length m = 6" "sta_key m = m" using 2(2) by (auto simp: addr_ok_def)
  let ?s = "snd (rtw_alloc_stainfo s m)"
  have "rtw_get_stainfo ?s (Some m') = (if sta_key m' = sta_key m then Some i else rtw_get_stainfo s (Some m'))" for m'
  proof (cases "sta_key m' = sta_key m")
    case True
    then show ?thesis using rtw_get_stainfo_iff [OF a(1) [OF l(1)], of m' i] a(2,4) [OF l(1)] l(2) by (simp del: set_concat)
  next
    case False
    have "rtw_get_stainfo ?s (Some m') = rtw_get_stainfo s (Some m')"
      by (rule get_eqI [OF a(1) [OF l(1)] 2(1)]) (use False l a(2-5) [OF l(1)] in \<open>auto simp del: set_concat\<close>)
    with False show ?thesis by simp
  qed
  then show ?case using a(1,6) [OF l(1)] by (intro exI [of _ i] exI [of _ ?s]) (simp add: prod_eq_iff)
next
  case (3 s m i)
  have i: "i \<in> set (hashed s)" "mac_addr (stainfo s ! i) = sta_key m" using 3(2) rtw_get_stainfo_iff [OF 3(1)] by simp_all
  let ?s = "fst (rtw_free_stainfo ap s q (Some i))"
  have v: "sta_inv ?s" by (rule sta_inv_free [OF 3(1) i(1)])
  have h: "set (hashed ?s) = set (hashed s) - {i}" unfolding free_fields concat_unlink by auto
  have "inj_on (\<lambda>i. mac_addr (stainfo s ! i)) (set (hashed s))" using 3(1) by (simp add: sta_inv_def)
  then have u: "j = i" if "j \<in> set (hashed s)" "mac_addr (stainfo s ! j) = sta_key m" for j
    using that i unfolding inj_on_def by metis
  have "rtw_get_stainfo ?s (Some m') = (if sta_key m' = sta_key m then None else rtw_get_stainfo s (Some m'))" for m'
  proof (cases "sta_key m' = sta_key m")
    case True
    then show ?thesis using rtw_get_stainfo_None [OF v, of m'] h u by (auto simp: free_fields)
  next
    case False
    have "rtw_get_stainfo ?s (Some m') = rtw_get_stainfo s (Some m')"
      by (rule get_eqI [OF v 3(1)]) (use False i h in \<open>auto simp: free_fields\<close>)
    with False show ?thesis by simp
  qed
  with v show ?case by simp
next
  case (4 m m' s)
  then show ?case by (simp add: rtw_get_stainfo_def sta_key_def)
qed


subsection \<open>Runs of the table\<close>

text \<open>
  The operations of the driver on its station table, from any state: a new address is allocated
  only after a lookup did not find it (as every caller of \<open>rtw_alloc_stainfo\<close> does), a station
  that is in the table is released, all stations are released, an association id is allocated, and
  the other fields of an entry change.
\<close>

inductive sta_run :: "sta_priv \<Rightarrow> sta_priv \<Rightarrow> bool" where
  alloc: "addr_ok m \<Longrightarrow> rtw_get_stainfo st (Some m) = None \<Longrightarrow> sta_run st (snd (rtw_alloc_stainfo st m))"
| release: "i \<in> set (hashed st) \<Longrightarrow> sta_run st (fst (rtw_free_stainfo ap st q (Some i)))"
| release_all: "sta_run st (fst (rtw_free_all_stainfo ap st q))"
| aid_alloc: "i \<in> set (hashed st) \<Longrightarrow> sta_run st (snd (rtw_aid_alloc st i))"
| other: "mac_addr s = mac_addr (stainfo st ! i) \<Longrightarrow> sta_run st (st\<lparr>stainfo := (stainfo st)[i := s]\<rparr>)"

lemma sta_inv_same_table:
  assumes "sta_inv st" "free_sta_queue st' = free_sta_queue st" "sta_hash st' = sta_hash st"
    "asoc_sta_count st' = asoc_sta_count st" "length (stainfo st') = length (stainfo st)"
    "\<And>j. mac_addr (stainfo st' ! j) = mac_addr (stainfo st ! j)"
  shows "sta_inv st'"
  using assms by (simp add: sta_inv_def)

lemma sta_inv_aid_alloc:
  assumes "sta_inv st" shows "sta_inv (snd (rtw_aid_alloc st i))"
proof -
  obtain k a u where "aid_search st 0 0 0 = (k, a, u)" by (metis prod_cases3)
  then show ?thesis
    by (intro sta_inv_same_table [OF assms])
       (simp_all add: rtw_aid_alloc_def Let_def mac_addr_update)
qed

lemma sta_run_inv: "sta_run st st' \<Longrightarrow> sta_inv st \<Longrightarrow> sta_inv st'"
proof (induction rule: sta_run.induct)
  case (alloc m st)
  show ?case
  proof (cases "free_sta_queue st = []")
    case True
    then show ?thesis using sta.alloc_full [of st m] alloc by simp
  next
    case False
    then show ?thesis using sta.alloc_new [OF alloc(3,1,2)] by auto
  qed
next
  case (release i st ap q)
  then show ?case by (simp add: sta_inv_free)
next
  case (release_all st ap q)
  then show ?case
    using free_all_spec(1) by (cases "asoc_sta_count st = 1") (auto simp: rtw_free_all_stainfo_def)
next
  case (aid_alloc i st)
  then show ?case by (simp add: sta_inv_aid_alloc)
next
  case (other s st i)
  then show ?case by (intro sta_inv_same_table [OF other(2)]) (simp_all add: mac_addr_update)
qed

lemma sta_inv_init: "sta_inv (rtw_init_sta_priv n)"
  by (auto simp: sta_inv_def rtw_init_sta_priv_def)

subsection \<open>Allocation of association ids\<close>

text \<open>
  With \<open>started_aid = 1\<close> the search goes through the ids in order: it stops at the first free one,
  or when \<open>max_num_sta\<close> ids or all ids were found in use.
\<close>

lemma aid_search_spec:
  assumes "started_aid st = 1" "k \<le> unat (max_aid st)" "k < unat (max_num_sta st)" "\<forall>j < k. sta_aid st ! j \<noteq> None"
    and "aid_search st k a0 k = (i, a, u)"
  shows "if \<exists>j < min (unat (max_aid st)) (unat (max_num_sta st)). sta_aid st ! j = None
    then i < unat (max_aid st) \<and> a = Suc i \<and> u = i \<and> i < unat (max_num_sta st) \<and> sta_aid st ! i = None \<and> (\<forall>j < i. sta_aid st ! j \<noteq> None)
    else i \<ge> unat (max_aid st) \<or> u \<ge> unat (max_num_sta st)"
  using assms(2-5)
proof (induction "unat (max_aid st) - k" arbitrary: k a0)
  case 0
  then have "k = unat (max_aid st)" "(i, a, u) = (k, a0, k)" by (simp_all add: aid_search.simps [of st k])
  with 0(4) show ?case by auto
next
  case (Suc n)
  have k: "k < unat (max_aid st)" using Suc.hyps(2) by simp
  have a: "(k + unat (started_aid st) - 1) mod unat (max_aid st) + 1 = Suc k" using assms(1) k by simp
  consider "sta_aid st ! k = None" | "sta_aid st ! k \<noteq> None" "Suc k \<ge> unat (max_num_sta st)"
    | "sta_aid st ! k \<noteq> None" "Suc k < unat (max_num_sta st)" by fastforce
  then show ?case
  proof cases
    case 1
    then have "(i, a, u) = (k, Suc k, k)"
      using Suc.prems(4) k unfolding aid_search.simps [of st k] Let_def a by simp
    with 1 k Suc.prems(2,3) show ?thesis by (auto intro!: exI [of _ k])
  next
    case 2
    then have "u = Suc k" using Suc.prems(4) k unfolding aid_search.simps [of st k] Let_def a by (auto split: if_splits)
    moreover have "\<not> (\<exists>j < min (unat (max_aid st)) (unat (max_num_sta st)). sta_aid st ! j = None)"
      using 2 Suc.prems(3) by (metis less_SucE less_le_trans min_less_iff_conj)
    ultimately show ?thesis using 2(2) by (simp only: if_False simp_thms)
  next
    case 3
    then have e: "aid_search st (Suc k) (Suc k) (Suc k) = (i, a, u)"
      using Suc.prems(4) k unfolding aid_search.simps [of st k] Let_def a by (auto split: if_splits)
    have "n = unat (max_aid st) - Suc k" "Suc k \<le> unat (max_aid st)" using Suc.hyps(2) by simp_all
    moreover have "\<forall>j < Suc k. sta_aid st ! j \<noteq> None" using 3(1) Suc.prems(3) by (auto simp: less_Suc_eq)
    ultimately show ?thesis using Suc.hyps(1) [of "Suc k" "Suc k"] 3(2) e by simp
  qed
qed

text \<open>The bitmaps are sets of ids.\<close>

definition bmp_ids :: "buf \<Rightarrow> u8 \<Rightarrow> u8 set" where
  "bmp_ids bmp bmp_len = {i. rtw_bmp_is_set bmp bmp_len i}"

lemma id_bits: "(unat i div 8 = unat j div 8 \<and> unat i mod 8 = unat j mod 8) = (i = (j :: u8))"
  by (metis div_mult_mod_eq word_unat_eq_iff)

lemma bit_pow_u8: "bit (2 ^ m :: u8) n \<longleftrightarrow> n = m \<and> n < 8"
  by (auto simp: bit_simps)

lemma bmp_ids_ops:
  assumes "length bmp = unat l" "unat i div 8 < unat l"
  shows "bmp_ids (rtw_bmp_set bmp l i) l = insert i (bmp_ids bmp l)"
    and "bmp_ids (rtw_bmp_clear bmp l i) l = bmp_ids bmp l - {i}"
proof -
  have "rtw_bmp_is_set (rtw_bmp_set bmp l i) l j = (j = i \<or> rtw_bmp_is_set bmp l j)"
    "rtw_bmp_is_set (rtw_bmp_clear bmp l i) l j = (j \<noteq> i \<and> rtw_bmp_is_set bmp l j)" for j
    using assms id_bits [of j i]
    by (auto simp: rtw_bmp_is_set_def rtw_bmp_set_def rtw_bmp_clear_def nth_list_update bit_or_iff bit_and_iff bit_not_iff bit_pow_u8)
  then show "bmp_ids (rtw_bmp_set bmp l i) l = insert i (bmp_ids bmp l)"
    "bmp_ids (rtw_bmp_clear bmp l i) l = bmp_ids bmp l - {i}"
    by (auto simp: bmp_ids_def)
qed

subsection \<open>Properties\<close>

text \<open>C19. Invariant: after any sequence of allocations, releases and changes from the initialised table,
  every one of the \<open>NUM_STA\<close> entries is either in the free queue or in one hash bucket, once; a hashed
  entry is in the bucket of its own address, no two hashed entries have the same address, and
  \<open>asoc_sta_count\<close> is their number.\<close>

theorem station_table_invariant:
  assumes "sta_run\<^sup>*\<^sup>* (rtw_init_sta_priv n) st"
  shows "sta_inv st"
  using assms by (induction rule: rtranclp_induct) (auto intro: sta_inv_init sta_run_inv)

theorem station_table_invariant_witness:
  "sta_inv (snd (rtw_alloc_stainfo (rtw_init_sta_priv 32) [2, 0, 0, 0, 0, 1]))"
  by (rule station_table_invariant [of 32], rule r_into_rtranclp, rule sta_run.alloc) code_simp+

text \<open>C14. Refinement: on a table in a reachable state, the hash table behaves as a finite map from addresses to
  entries: allocating an address that is not in it fails exactly when all \<open>NUM_STA\<close> entries are in
  use and otherwise adds that address and changes no other lookup; releasing the entry found
  for an address removes that address and changes no other lookup. Multicast addresses stand
  for the broadcast entry.\<close>

theorem station_table_map:
  assumes "sta_inv st" "addr_ok m"
  shows "(rtw_get_stainfo st (Some m) = None \<longrightarrow>
      (length (hashed st) = NUM_STA \<longrightarrow> rtw_alloc_stainfo st m = (None, st)) \<and>
      (length (hashed st) < NUM_STA \<longrightarrow> (\<exists>i st'. rtw_alloc_stainfo st m = (Some i, st') \<and> sta_inv st' \<and>
         (\<forall>m'. rtw_get_stainfo st' (Some m') = (if sta_key m' = m then Some i else rtw_get_stainfo st (Some m')))))) \<and>
    (\<forall>i. rtw_get_stainfo st (Some m) = Some i \<longrightarrow> (let st' = fst (rtw_free_stainfo ap st q (Some i)) in sta_inv st' \<and>
       (\<forall>m'. rtw_get_stainfo st' (Some m') = (if sta_key m' = m then None else rtw_get_stainfo st (Some m')))))"
proof -
  have "length (free_sta_queue st @ hashed st) = card {..<NUM_STA}"
    using assms(1) unfolding sta_inv_def by (metis distinct_card)
  then have len: "length (free_sta_queue st) + length (hashed st) = NUM_STA" by (simp only: length_append card_lessThan)
  have k: "sta_key m = m" using assms(2) by (simp add: addr_ok_def)
  show ?thesis
  proof (intro conjI impI allI)
    assume "length (hashed st) = NUM_STA"
    then show "rtw_alloc_stainfo st m = (None, st)" using sta.alloc_full [of st m] len by simp
  next
    assume "rtw_get_stainfo st (Some m) = None" "length (hashed st) < NUM_STA"
    then show "\<exists>i st'. rtw_alloc_stainfo st m = (Some i, st') \<and> sta_inv st' \<and>
         (\<forall>m'. rtw_get_stainfo st' (Some m') = (if sta_key m' = m then Some i else rtw_get_stainfo st (Some m')))"
      using sta.alloc_new [OF assms] len unfolding k by fastforce
  next
    fix i assume "rtw_get_stainfo st (Some m) = Some i"
    from sta.release_get [OF assms(1) this, of ap q]
    show "let st' = fst (rtw_free_stainfo ap st q (Some i)) in sta_inv st' \<and>
       (\<forall>m'. rtw_get_stainfo st' (Some m') = (if sta_key m' = m then None else rtw_get_stainfo st (Some m')))"
      unfolding Let_def k .
  qed
qed

theorem station_table_map_witness:
  "\<exists>i st'. rtw_alloc_stainfo (rtw_init_sta_priv 32) [2, 0, 0, 0, 0, 1] = (Some i, st') \<and> sta_inv st'
     \<and> rtw_get_stainfo st' (Some [2, 0, 0, 0, 0, 1]) = Some i"
proof -
  have "addr_ok [2, 0, 0, 0, 0, 1]" "rtw_get_stainfo (rtw_init_sta_priv 32) (Some [2, 0, 0, 0, 0, 1]) = None"
    "length (hashed (rtw_init_sta_priv 32)) < NUM_STA" "sta_key [2, 0, 0, 0, 0, 1] = [2, 0, 0, 0, 0, 1]"
    by code_simp+
  with station_table_map [OF sta_inv_init, of "[2, 0, 0, 0, 0, 1]" 32] show ?thesis by fastforce
qed


text \<open>Bounds: with the default settings (search from id 1, no round robin) \<open>rtw_aid_alloc\<close> gives the station the
  lowest free id, at most \<open>max_num_sta\<close>, and records it; it gives 0 exactly when the ids up to the
  smaller of \<open>max_aid\<close> and \<open>max_num_sta\<close> are all in use.\<close>

theorem rtw_aid_alloc_lowest:
  assumes "started_aid st = 1" "\<not> rr_aid st" "0 < max_num_sta st" "length (sta_aid st) = unat (max_aid st)"
    and "rtw_aid_alloc st sta = (a, st')"
  shows "(a = 0 \<longleftrightarrow> (\<forall>j < min (unat (max_aid st)) (unat (max_num_sta st)). sta_aid st ! j \<noteq> None))
    \<and> (a \<noteq> 0 \<longrightarrow> a \<le> min (unat (max_aid st)) (unat (max_num_sta st)) \<and> sta_aid st ! (a - 1) = None
        \<and> (\<forall>j < a - 1. sta_aid st ! j \<noteq> None) \<and> sta_aid st' = (sta_aid st)[a - 1 := Some sta] \<and> started_aid st' = 1)"
proof -
  obtain i b u where e: "aid_search st 0 0 0 = (i, b, u)" by (metis prod_cases3)
  have "0 < unat (max_num_sta st)" using assms(3) by (simp add: word_less_nat_alt)
  from aid_search_spec [OF assms(1) _ this _ e] assms(2,5) show ?thesis
    unfolding rtw_aid_alloc_def e Let_def
    by (auto split: if_splits simp: assms(1))
qed

theorem rtw_aid_alloc_lowest_witness:
  "\<exists>st'. rtw_aid_alloc (rtw_init_sta_priv 32) 5 = (1, st') \<and> sta_aid st' = (replicate 32 None)[0 := Some 5]"
proof -
  let ?st = "rtw_init_sta_priv 32"
  obtain a st' where e: "rtw_aid_alloc ?st 5 = (a, st')" by fastforce
  have h: "started_aid ?st = 1" "\<not> rr_aid ?st" "0 < max_num_sta ?st" "length (sta_aid ?st) = unat (max_aid ?st)"
    "min (unat (max_aid ?st)) (unat (max_num_sta ?st)) = 32" "sta_aid ?st = replicate 32 None"
    by code_simp+
  have n: "sta_aid ?st ! 0 = None" by (simp add: h(6))
  from rtw_aid_alloc_lowest [OF h(1-4) e] n h(5,6) have "a \<noteq> 0" "\<not> 0 < a - 1" "sta_aid st' = (replicate 32 None)[a - 1 := Some 5]"
    by fastforce+
  then show ?thesis using e by (simp add: e)
qed


definition used_aids :: "sta_priv \<Rightarrow> nat" where
  "used_aids st = length (filter (\<lambda>x. x \<noteq> None) (sta_aid st))"

lemma count_update_None:
  "k < length xs \<Longrightarrow> xs ! k = None \<Longrightarrow> length (filter (\<lambda>x. x \<noteq> None) (xs[k := Some y])) = Suc (length (filter (\<lambda>x. x \<noteq> None) xs))"
  by (induction xs arbitrary: k) (auto split: nat.splits)

text \<open>Error: with round robin the check against \<open>max_num_sta\<close> counts only the ids in use that the search meets
  before a free one. When the id the search starts from is free, it is given out however many
  ids are in use: the number of associated stations can pass \<open>max_num_sta\<close>.\<close>

theorem rtw_aid_alloc_round_robin:
  assumes "rr_aid st" "0 < max_num_sta st" "length (sta_aid st) = unat (max_aid st)"
    and "0 < started_aid st" "unat (started_aid st) \<le> unat (max_aid st)" "sta_aid st ! (unat (started_aid st) - 1) = None"
  shows "\<exists>st'. rtw_aid_alloc st sta = (unat (started_aid st), st') \<and> used_aids st' = Suc (used_aids st)"
proof -
  define a where "a = unat (started_aid st)"
  have a: "0 < a" "a \<le> unat (max_aid st)" using assms(4,5) by (simp_all add: a_def word_less_nat_alt)
  have "(0 + a - 1) mod unat (max_aid st) + 1 = a" using a by simp
  then have "aid_search st 0 0 0 = (0, a, 0)"
    using a assms(6) unfolding aid_search.simps [of st 0] Let_def a_def by simp
  moreover have "0 < unat (max_num_sta st)" using assms(2) by (simp add: word_less_nat_alt)
  ultimately show ?thesis
    using a assms(3,6) count_update_None [of "a - 1" "sta_aid st" sta]
    by (simp add: rtw_aid_alloc_def Let_def used_aids_def a_def)
qed

theorem rtw_aid_alloc_round_robin_witness:
  "\<exists>st'. rtw_aid_alloc ((rtw_init_sta_priv 8)\<lparr>rr_aid := True, max_num_sta := 2, started_aid := 3,
       sta_aid := [Some 1, Some 2, None, None, None, None, None, None]\<rparr>) 7 = (3, st') \<and> used_aids st' = 3"
proof -
  let ?st = "(rtw_init_sta_priv 8)\<lparr>rr_aid := True, max_num_sta := 2, started_aid := 3,
       sta_aid := [Some 1, Some 2, None, None, None, None, None, None]\<rparr>"
  have h: "rr_aid ?st" "0 < max_num_sta ?st" "length (sta_aid ?st) = unat (max_aid ?st)" "0 < started_aid ?st"
    "unat (started_aid ?st) \<le> unat (max_aid ?st)" "sta_aid ?st ! (unat (started_aid ?st) - 1) = None" "used_aids ?st = 2" "unat (started_aid ?st) = 3"
    by code_simp+
  show ?thesis using rtw_aid_alloc_round_robin [OF h(1-6), of 7] unfolding h(7,8) by simp
qed

end
