(* ===== verification/Sta_Acl.thy ===== *)
theory Sta_Acl
  imports C_Base
begin

text \<open>
  The access control lists of the AP mode (\<^verbatim>\<open>core/rtw_ap.c\<close>, \<^verbatim>\<open>core/rtw_sta_mgt.c\<close>): for each of two
  periods (device, BSS) a mode and a pool of \<open>NUM_ACL\<close> nodes, of which the valid ones are linked in
  a queue. A node pointer is its index in the pool. The pools refine sets of addresses.
\<close>

definition NUM_ACL :: nat where "NUM_ACL = 16"

record rtw_wlan_acl_node =
  acl_addr :: buf
  acl_valid :: bool

record wlan_acl_pool =
  acl_mode :: int
  acl_num :: int
  aclnode :: "rtw_wlan_acl_node list"
  acl_node_q :: "nat list"

definition RTW_ACL_PERIOD_NUM :: nat where "RTW_ACL_PERIOD_NUM = 2"
definition RTW_ACL_MODE_DISABLED :: int where "RTW_ACL_MODE_DISABLED = 0"
definition RTW_ACL_MODE_ACCEPT_UNLESS_LISTED :: int where "RTW_ACL_MODE_ACCEPT_UNLESS_LISTED = 1"
definition RTW_ACL_MODE_DENY_UNLESS_LISTED :: int where "RTW_ACL_MODE_DENY_UNLESS_LISTED = 2"

definition is_broadcast_mac_addr :: "buf \<Rightarrow> bool" where
  "is_broadcast_mac_addr a \<longleftrightarrow> a ! 0 AND 0xff = 0xff \<and> a ! 1 AND 0xff = 0xff \<and> a ! 2 AND 0xff = 0xff
     \<and> a ! 3 AND 0xff = 0xff \<and> a ! 4 AND 0xff = 0xff \<and> a ! 5 AND 0xff = 0xff"

definition rtw_macaddr_acl_init :: "wlan_acl_pool list \<Rightarrow> nat \<Rightarrow> wlan_acl_pool list" where
  "rtw_macaddr_acl_init acls period =
     (if period \<ge> RTW_ACL_PERIOD_NUM then acls
      else let acl = acls ! period in
        acls[period := acl\<lparr>acl_node_q := [], acl_num := 0, acl_mode := RTW_ACL_MODE_DISABLED,
                           aclnode := map (\<lambda>n. n\<lparr>acl_valid := False\<rparr>) (aclnode acl)\<rparr>])"

text \<open>
  The loop over the queue that unlinks the valid nodes whose address has a given property, as
  both the clearing and the removal do.
\<close>

fun acl_unlink :: "(buf \<Rightarrow> bool) \<Rightarrow> nat list \<Rightarrow> wlan_acl_pool \<Rightarrow> wlan_acl_pool" where
  "acl_unlink P [] acl = acl"
| "acl_unlink P (i # is) acl =
     acl_unlink P is
       (if P (acl_addr (aclnode acl ! i)) \<and> acl_valid (aclnode acl ! i)
        then acl\<lparr>aclnode := (aclnode acl)[i := (aclnode acl ! i)\<lparr>acl_valid := False\<rparr>],
                 acl_node_q := filter (\<lambda>j. j \<noteq> i) (acl_node_q acl), acl_num := acl_num acl - 1\<rparr>
        else acl)"

definition rtw_macaddr_acl_deinit :: "wlan_acl_pool list \<Rightarrow> nat \<Rightarrow> wlan_acl_pool list" where
  "rtw_macaddr_acl_deinit acls period =
     (if period \<ge> RTW_ACL_PERIOD_NUM then acls
      else let acl = acl_unlink (\<lambda>_. True) (acl_node_q (acls ! period)) (acls ! period) in
        acls[period := acl\<lparr>acl_mode := RTW_ACL_MODE_DISABLED\<rparr>])"

definition rtw_set_macaddr_acl :: "wlan_acl_pool list \<Rightarrow> nat \<Rightarrow> int \<Rightarrow> wlan_acl_pool list" where
  "rtw_set_macaddr_acl acls period mode =
     (if period \<ge> RTW_ACL_PERIOD_NUM then acls else acls[period := (acls ! period)\<lparr>acl_mode := mode\<rparr>])"

text \<open>The search of the queue for a valid node with an address.\<close>

definition acl_listed :: "wlan_acl_pool \<Rightarrow> buf \<Rightarrow> bool" where
  "acl_listed acl addr = list_ex (\<lambda>i. acl_addr (aclnode acl ! i) = addr \<and> acl_valid (aclnode acl ! i)) (acl_node_q acl)"

text \<open>The first node that is not in use, of those still to come.\<close>

fun acl_empty_node :: "rtw_wlan_acl_node list \<Rightarrow> nat list \<Rightarrow> nat option" where
  "acl_empty_node nodes [] = None"
| "acl_empty_node nodes (i # is) = (if \<not> acl_valid (nodes ! i) then Some i else acl_empty_node nodes is)"

definition rtw_acl_add_sta :: "wlan_acl_pool list \<Rightarrow> nat \<Rightarrow> buf \<Rightarrow> int \<times> wlan_acl_pool list" where
  "rtw_acl_add_sta acls period addr =
     (if period \<ge> RTW_ACL_PERIOD_NUM then (-1, acls)
      else let acl = acls ! period in
        if acl_listed acl addr then (0, acls)
        else if acl_num acl \<ge> int NUM_ACL then (-1, acls)
        else (case acl_empty_node (aclnode acl) [0..<NUM_ACL] of
                None \<Rightarrow> (-1, acls)
              | Some i \<Rightarrow>
                  (0, acls[period := acl\<lparr>aclnode := (aclnode acl)[i := \<lparr>acl_addr = addr, acl_valid = True\<rparr>],
                                         acl_node_q := acl_node_q acl @ [i], acl_num := acl_num acl + 1\<rparr>])))"

definition rtw_acl_remove_sta :: "wlan_acl_pool list \<Rightarrow> nat \<Rightarrow> buf \<Rightarrow> int \<times> wlan_acl_pool list" where
  "rtw_acl_remove_sta acls period addr =
     (if period \<ge> RTW_ACL_PERIOD_NUM then (0, acls)
      else (0, acls[period := acl_unlink (\<lambda>a. is_broadcast_mac_addr addr \<or> a = addr)
                                (acl_node_q (acls ! period)) (acls ! period)]))"

definition rtw_access_ctrl1 :: "wlan_acl_pool list \<Rightarrow> nat \<Rightarrow> buf \<Rightarrow> bool" where
  "rtw_access_ctrl1 acls period mac =
     (if period \<ge> RTW_ACL_PERIOD_NUM then True
      else let acl = acls ! period in
        if acl_mode acl \<noteq> RTW_ACL_MODE_ACCEPT_UNLESS_LISTED \<and> acl_mode acl \<noteq> RTW_ACL_MODE_DENY_UNLESS_LISTED then True
        else if acl_mode acl = RTW_ACL_MODE_ACCEPT_UNLESS_LISTED then \<not> acl_listed acl mac
        else acl_listed acl mac)"

definition rtw_access_ctrl :: "wlan_acl_pool list \<Rightarrow> buf \<Rightarrow> bool" where
  "rtw_access_ctrl acls mac = list_all (\<lambda>i. rtw_access_ctrl1 acls i mac) [0..<RTW_ACL_PERIOD_NUM]"

subsection \<open>The pools are sets of addresses\<close>

definition acl_inv :: "wlan_acl_pool \<Rightarrow> bool" where
  "acl_inv acl \<longleftrightarrow> length (aclnode acl) = NUM_ACL \<and> distinct (acl_node_q acl) \<and> acl_num acl = int (length (acl_node_q acl))
     \<and> (\<forall>i. i \<in> set (acl_node_q acl) \<longleftrightarrow> i < NUM_ACL \<and> acl_valid (aclnode acl ! i))
     \<and> inj_on (\<lambda>i. acl_addr (aclnode acl ! i)) (set (acl_node_q acl))"

definition acl_set :: "wlan_acl_pool \<Rightarrow> buf set" where
  "acl_set acl = (\<lambda>i. acl_addr (aclnode acl ! i)) ` set (acl_node_q acl)"

lemma acl_listed_iff: "acl_inv acl \<Longrightarrow> acl_listed acl a \<longleftrightarrow> a \<in> acl_set acl"
  by (auto simp: acl_listed_def acl_set_def acl_inv_def list_ex_iff)

lemma acl_card: "acl_inv acl \<Longrightarrow> int (card (acl_set acl)) = acl_num acl"
  by (simp add: acl_inv_def acl_set_def card_image distinct_card)

lemma acl_empty_node_Some: "acl_empty_node nodes is = Some i \<Longrightarrow> i \<in> set is \<and> \<not> acl_valid (nodes ! i)"
  by (induction "is") (auto split: if_splits)

lemma acl_empty_node_None: "acl_empty_node nodes is = None \<Longrightarrow> j \<in> set is \<Longrightarrow> acl_valid (nodes ! j)"
  by (induction "is") (auto split: if_splits)

lemma acl_room:
  assumes "acl_inv acl" "acl_num acl < int NUM_ACL"
  obtains i where "acl_empty_node (aclnode acl) [0..<NUM_ACL] = Some i" "i < NUM_ACL" "i \<notin> set (acl_node_q acl)"
proof (cases "acl_empty_node (aclnode acl) [0..<NUM_ACL]")
  case None
  then have "set (acl_node_q acl) = {..<NUM_ACL}"
    using acl_empty_node_None [OF None] assms(1) by (auto simp: acl_inv_def)
  then have "length (acl_node_q acl) = NUM_ACL"
    using assms(1) distinct_card [of "acl_node_q acl"] by (simp add: acl_inv_def)
  with assms show ?thesis by (simp add: acl_inv_def)
next
  case (Some i)
  then show ?thesis using acl_empty_node_Some [OF Some] assms(1) that by (auto simp: acl_inv_def)
qed

lemma acl_add_node:
  assumes "acl_inv acl" "i < NUM_ACL" "i \<notin> set (acl_node_q acl)" "a \<notin> acl_set acl"
  defines "acl' \<equiv> acl\<lparr>aclnode := (aclnode acl)[i := \<lparr>acl_addr = a, acl_valid = True\<rparr>],
     acl_node_q := acl_node_q acl @ [i], acl_num := acl_num acl + 1\<rparr>"
  shows "acl_inv acl'" "acl_set acl' = insert a (acl_set acl)"
proof -
  have v: "acl_valid (aclnode acl' ! j) = (j = i \<or> acl_valid (aclnode acl ! j))"
    "acl_addr (aclnode acl' ! j) = (if j = i then a else acl_addr (aclnode acl ! j))" for j
    using assms(1,2) by (auto simp: acl'_def acl_inv_def nth_list_update)
  show "acl_set acl' = insert a (acl_set acl)"
    using assms(3) unfolding acl_set_def v(2) by (auto simp: acl'_def)
  have "a \<noteq> acl_addr (aclnode acl ! j)" if "j \<in> set (acl_node_q acl)" for j
    using assms(4) that by (auto simp: acl_set_def)
  then have "inj_on (\<lambda>j. acl_addr (aclnode acl' ! j)) (insert i (set (acl_node_q acl)))"
    using assms(1,3) unfolding v(2) acl_inv_def inj_on_def by auto
  then show "acl_inv acl'"
    using assms(1-3) unfolding acl_inv_def v by (auto simp: acl'_def)
qed

lemma acl_unlink_node:
  assumes "acl_inv acl" "i \<in> set (acl_node_q acl)"
  defines "acl' \<equiv> acl\<lparr>aclnode := (aclnode acl)[i := (aclnode acl ! i)\<lparr>acl_valid := False\<rparr>],
     acl_node_q := filter (\<lambda>j. j \<noteq> i) (acl_node_q acl), acl_num := acl_num acl - 1\<rparr>"
  shows "acl_inv acl'" "acl_set acl' = acl_set acl - {acl_addr (aclnode acl ! i)}"
    "acl_addr (aclnode acl' ! j) = acl_addr (aclnode acl ! j)"
proof -
  have v: "acl_valid (aclnode acl' ! j) = (j \<noteq> i \<and> acl_valid (aclnode acl ! j))"
    "acl_addr (aclnode acl' ! j) = acl_addr (aclnode acl ! j)" for j
    using assms(1,2) by (auto simp: acl'_def acl_inv_def nth_list_update)
  show "acl_addr (aclnode acl' ! j) = acl_addr (aclnode acl ! j)" by (rule v(2))
  have inj: "inj_on (\<lambda>j. acl_addr (aclnode acl ! j)) (set (acl_node_q acl))"
    and d: "distinct (acl_node_q acl)" using assms(1) by (simp_all add: acl_inv_def)
  show "acl_set acl' = acl_set acl - {acl_addr (aclnode acl ! i)}"
    using inj assms(2) unfolding acl_set_def v(2) by (auto simp: acl'_def inj_on_def)
  have "length (filter (\<lambda>j. j \<noteq> i) (acl_node_q acl)) = length (acl_node_q acl) - 1"
    using d assms(2) distinct_card [OF d] distinct_card [OF distinct_filter [OF d, of "\<lambda>j. j \<noteq> i"]]
    by (simp add: set_diff_eq [symmetric] Collect_conj_eq Collect_neg_eq card_Diff_singleton flip: Diff_eq)
  moreover have "int (length (acl_node_q acl) - Suc 0) = int (length (acl_node_q acl)) - 1"
    using assms(2) by (cases "acl_node_q acl") auto
  ultimately show "acl_inv acl'"
    using assms(1,2) inj unfolding acl_inv_def v by (auto simp: acl'_def inj_on_def)
qed

lemma acl_unlink_inv:
  assumes "acl_inv acl" "distinct is" "set is \<subseteq> set (acl_node_q acl)"
  shows "acl_inv (acl_unlink P is acl) \<and>
    acl_set (acl_unlink P is acl) = acl_set acl - {a \<in> (\<lambda>i. acl_addr (aclnode acl ! i)) ` set is. P a}"
  using assms
proof (induction P "is" acl rule: acl_unlink.induct)
  case (2 P i "is" acl)
  show ?case
  proof (cases "P (acl_addr (aclnode acl ! i))")
    case True
    with 2 have c: "P (acl_addr (aclnode acl ! i)) \<and> acl_valid (aclnode acl ! i)" by (auto simp: acl_inv_def)
    note n = acl_unlink_node [OF 2(2), of i]
    have "set is \<subseteq> set (filter (\<lambda>j. j \<noteq> i) (acl_node_q acl))" using 2(3,4) by auto
    with 2 n c show ?thesis by (auto simp del: acl_unlink.simps simp add: acl_unlink.simps(2))
  next
    case False
    with 2 show ?thesis by auto
  qed
qed simp

corollary acl_unlink_set:
  assumes "acl_inv acl"
  shows "acl_inv (acl_unlink P (acl_node_q acl) acl)"
    "acl_set (acl_unlink P (acl_node_q acl) acl) = {a \<in> acl_set acl. \<not> P a}"
  using acl_unlink_inv [OF assms, of "acl_node_q acl" P] assms by (auto simp: acl_set_def acl_inv_def)

subsection \<open>Refinement\<close>

text \<open>
  The requests the driver serves on the lists, their dispatch to the operations, and the
  abstract lists: per period a mode and a set of at most \<open>NUM_ACL\<close> addresses.
\<close>

datatype acl_cmd = AclAdd nat buf | AclRemove nat buf | AclSetMode nat int | AclClear nat

fun acl_exec :: "acl_cmd \<Rightarrow> wlan_acl_pool list \<Rightarrow> int \<times> wlan_acl_pool list" where
  "acl_exec (AclAdd p a) acls = rtw_acl_add_sta acls p a"
| "acl_exec (AclRemove p a) acls = rtw_acl_remove_sta acls p a"
| "acl_exec (AclSetMode p m) acls = (0, rtw_set_macaddr_acl acls p m)"
| "acl_exec (AclClear p) acls = (0, rtw_macaddr_acl_deinit acls p)"

type_synonym acl_abs = "nat \<Rightarrow> int \<times> buf set"

fun acl_spec :: "acl_cmd \<Rightarrow> acl_abs \<Rightarrow> int \<times> acl_abs" where
  "acl_spec (AclAdd p a) s =
     (if p \<ge> RTW_ACL_PERIOD_NUM then (-1, s)
      else if a \<in> snd (s p) then (0, s)
      else if card (snd (s p)) \<ge> NUM_ACL then (-1, s)
      else (0, s(p := (fst (s p), insert a (snd (s p))))))"
| "acl_spec (AclRemove p a) s =
     (0, if p \<ge> RTW_ACL_PERIOD_NUM then s
         else s(p := (fst (s p), if is_broadcast_mac_addr a then {} else snd (s p) - {a})))"
| "acl_spec (AclSetMode p m) s = (0, if p \<ge> RTW_ACL_PERIOD_NUM then s else s(p := (m, snd (s p))))"
| "acl_spec (AclClear p) s = (0, if p \<ge> RTW_ACL_PERIOD_NUM then s else s(p := (RTW_ACL_MODE_DISABLED, {})))"

definition acl_allows :: "acl_abs \<Rightarrow> buf \<Rightarrow> bool" where
  "acl_allows s a \<longleftrightarrow> (\<forall>p < RTW_ACL_PERIOD_NUM.
     (fst (s p) = RTW_ACL_MODE_ACCEPT_UNLESS_LISTED \<longrightarrow> a \<notin> snd (s p)) \<and>
     (fst (s p) = RTW_ACL_MODE_DENY_UNLESS_LISTED \<longrightarrow> a \<in> snd (s p)))"

fun acl_run :: "(acl_cmd \<Rightarrow> 's \<Rightarrow> int \<times> 's) \<Rightarrow> acl_cmd list \<Rightarrow> 's \<Rightarrow> int list \<times> 's" where
  "acl_run f [] s = ([], s)"
| "acl_run f (c # cs) s = (let (r, s') = f c s; (rs, s'') = acl_run f cs s' in (r # rs, s''))"

definition acl_rel :: "wlan_acl_pool list \<Rightarrow> acl_abs \<Rightarrow> bool" where
  "acl_rel acls s \<longleftrightarrow> length acls = RTW_ACL_PERIOD_NUM \<and>
     (\<forall>p < RTW_ACL_PERIOD_NUM. acl_inv (acls ! p) \<and> s p = (acl_mode (acls ! p), acl_set (acls ! p)))"

lemma acl_mode_irrelevant [simp]:
  "acl_inv (acl\<lparr>acl_mode := m\<rparr>) = acl_inv acl" "acl_set (acl\<lparr>acl_mode := m\<rparr>) = acl_set acl"
  by (simp_all add: acl_inv_def acl_set_def)

lemma acl_unlink_mode [simp]: "acl_mode (acl_unlink P is acl) = acl_mode acl"
  by (induction P "is" acl rule: acl_unlink.induct) auto

lemma acl_rel_update:
  assumes "acl_rel acls s" "acl_inv acl"
  shows "acl_rel (acls[p := acl]) (s(p := (acl_mode acl, acl_set acl)))"
  using assms by (auto simp: acl_rel_def nth_list_update)

lemma acl_add_refines:
  assumes r: "acl_rel acls s"
  shows "fst (rtw_acl_add_sta acls p a) = fst (acl_spec (AclAdd p a) s) \<and>
    acl_rel (snd (rtw_acl_add_sta acls p a)) (snd (acl_spec (AclAdd p a) s))"
proof (cases "p < RTW_ACL_PERIOD_NUM")
  case True
  then have inv: "acl_inv (acls ! p)" and s: "s p = (acl_mode (acls ! p), acl_set (acls ! p))"
    using r by (auto simp: acl_rel_def)
  show ?thesis
  proof (cases "acl_listed (acls ! p) a \<or> acl_num (acls ! p) \<ge> int NUM_ACL")
    case False
    then have n: "a \<notin> acl_set (acls ! p)" "acl_num (acls ! p) < int NUM_ACL"
      by (simp_all add: acl_listed_iff [OF inv])
    obtain i where i: "acl_empty_node (aclnode (acls ! p)) [0..<NUM_ACL] = Some i"
      "i < NUM_ACL" "i \<notin> set (acl_node_q (acls ! p))" using acl_room [OF inv n(2)] .
    note add = acl_add_node [OF inv i(2,3) n(1)]
    show ?thesis
      using True n i False s acl_card [OF inv] add(2) acl_rel_update [OF r add(1), of p]
      by (simp add: rtw_acl_add_sta_def Let_def)
  qed (use True r s acl_card [OF inv] acl_listed_iff [OF inv, of a] in \<open>auto simp: rtw_acl_add_sta_def Let_def\<close>)
qed (use r in \<open>simp add: rtw_acl_add_sta_def\<close>)

lemma acl_exec_refines:
  assumes r: "acl_rel acls s"
  shows "fst (acl_exec c acls) = fst (acl_spec c s) \<and> acl_rel (snd (acl_exec c acls)) (snd (acl_spec c s))"
proof (cases c)
  case (AclAdd p a)
  then show ?thesis using acl_add_refines [OF r] by simp
next
  case (AclRemove p a)
  show ?thesis
  proof (cases "p < RTW_ACL_PERIOD_NUM")
    case True
    then have inv: "acl_inv (acls ! p)" and s: "s p = (acl_mode (acls ! p), acl_set (acls ! p))"
      using r by (auto simp: acl_rel_def)
    note u = acl_unlink_set [OF inv, of "\<lambda>b. is_broadcast_mac_addr a \<or> b = a"]
    have "acl_spec c s = (0, s(p := (acl_mode (acls ! p), {b \<in> acl_set (acls ! p). \<not> (is_broadcast_mac_addr a \<or> b = a)})))"
      using AclRemove True s by auto
    moreover have "acl_exec c acls = (0, acls[p := acl_unlink (\<lambda>b. is_broadcast_mac_addr a \<or> b = a) (acl_node_q (acls ! p)) (acls ! p)])"
      using AclRemove True by (simp add: rtw_acl_remove_sta_def)
    ultimately show ?thesis using acl_rel_update [OF r u(1), of p] unfolding u(2) acl_unlink_mode by simp
  qed (use AclRemove r in \<open>simp add: rtw_acl_remove_sta_def\<close>)
next
  case (AclSetMode p m)
  have "acl_inv ((acls ! p)\<lparr>acl_mode := m\<rparr>)" if "p < RTW_ACL_PERIOD_NUM"
    using r that by (simp add: acl_rel_def)
  then show ?thesis
    using AclSetMode r acl_rel_update [OF r, of "(acls ! p)\<lparr>acl_mode := m\<rparr>" p]
    by (auto simp: rtw_set_macaddr_acl_def acl_rel_def)
next
  case (AclClear p)
  show ?thesis
  proof (cases "p < RTW_ACL_PERIOD_NUM")
    case True
    then have inv: "acl_inv (acls ! p)" using r by (auto simp: acl_rel_def)
    note u = acl_unlink_set [OF inv, of "\<lambda>_. True"]
    define acl where "acl = (acl_unlink (\<lambda>_. True) (acl_node_q (acls ! p)) (acls ! p))\<lparr>acl_mode := RTW_ACL_MODE_DISABLED\<rparr>"
    have "acl_inv acl" "acl_set acl = {}" "acl_mode acl = RTW_ACL_MODE_DISABLED" using u by (simp_all add: acl_def)
    with AclClear True acl_rel_update [OF r, of acl p] show ?thesis
      by (simp add: rtw_macaddr_acl_deinit_def Let_def acl_def [symmetric])
  qed (use AclClear r in \<open>simp add: rtw_macaddr_acl_deinit_def\<close>)
qed

lemma acl_run_refines:
  "acl_rel acls s \<Longrightarrow> fst (acl_run acl_exec cs acls) = fst (acl_run acl_spec cs s) \<and>
     acl_rel (snd (acl_run acl_exec cs acls)) (snd (acl_run acl_spec cs s))"
proof (induction cs arbitrary: acls s)
  case (Cons c cs)
  show ?case
    using acl_exec_refines [OF Cons.prems, of c] Cons.IH [of "snd (acl_exec c acls)" "snd (acl_spec c s)"]
    by (simp add: split_beta)
qed simp

lemma rtw_access_ctrl_refines: "acl_rel acls s \<Longrightarrow> rtw_access_ctrl acls a = acl_allows s a"
  unfolding rtw_access_ctrl_def acl_allows_def list_all_iff
  by (auto simp: rtw_access_ctrl1_def acl_rel_def acl_listed_iff Let_def
     RTW_ACL_MODE_ACCEPT_UNLESS_LISTED_def RTW_ACL_MODE_DENY_UNLESS_LISTED_def)

lemma acl_init_rel:
  assumes "length acls = RTW_ACL_PERIOD_NUM" "\<forall>acl \<in> set acls. length (aclnode acl) = NUM_ACL"
  shows "acl_rel (rtw_macaddr_acl_init (rtw_macaddr_acl_init acls 0) 1) (\<lambda>_. (RTW_ACL_MODE_DISABLED, {}))"
proof -
  have "p = 0 \<or> p = 1" if "p < RTW_ACL_PERIOD_NUM" for p using that by (auto simp: RTW_ACL_PERIOD_NUM_def)
  moreover have "length (aclnode (acls ! 0)) = NUM_ACL" "length (aclnode (acls ! 1)) = NUM_ACL"
    using assms by (auto simp: RTW_ACL_PERIOD_NUM_def)
  ultimately show ?thesis using assms(1)
    by (force simp: acl_rel_def rtw_macaddr_acl_init_def Let_def acl_inv_def acl_set_def nth_list_update RTW_ACL_PERIOD_NUM_def)
qed

text \<open>C16. From their initialisation on, and for any sequence of additions, removals, mode changes and clears,
  the two access control lists behave as two sets of at most sixteen addresses: every request returns what
  the sets return (an addition \<open>-1\<close> exactly when the period does not exist or the address is new and the set is
  full, so that no slot is ever lost), removing the broadcast address empties a list, and a station is then
  admitted exactly when no list in the accept mode names it and every list in the deny mode does.\<close>

theorem acl_refines_sets:
  assumes "length acls = RTW_ACL_PERIOD_NUM" "\<forall>acl \<in> set acls. length (aclnode acl) = NUM_ACL"
  defines "init \<equiv> rtw_macaddr_acl_init (rtw_macaddr_acl_init acls 0) 1"
    and "init_abs \<equiv> (\<lambda>_. (RTW_ACL_MODE_DISABLED, {}))"
  shows "fst (acl_run acl_exec cs init) = fst (acl_run acl_spec cs init_abs) \<and>
    rtw_access_ctrl (snd (acl_run acl_exec cs init)) mac = acl_allows (snd (acl_run acl_spec cs init_abs)) mac"
  unfolding init_def init_abs_def
  using acl_run_refines [OF acl_init_rel [OF assms(1,2)], of cs] rtw_access_ctrl_refines by blast

theorem acl_refines_sets_witness:
  defines "acls \<equiv> replicate 2 \<lparr>acl_mode = 0, acl_num = 0,
      aclnode = replicate 16 \<lparr>acl_addr = replicate 6 0, acl_valid = False\<rparr>, acl_node_q = []\<rparr>"
    and "cs \<equiv> [AclSetMode 1 2, AclAdd 1 [0, 1, 2, 3, 4, 5], AclAdd 2 [0, 1, 2, 3, 4, 5]]"
  shows "fst (acl_run acl_exec cs (rtw_macaddr_acl_init (rtw_macaddr_acl_init acls 0) 1)) = [0, 0, -1] \<and>
    rtw_access_ctrl (snd (acl_run acl_exec cs (rtw_macaddr_acl_init (rtw_macaddr_acl_init acls 0) 1))) [0, 1, 2, 3, 4, 5] \<and>
    \<not> rtw_access_ctrl (snd (acl_run acl_exec cs (rtw_macaddr_acl_init (rtw_macaddr_acl_init acls 0) 1))) [0, 1, 2, 3, 4, 6]"
proof -
  have a: "length acls = RTW_ACL_PERIOD_NUM" "\<forall>acl \<in> set acls. length (aclnode acl) = NUM_ACL"
    by (simp_all add: acls_def RTW_ACL_PERIOD_NUM_def NUM_ACL_def)
  have s: "acl_run acl_spec cs (\<lambda>_. (RTW_ACL_MODE_DISABLED, {})) =
      ([0, 0, -1], (\<lambda>_. (RTW_ACL_MODE_DISABLED, {}))(1 := (2, {[0, 1, 2, 3, 4, 5]})))"
    by (auto simp: cs_def RTW_ACL_PERIOD_NUM_def NUM_ACL_def)
  show ?thesis
    unfolding acl_refines_sets [OF a, of cs, THEN conjunct1] acl_refines_sets [OF a, of cs, THEN conjunct2] s
    by (auto simp: acl_allows_def RTW_ACL_PERIOD_NUM_def RTW_ACL_MODE_DISABLED_def
       RTW_ACL_MODE_ACCEPT_UNLESS_LISTED_def RTW_ACL_MODE_DENY_UNLESS_LISTED_def)
qed

end
