(* ===== verification/Recv_Defrag.thy ===== *)
theory Recv_Defrag
  imports Recv_Frame
begin

text \<open>
  Reassembly of fragments (\<^verbatim>\<open>core/rtw_recv.c\<close>: \<open>recvframe_defrag\<close>): the queue of the fragments of
  a frame is joined into its first fragment, with the checks on fragment numbers, packet numbers
  and key generation that the comments there name (CVE-2020-26146, CVE-2020-24587).
\<close>

subsection \<open>Packet numbers\<close>

definition SEC_AES :: u8 where "SEC_AES = 0x04"
definition SEC_GCMP :: u8 where "SEC_GCMP = 0x07"
definition SEC_CCMP_256 :: u8 where "SEC_CCMP_256 = 0x14"
definition SEC_GCMP_256 :: u8 where "SEC_GCMP_256 = 0x17"

text \<open>\<open>le64_to_cpu\<close> of eight bytes.\<close>

definition le64 :: "buf \<Rightarrow> u64" where
  "le64 b = foldr (\<lambda>x w. push_bit 8 w OR ucast x) b 0"

definition CCMPH_2_PN :: "u64 \<Rightarrow> u64" where
  "CCMPH_2_PN ch = (ch AND 0x000000000000ffff) OR drop_bit 16 (ch AND 0xffffffff00000000)"

definition pn_checked :: "u8 \<Rightarrow> bool" where
  "pn_checked e \<longleftrightarrow> e = SEC_AES \<or> e = SEC_CCMP_256 \<or> e = SEC_GCMP \<or> e = SEC_GCMP_256"

text \<open>The packet number in the eight bytes behind the header.\<close>

definition frame_pn :: "rx_frame \<Rightarrow> u64 option" where
  "frame_pn f = do { b \<leftarrow> rds (mem f) (rx_data f + unat (hdrlen f)) 8; Some (CCMPH_2_PN (le64 b)) }"

subsection \<open>Reassembly\<close>

text \<open>
  The loop over the fragments after the first. The result is whether the loop ran to its end, the
  first fragment with what was appended to it, and the queue as the loop leaves it.
\<close>

fun defrag_loop :: "rx_frame \<Rightarrow> u64 \<Rightarrow> u8 \<Rightarrow> rx_frame list \<Rightarrow> rx_frame list \<Rightarrow> (bool \<times> rx_frame \<times> rx_frame list) option" where
  "defrag_loop pf cur_pn curfragnum pre [] = Some (True, pf, pre)"
| "defrag_loop pf cur_pn curfragnum pre (f # fs) =
     do { pkt_pn \<leftarrow> (if pn_checked (encrypt f) then frame_pn f else Some (cur_pn + 1));
          if pkt_pn \<noteq> cur_pn + 1 then Some (False, pf, pre @ f # fs)
          else if keytrack pf \<noteq> keytrack f then Some (False, pf, pre @ f # fs)
          else if curfragnum \<noteq> frag_num f then Some (False, pf, pre @ f # fs)
          else do {
            let f = snd (recvframe_pull f (unat (hdrlen f + iv_len f)));
            if length (mem pf) - rx_tail pf < unat (rlen f) then Some (False, pf, pre @ f # fs)
            else do {
              let pf = snd (recvframe_pull_tail pf (unat (icv_len pf)));
              d \<leftarrow> rds (mem f) (rx_data f) (unat (rlen f));
              m \<leftarrow> wrs (mem pf) (rx_tail pf) d;
              let pf = snd (recvframe_put (pf\<lparr>mem := m\<rparr>) (unat (rlen f)));
              defrag_loop (pf\<lparr>icv_len := icv_len f\<rparr>) (if pn_checked (encrypt f) then pkt_pn else cur_pn)
                (curfragnum + 1) (pre @ [f]) fs } } }"

definition recvframe_defrag :: "rx_frame list \<Rightarrow> 'a recv_pool_scheme \<Rightarrow> (rx_frame option \<times> 'a recv_pool_scheme) option" where
  "recvframe_defrag defrag_q p =
     (case defrag_q of
        [] \<Rightarrow> None
      | prframe # q \<Rightarrow>
          do { cur_pn \<leftarrow> (if pn_checked (encrypt prframe) then frame_pn prframe else Some 0);
               if frag_num prframe \<noteq> 0
               then Some (None, rtw_free_recvframe_queue q (rtw_free_recvframe prframe p))
               else do {
                 (ok, prframe, q) \<leftarrow> defrag_loop prframe cur_pn 1 [] q;
                 if ok then Some (Some prframe, rtw_free_recvframe_queue q p)
                 else Some (None, rtw_free_recvframe_queue q (rtw_free_recvframe prframe p)) } })"

subsection \<open>What reassembly computes\<close>

text \<open>The body of a fragment, and the body without its integrity check value.\<close>

definition frag_body :: "rx_frame \<Rightarrow> buf" where
  "frag_body f = drop (unat (hdrlen f) + unat (iv_len f)) (rdata f)"

definition frag_text :: "rx_frame \<Rightarrow> buf" where
  "frag_text f = take (length (frag_body f) - unat (icv_len f)) (frag_body f)"

definition frag_head :: "rx_frame \<Rightarrow> buf" where
  "frag_head f = take (unat (hdrlen f) + unat (iv_len f)) (rdata f)"

text \<open>A fragment as the receive path hands it on: the header, the IV and the check value are inside the frame.\<close>

definition frag_ok :: "rx_frame \<Rightarrow> bool" where
  "frag_ok f \<longleftrightarrow> frame_ok f \<and> unat (hdrlen f) + unat (iv_len f) + unat (icv_len f) \<le> length (rdata f)
     \<and> unat (hdrlen f) + unat (iv_len f) < 256 \<and> (pn_checked (encrypt f) \<longrightarrow> iv_len f = 8)"

fun join :: "buf \<Rightarrow> nat \<Rightarrow> rx_frame list \<Rightarrow> buf" where
  "join a n [] = a"
| "join a n (f # fs) = join (take (length a - n) a @ frag_body f) (unat (icv_len f)) fs"

lemma join_closed:
  "n \<le> length b \<Longrightarrow> \<forall>f \<in> set fs. unat (icv_len f) \<le> length (frag_body f) \<Longrightarrow>
   join (h @ b) n fs = h @ (if fs = [] then b
     else take (length b - n) b @ concat (map frag_text (butlast fs)) @ frag_body (last fs))"
proof (induction fs arbitrary: h b n)
  case (Cons f fs)
  have "join (h @ b) n (f # fs) = join ((h @ take (length b - n) b) @ frag_body f) (unat (icv_len f)) fs"
    using Cons.prems(1) by simp
  also have "\<dots> = (h @ take (length b - n) b) @ (if fs = [] then frag_body f
      else frag_text f @ concat (map frag_text (butlast fs)) @ frag_body (last fs))"
    using Cons.IH [of "unat (icv_len f)" "frag_body f" "h @ take (length b - n) b"] Cons.prems(2) by (simp add: frag_text_def)
  finally show ?case by simp
qed simp

lemma frag_split: "rdata f = frag_head f @ frag_body f"
  by (simp add: frag_head_def frag_body_def)

lemma frag_ok_icv: "frag_ok f \<Longrightarrow> unat (icv_len f) \<le> length (frag_body f)"
  by (auto simp: frag_ok_def frag_body_def)

text \<open>The checks on the fragments that follow a fragment with packet number \<open>pn\<close>.\<close>

fun frags_follow :: "bool \<Rightarrow> int \<Rightarrow> u64 \<Rightarrow> u8 \<Rightarrow> rx_frame list \<Rightarrow> bool" where
  "frags_follow P kt pn k [] = True"
| "frags_follow P kt pn k (f # fs) \<longleftrightarrow>
     (P \<longrightarrow> frame_pn f = Some (pn + 1)) \<and> keytrack f = kt \<and> frag_num f = k
     \<and> frags_follow P kt (if P then pn + 1 else pn) (k + 1) fs"

lemma frags_follow_nth:
  "frags_follow P kt pn k fs \<longleftrightarrow> (\<forall>i < length fs. keytrack (fs ! i) = kt \<and> frag_num (fs ! i) = k + of_nat i
     \<and> (P \<longrightarrow> frame_pn (fs ! i) = Some (pn + 1 + of_nat i)))"
  by (induction P kt pn k fs rule: frags_follow.induct)
     (auto simp: All_less_Suc2 ac_simps)

lemma frame_pn_Some: "frag_ok f \<Longrightarrow> pn_checked (encrypt f) \<Longrightarrow> \<exists>pn. frame_pn f = Some pn"
  unfolding frame_pn_def rds_def
  by (auto simp: frag_ok_def frame_ok_length) (auto simp: frame_ok_def)

lemma frag_pull:
  assumes "frag_ok f"
  defines "f' \<equiv> snd (recvframe_pull f (unat (hdrlen f + iv_len f)))"
  shows "frame_ok f'" "rdata f' = frag_body f" "frame_id f' = frame_id f" "icv_len f' = icv_len f"
    "encrypt f' = encrypt f" "rds (mem f') (rx_data f') (unat (rlen f')) = Some (frag_body f)"
    "unat (rlen f') = length (frag_body f)"
proof -
  have u: "unat (hdrlen f + iv_len f) = unat (hdrlen f) + unat (iv_len f)"
    using assms(1) by (simp add: frag_ok_def unat_add_lem [symmetric])
  have le: "unat (hdrlen f) + unat (iv_len f) \<le> length (rdata f)" and fo: "frame_ok f"
    using assms(1) by (auto simp: frag_ok_def)
  show ok: "frame_ok f'" unfolding f'_def using recvframe_pull_ok(2) [OF fo] .
  show d: "rdata f' = frag_body f"
    unfolding f'_def u frag_body_def using recvframe_pull_ok(3) [OF fo] le by simp
  show "frame_id f' = frame_id f" "icv_len f' = icv_len f" "encrypt f' = encrypt f"
    by (simp_all add: f'_def recvframe_pull_def)
  show r: "unat (rlen f') = length (frag_body f)" using frame_ok_rlen [OF ok] d by simp
  show "rds (mem f') (rx_data f') (unat (rlen f')) = Some (frag_body f)"
    unfolding r d [symmetric] using ok frame_ok_length [OF ok] unfolding rds_def rdata_def frame_ok_def by auto
qed

text \<open>One fragment appended to the first.\<close>

lemma frag_append:
  assumes "frame_ok pf" "unat (icv_len pf) \<le> length (rdata pf)" "rx_tail pf + length d \<le> length (mem pf)"
  defines "pt \<equiv> snd (recvframe_pull_tail pf (unat (icv_len pf)))"
  shows "\<exists>m t l. wrs (mem pt) (rx_tail pt) d = Some m \<and>
    (snd (recvframe_put (pt\<lparr>mem := m\<rparr>) (length d)))\<lparr>icv_len := n\<rparr> = pf\<lparr>mem := m, rx_tail := t, rlen := l, icv_len := n\<rparr>
    \<and> frame_ok (pf\<lparr>mem := m, rx_tail := t, rlen := l, icv_len := n\<rparr>)
    \<and> rdata (pf\<lparr>mem := m, rx_tail := t, rlen := l, icv_len := n\<rparr>) = take (length (rdata pf) - unat (icv_len pf)) (rdata pf) @ d
    \<and> length m = length (mem pf) \<and> t \<le> rx_tail pf + length d"
proof -
  note t = recvframe_pull_tail_ok [OF assms(1,2), folded pt_def]
  define T L where "T = rx_tail pf - unat (icv_len pf)" and "L = rlen pf - of_nat (unat (icv_len pf))"
  have pt: "pt = pf\<lparr>rx_tail := T, rlen := L\<rparr>" using t(1) by (simp add: pt_def T_def L_def)
  have sp: "rx_tail pt + length d \<le> length (mem pt)" using assms(3) by (simp add: pt T_def)
  from recvframe_append_ok [OF t(2) this] obtain m where m: "wrs (mem pt) (rx_tail pt) d = Some m" "length m = length (mem pt)"
    "frame_ok (snd (recvframe_put (pt\<lparr>mem := m\<rparr>) (length d)))" "rdata (snd (recvframe_put (pt\<lparr>mem := m\<rparr>) (length d))) = rdata pt @ d"
    by blast
  have "snd (recvframe_put (pt\<lparr>mem := m\<rparr>) (length d)) = pf\<lparr>mem := m, rx_tail := T + length d, rlen := L + of_nat (length d)\<rparr>"
    using sp m(2) by (simp add: recvframe_put_def pt)
  note m' = m [unfolded this]
  show ?thesis
  proof (intro exI conjI)
    show "wrs (mem pt) (rx_tail pt) d = Some m" by (rule m)
    show "(snd (recvframe_put (pt\<lparr>mem := m\<rparr>) (length d)))\<lparr>icv_len := n\<rparr>
        = pf\<lparr>mem := m, rx_tail := T + length d, rlen := L + of_nat (length d), icv_len := n\<rparr>"
      using sp m(2) by (simp add: recvframe_put_def pt)
    show "frame_ok (pf\<lparr>mem := m, rx_tail := T + length d, rlen := L + of_nat (length d), icv_len := n\<rparr>)"
      using m'(3) by (simp add: frame_ok_def)
    show "rdata (pf\<lparr>mem := m, rx_tail := T + length d, rlen := L + of_nat (length d), icv_len := n\<rparr>)
        = take (length (rdata pf) - unat (icv_len pf)) (rdata pf) @ d"
      using m'(4) t(3) by (simp add: rdata_def)
    show "length m = length (mem pf)" using m(2) by (simp add: pt)
    show "T + length d \<le> rx_tail pf + length d" by (simp add: T_def)
  qed
qed

text \<open>A first fragment after appending: only its buffer, its tail, its length and its \<open>icv_len\<close> differ.\<close>

definition grown :: "rx_frame \<Rightarrow> rx_frame \<Rightarrow> u8 \<Rightarrow> bool" where
  "grown f g n \<longleftrightarrow> g = f\<lparr>mem := mem g, rx_tail := rx_tail g, rlen := rlen g, icv_len := n\<rparr>"

lemma grown_refl: "grown f f (icv_len f)"
  by (simp add: grown_def)

lemma grown_update: "grown f (f\<lparr>mem := m, rx_tail := t, rlen := l, icv_len := n\<rparr>) n"
  by (simp add: grown_def)

lemma grown_trans: "grown f g n \<Longrightarrow> grown g h k \<Longrightarrow> grown f h k"
proof -
  assume g: "grown f g n" and h: "grown g h k"
  have "g\<lparr>mem := mem h, rx_tail := rx_tail h, rlen := rlen h, icv_len := k\<rparr>
      = f\<lparr>mem := mem h, rx_tail := rx_tail h, rlen := rlen h, icv_len := k\<rparr>"
    by (subst g [unfolded grown_def]) simp
  then show "grown f h k" using h unfolding grown_def by (rule trans [rotated])
qed

lemma defrag_loop_reject:
  assumes "(if pn_checked (encrypt f) then frame_pn f else Some (pn + 1)) = Some pn'"
    and "\<not> (pn' = pn + 1 \<and> keytrack pf = keytrack f \<and> k = frag_num f)"
  shows "defrag_loop pf pn k pre (f # fs) = Some (False, pf, pre @ f # fs)"
  unfolding defrag_loop.simps assms(1) Option.bind.bind_lunit using assms(2) by (cases "pn' = pn + 1"; cases "keytrack pf = keytrack f") simp_all

lemma defrag_loop_accept:
  assumes "(if pn_checked (encrypt f) then frame_pn f else Some (pn + 1)) = Some (pn + 1)" "keytrack pf = keytrack f" "k = frag_num f"
    and "frag_ok f" "rx_tail pf + length (frag_body f) \<le> length (mem pf)"
    and "wrs (mem (snd (recvframe_pull_tail pf (unat (icv_len pf))))) (rx_tail (snd (recvframe_pull_tail pf (unat (icv_len pf))))) (frag_body f) = Some m"
    and "(snd (recvframe_put ((snd (recvframe_pull_tail pf (unat (icv_len pf))))\<lparr>mem := m\<rparr>) (length (frag_body f))))\<lparr>icv_len := icv_len f\<rparr> = pf'"
  shows "defrag_loop pf pn k pre (f # fs) = defrag_loop pf' (if pn_checked (encrypt f) then pn + 1 else pn) (k + 1)
    (pre @ [snd (recvframe_pull f (unat (hdrlen f + iv_len f)))]) fs"
proof -
  note pl = frag_pull [OF assms(4)]
  have "\<not> length (mem pf) - rx_tail pf < length (frag_body f)" using assms(5) by simp
  then show ?thesis
    unfolding defrag_loop.simps assms(1) Option.bind.bind_lunit Let_def pl(4,5) pl(6) [unfolded pl(7)] pl(7) assms(6,7) using assms(2,3) by simp
qed

lemma defrag_loop_spec:
  assumes "frame_ok pf" "unat (icv_len pf) \<le> length (rdata pf)" "\<forall>f \<in> set fs. frag_ok f \<and> pn_checked (encrypt f) = P"
    and "rx_tail pf + sum_list (map (length \<circ> frag_body) fs) \<le> length (mem pf)"
  shows "\<exists>ok pf' fs'. defrag_loop pf pn k pre fs = Some (ok, pf', pre @ fs') \<and> map frame_id fs' = map frame_id fs
    \<and> ok = frags_follow P (keytrack pf) pn k fs \<and> frame_id pf' = frame_id pf
    \<and> (ok \<longrightarrow> frame_ok pf' \<and> rdata pf' = join (rdata pf) (unat (icv_len pf)) fs \<and>
         grown pf pf' (icv_len (last (pf # fs))))"
  using assms
proof (induction fs arbitrary: pf pn k pre)
  case Nil
  show ?case
    using Nil(1) grown_refl [of pf] by (intro exI [of _ True] exI [of _ pf] exI [of _ "[]"]) simp
next
  case (Cons f fs)
  let ?f = "snd (recvframe_pull f (unat (hdrlen f + iv_len f)))"
  have fo: "frag_ok f" and P: "pn_checked (encrypt f) = P" using Cons.prems(3) by auto
  note pl = frag_pull [OF fo]
  obtain pn' where pn': "P \<Longrightarrow> frame_pn f = Some pn'" using frame_pn_Some [OF fo] P by (cases P) auto
  show ?case
  proof (cases "(P \<longrightarrow> pn' = pn + 1) \<and> keytrack pf = keytrack f \<and> k = frag_num f")
    case False
    then have "defrag_loop pf pn k pre (f # fs) = Some (False, pf, pre @ f # fs)"
      using defrag_loop_reject [of f pn "if P then pn' else pn + 1" pf k pre fs] P pn' by auto
    moreover have "\<not> frags_follow P (keytrack pf) pn k (f # fs)" using False pn' by auto
    ultimately show ?thesis by (intro exI [of _ False] exI [of _ pf] exI [of _ "f # fs"]) simp
  next
    case True
    have sp: "rx_tail pf + length (frag_body f) \<le> length (mem pf)" using Cons.prems(4) by simp
    obtain m t l where
      m: "wrs (mem (snd (recvframe_pull_tail pf (unat (icv_len pf))))) (rx_tail (snd (recvframe_pull_tail pf (unat (icv_len pf))))) (frag_body f) = Some m"
      "(snd (recvframe_put ((snd (recvframe_pull_tail pf (unat (icv_len pf))))\<lparr>mem := m\<rparr>) (length (frag_body f))))\<lparr>icv_len := icv_len f\<rparr>
        = pf\<lparr>mem := m, rx_tail := t, rlen := l, icv_len := icv_len f\<rparr>"
      and M: "frame_ok (pf\<lparr>mem := m, rx_tail := t, rlen := l, icv_len := icv_len f\<rparr>)"
        "rdata (pf\<lparr>mem := m, rx_tail := t, rlen := l, icv_len := icv_len f\<rparr>) = take (length (rdata pf) - unat (icv_len pf)) (rdata pf) @ frag_body f"
        "length m = length (mem pf)" "t \<le> rx_tail pf + length (frag_body f)"
      using frag_append [OF Cons.prems(1,2) sp, of "icv_len f"] by blast
    define pf' where "pf' = pf\<lparr>mem := m, rx_tail := t, rlen := l, icv_len := icv_len f\<rparr>"
    note p = M(1,2) [folded pf'_def]
    have pf': "keytrack pf' = keytrack pf" "frame_id pf' = frame_id pf" "icv_len pf' = icv_len f" "mem pf' = m" "rx_tail pf' = t"
      by (simp_all add: pf'_def)
    have st: "defrag_loop pf pn k pre (f # fs) =
        defrag_loop pf' (if P then pn + 1 else pn) (k + 1) (pre @ [?f]) fs"
      using defrag_loop_accept [OF _ _ _ fo sp m [folded pf'_def], of pn k pre fs] True P pn' by simp
    have "unat (icv_len pf') \<le> length (rdata pf')" using frag_ok_icv [OF fo] by (simp add: p(2) pf')
    moreover have "rx_tail pf' + sum_list (map (length \<circ> frag_body) fs) \<le> length (mem pf')"
      using Cons.prems(4) M(3,4) by (simp add: pf' comp_def)
    moreover have "\<forall>f \<in> set fs. frag_ok f \<and> pn_checked (encrypt f) = P" using Cons.prems(3) by simp
    ultimately have IHs: "\<exists>ok pf'' fs'. defrag_loop pf' (if P then pn + 1 else pn) (k + 1) (pre @ [?f]) fs = Some (ok, pf'', (pre @ [?f]) @ fs')
      \<and> map frame_id fs' = map frame_id fs \<and> ok = frags_follow P (keytrack pf') (if P then pn + 1 else pn) (k + 1) fs
      \<and> frame_id pf'' = frame_id pf' \<and> (ok \<longrightarrow> frame_ok pf'' \<and> rdata pf'' = join (rdata pf') (unat (icv_len pf')) fs \<and>
         grown pf' pf'' (icv_len (last (pf' # fs))))"
      by (intro Cons.IH [OF p(1)])
    obtain ok pf'' fs' where IH:
      "defrag_loop pf' (if P then pn + 1 else pn) (k + 1) (pre @ [?f]) fs = Some (ok, pf'', (pre @ [?f]) @ fs')"
      "map frame_id fs' = map frame_id fs" "ok = frags_follow P (keytrack pf') (if P then pn + 1 else pn) (k + 1) fs"
      "frame_id pf'' = frame_id pf'"
      "ok \<longrightarrow> frame_ok pf'' \<and> rdata pf'' = join (rdata pf') (unat (icv_len pf')) fs \<and>
         grown pf' pf'' (icv_len (last (pf' # fs)))"
      using IHs by (elim exE conjE) (rule that)
    have res: "frame_ok pf'' \<and> rdata pf'' = join (rdata pf) (unat (icv_len pf)) (f # fs) \<and>
         grown pf pf'' (icv_len (last (pf # f # fs)))" if ok
      using IH(5) that grown_trans [OF grown_update [where f = pf and m = m and t = t and l = l and n = "icv_len f", folded pf'_def]] by (cases "fs = []") (simp_all add: p(2) pf'(3))
    have "ok = frags_follow P (keytrack pf) pn k (f # fs)"
      using IH(3) True pn' pf'(1) by (cases P) auto
    note okf = this
    have "defrag_loop pf pn k pre (f # fs) = Some (ok, pf'', pre @ ?f # fs')" using st IH(1) by simp
    moreover have "map frame_id (?f # fs') = map frame_id (f # fs)" "frame_id pf'' = frame_id pf" using IH(2,4) pl(3) pf'(2) by simp_all
    ultimately show ?thesis using okf res by (intro exI [of _ ok] exI [of _ pf''] exI [of _ "?f # fs'"] conjI impI) simp_all
  qed
qed

subsection \<open>The reassembled frame\<close>

text \<open>When the fragments of a queue belong together: numbered from 0, under one key, with consecutive packet numbers.\<close>

definition frags_belong :: "rx_frame list \<Rightarrow> bool" where
  "frags_belong q \<longleftrightarrow> (\<forall>i < length q. frag_num (q ! i) = of_nat i \<and> keytrack (q ! i) = keytrack (q ! 0)
     \<and> (pn_checked (encrypt (q ! 0)) \<longrightarrow> frame_pn (q ! i) = map_option (\<lambda>pn. pn + of_nat i) (frame_pn (q ! 0))))"

definition reassembled :: "rx_frame list \<Rightarrow> buf" where
  "reassembled q = frag_head (hd q) @ concat (map frag_text (butlast q)) @ frag_body (last q)"

lemma frags_belong_follow:
  assumes "pn_checked (encrypt f) \<longrightarrow> frame_pn f = Some pn"
  shows "frags_belong (f # fs) \<longleftrightarrow> frag_num f = 0 \<and> frags_follow (pn_checked (encrypt f)) (keytrack f) pn 1 fs"
  unfolding frags_belong_def frags_follow_nth using assms by (auto simp: All_less_Suc2 ac_simps)

lemma join_reassembled:
  "\<forall>f \<in> set (f # fs). frag_ok f \<Longrightarrow> join (rdata f) (unat (icv_len f)) fs = reassembled (f # fs)"
  using join_closed [of "unat (icv_len f)" "frag_body f" fs "frag_head f"] frag_ok_icv
  by (auto simp: reassembled_def frag_split [of f] frag_text_def)

text \<open>C4. Reassembly: for a queue of well-formed fragments of one cipher whose bodies fit behind the first fragment,
  \<open>recvframe_defrag\<close> always returns without an access outside a buffer, and returns a frame exactly
  when the fragments are numbered 0, 1, 2, \<dots>, were received under one key and (for CCMP and GCMP) carry consecutive packet
  numbers. The frame is then the first fragment with its header and the bodies of all fragments in order, each
  but the last without its integrity check value, and the other fragments go back to the pool; otherwise every fragment does.\<close>

theorem recvframe_defrag_reassembles:
  assumes "q = f # fs" "\<forall>g \<in> set q. frag_ok g \<and> pn_checked (encrypt g) = pn_checked (encrypt f)"
    and "rx_tail f + sum_list (map (length \<circ> frag_body) fs) \<le> length (mem f)" "distinct (pool_ids p @ map frame_id q)"
  shows "\<exists>r p'. recvframe_defrag q p = Some (r, p') \<and> pool_ok p' = pool_ok p \<and>
    (if frags_belong q
     then \<exists>g. r = Some g \<and> grown f g (icv_len (last q)) \<and> frame_ok g
            \<and> rdata g = reassembled q \<and> pool_ids p' = pool_ids p @ map frame_id fs
     else r = None \<and> pool_ids p' = pool_ids p @ map frame_id q)"
proof -
  let ?P = "pn_checked (encrypt f)"
  have fo: "frag_ok f" and fs: "\<forall>g \<in> set fs. frag_ok g \<and> pn_checked (encrypt g) = ?P" using assms(1,2) by auto
  obtain pn where pn: "(if ?P then frame_pn f else Some 0) = Some pn" using frame_pn_Some [OF fo] by (cases ?P) auto
  then have fb: "frags_belong q \<longleftrightarrow> frag_num f = 0 \<and> frags_follow ?P (keytrack f) pn 1 fs"
    using frags_belong_follow [of f pn fs] assms(1) by (cases ?P) simp_all
  have D: "recvframe_defrag q p = (if frag_num f \<noteq> 0
      then Some (None, rtw_free_recvframe_queue fs (rtw_free_recvframe f p))
      else do { (ok, prframe, q) \<leftarrow> defrag_loop f pn 1 [] fs;
                if ok then Some (Some prframe, rtw_free_recvframe_queue q p)
                else Some (None, rtw_free_recvframe_queue q (rtw_free_recvframe prframe p)) })"
    unfolding recvframe_defrag_def assms(1) list.case pn Option.bind.bind_lunit ..
  have "frame_ok f" "unat (icv_len f) \<le> length (rdata f)" using fo by (auto simp: frag_ok_def)
  from defrag_loop_spec [OF this fs assms(3), of pn 1 "[]"] obtain ok f' fs' where
    L: "defrag_loop f pn 1 [] fs = Some (ok, f', fs')" "map frame_id fs' = map frame_id fs"
      "ok = frags_follow ?P (keytrack f) pn 1 fs" "frame_id f' = frame_id f"
    and R: "ok \<longrightarrow> frame_ok f' \<and> rdata f' = join (rdata f) (unat (icv_len f)) fs \<and>
         grown f f' (icv_len (last (f # fs)))"
    by auto
  show ?thesis
  proof (cases "frags_belong q")
    case True
    then have ok: "frag_num f = 0" ok using fb L(3) by simp_all
    with R have "frame_ok f'" "rdata f' = reassembled q" "grown f f' (icv_len (last q))"
      using join_reassembled [of f fs] assms(1,2) by simp_all
    moreover have "recvframe_defrag q p = Some (Some f', rtw_free_recvframe_queue fs' p)" using D ok L(1) by simp
    moreover have "pool_ids (rtw_free_recvframe_queue fs' p) = pool_ids p @ map frame_id fs"
      "pool_ok (rtw_free_recvframe_queue fs' p) = pool_ok p"
      using rtw_free_recvframe_queue_ids [of fs' p, unfolded L(2)] assms(1,4) by auto
    ultimately show ?thesis using True by simp
  next
    case False
    have "\<exists>p'. recvframe_defrag q p = Some (None, p') \<and> pool_ok p' = pool_ok p \<and> pool_ids p' = pool_ids p @ map frame_id q"
      using False fb D L assms(1,4) rtw_free_recvframe_then_queue [of p f fs]
        rtw_free_recvframe_then_queue [of p f' fs', unfolded L(2,4)] by (cases "frag_num f = 0") auto
    then show ?thesis unfolding if_not_P [OF False] by blast
  qed
qed

definition example_frag :: "u8 \<Rightarrow> u8 \<Rightarrow> rx_frame" where
  "example_frag n pn = \<lparr>seq_num = 7, qos = False, frame_id = unat n, hdrlen = 24, to_fr_ds = 1, amsdu = 0, priority = 0, frag_num = n,
     mfrag = 0, order = 0, privacy = 1, bdecrypted = 1, encrypt = SEC_AES, iv_len = 8, icv_len = 8, dst = [], src = [], ta = [], ra = [], bssid = [], ack_policy = 0,
     key_index = 0, physts_rpt_valid = False, keytrack = 3, rlen = 42,
     mem = replicate 24 1 @ [pn, 0, 0, 0, 0, 0, 0, 0] @ [n, 5] @ replicate 8 9 @ replicate 20 0, rx_data = 0, rx_tail = 42, frame_sta = None, preorder_tid = None\<rparr>"

definition example_pool :: recv_pool where
  "example_pool = \<lparr>free_recv_queue = [], free_recvframe_cnt = 0\<rparr>"

theorem recvframe_defrag_reassembles_witness:
  "\<exists>g p'. recvframe_defrag [example_frag 0 4, example_frag 1 5] example_pool = Some (Some g, p') \<and> pool_ids p' = [1]
     \<and> rdata g = replicate 24 1 @ [4, 0, 0, 0, 0, 0, 0, 0] @ [0, 5, 1, 5] @ replicate 8 9"
proof -
  let ?q = "[example_frag 0 4, example_frag 1 5]"
  have ok: "frag_ok (example_frag 0 4)" "frag_ok (example_frag 1 5)"
    by (simp_all add: frag_ok_def frame_ok_def rdata_def example_frag_def)
  have pc: "pn_checked (encrypt (example_frag 0 4))" "pn_checked (encrypt (example_frag 1 5))" by code_simp+
  have "frag_num (example_frag 0 4) = 0" "frag_num (example_frag 1 5) = 1" "frame_pn (example_frag 0 4) = Some 4"
    "frame_pn (example_frag 1 5) = Some 5" "keytrack (example_frag 0 4) = 3" "keytrack (example_frag 1 5) = 3" by code_simp+
  then have fb: "frags_belong ?q" by (auto simp: frags_belong_def less_Suc_eq)
  have sp: "rx_tail (example_frag 0 4) + sum_list (map (length \<circ> frag_body) [example_frag 1 5]) \<le> length (mem (example_frag 0 4))" by code_simp
  have r: "reassembled ?q = replicate 24 1 @ [4, 0, 0, 0, 0, 0, 0, 0] @ [0, 5, 1, 5] @ replicate 8 9"
    "pool_ids example_pool @ map frame_id [example_frag 1 5] = [1]" by code_simp+
  have "\<forall>g \<in> set ?q. frag_ok g \<and> pn_checked (encrypt g) = pn_checked (encrypt (example_frag 0 4))" using ok pc by simp
  moreover have "distinct (pool_ids example_pool @ map frame_id ?q)" by code_simp
  ultimately show ?thesis
    using recvframe_defrag_reassembles [OF refl _ sp, of example_pool] unfolding if_P [OF fb] r by blast
qed

end
