(* ===== verification/Sec_Wep.thy ===== *)
theory Sec_Wep
  imports C_Base
begin

text \<open>
  Software WEP (\<^verbatim>\<open>core/rtw_security.c\<close>): the RC4 stream cipher, the CRC-32 check value with its
  lazily initialised table, and the encryption and decryption of the frames of a transmit and
  a receive buffer. The loop over the fragments and the sealing of one fragment are shared
  with TKIP (\<open>Sec_Tkip\<close>), where the source repeats the same lines with another key.

  A buffer is a byte list and a pointer an offset into it; an access outside a buffer, or
  outside one of the fixed arrays on the stack, is the value \<open>None\<close>.
\<close>

subsection \<open>RC4\<close>

record arc4context =
  arc_x :: u32
  arc_y :: u32
  arc_state :: "u8 list"

text \<open>The second loop of \<open>arcfour_init\<close> over the values of \<open>counter\<close> still to come.\<close>

fun arcfour_init_loop :: "u8 list \<Rightarrow> nat \<Rightarrow> nat list \<Rightarrow> nat \<Rightarrow> u32 \<Rightarrow> u8 list \<Rightarrow> u8 list option" where
  "arcfour_init_loop key key_len [] keyindex stateindex st = Some st"
| "arcfour_init_loop key key_len (counter # cs) keyindex stateindex st =
     do { t \<leftarrow> rd st counter;
          k \<leftarrow> rd key keyindex;
          let stateindex = (stateindex + ucast k + ucast t) AND 0xff;
          u \<leftarrow> rd st (unat stateindex);
          st \<leftarrow> wr st (unat stateindex) t;
          st \<leftarrow> wr st counter u;
          let keyindex = (if keyindex + 1 \<ge> key_len then 0 else keyindex + 1);
          arcfour_init_loop key key_len cs keyindex stateindex st }"

definition arcfour_init :: "u8 list \<Rightarrow> nat \<Rightarrow> arc4context option" where
  "arcfour_init key key_len =
     map_option (\<lambda>st. \<lparr>arc_x = 0, arc_y = 0, arc_state = st\<rparr>)
       (arcfour_init_loop key key_len [0..<256] 0 0 (map of_nat [0..<256]))"

definition arcfour_byte :: "arc4context \<Rightarrow> (u8 \<times> arc4context) option" where
  "arcfour_byte ctx =
     do { let x = (arc_x ctx + 1) AND 0xff;
          sx \<leftarrow> rd (arc_state ctx) (unat x);
          let y = (ucast sx + arc_y ctx) AND 0xff;
          sy \<leftarrow> rd (arc_state ctx) (unat y);
          st \<leftarrow> wr (arc_state ctx) (unat y) sx;
          st \<leftarrow> wr st (unat x) sy;
          b \<leftarrow> rd st (unat ((ucast sx + ucast sy) AND (0xff :: u32)));
          Some (b, ctx\<lparr>arc_x := x, arc_y := y, arc_state := st\<rparr>) }"

text \<open>
  \<open>arcfour_encrypt\<close> on the bytes of the source: the bytes stored in the destination. Every
  call has the source equal to or disjoint from the destination.
\<close>

fun arcfour_encrypt :: "arc4context \<Rightarrow> u8 list \<Rightarrow> (u8 list \<times> arc4context) option" where
  "arcfour_encrypt ctx [] = Some ([], ctx)"
| "arcfour_encrypt ctx (s # src) =
     do { (k, ctx) \<leftarrow> arcfour_byte ctx;
          (dest, ctx) \<leftarrow> arcfour_encrypt ctx src;
          Some ((s XOR k) # dest, ctx) }"

subsection \<open>CRC-32\<close>

record crc32_globals =
  bcrc32initialized :: bool
  crc32_table :: "u32 list"

definition crc32_globals_init :: crc32_globals where
  "crc32_globals_init = \<lparr>bcrc32initialized = False, crc32_table = replicate 256 0\<rparr>"

definition crc32_reverseBit :: "u8 \<Rightarrow> u8" where
  "crc32_reverseBit d =
     (push_bit 7 d AND 0x80) OR (push_bit 5 d AND 0x40) OR (push_bit 3 d AND 0x20) OR (push_bit 1 d AND 0x10)
     OR (drop_bit 1 d AND 0x08) OR (drop_bit 3 d AND 0x04) OR (drop_bit 5 d AND 0x02) OR (drop_bit 7 d AND 0x01)"

definition CRC32_POLY :: u32 where
  "CRC32_POLY = 0x04c11db7"

definition crc32_shift :: "u32 \<Rightarrow> u32" where
  "crc32_shift c = (if c AND 0x80000000 \<noteq> 0 then push_bit 1 c XOR CRC32_POLY else push_bit 1 c)"

text \<open>The bytes of a 32-bit word in the order of their addresses (little endian) and back.\<close>

definition le32_bytes :: "u32 \<Rightarrow> u8 list" where
  "le32_bytes c = [ucast c, ucast (drop_bit 8 c), ucast (drop_bit 16 c), ucast (drop_bit 24 c)]"

definition le32 :: "u8 \<Rightarrow> u8 \<Rightarrow> u8 \<Rightarrow> u8 \<Rightarrow> u32" where
  "le32 b0 b1 b2 b3 = ucast b0 OR push_bit 8 (ucast b1) OR push_bit 16 (ucast b2) OR push_bit 24 (ucast b3)"

definition crc32_entry :: "nat \<Rightarrow> u32" where
  "crc32_entry i =
     (let k = crc32_reverseBit (of_nat i);
          c = (crc32_shift ^^ 8) (push_bit 24 (ucast k));
          p = le32_bytes c in
      le32 (crc32_reverseBit (p ! 3)) (crc32_reverseBit (p ! 2)) (crc32_reverseBit (p ! 1)) (crc32_reverseBit (p ! 0)))"

definition crc32_init :: "crc32_globals \<Rightarrow> crc32_globals" where
  "crc32_init g =
     (if bcrc32initialized g then g
      else g\<lparr>crc32_table := map crc32_entry [0..<256], bcrc32initialized := True\<rparr>)"

fun crc32_loop :: "u32 list \<Rightarrow> u32 \<Rightarrow> u8 list \<Rightarrow> u32" where
  "crc32_loop table crc [] = crc"
| "crc32_loop table crc (b # bs) =
     crc32_loop table (table ! unat ((crc XOR ucast b) AND 0xff) XOR drop_bit 8 crc) bs"

text \<open>\<open>getcrc32\<close> on the \<open>len\<close> bytes at \<open>buf\<close>; \<open>rtw_calc_crc32\<close> has the same body.\<close>

definition getcrc32 :: "crc32_globals \<Rightarrow> u8 list \<Rightarrow> u32 \<times> crc32_globals" where
  "getcrc32 g bs =
     (let g = (if \<not> bcrc32initialized g then crc32_init g else g) in
      (NOT (crc32_loop (crc32_table g) 0xffffffff bs), g))"

definition rtw_calc_crc32 :: "crc32_globals \<Rightarrow> u8 list \<Rightarrow> u32 \<times> crc32_globals" where
  "rtw_calc_crc32 g bs =
     (let g = (if \<not> bcrc32initialized g then crc32_init g else g) in
      (NOT (crc32_loop (crc32_table g) 0xFFFFFFFF bs), g))"

subsection \<open>Frames\<close>

text \<open>
  The fields of \<open>struct pkt_attrib\<close>, \<open>struct rx_pkt_attrib\<close> and \<open>struct security_priv\<close> that
  the software encryption reads. A transmit buffer is a byte list together with the address it
  starts at, because the next fragment starts at an address rounded up to a multiple of 4.
\<close>

record pkt_attrib =
  ta_encrypt :: u8
  ta_hdrlen :: u16
  ta_iv_len :: u8
  ta_icv_len :: u8
  ta_nr_frags :: u8
  ta_last_txcmdsz :: u32
  ta_ra :: "u8 list"
  ta_ta :: "u8 list"
  ta_UncstKey :: "u8 list"

record rx_pkt_attrib =
  ra_encrypt :: u8
  ra_hdrlen :: u8
  ra_iv_len :: u8
  ra_key_index :: u8
  ra_ra :: "u8 list"
  ra_ta :: "u8 list"

record security_priv =
  dot11PrivacyKeyIndex :: u32
  dot11DefKey :: "u8 list list"
  dot11DefKeylen :: "u32 list"
  dot118021XGrpKeyid :: u32
  dot118021XGrpKey :: "u8 list list"
  binstallGrpkey :: bool

record xmit_frame =
  buf_addr :: "(nat \<times> buf) option"
  pkt_offset :: u8

definition SEC_WEP40 :: u8 where "SEC_WEP40 = 0x01"
definition SEC_TKIP :: u8 where "SEC_TKIP = 0x02"
definition SEC_WEP104 :: u8 where "SEC_WEP104 = 0x05"

definition idx :: "'a list \<Rightarrow> nat \<Rightarrow> 'a option" where
  "idx xs i = (if i < length xs then Some (xs ! i) else None)"

definition RND4 :: "nat \<Rightarrow> nat" where
  "RND4 x = push_bit 2 (drop_bit 2 x + (if x AND 3 = 0 then 0 else 1))"

definition hw_hdr_offset :: "xmit_frame \<Rightarrow> u8" where
  "hw_hdr_offset xf = 48 + pkt_offset xf * 8"

definition last_length :: "pkt_attrib \<Rightarrow> int" where
  "last_length a = sint (ta_last_txcmdsz a - ucast (ta_hdrlen a) - ucast (ta_iv_len a) - ucast (ta_icv_len a))"

definition frag_length :: "u32 \<Rightarrow> pkt_attrib \<Rightarrow> int" where
  "frag_length frag_len a = sint (frag_len - ucast (ta_hdrlen a) - ucast (ta_iv_len a) - ucast (ta_icv_len a))"

text \<open>
  One fragment: the ICV of the payload, then payload and ICV encrypted with one key stream. A
  negative \<open>length\<close> is a huge \<open>u32\<close> for \<open>arcfour_encrypt\<close> and leaves the buffer.
\<close>

definition rc4_seal :: "crc32_globals \<Rightarrow> u8 list \<Rightarrow> nat \<Rightarrow> buf \<Rightarrow> nat \<Rightarrow> int \<Rightarrow> (buf \<times> crc32_globals) option" where
  "rc4_seal g key key_len b payload len =
     (if len < 0 then None
      else do {
        data \<leftarrow> rds b payload (nat len);
        let (crc, g) = getcrc32 g data;
        ctx \<leftarrow> arcfour_init key key_len;
        (d, ctx) \<leftarrow> arcfour_encrypt ctx data;
        b \<leftarrow> wrs b payload d;
        (e, ctx) \<leftarrow> arcfour_encrypt ctx (le32_bytes crc);
        b \<leftarrow> wrs b (payload + nat len) e;
        Some (b, g) })"

text \<open>
  The loop over the fragments still to come, from the offset \<open>off\<close> of \<open>pframe\<close>. \<open>keyf b i\<close> is
  the RC4 key and its length for the IV at offset \<open>i\<close>.
\<close>

fun frag_loop ::
  "(buf \<Rightarrow> nat \<Rightarrow> (u8 list \<times> nat) option) \<Rightarrow> pkt_attrib \<Rightarrow> u32 \<Rightarrow> nat \<Rightarrow> nat \<Rightarrow> nat
   \<Rightarrow> buf \<Rightarrow> crc32_globals \<Rightarrow> (buf \<times> crc32_globals) option" where
  "frag_loop keyf a frag_len base 0 off b g = Some (b, g)"
| "frag_loop keyf a frag_len base (Suc n) off b g =
     do { (key, key_len) \<leftarrow> keyf b (off + unat (ta_hdrlen a));
          (b, g) \<leftarrow> rc4_seal g key key_len b (off + unat (ta_iv_len a) + unat (ta_hdrlen a))
                     (if n = 0 then last_length a else frag_length frag_len a);
          frag_loop keyf a frag_len base n (RND4 (base + off + unat frag_len) - base) b g }"

text \<open>Decryption of the payload, ICV included, of a received frame.\<close>

definition rc4_open :: "u8 list \<Rightarrow> nat \<Rightarrow> buf \<Rightarrow> nat \<Rightarrow> int \<Rightarrow> buf option" where
  "rc4_open key key_len b payload len =
     (if len < 0 then None
      else do {
        ctx \<leftarrow> arcfour_init key key_len;
        data \<leftarrow> rds b payload (nat len);
        (d, ctx) \<leftarrow> arcfour_encrypt ctx data;
        wrs b payload d })"

subsection \<open>WEP\<close>

text \<open>The array \<open>wepkey[16]\<close>: the three IV bytes, then the default key \<open>keyidx\<close>.\<close>

definition wep_key :: "security_priv \<Rightarrow> nat \<Rightarrow> buf \<Rightarrow> nat \<Rightarrow> (u8 list \<times> nat) option" where
  "wep_key sec keyidx b i =
     do { keylength \<leftarrow> idx (dot11DefKeylen sec) keyidx;
          iv \<leftarrow> rds b i 3;
          skey \<leftarrow> idx (dot11DefKey sec) keyidx;
          key \<leftarrow> rds skey 0 (unat keylength);
          if 3 + unat keylength > 16 then None else Some (iv @ key, 3 + unat keylength) }"

definition rtw_wep_encrypt ::
  "security_priv \<Rightarrow> u32 \<Rightarrow> pkt_attrib \<Rightarrow> xmit_frame \<Rightarrow> crc32_globals \<Rightarrow> (xmit_frame \<times> crc32_globals) option" where
  "rtw_wep_encrypt sec frag_len a xf g =
     (case buf_addr xf of
        None \<Rightarrow> Some (xf, g)
      | Some (base, b) \<Rightarrow>
          if ta_encrypt a = SEC_WEP40 \<or> ta_encrypt a = SEC_WEP104 then
            do { (b, g) \<leftarrow> frag_loop (wep_key sec (unat (dot11PrivacyKeyIndex sec))) a frag_len base
                             (unat (ta_nr_frags a)) (unat (hw_hdr_offset xf)) b g;
                 Some (xf\<lparr>buf_addr := Some (base, b)\<rparr>, g) }
          else Some (xf, g))"

text \<open>The received frame: its bytes from \<open>rx_data\<close> on and its length field.\<close>

definition rtw_wep_decrypt ::
  "security_priv \<Rightarrow> rx_pkt_attrib \<Rightarrow> u32 \<Rightarrow> buf \<Rightarrow> crc32_globals \<Rightarrow> (buf \<times> crc32_globals) option" where
  "rtw_wep_decrypt sec a hdr_len b g =
     (if ra_encrypt a = SEC_WEP40 \<or> ra_encrypt a = SEC_WEP104 then
        do { (key, key_len) \<leftarrow> wep_key sec (unat (ra_key_index a)) b (unat (ra_hdrlen a));
             let len = sint (hdr_len - ucast (ra_hdrlen a) - ucast (ra_iv_len a));
             let payload = unat (ra_iv_len a) + unat (ra_hdrlen a);
             b \<leftarrow> rc4_open key key_len b payload len;
             data \<leftarrow> rds b payload (nat (len - 4));
             let (crc, g) = getcrc32 g data;
             Some (b, g) }
      else Some (b, g))"

subsection \<open>RC4 is total and an involution\<close>

lemma unat_and_ff [simp]: "unat (w AND (0xff :: u32)) < 256"
proof -
  have "w AND 0xff \<le> (0xff :: u32)" by (rule word_and_le1)
  then show ?thesis by (simp add: word_le_nat_alt)
qed

definition arc_ok :: "arc4context \<Rightarrow> bool" where
  "arc_ok ctx \<longleftrightarrow> length (arc_state ctx) = 256 \<and> distinct (arc_state ctx)"

lemma distinct_swap_set: "i < length xs \<Longrightarrow> j < length xs \<Longrightarrow> distinct (xs[j := xs ! i, i := xs ! j]) = distinct xs"
  using distinct_swap [of i xs j] by (simp add: list_update_swap)

lemma xor_cancel [simp]: "(s XOR a) XOR a = (s :: 'a :: len word)"
  by (simp add: xor.assoc)

lemma arc_ok_UNIV: "arc_ok ctx \<Longrightarrow> set (arc_state ctx) = UNIV"
  by (rule card_subset_eq) (auto simp: arc_ok_def distinct_card card_word)

lemma arcfour_init_loop_total:
  assumes "length st = 256" "distinct st" "\<forall>c \<in> set cs. c < 256" "ki < key_len" "key_len \<le> length key"
  shows "\<exists>st'. arcfour_init_loop key key_len cs ki si st = Some st' \<and> length st' = 256 \<and> distinct st'"
  using assms
proof (induction cs arbitrary: ki si st)
  case (Cons c cs)
  let ?si = "(si + ucast (key ! ki) + ucast (st ! c)) AND 0xff"
  let ?st = "st[unat ?si := st ! c, c := st ! unat ?si]"
  let ?ki = "if key_len \<le> ki + 1 then 0 else ki + 1"
  have "length ?st = 256" "distinct ?st" "?ki < key_len" using Cons.prems by (auto simp: distinct_swap_set)
  from Cons.IH [OF this(1,2) _ this(3)] Cons.prems show ?case
    by (simp add: rd_def wr_def Let_def)
qed simp

lemma arcfour_init_total:
  assumes "0 < key_len" "key_len \<le> length key"
  shows "\<exists>ctx. arcfour_init key key_len = Some ctx \<and> arc_ok ctx"
proof -
  have "distinct (map (of_nat :: nat \<Rightarrow> u8) [0..<256])"
    by (auto simp: distinct_map inj_on_def dest!: arg_cong [where f = unat])
  then show ?thesis
    using arcfour_init_loop_total [of "map of_nat [0..<256]" "[0..<256]" 0 key_len key 0] assms
    by (auto simp: arcfour_init_def arc_ok_def)
qed

lemma arcfour_byte_total:
  assumes "arc_ok ctx" shows "\<exists>b ctx'. arcfour_byte ctx = Some (b, ctx') \<and> arc_ok ctx'"
  using assms by (simp add: arc_ok_def arcfour_byte_def rd_def wr_def Let_def distinct_swap_set)

lemma arcfour_encrypt_total:
  "arc_ok ctx \<Longrightarrow> \<exists>dest ctx'. arcfour_encrypt ctx src = Some (dest, ctx') \<and> arc_ok ctx' \<and> length dest = length src"
proof (induction src arbitrary: ctx)
  case (Cons s src)
  obtain k c1 where k: "arcfour_byte ctx = Some (k, c1)" "arc_ok c1" using arcfour_byte_total [OF Cons.prems] by blast
  from Cons.IH [OF k(2)] k(1) show ?case by auto
qed simp

lemma arcfour_encrypt_involution:
  "arcfour_encrypt ctx src = Some (dest, ctx') \<Longrightarrow> arcfour_encrypt ctx dest = Some (src, ctx')"
proof (induction src arbitrary: ctx dest)
  case (Cons s src)
  then show ?case by (auto split: bind_splits)
qed simp

lemma arcfour_encrypt_append:
  "arcfour_encrypt ctx (a @ b) =
     do { (d1, c1) \<leftarrow> arcfour_encrypt ctx a; (d2, c2) \<leftarrow> arcfour_encrypt c1 b; Some (d1 @ d2, c2) }"
  by (induction a arbitrary: ctx) (auto split: bind_splits prod.splits simp: bind_assoc)


subsection \<open>The table-driven CRC computes the bit-serial CRC\<close>

text \<open>
  The reference: the register of CRC-32 with its least significant bit first, fed one bit at a
  time; \<open>0xEDB88320\<close> is \<open>CRC32_POLY\<close> with its bits reversed.
\<close>

definition crc_bit :: "u32 \<Rightarrow> u32" where
  "crc_bit c = (if bit c 0 then drop_bit 1 c XOR 0xEDB88320 else drop_bit 1 c)"

fun crc_serial :: "u32 \<Rightarrow> u8 list \<Rightarrow> u32" where
  "crc_serial c [] = c"
| "crc_serial c (b # bs) = crc_serial ((crc_bit ^^ 8) (c XOR ucast b)) bs"

definition rev32 :: "u32 \<Rightarrow> u32" where
  "rev32 c = (let p = le32_bytes c in
     le32 (crc32_reverseBit (p ! 3)) (crc32_reverseBit (p ! 2)) (crc32_reverseBit (p ! 1)) (crc32_reverseBit (p ! 0)))"

lemma less_8_cases: "n < 8 \<Longrightarrow> n = 0 \<or> n = 1 \<or> n = 2 \<or> n = 3 \<or> n = 4 \<or> n = 5 \<or> n = 6 \<or> n = (7::nat)"
  by arith


lemma bit_reverseBit_cases:
  "bit (crc32_reverseBit d) 0 = bit d 7" "bit (crc32_reverseBit d) 1 = bit d 6" "bit (crc32_reverseBit d) 2 = bit d 5"
  "bit (crc32_reverseBit d) 3 = bit d 4" "bit (crc32_reverseBit d) 4 = bit d 3" "bit (crc32_reverseBit d) 5 = bit d 2"
  "bit (crc32_reverseBit d) 6 = bit d 1" "bit (crc32_reverseBit d) 7 = bit d 0"
  by (simp_all add: crc32_reverseBit_def bit_or_iff bit_and_iff bit_push_bit_iff bit_drop_bit_eq bit_0
    even_or_iff even_and_iff even_push_bit_iff even_drop_bit_iff_not_bit mult.commute [of d 2] bit_double_iff)

lemma bit_reverseBit: "bit (crc32_reverseBit d) n \<longleftrightarrow> n < 8 \<and> bit d (7 - n)"
proof (cases "n < 8")
  case True
  from less_8_cases [OF this] show ?thesis
    by (elim disjE; simp only: bit_reverseBit_cases; simp)
next
  case False
  then show ?thesis using bit_imp_le_length [of "crc32_reverseBit d" n] by auto
qed


lemma bit_le32_bytes: "i < 4 \<Longrightarrow> bit (le32_bytes c ! i) n \<longleftrightarrow> n < 8 \<and> bit c (8 * i + n)"
  by (auto simp: le32_bytes_def numeral_eq_Suc less_Suc_eq bit_simps)

lemma bit_le32:
  "bit (le32 b0 b1 b2 b3) n \<longleftrightarrow> (if n < 8 then bit b0 n else if n < 16 then bit b1 (n - 8)
     else if n < 24 then bit b2 (n - 16) else n < 32 \<and> bit b3 (n - 24))"
  by (auto simp: le32_def bit_simps dest: bit_imp_le_length)

lemma bit_rev32: "bit (rev32 c) n \<longleftrightarrow> n < 32 \<and> bit c (31 - n)"
  by (auto simp: rev32_def Let_def bit_le32 bit_reverseBit bit_le32_bytes)


lemma rev32_xor: "rev32 (a XOR b) = rev32 a XOR rev32 b"
  by (rule bit_word_eqI) (simp add: bit_rev32 bit_xor_iff)

lemma rev32_push_bit: "rev32 (push_bit 1 c) = drop_bit 1 (rev32 c)"
proof (rule bit_word_eqI)
  fix n assume "n < LENGTH(32)"
  then show "bit (rev32 (push_bit 1 c)) n = bit (drop_bit 1 (rev32 c)) n"
    by (simp only: bit_rev32 bit_push_bit_iff bit_drop_bit_eq o_apply) auto
qed

lemma rev32_poly: "rev32 CRC32_POLY = 0xEDB88320"
  by code_simp

lemma top_bit: "(c AND (0x80000000 :: u32) \<noteq> 0) = bit c 31"
proof -
  have "(0x80000000 :: u32) = push_bit 31 1" by simp
  then show ?thesis by (simp only: and_exp_eq_0_iff_not_bit push_bit_of_1 not_not)
qed

lemma rev32_shift: "rev32 (crc32_shift c) = crc_bit (rev32 c)"
proof -
  have "bit (rev32 c) 0 = bit c 31" by (simp only: bit_rev32) simp
  then show ?thesis
    by (simp only: crc32_shift_def crc_bit_def top_bit if_distrib [of rev32] rev32_xor rev32_poly rev32_push_bit)
qed

lemma rev32_shifts: "rev32 ((crc32_shift ^^ n) c) = (crc_bit ^^ n) (rev32 c)"
  by (induction n) (simp_all add: rev32_shift)

lemma rev32_byte: "rev32 (push_bit 24 (ucast (crc32_reverseBit k))) = ucast k"
proof (rule bit_word_eqI)
  fix n assume "n < LENGTH(32)"
  then show "bit (rev32 (push_bit 24 (ucast (crc32_reverseBit k)))) n = bit (ucast k :: u32) n"
    using bit_imp_le_length [of k n]
    by (cases "n < 8") (auto simp: bit_rev32 bit_reverseBit bit_push_bit_iff bit_ucast_iff)
qed

lemma crc32_entry_serial: "crc32_entry i = (crc_bit ^^ 8) (ucast (of_nat i :: u8))"
  unfolding crc32_entry_def Let_def
  using rev32_shifts [of 8 "push_bit 24 (ucast (crc32_reverseBit (of_nat i)))"]
  by (simp only: rev32_byte) (simp add: rev32_def Let_def)

lemma crc_bit_xor: "crc_bit (a XOR b) = crc_bit a XOR crc_bit b"
  by (rule bit_word_eqI) (auto simp: crc_bit_def bit_xor_iff bit_drop_bit_eq)

lemma crc_bits_xor: "(crc_bit ^^ n) (a XOR b) = (crc_bit ^^ n) a XOR (crc_bit ^^ n) b"
  by (induction n) (simp_all add: crc_bit_xor)

lemma crc_bits_low_zero: "(\<And>i. i < n \<Longrightarrow> \<not> bit c i) \<Longrightarrow> (crc_bit ^^ n) c = drop_bit n c"
proof (induction n)
  case (Suc n)
  then have "(crc_bit ^^ n) c = drop_bit n c" "\<not> bit c n" by auto
  moreover from this(2) have "crc_bit (drop_bit n c) = drop_bit 1 (drop_bit n c)"
    by (simp add: crc_bit_def bit_drop_bit_eq)
  ultimately show ?case by (simp add: drop_bit_drop_bit)
qed simp

lemma bit_ff: "bit (0xff :: u32) n \<longleftrightarrow> n < 8"
proof -
  have "(0xff :: u32) = mask 8" by (simp add: mask_eq_exp_minus_1)
  then show ?thesis by (simp only: bit_mask_iff) auto
qed

lemma crc_byte_split: "(crc_bit ^^ 8) c = (crc_bit ^^ 8) (c AND 0xff) XOR drop_bit 8 c"
proof -
  have m: "(0xff :: u32) = mask 8" by (simp add: mask_eq_exp_minus_1)
  have c: "c = (c AND mask 8) XOR push_bit 8 (drop_bit 8 c)"
    by (rule bit_word_eqI) (auto simp: bit_simps)
  have "(crc_bit ^^ 8) c = (crc_bit ^^ 8) (c AND mask 8) XOR (crc_bit ^^ 8) (push_bit 8 (drop_bit 8 c))"
    by (subst c) (rule crc_bits_xor)
  also have "(crc_bit ^^ 8) (push_bit 8 (drop_bit 8 c)) = drop_bit 8 (push_bit 8 (drop_bit 8 c))"
    by (rule crc_bits_low_zero) (simp add: bit_push_bit_iff)
  also have "drop_bit 8 (push_bit 8 (drop_bit 8 c)) = drop_bit 8 c"
    by (rule bit_word_eqI) (auto simp: bit_simps dest: bit_imp_le_length)
  finally show ?thesis by (simp only: m)
qed

lemma ucast_u8_low: "unat w < 256 \<Longrightarrow> ucast (of_nat (unat w) :: u8) = (w :: u32)"
  by (simp add: word_unat_eq_iff unsigned_ucast_eq unsigned_take_bit_eq take_bit_nat_def)

lemma crc32_loop_serial: "crc32_loop (map crc32_entry [0..<256]) c bs = crc_serial c bs"
proof (induction bs arbitrary: c)
  case (Cons b bs)
  let ?x = "(c XOR ucast b) :: u32"
  have "ucast (of_nat (unat (?x AND 0xff)) :: u8) = ?x AND 0xff"
    by (rule ucast_u8_low) (rule unat_and_ff)
  then have "map crc32_entry [0..<256] ! unat (?x AND 0xff) = (crc_bit ^^ 8) (?x AND 0xff)"
    by (simp add: crc32_entry_serial del: funpow.simps)
  moreover have "drop_bit 8 ?x = drop_bit 8 c"
    by (rule bit_word_eqI) (auto simp: bit_simps dest: bit_imp_le_length)
  ultimately show ?case using Cons by (simp add: crc_byte_split [of ?x])
qed simp


definition crc_ok :: "crc32_globals \<Rightarrow> bool" where
  "crc_ok g \<longleftrightarrow> (bcrc32initialized g \<longrightarrow> crc32_table g = map crc32_entry [0..<256])"

lemma getcrc32_serial:
  "crc_ok g \<Longrightarrow> \<exists>g'. getcrc32 g bs = (NOT (crc_serial 0xffffffff bs), g') \<and> crc_ok g'"
  by (auto simp: getcrc32_def crc32_init_def crc_ok_def crc32_loop_serial Let_def)

definition icv :: "u8 list \<Rightarrow> u8 list" where
  "icv bs = le32_bytes (NOT (crc_serial 0xffffffff bs))"

lemma length_icv [simp]: "length (icv bs) = 4"
  by (simp add: icv_def le32_bytes_def)

subsection \<open>Sealing and opening one frame\<close>

lemma rc4_seal_spec:
  assumes "crc_ok g" "0 < kl" "kl \<le> length key" "p + n + 4 \<le> length b"
  shows "\<exists>ctx ct ctx' g'. arcfour_init key kl = Some ctx
     \<and> arcfour_encrypt ctx (take n (drop p b) @ icv (take n (drop p b))) = Some (ct, ctx')
     \<and> length ct = n + 4 \<and> crc_ok g'
     \<and> rc4_seal g key kl b p (int n) = Some (take p b @ ct @ drop (p + n + 4) b, g')"
proof -
  let ?d = "take n (drop p b)"
  obtain ctx where ctx: "arcfour_init key kl = Some ctx" "arc_ok ctx" using arcfour_init_total assms by blast
  obtain g' where g': "getcrc32 g ?d = (NOT (crc_serial 0xffffffff ?d), g')" "crc_ok g'"
    using getcrc32_serial [OF assms(1)] by blast
  obtain c1 ctx1 where c1: "arcfour_encrypt ctx ?d = Some (c1, ctx1)" "arc_ok ctx1" "length c1 = n"
    using arcfour_encrypt_total [OF ctx(2), of ?d] assms(4) by auto
  obtain c2 ctx2 where c2: "arcfour_encrypt ctx1 (icv ?d) = Some (c2, ctx2)" "length c2 = 4"
    using arcfour_encrypt_total [OF c1(2), of "icv ?d"] by auto
  have "rc4_seal g key kl b p (int n) = Some (take p b @ (c1 @ c2) @ drop (p + n + 4) b, g')"
    using assms(4) ctx(1) g'(1) c1 c2
    by (simp add: rc4_seal_def rds_def wrs_def icv_def Let_def min_absorb2 add.commute [of 4])
  with ctx g' c1 c2 show ?thesis by (auto simp: arcfour_encrypt_append)
qed

lemma rc4_open_spec:
  assumes "arcfour_init key kl = Some ctx" "arcfour_encrypt ctx pt = Some (ct, ctx')"
  shows "rc4_open key kl (h @ ct @ post) (length h) (int (length ct)) = Some (h @ pt @ post)"
proof -
  have "length pt = length ct"
    using assms(2) by (induction pt arbitrary: ctx ct) (auto split: bind_splits)
  then show ?thesis
    using assms(1) arcfour_encrypt_involution [OF assms(2)]
    by (simp add: rc4_open_def rds_def wrs_def)
qed


subsection \<open>A cipher over the fragments of a buffer\<close>

text \<open>
  What the loop over the fragments needs of the key: it depends on the \<open>ivw\<close> bytes of the IV
  only, and it is a proper RC4 key once a key is set (\<open>ready\<close>). The offsets of the fragments, as the loop computes them.
\<close>

fun frag_off :: "u32 \<Rightarrow> nat \<Rightarrow> nat \<Rightarrow> nat \<Rightarrow> nat" where
  "frag_off frag_len base off 0 = off"
| "frag_off frag_len base off (Suc k) = frag_off frag_len base (RND4 (base + off + unat frag_len) - base) k"

lemma RND4_ge: "x \<le> RND4 x"
proof -
  have "x AND 3 = x mod 4" using take_bit_eq_mask [of 2 x] by (simp add: mask_eq_exp_minus_1 take_bit_eq_mod)
  then show ?thesis by (simp add: RND4_def push_bit_eq_mult drop_bit_eq_div) presburger
qed

lemma frag_off_ge: "off \<le> frag_off fl base off k"
proof (induction k arbitrary: off)
  case (Suc k)
  have "off \<le> RND4 (base + off + unat fl) - base" using RND4_ge [of "base + off + unat fl"] by simp
  also have "\<dots> \<le> frag_off fl base \<dots> k" by (rule Suc)
  finally show ?case by simp
qed simp

definition payload_length :: "u32 \<Rightarrow> pkt_attrib \<Rightarrow> nat \<Rightarrow> nat \<Rightarrow> int" where
  "payload_length fl a n k = (if Suc k = n then last_length a else frag_length fl a)"

text \<open>The fragments lie inside the buffer, and a fragment and its ICV do not reach the next one.\<close>

definition frags_fit :: "u32 \<Rightarrow> pkt_attrib \<Rightarrow> nat \<Rightarrow> nat \<Rightarrow> nat \<Rightarrow> nat \<Rightarrow> bool" where
  "frags_fit fl a base n off sz \<longleftrightarrow>
     (\<forall>k < n. 0 \<le> payload_length fl a n k
        \<and> frag_off fl base off k + unat (ta_hdrlen a) + unat (ta_iv_len a) + nat (payload_length fl a n k) + 4 \<le> sz)
     \<and> (1 < n \<longrightarrow> unat (ta_hdrlen a) + unat (ta_iv_len a) + nat (frag_length fl a) + 4 \<le> unat fl)"

lemma frags_fit_Suc:
  assumes "frags_fit fl a base (Suc n) off sz"
  shows "frags_fit fl a base n (RND4 (base + off + unat fl) - base) sz"
proof -
  have "payload_length fl a n k = payload_length fl a (Suc n) (Suc k)" for k
    by (simp add: payload_length_def)
  with assms show ?thesis unfolding frags_fit_def
    by (metis Suc_less_eq frag_off.simps(2) less_Suc_eq)
qed

locale frag_cipher =
  fixes keyf :: "buf \<Rightarrow> nat \<Rightarrow> (u8 list \<times> nat) option" and ivw :: nat and ready :: bool
  assumes keyf_total: "ready \<Longrightarrow> i + ivw \<le> length b \<Longrightarrow> \<exists>key kl. keyf b i = Some (key, kl) \<and> 0 < kl \<and> kl \<le> length key"
    and keyf_local: "i + ivw \<le> length b \<Longrightarrow> j + ivw \<le> length c \<Longrightarrow> take ivw (drop i b) = take ivw (drop j c)
      \<Longrightarrow> keyf b i = keyf c j"
begin

definition opens :: "pkt_attrib \<Rightarrow> buf \<Rightarrow> buf \<Rightarrow> bool" where
  "opens a f pt \<longleftrightarrow> (\<exists>key kl. keyf f (unat (ta_hdrlen a)) = Some (key, kl) \<and>
     rc4_open key kl f (unat (ta_hdrlen a) + unat (ta_iv_len a))
       (int (length pt - (unat (ta_hdrlen a) + unat (ta_iv_len a)))) = Some pt)"

lemma seal_opens:
  assumes "crc_ok g" "ready" "ivw \<le> unat (ta_iv_len a)"
    "off + unat (ta_hdrlen a) + unat (ta_iv_len a) + n + 4 \<le> length b"
  shows "\<exists>key kl b' g'. keyf b (off + unat (ta_hdrlen a)) = Some (key, kl)
    \<and> rc4_seal g key kl b (off + unat (ta_iv_len a) + unat (ta_hdrlen a)) (int n) = Some (b', g')
    \<and> crc_ok g' \<and> length b' = length b \<and> take off b' = take off b
    \<and> drop (off + unat (ta_hdrlen a) + unat (ta_iv_len a) + n + 4) b' = drop (off + unat (ta_hdrlen a) + unat (ta_iv_len a) + n + 4) b
    \<and> opens a (take (unat (ta_hdrlen a) + unat (ta_iv_len a) + n + 4) (drop off b'))
        (take (unat (ta_hdrlen a) + unat (ta_iv_len a) + n) (drop off b)
         @ icv (take n (drop (off + unat (ta_hdrlen a) + unat (ta_iv_len a)) b)))"
proof -
  define hd where "hd = unat (ta_hdrlen a)"
  define iv where "iv = unat (ta_iv_len a)"
  define d where "d = take n (drop (off + hd + iv) b)"
  define h where "h = take (hd + iv) (drop off b)"
  have len: "off + hd + iv + n + 4 \<le> length b" and ivw: "ivw \<le> iv" using assms by (simp_all add: hd_def iv_def)
  obtain key kl where k: "keyf b (off + hd) = Some (key, kl)" "0 < kl" "kl \<le> length key"
    using keyf_total [OF assms(2), of "off + hd" b] len ivw by auto
  obtain ctx ct ctx' g' where s: "arcfour_init key kl = Some ctx" "arcfour_encrypt ctx (d @ icv d) = Some (ct, ctx')"
    "length ct = n + 4" "crc_ok g'"
    "rc4_seal g key kl b (off + iv + hd) (int n) = Some (take (off + iv + hd) b @ ct @ drop (off + hd + iv + n + 4) b, g')"
    using rc4_seal_spec [OF assms(1) k(2,3), of "off + iv + hd" n b] len
    by (auto simp: d_def ac_simps)
  let ?b = "take (off + iv + hd) b @ ct @ drop (off + hd + iv + n + 4) b"
  have hb: "take (hd + iv + n + 4) (drop off ?b) = h @ ct" "length h = hd + iv"
    using s(3) len by (auto simp: h_def take_drop ac_simps min_def)
  have "keyf (h @ ct) hd = keyf b (off + hd)"
  proof (rule keyf_local)
    show "take ivw (drop hd (h @ ct)) = take ivw (drop (off + hd) b)"
    proof -
      have "iv \<le> length b - (hd + off)" using len by simp
      with ivw hb(2) show ?thesis by (simp add: h_def drop_take ac_simps min_def)
    qed
  qed (use ivw len hb(2) in auto)
  moreover have "take (hd + iv + n) (drop off b) = h @ d"
    by (simp add: h_def d_def take_add ac_simps)
  moreover have "rc4_open key kl (h @ ct) (hd + iv) (int (n + 4)) = Some (h @ d @ icv d)"
    using rc4_open_spec [OF s(1,2), of h "[]"] hb(2) s(3) by simp
  moreover have "length d = n" using len by (simp add: d_def)
  ultimately have "opens a (h @ ct) (take (hd + iv + n) (drop off b) @ icv d)"
    using k(1) hb(2) by (simp add: opens_def hd_def iv_def)
  moreover have "length ?b = length b" "take off ?b = take off b" "drop (off + hd + iv + n + 4) ?b = drop (off + hd + iv + n + 4) b"
    using len s(3) by auto
  ultimately show ?thesis using k s hb(1) unfolding hd_def iv_def d_def by (metis (no_types, lifting))
qed

lemma frag_loop_opens:
  assumes "crc_ok g" "ready" "ivw \<le> unat (ta_iv_len a)" "frags_fit fl a base n off (length b)"
  shows "\<exists>b' g'. frag_loop keyf a fl base n off b g = Some (b', g') \<and> crc_ok g' \<and> length b' = length b
    \<and> take off b' = take off b
    \<and> (\<forall>k < n. let p = frag_off fl base off k; m = nat (payload_length fl a n k);
                     h = unat (ta_hdrlen a) + unat (ta_iv_len a) in
         opens a (take (h + m + 4) (drop p b')) (take (h + m) (drop p b) @ icv (take m (drop (p + h) b))))"
  using assms
proof (induction n arbitrary: off b g)
  case (Suc n)
  define h where "h = unat (ta_hdrlen a) + unat (ta_iv_len a)"
  define m where "m = nat (payload_length fl a (Suc n) 0)"
  define off' where "off' = RND4 (base + off + unat fl) - base"
  have fit0: "0 \<le> payload_length fl a (Suc n) 0" "off + h + m + 4 \<le> length b"
    using Suc.prems(4) by (auto simp: frags_fit_def h_def m_def ac_simps)
  obtain key kl b1 g1 where st: "keyf b (off + unat (ta_hdrlen a)) = Some (key, kl)"
    "rc4_seal g key kl b (off + unat (ta_iv_len a) + unat (ta_hdrlen a)) (int m) = Some (b1, g1)"
    "crc_ok g1" "length b1 = length b" "take off b1 = take off b" "drop (off + h + m + 4) b1 = drop (off + h + m + 4) b"
    "opens a (take (h + m + 4) (drop off b1)) (take (h + m) (drop off b) @ icv (take m (drop (off + h) b)))"
    using seal_opens [OF Suc.prems(1,2,3), of off m b] fit0(2) by (auto simp: h_def ac_simps)
  have pl: "(if n = 0 then last_length a else frag_length fl a) = int m"
    using fit0(1) by (auto simp: m_def payload_length_def)
  have "frags_fit fl a base n off' (length b1)" using frags_fit_Suc [OF Suc.prems(4)] st(4) by (simp add: off'_def)
  from Suc.IH [OF st(3) Suc.prems(2,3) this] obtain b' g' where IH:
    "frag_loop keyf a fl base n off' b1 g1 = Some (b', g')" "crc_ok g'" "length b' = length b1" "take off' b' = take off' b1"
    "\<And>k. k < n \<Longrightarrow> opens a (take (h + nat (payload_length fl a n k) + 4) (drop (frag_off fl base off' k) b'))
        (take (h + nat (payload_length fl a n k)) (drop (frag_off fl base off' k) b1)
          @ icv (take (nat (payload_length fl a n k)) (drop (frag_off fl base off' k + h) b1)))"
    by (auto simp: Let_def h_def)
  have off': "n \<noteq> 0 \<Longrightarrow> off + h + m + 4 \<le> off'" "off \<le> off'"
    using Suc.prems(4) RND4_ge [of "base + off + unat fl"]
    by (auto simp: frags_fit_def off'_def h_def m_def payload_length_def)
  have first: "take (h + m + 4) (drop off b') = take (h + m + 4) (drop off b1)"
  proof (cases "n = 0")
    case True then show ?thesis using IH(1) by simp
  next
    case False
    then have "take (off + h + m + 4) b' = take (off + h + m + 4) b1"
      using off'(1) arg_cong [OF IH(4), of "take (off + h + m + 4)"] by (simp add: min_absorb1)
    then show ?thesis by (simp add: take_drop ac_simps)
  qed
  have rest: "drop p b1 = drop p b" if "off + h + m + 4 \<le> p" for p
    using that arg_cong [OF st(6), of "drop (p - (off + h + m + 4))"] by simp
  have "opens a (take (h + nat (payload_length fl a (Suc n) k) + 4) (drop (frag_off fl base off k) b'))
        (take (h + nat (payload_length fl a (Suc n) k)) (drop (frag_off fl base off k) b)
          @ icv (take (nat (payload_length fl a (Suc n) k)) (drop (frag_off fl base off k + h) b)))" if "k < Suc n" for k
  proof (cases k)
    case 0 then show ?thesis using st(7) first by (simp add: m_def)
  next
    case (Suc k')
    have "off + h + m + 4 \<le> frag_off fl base off' k'" using off'(1) that Suc frag_off_ge [of off' fl base k'] by auto
    then show ?thesis using IH(5) [of k'] that Suc rest by (simp add: off'_def payload_length_def)
  qed
  moreover have "take off b' = take off b"
    using arg_cong [OF IH(4), of "take off"] st(5) off'(2) by (simp add: min_absorb1)
  moreover have "frag_loop keyf a fl base (Suc n) off b g = Some (b', g')"
    using st(1,2) IH(1) pl by (simp add: off'_def)
  ultimately show ?case using IH(2,3) st(4) by (auto simp: Let_def h_def)
qed simp

end


subsection \<open>WEP on the fragment cipher\<close>

definition wep_key_ok :: "security_priv \<Rightarrow> nat \<Rightarrow> bool" where
  "wep_key_ok sec i \<longleftrightarrow> i < length (dot11DefKeylen sec) \<and> i < length (dot11DefKey sec)
     \<and> unat (dot11DefKeylen sec ! i) \<le> 13 \<and> unat (dot11DefKeylen sec ! i) \<le> length (dot11DefKey sec ! i)"

interpretation wep: frag_cipher "wep_key sec i" 3 "wep_key_ok sec i" for sec i
  by unfold_locales (auto simp: wep_key_def wep_key_ok_def idx_def rds_def)

lemma sint_frame_length:
  assumes "x + y + n < 2 ^ 31" "unat h = x" "unat v = y"
  shows "sint (of_nat (x + y + n) - ucast (h :: u8) - ucast (v :: u8) :: u32) = int n"
proof -
  have e: "of_nat (x + y + n) - ucast h - ucast v = (of_nat n :: u32)"
    using assms(2,3) by auto
  show ?thesis unfolding e by (rule sint_of_nat_u32) (use assms(1) in simp)
qed


lemma wep_opens_decrypt:
  assumes "wep.opens sec (unat (ra_key_index r)) a f pt" "crc_ok g"
    "ra_encrypt r = SEC_WEP40 \<or> ra_encrypt r = SEC_WEP104"
    "unat (ra_hdrlen r) = unat (ta_hdrlen a)" "ra_iv_len r = ta_iv_len a"
    "length f = length pt" "unat (ta_hdrlen a) + unat (ta_iv_len a) \<le> length pt" "length pt < 2 ^ 31"
  shows "\<exists>g'. rtw_wep_decrypt sec r (of_nat (length f)) f g = Some (pt, g')"
proof -
  define n where "n = length pt - (unat (ta_hdrlen a) + unat (ta_iv_len a))"
  have n: "length f = unat (ta_hdrlen a) + unat (ta_iv_len a) + n" using assms(6,7) by (simp add: n_def)
  have len: "sint (of_nat (length f) - ucast (ra_hdrlen r) - ucast (ra_iv_len r) :: u32) = int n"
    unfolding n by (rule sint_frame_length) (use assms(4,5,6,8) n in simp_all)
  obtain key kl where k: "wep_key sec (unat (ra_key_index r)) f (unat (ta_hdrlen a)) = Some (key, kl)"
    "rc4_open key kl f (unat (ta_hdrlen a) + unat (ta_iv_len a)) (int n) = Some pt"
    using assms(1) by (auto simp: wep.opens_def n_def)
  have "nat (int n - 4) + (unat (ta_hdrlen a) + unat (ta_iv_len a)) \<le> length pt" using n assms(6) by simp
  then show ?thesis
    using k assms(3-5) by (auto simp: rtw_wep_decrypt_def len [unfolded assms(5)] Let_def rds_def ac_simps split: prod.splits)
qed

text \<open>Round trip: for a key of at least one byte, \<open>arcfour_init\<close> returns a permutation of the 256 byte
  values, and from it \<open>arcfour_encrypt\<close> encrypts every byte string without leaving its state
  array and ends in a permutation again; encrypting the result from the same start gives the
  string back.\<close>

theorem arcfour_roundtrip:
  assumes "0 < key_len" "key_len \<le> length key"
  shows "\<exists>ctx ct ctx'. arcfour_init key key_len = Some ctx \<and> set (arc_state ctx) = UNIV
    \<and> arcfour_encrypt ctx src = Some (ct, ctx') \<and> length ct = length src
    \<and> length (arc_state ctx') = 256 \<and> set (arc_state ctx') = UNIV
    \<and> arcfour_encrypt ctx ct = Some (src, ctx')"
proof -
  obtain ctx where c: "arcfour_init key key_len = Some ctx" "arc_ok ctx" using arcfour_init_total [OF assms] by blast
  moreover obtain ct ctx' where e: "arcfour_encrypt ctx src = Some (ct, ctx')" "arc_ok ctx'" "length ct = length src"
    using arcfour_encrypt_total [OF c(2)] by blast
  ultimately show ?thesis using arcfour_encrypt_involution [OF e(1)] arc_ok_UNIV by (auto simp: arc_ok_def)
qed

theorem arcfour_roundtrip_witness:
  "\<exists>ctx ct ctx'. arcfour_init [1, 2, 3] 3 = Some ctx \<and> arcfour_encrypt ctx [0x41, 0x42] = Some (ct, ctx')
    \<and> arcfour_encrypt ctx ct = Some ([0x41, 0x42], ctx')"
  using arcfour_roundtrip [of 3 "[1, 2, 3]" "[0x41, 0x42]"] by auto

text \<open>C27. Equivalence: starting with the uninitialised table, and whenever the table has been set up,
  \<open>getcrc32\<close> and \<open>rtw_calc_crc32\<close> compute the complement of the bit-serial CRC-32 register over all the
  bytes, and leave the table set up.\<close>

theorem getcrc32_bit_serial:
  "crc_ok crc32_globals_init \<and>
   (crc_ok g \<longrightarrow> fst (getcrc32 g bs) = NOT (crc_serial 0xffffffff bs) \<and> fst (rtw_calc_crc32 g bs) = fst (getcrc32 g bs)
      \<and> crc_ok (snd (getcrc32 g bs)) \<and> crc_ok (snd (rtw_calc_crc32 g bs)))"
  using getcrc32_serial [of g bs]
  by (auto simp: crc_ok_def crc32_globals_init_def getcrc32_def rtw_calc_crc32_def)

theorem getcrc32_bit_serial_witness:
  "fst (getcrc32 crc32_globals_init [0x31, 0x32]) = NOT (crc_serial 0xffffffff [0x31, 0x32])"
  using getcrc32_bit_serial [of crc32_globals_init "[0x31, 0x32]"] by simp

text \<open>Round trip: every fragment that \<open>rtw_wep_encrypt\<close> leaves in the transmit buffer, taken as a
  received frame, is turned back by \<open>rtw_wep_decrypt\<close> under the same key into the header, IV
  and payload it was made of, followed by the CRC-32 of the payload. The buffer may hold any
  number of fragments, at the 4-byte aligned addresses the code computes.\<close>

theorem rtw_wep_roundtrip:
  assumes "buf_addr xf = Some (base, b)" "ta_encrypt a = SEC_WEP40 \<or> ta_encrypt a = SEC_WEP104"
    and "wep_key_ok sec (unat (dot11PrivacyKeyIndex sec))" "ta_iv_len a = 4" "crc_ok g" "length b < 2 ^ 31"
    and "frags_fit frag_len a base (unat (ta_nr_frags a)) (unat (hw_hdr_offset xf)) (length b)"
    and "ra_encrypt r = ta_encrypt a" "unat (ra_hdrlen r) = unat (ta_hdrlen a)" "ra_iv_len r = 4"
    and "unat (ra_key_index r) = unat (dot11PrivacyKeyIndex sec)"
  shows "\<exists>b' g'. rtw_wep_encrypt sec frag_len a xf g = Some (xf\<lparr>buf_addr := Some (base, b')\<rparr>, g') \<and> length b' = length b
    \<and> (\<forall>k < unat (ta_nr_frags a). \<exists>g''. let p = frag_off frag_len base (unat (hw_hdr_offset xf)) k;
           n = unat (ta_hdrlen a) + 4 + nat (payload_length frag_len a (unat (ta_nr_frags a)) k) in
         rtw_wep_decrypt sec r (of_nat (n + 4)) (take (n + 4) (drop p b')) g'
         = Some (take n (drop p b) @ icv (drop (unat (ta_hdrlen a) + 4) (take n (drop p b))), g''))"
proof -
  let ?i = "unat (dot11PrivacyKeyIndex sec)" and ?off = "unat (hw_hdr_offset xf)" and ?N = "unat (ta_nr_frags a)"
  let ?h = "unat (ta_hdrlen a)"
  have iv4: "unat (ta_iv_len a) = 4" using assms(4) by simp
  then have "3 \<le> unat (ta_iv_len a)" by simp
  from wep.frag_loop_opens [OF assms(5,3) this assms(7)] obtain b' g' where L:
    "frag_loop (wep_key sec ?i) a frag_len base ?N ?off b g = Some (b', g')" "crc_ok g'" "length b' = length b"
    "\<And>k. k < ?N \<Longrightarrow> let p = frag_off frag_len base ?off k; m = nat (payload_length frag_len a ?N k); h = ?h + unat (ta_iv_len a) in
        wep.opens sec ?i a (take (h + m + 4) (drop p b')) (take (h + m) (drop p b) @ icv (take m (drop (p + h) b)))"
    by blast
  have "\<exists>g''. let p = frag_off frag_len base ?off k; n = ?h + 4 + nat (payload_length frag_len a ?N k) in
         rtw_wep_decrypt sec r (of_nat (n + 4)) (take (n + 4) (drop p b')) g'
         = Some (take n (drop p b) @ icv (drop (?h + 4) (take n (drop p b))), g'')" if k: "k < ?N" for k
  proof -
    define p m where "p = frag_off frag_len base ?off k" and "m = nat (payload_length frag_len a ?N k)"
    have fit: "p + ?h + 4 + m + 4 \<le> length b"
      using assms(7) iv4 k by (auto simp: frags_fit_def p_def m_def)
    let ?f = "take (?h + 4 + m + 4) (drop p b')" and ?pt = "take (?h + 4 + m) (drop p b) @ icv (take m (drop (p + ?h + 4) b))"
    have lf: "length ?f = ?h + 4 + m + 4" "length ?pt = ?h + 4 + m + 4" using fit L(3) by simp_all
    have "wep.opens sec (unat (ra_key_index r)) a ?f ?pt"
      using L(4) [OF k] assms(11) by (simp add: iv4 Let_def p_def m_def ac_simps)
    from wep_opens_decrypt [OF this L(2)] lf fit assms(2,4,6,8-10) iv4
    show ?thesis by (simp add: Let_def p_def m_def drop_take ac_simps)
  qed
  with L(1,3) assms(1,2) show ?thesis by (auto simp: rtw_wep_encrypt_def)
qed


definition wep_example_sec :: security_priv where
  "wep_example_sec = \<lparr>dot11PrivacyKeyIndex = 0, dot11DefKey = replicate 6 (replicate 32 0x11),
     dot11DefKeylen = replicate 6 5, dot118021XGrpKeyid = 0, dot118021XGrpKey = [], binstallGrpkey = False\<rparr>"

definition wep_example_attrib :: pkt_attrib where
  "wep_example_attrib = \<lparr>ta_encrypt = SEC_WEP40, ta_hdrlen = 24, ta_iv_len = 4, ta_icv_len = 4, ta_nr_frags = 2,
     ta_last_txcmdsz = 37, ta_ra = [], ta_ta = [], ta_UncstKey = []\<rparr>"

theorem rtw_wep_roundtrip_witness:
  "\<exists>b' g' g''. rtw_wep_encrypt wep_example_sec 50 wep_example_attrib \<lparr>buf_addr = Some (0, replicate 200 7), pkt_offset = 0\<rparr> crc32_globals_init
       = Some (\<lparr>buf_addr = Some (0, b'), pkt_offset = 0\<rparr>, g')
     \<and> rtw_wep_decrypt wep_example_sec \<lparr>ra_encrypt = SEC_WEP40, ra_hdrlen = 24, ra_iv_len = 4, ra_key_index = 0, ra_ra = [], ra_ta = []\<rparr>
         37 (take 37 (drop 100 b')) g' = Some (replicate 33 7 @ icv (replicate 5 7), g'')"
proof -
  let ?a = wep_example_attrib and ?xf = "\<lparr>buf_addr = Some (0, replicate 200 7), pkt_offset = 0\<rparr>"
  let ?r = "\<lparr>ra_encrypt = SEC_WEP40, ra_hdrlen = 24, ra_iv_len = 4, ra_key_index = 0, ra_ra = [], ra_ta = []\<rparr>"
  have c: "unat (ta_nr_frags ?a) = 2" "unat (hw_hdr_offset ?xf) = 48" "unat (ta_hdrlen ?a) = 24"
    "RND4 98 = 100" "payload_length 50 ?a 2 (Suc 0) = 5"
    by code_simp+
  have g0: "crc_ok crc32_globals_init" by (simp add: crc_ok_def crc32_globals_init_def)
  have h0: "ta_encrypt ?a = SEC_WEP40 \<or> ta_encrypt ?a = SEC_WEP104"
    "wep_key_ok wep_example_sec (unat (dot11PrivacyKeyIndex wep_example_sec))" "ta_iv_len ?a = 4"
    "frags_fit 50 ?a 0 2 48 200"
    "ra_encrypt ?r = ta_encrypt ?a" "unat (ra_hdrlen ?r) = unat (ta_hdrlen ?a)" "ra_iv_len ?r = 4"
    "unat (ra_key_index ?r) = unat (dot11PrivacyKeyIndex wep_example_sec)"
    by code_simp+
  from rtw_wep_roundtrip [OF _ h0(1-3) g0 _ _ h0(5-8), of ?xf 0 "replicate 200 7" 50] h0(4) obtain b' g' where
    e: "rtw_wep_encrypt wep_example_sec 50 ?a ?xf crc32_globals_init = Some (?xf\<lparr>buf_addr := Some (0, b')\<rparr>, g')"
    and d: "\<And>k. k < 2 \<Longrightarrow> \<exists>g''. let p = frag_off 50 0 48 k; n = 24 + 4 + nat (payload_length 50 ?a 2 k) in
         rtw_wep_decrypt wep_example_sec ?r (of_nat (n + 4)) (take (n + 4) (drop p b')) g'
         = Some (take n (drop p (replicate 200 7)) @ icv (drop (24 + 4) (take n (drop p (replicate 200 7)))), g'')"
    by (auto simp: c)
  from d [of "Suc 0"] obtain g'' where "rtw_wep_decrypt wep_example_sec ?r 37 (take 37 (drop 100 b')) g'
      = Some (replicate 33 7 @ icv (replicate 5 7), g'')"
    by (auto simp: c Let_def)
  with e show ?thesis by auto
qed

end
