(* ===== verification/Recv_Validate.thy ===== *)
theory Recv_Validate
  imports Recv_Defrag Sta_Table Sec_Wep
begin

text \<open>
  The validation of received data frames (\<^verbatim>\<open>core/rtw_recv.c\<close>: \<open>recv_decache\<close>,
  \<open>recv_ucast_pn_decache\<close>, \<open>recv_bcast_pn_decache\<close>, \<open>rtw_sta_rx_data_validate_hdr\<close>,
  \<open>sta2sta_data_frame\<close>, \<open>ap2sta_data_frame\<close>, \<open>sta2ap_data_frame\<close>, \<open>validate_recv_data_frame\<close>,
  \<open>validate_recv_frame\<close>; \<^verbatim>\<open>core/rtw_ap.c\<close>: \<open>rtw_ap_rx_data_validate_hdr\<close>): address filtering, duplicate
  detection, packet numbers, and the rules on unprotected frames in a protected network.

  The handlers work on the station table, the keys and a log \<open>rx_calls\<close> of the calls they make into other components
  (deauthentication frames, power saving of stations, statistics). TDLS, mesh, WDS, WAPI and the manufacturing
  mode are not part of the default build. A frame is read through \<open>rdf\<close>, at an offset from \<open>rx_data\<close>.
\<close>

record rx_security = security_priv +
  dot118021XGrprxmickey :: "buf list"
  bcheck_grpkey :: bool
  iv_seq :: "buf list"
  dot11AuthAlgrthm :: u32
  dot11PrivacyAlgrthm :: u32
  dot118021XGrpPrivacy :: u32
  hw_decrypted :: bool
  busetkipkey :: bool
  last_mic_err_time :: u64
  btkip_countermeasure :: bool
  btkip_countermeasure_time :: u64

datatype rx_call = IssueDeauth buf | ProcessPwrbitData nat | ProcessWmmpsData nat | CountRxStats nat
  | ValidateMgntFrame | ValidateCtrlFrame | MichaelMicFailure buf bool

record rx_state =
  stapriv :: sta_priv
  securitypriv :: rx_security
  recvpriv :: recv_priv
  crc_state :: crc32_globals
  rx_calls :: "rx_call list"
  send_issue_deauth_time :: u64
  ap2sta_deauth_time :: u64
  is_any_non_be_pkts :: bool

text \<open>What the handlers read of the adapter; \<open>passing_ms\<close> is \<open>rtw_get_passing_time_ms\<close>, the kernel's clock.\<close>

record rx_env =
  fw_state :: u32
  my_mac :: buf
  my_bssid :: buf
  radar_detected :: bool
  cur_time :: u64
  hz :: u64
  mlme_key_index :: u8
  passing_ms :: "u64 \<Rightarrow> u64"

definition rdf :: "rx_frame \<Rightarrow> nat \<Rightarrow> nat \<Rightarrow> buf option" where
  "rdf f off n = rds (mem f) (rx_data f + off) n"

definition rdf16 :: "rx_frame \<Rightarrow> nat \<Rightarrow> u16 option" where
  "rdf16 f off = RTW_GET_LE16 (mem f) (rx_data f + off)"

definition WIFI_STATION_STATE :: u32 where "WIFI_STATION_STATE = 0x00000008"
definition WIFI_AP_STATE :: u32 where "WIFI_AP_STATE = 0x00000010"
definition WIFI_ADHOC_STATE :: u32 where "WIFI_ADHOC_STATE = 0x00000020"
definition WIFI_ADHOC_MASTER_STATE :: u32 where "WIFI_ADHOC_MASTER_STATE = 0x00000040"
definition WIFI_UNDER_LINKING :: u32 where "WIFI_UNDER_LINKING = 0x00000080"
definition WIFI_MP_STATE :: u32 where "WIFI_MP_STATE = 0x00010000"

definition check_fwstate :: "rx_env \<Rightarrow> u32 \<Rightarrow> bool" where
  "check_fwstate env s \<longleftrightarrow> s = 0 \<and> fw_state env = 0 \<or> fw_state env AND s \<noteq> 0"

subsection \<open>Duplicates and packet numbers\<close>

definition recv_decache :: "sta_info \<Rightarrow> rx_frame \<Rightarrow> bool \<times> sta_info" where
  "recv_decache s f =
     (let tid = unat (priority f);
          seq_ctrl = push_bit 4 (seq_num f AND 0xffff) OR (ucast (frag_num f) AND 0xf);
          dup = (False, s\<lparr>duplicate_cnt := duplicate_cnt s + 1\<rparr>) in
      if tid > 15 then (False, s)
      else if qos f then
        if is_mcast (ra f) then
          if seq_ctrl = bmc_tid_rxseq s ! tid then dup
          else (True, s\<lparr>bmc_tid_rxseq := (bmc_tid_rxseq s)[tid := seq_ctrl]\<rparr>)
        else
          if seq_ctrl = tid_rxseq s ! tid then dup
          else (True, s\<lparr>tid_rxseq := (tid_rxseq s)[tid := seq_ctrl]\<rparr>)
      else if is_mcast (ra f) then
        if seq_ctrl = nonqos_bmc_rxseq s then dup else (True, s\<lparr>nonqos_bmc_rxseq := seq_ctrl\<rparr>)
      else
        if seq_ctrl = nonqos_rxseq s then dup else (True, s\<lparr>nonqos_rxseq := seq_ctrl\<rparr>))"

definition PN_LESS_CHK :: "u64 \<Rightarrow> u64 \<Rightarrow> bool" where
  "PN_LESS_CHK a b \<longleftrightarrow> (a - b) AND 0x800000000000 \<noteq> 0"

definition VALID_PN_CHK :: "u64 \<Rightarrow> u64 \<Rightarrow> bool" where
  "VALID_PN_CHK new old \<longleftrightarrow> old = 0 \<or> PN_LESS_CHK old new"

definition CCMPH_2_KEYID :: "u64 \<Rightarrow> nat" where
  "CCMPH_2_KEYID ch = unat (drop_bit 30 (ch AND 0x00000000c0000000))"

text \<open>\<open>cpu_to_le64\<close> as eight bytes.\<close>

definition le64_bytes :: "u64 \<Rightarrow> buf" where
  "le64_bytes w = map (\<lambda>i. ucast (drop_bit (8 * i) w)) [0..<8]"

definition recv_ucast_pn_decache :: "sta_info \<Rightarrow> rx_frame \<Rightarrow> (bool \<times> sta_info) option" where
  "recv_ucast_pn_decache s f =
     (let tid = unat (priority f) in
      if tid > 15 then Some (False, s)
      else if encrypt f = SEC_AES then
        do { iv \<leftarrow> rdf f (unat (hdrlen f)) 8;
             let pkt_pn = CCMPH_2_PN (le64 iv);
             let curr_pn = CCMPH_2_PN (le64 (rxcache_iv s ! tid));
             Some (True, if \<not> VALID_PN_CHK pkt_pn curr_pn then s
                         else s\<lparr>last_tid := priority f, rxcache_iv := (rxcache_iv s)[tid := iv]\<rparr>) }
      else Some (True, s))"

definition recv_bcast_pn_decache :: "rx_env \<Rightarrow> rx_security \<Rightarrow> rx_frame \<Rightarrow> (bool \<times> rx_security) option" where
  "recv_bcast_pn_decache env sec f =
     (if encrypt f = SEC_AES \<and> check_fwstate env WIFI_STATION_STATE then
        do { iv \<leftarrow> rdf f (unat (hdrlen f)) 8;
             let key_id = CCMPH_2_KEYID (le64 iv);
             let pkt_pn = CCMPH_2_PN (le64 iv);
             let curr_pn = le64 (iv_seq sec ! key_id) AND 0x0000ffffffffffff;
             Some (if \<not> VALID_PN_CHK pkt_pn curr_pn then (False, sec)
                   else (True, sec\<lparr>iv_seq := (iv_seq sec)[key_id := le64_bytes pkt_pn]\<rparr>)) }
      else Some (True, sec))"

subsection \<open>Addresses\<close>

text \<open>
  The validators of the header return a code, the station and the frame with its address fields. The three
  addresses of the header lie before the sequence control field, which \<open>validate_recv_frame\<close> has already read.
\<close>

type_synonym hdr_result = "(rx_ret \<times> nat option \<times> rx_frame \<times> rx_state) option"

definition rx_log :: "rx_call \<Rightarrow> rx_state \<Rightarrow> rx_state" where
  "rx_log c s = s\<lparr>rx_calls := rx_calls s @ [c]\<rparr>"

text \<open>The filter on the source address, the lookup of the transmitter and the frames without data.\<close>

definition sta_rx_filter :: "rx_env \<Rightarrow> bool \<Rightarrow> rx_state \<Rightarrow> rx_frame \<Rightarrow> hdr_result" where
  "sta_rx_filter env is_ra_bmc s f =
     (if amsdu f = 0 \<and> my_mac env = src f then Some (RX_FAIL, None, f, s)
      else (case rtw_get_stainfo (stapriv s) (Some (ta f)) of
              None \<Rightarrow> Some (RX_FAIL, None, f,
                if \<not> is_ra_bmc \<and> \<not> radar_detected env then rx_log (IssueDeauth (ta f)) s else s)
            | Some i \<Rightarrow>
                do { fc \<leftarrow> rdf16 f 0;
                     if bit fc 6 then Some (RX_HANDLED, Some i, f, rx_log (CountRxStats i) s)
                     else Some (RX_SUCCESS, Some i, f, s) }))"

definition rtw_sta_rx_data_validate_hdr :: "rx_env \<Rightarrow> rx_state \<Rightarrow> rx_frame \<Rightarrow> hdr_result" where
  "rtw_sta_rx_data_validate_hdr env s f =
     do { a1 \<leftarrow> rdf f 4 6; a2 \<leftarrow> rdf f 10 6; a3 \<leftarrow> rdf f 16 6;
          let is_ra_bmc = is_mcast a1;
          if to_fr_ds f = 0 then
            (let f = f\<lparr>ra := a1, ta := a2, dst := a1, src := a2, bssid := a3\<rparr> in
             if bssid f \<noteq> src f then Some (RX_FAIL, None, f, s)
             else (case rtw_get_stainfo (stapriv s) (Some a2) of
                     None \<Rightarrow> Some (RX_FAIL, None, f, s)
                   | Some i \<Rightarrow> Some (RX_SUCCESS, Some i, f, s)))
          else if fw_state env AND (WIFI_ASOC_STATE OR WIFI_UNDER_LINKING) = 0 then
            Some (RX_FAIL, None, f,
              if \<not> is_ra_bmc \<and> (passing_ms env (send_issue_deauth_time s) > 10000 \<or> send_issue_deauth_time s = 0)
              then rx_log (IssueDeauth a2) (s\<lparr>send_issue_deauth_time := cur_time env\<rparr>) else s)
          else if to_fr_ds f \<noteq> 2 \<and> to_fr_ds f \<noteq> 3 then Some (RX_HANDLED, None, f\<lparr>ra := a1, ta := a2\<rparr>, s)
          else do {
            f \<leftarrow> (if to_fr_ds f = 2 then Some (f\<lparr>ra := a1, ta := a2, dst := a1, src := a3, bssid := a2\<rparr>)
                  else do { a4 \<leftarrow> rdf f 24 6;
                            Some (f\<lparr>ra := a1, ta := a2, dst := a3, src := a4, bssid := a2\<rparr>) });
            sta_rx_filter env is_ra_bmc s f } }"

definition rtw_ap_rx_data_validate_hdr :: "rx_env \<Rightarrow> rx_state \<Rightarrow> rx_frame \<Rightarrow> hdr_result" where
  "rtw_ap_rx_data_validate_hdr env s f =
     (if fw_state env AND WIFI_ASOC_STATE = 0 then Some (RX_FAIL, None, f, s)
      else do {
        a1 \<leftarrow> rdf f 4 6; a2 \<leftarrow> rdf f 10 6; a3 \<leftarrow> rdf f 16 6;
        if to_fr_ds f = 1 \<and> is_mcast a1 then Some (RX_FAIL, None, f, s)
        else if to_fr_ds f \<noteq> 1 \<and> to_fr_ds f \<noteq> 3 then Some (RX_HANDLED, None, f, s)
        else do {
          f \<leftarrow> (if to_fr_ds f = 1 then Some (f\<lparr>ra := a1, ta := a2, dst := a3, src := a2, bssid := a1\<rparr>)
                else do { a4 \<leftarrow> rdf f 24 6;
                          let f = f\<lparr>ra := a1, ta := a2, dst := a3, src := a4\<rparr>;
                          Some (if is_mcast a1 then f else f\<lparr>bssid := a1\<rparr>) });
          let is_ra_bmc = (to_fr_ds f = 3 \<and> is_mcast a1);
          (case rtw_get_stainfo (stapriv s) (Some (ta f)) of
             None \<Rightarrow> Some (RX_HANDLED, None, f,
               if \<not> is_ra_bmc \<and> \<not> radar_detected env then rx_log (IssueDeauth (ta f)) s else s)
           | Some i \<Rightarrow>
               do { fc \<leftarrow> rdf16 f 0;
                    let s = rx_log (ProcessPwrbitData i) s;
                    let s = (if bit fc 7 \<and> bit fc 3 then rx_log (ProcessWmmpsData i) s else s);
                    if bit fc 6 then Some (RX_HANDLED, Some i, f, rx_log (CountRxStats i) s)
                    else Some (RX_SUCCESS, Some i, f, s) }) } })"

text \<open>The validators of the modes that are neither station nor access point.\<close>

definition mp_addrs :: "rx_frame \<Rightarrow> buf \<Rightarrow> buf \<Rightarrow> buf \<Rightarrow> rx_frame" where
  "mp_addrs f a1 a2 a3 = f\<lparr>dst := a1, src := a2, bssid := a3, ra := a1, ta := a2\<rparr>"

definition sta2sta_data_frame :: "rx_env \<Rightarrow> rx_state \<Rightarrow> rx_frame \<Rightarrow> hdr_result" where
  "sta2sta_data_frame env s f =
     (let zero = replicate 6 0 in
      if check_fwstate env WIFI_ADHOC_STATE \<or> check_fwstate env WIFI_ADHOC_MASTER_STATE then
        if my_mac env = src f \<or> (my_mac env \<noteq> dst f \<and> \<not> is_mcast (dst f))
           \<or> bssid f = zero \<or> my_bssid env = zero \<or> bssid f \<noteq> my_bssid env
        then Some (RX_FAIL, None, f, s)
        else (case rtw_get_stainfo (stapriv s) (Some (ta f)) of
                None \<Rightarrow> Some (RX_FAIL, None, f, s)
              | Some i \<Rightarrow> Some (RX_SUCCESS, Some i, f, s))
      else if check_fwstate env WIFI_MP_STATE then
        do { a1 \<leftarrow> rdf f 4 6; a2 \<leftarrow> rdf f 10 6; a3 \<leftarrow> rdf f 16 6;
             let f = mp_addrs f a1 a2 a3;
             (case rtw_get_stainfo (stapriv s) (Some (my_bssid env)) of
                None \<Rightarrow> Some (RX_FAIL, None, f, s)
              | Some i \<Rightarrow> Some (RX_SUCCESS, Some i, f, s)) }
      else Some (RX_FAIL, rtw_get_stainfo (stapriv s) (Some (ta f)), f, s))"

definition ap2sta_data_frame :: "rx_env \<Rightarrow> rx_state \<Rightarrow> rx_frame \<Rightarrow> hdr_result" where
  "ap2sta_data_frame env s f =
     (if check_fwstate env WIFI_MP_STATE \<and> check_fwstate env WIFI_ASOC_STATE then
        do { a1 \<leftarrow> rdf f 4 6; a2 \<leftarrow> rdf f 10 6; a3 \<leftarrow> rdf f 16 6;
             let f = mp_addrs f a1 a2 a3;
             (case rtw_get_stainfo (stapriv s) (Some (bssid f)) of
                None \<Rightarrow> Some (RX_FAIL, None, f, s)
              | Some i \<Rightarrow> Some (RX_SUCCESS, Some i, f, s)) }
      else
        let psta = (if my_mac env = dst f \<and> \<not> is_mcast (dst f) then rtw_get_stainfo (stapriv s) (Some (ta f)) else None) in
        Some (RX_FAIL, psta, f,
          if my_mac env = dst f \<and> \<not> is_mcast (dst f) \<and> psta = None
             \<and> (passing_ms env (ap2sta_deauth_time s) > 10000 \<or> ap2sta_deauth_time s = 0)
          then rx_log (IssueDeauth (bssid f)) (s\<lparr>ap2sta_deauth_time := cur_time env\<rparr>) else s))"

definition sta2ap_data_frame :: "rx_env \<Rightarrow> rx_state \<Rightarrow> rx_frame \<Rightarrow> hdr_result" where
  "sta2ap_data_frame env s f =
     (if check_fwstate env WIFI_MP_STATE \<and> check_fwstate env WIFI_ASOC_STATE then
        do { a1 \<leftarrow> rdf f 4 6; a2 \<leftarrow> rdf f 10 6; a3 \<leftarrow> rdf f 16 6;
             let f = mp_addrs f a1 a2 a3;
             (case rtw_get_stainfo (stapriv s) (Some (bssid f)) of
                None \<Rightarrow> Some (RX_FAIL, None, f, s)
              | Some i \<Rightarrow> Some (RX_SUCCESS, Some i, f, s)) }
      else if ra f \<noteq> my_mac env then Some (RX_HANDLED, None, f, s)
      else Some (RX_HANDLED, None, f, rx_log (IssueDeauth (src f)) s))"

definition other_rx_data_validate_hdr :: "rx_env \<Rightarrow> rx_state \<Rightarrow> rx_frame \<Rightarrow> hdr_result" where
  "other_rx_data_validate_hdr env s f =
     do { a1 \<leftarrow> rdf f 4 6; a2 \<leftarrow> rdf f 10 6; a3 \<leftarrow> rdf f 16 6;
          if to_fr_ds f = 0 then sta2sta_data_frame env s (f\<lparr>ra := a1, ta := a2, dst := a1, src := a2, bssid := a3\<rparr>)
          else if to_fr_ds f = 1 then sta2ap_data_frame env s (f\<lparr>ra := a1, ta := a2, dst := a3, src := a2, bssid := a1\<rparr>)
          else if to_fr_ds f = 2 then ap2sta_data_frame env s (f\<lparr>ra := a1, ta := a2, dst := a1, src := a3, bssid := a2\<rparr>)
          else Some (RX_FAIL, None, f, s) }"

subsection \<open>Data frames\<close>

definition dot11AuthAlgrthm_8021X :: u32 where "dot11AuthAlgrthm_8021X = 2"
definition WLAN_STA_AMSDU_DISABLE :: u32 where "WLAN_STA_AMSDU_DISABLE = 0x20000"
definition SEC_SMS4 :: u8 where "SEC_SMS4 = 0x06"

definition GET_ENCRY_ALGO :: "rx_security \<Rightarrow> sta_info \<Rightarrow> u8 \<Rightarrow> bool \<Rightarrow> u8" where
  "GET_ENCRY_ALGO sec sta encry_algo bmcst =
     (if dot11AuthAlgrthm sec = 0 \<or> dot11AuthAlgrthm sec = 1 \<or> dot11AuthAlgrthm sec = 3 \<or> dot11AuthAlgrthm sec = 4
      then ucast (dot11PrivacyAlgrthm sec)
      else if dot11AuthAlgrthm sec = dot11AuthAlgrthm_8021X
      then (if bmcst then ucast (dot118021XGrpPrivacy sec) else ucast (dot118021XPrivacy sta))
      else encry_algo)"

text \<open>The pair of \<open>iv_len\<close> and \<open>icv_len\<close>.\<close>

definition SET_ICE_IV_LEN :: "u8 \<Rightarrow> u8 \<times> u8" where
  "SET_ICE_IV_LEN e =
     (if e = SEC_WEP40 \<or> e = SEC_WEP104 then (4, 4)
      else if e = SEC_TKIP then (8, 4)
      else if e = SEC_AES then (8, 8)
      else if e = SEC_GCMP \<or> e = SEC_GCMP_256 then (8, 16)
      else if e = SEC_CCMP_256 then (8, 16)
      else if e = SEC_SMS4 then (18, 16)
      else (0, 0))"

definition set_sta :: "nat \<Rightarrow> sta_info \<Rightarrow> rx_state \<Rightarrow> rx_state" where
  "set_sta i si s = s\<lparr>stapriv := (stapriv s)\<lparr>stainfo := (stainfo (stapriv s))[i := si]\<rparr>\<rparr>"

text \<open>The QoS control field: priority, ack policy and header length.\<close>

definition parse_qc :: "nat \<Rightarrow> rx_frame \<Rightarrow> rx_state \<Rightarrow> (rx_frame \<times> rx_state) option" where
  "parse_qc a4_shift f s =
     (if qos f then
        do { qc \<leftarrow> rdf16 f (24 + a4_shift);
             let pri = ucast (qc AND 0xf);
             Some (f\<lparr>priority := pri, ack_policy := ucast (drop_bit 5 qc AND 3), hdrlen := of_nat (26 + a4_shift)\<rparr>,
                   s\<lparr>is_any_non_be_pkts := (pri \<noteq> 0 \<and> pri \<noteq> 3)\<rparr>) }
      else Some (f\<lparr>priority := 0, hdrlen := of_nat (24 + a4_shift)\<rparr>, s))"

text \<open>The checks on packet numbers; for unicast QoS data also the choice of the reordering control.\<close>

definition pn_decache :: "rx_env \<Rightarrow> nat \<Rightarrow> rx_frame \<Rightarrow> rx_state \<Rightarrow> (bool \<times> rx_frame \<times> rx_state) option" where
  "pn_decache env i f s =
     (if \<not> is_mcast (ra f) then
        do { let f = (if qos f then f\<lparr>preorder_tid := Some (unat (priority f))\<rparr> else f);
             (ok, si) \<leftarrow> recv_ucast_pn_decache (stainfo (stapriv s) ! i) f;
             Some (ok, f, set_sta i si s) }
      else
        do { (ok, sec) \<leftarrow> recv_bcast_pn_decache env (securitypriv s) f;
             Some (ok, f, s\<lparr>securitypriv := sec\<rparr>) })"

definition set_cipher :: "rx_security \<Rightarrow> sta_info \<Rightarrow> rx_frame \<Rightarrow> rx_frame" where
  "set_cipher sec si f =
     (if privacy f \<noteq> 0 then
        let e = GET_ENCRY_ALGO sec si (encrypt f) (is_mcast (ra f)) in
        f\<lparr>encrypt := e, iv_len := fst (SET_ICE_IV_LEN e), icv_len := snd (SET_ICE_IV_LEN e)\<rparr>
      else f\<lparr>encrypt := 0, iv_len := 0, icv_len := 0\<rparr>)"

text \<open>The rules for unprotected frames in a protected network: whether the frame may pass.\<close>

definition protection_ok :: "rx_env \<Rightarrow> rx_security \<Rightarrow> sta_info \<Rightarrow> rx_frame \<Rightarrow> bool option" where
  "protection_ok env sec si f =
     (if dot11PrivacyAlgrthm sec = 0 then Some True
      else if is_mcast (ra f) then Some (privacy f \<noteq> 0)
      else do {
        ether_type \<leftarrow> RTW_GET_BE16 (mem f) (rx_data f + unat (hdrlen f) + unat (iv_len f) + 6);
        Some (if dot11AuthAlgrthm sec = dot11AuthAlgrthm_8021X then
                if privacy f = 0 \<and> ether_type \<noteq> 0x888e then False
                else if privacy f = 0 \<and> amsdu f \<noteq> 0 then False
                else if ether_type = 0x888e \<and> check_fwstate env WIFI_AP_STATE
                        \<and> dot118021XPrivacy si = 0 \<and> my_mac env \<noteq> dst f then False
                else True
              else privacy f \<noteq> 0) })"

text \<open>The frame of a known station: from the QoS control field to the end.\<close>

definition validate_sta_data_frame ::
  "rx_env \<Rightarrow> nat \<Rightarrow> nat \<Rightarrow> rx_state \<Rightarrow> rx_frame \<Rightarrow> (rx_ret \<times> rx_frame \<times> rx_state) option" where
  "validate_sta_data_frame env i a4_shift s f =
     do { (f, s) \<leftarrow> parse_qc a4_shift (f\<lparr>frame_sta := Some i, preorder_tid := None, ack_policy := 0\<rparr>) s;
          let f = (if order f \<noteq> 0 then f\<lparr>hdrlen := hdrlen f + 4\<rparr> else f);
          let (ok, si) = recv_decache (stainfo (stapriv s) ! i) f;
          let s = set_sta i si s;
          if \<not> ok then Some (RX_FAIL, f, s)
          else do {
            (ok, f, s) \<leftarrow> pn_decache env i f s;
            if \<not> ok then Some (RX_FAIL, f, s)
            else do {
              let f = set_cipher (securitypriv s) (stainfo (stapriv s) ! i) f;
              ok \<leftarrow> protection_ok env (securitypriv s) (stainfo (stapriv s) ! i) f;
              Some (if ok then RX_SUCCESS else RX_FAIL, f, s) } } }"

definition validate_recv_data_frame :: "rx_env \<Rightarrow> rx_state \<Rightarrow> rx_frame \<Rightarrow> (rx_ret \<times> rx_frame \<times> rx_state) option" where
  "validate_recv_data_frame env s f =
     do { let a4_shift = (if to_fr_ds f = 3 then 6 else 0);
          f \<leftarrow> (if qos f then do { qc \<leftarrow> rdf16 f (24 + a4_shift); Some (f\<lparr>amsdu := ucast (drop_bit 7 qc AND 1)\<rparr>) }
                else Some (f\<lparr>amsdu := 0\<rparr>));
          (ret, psta, f, s) \<leftarrow> (if check_fwstate env WIFI_AP_STATE then rtw_ap_rx_data_validate_hdr env s f
                                 else if check_fwstate env WIFI_STATION_STATE then rtw_sta_rx_data_validate_hdr env s f
                                 else other_rx_data_validate_hdr env s f);
          if ret \<noteq> RX_SUCCESS then Some (ret, f, s)
          else (case psta of
                  None \<Rightarrow> Some (RX_FAIL, f, s)
                | Some i \<Rightarrow>
                    if sta_flags (stainfo (stapriv s) ! i) AND WLAN_STA_AMSDU_DISABLE \<noteq> 0 \<and> amsdu f \<noteq> 0 then Some (RX_FAIL, f, s)
                    else validate_sta_data_frame env i a4_shift s f) }"

subsection \<open>All frames\<close>

definition count_rx_drop :: "rx_state \<Rightarrow> rx_state" where
  "count_rx_drop s = s\<lparr>recvpriv := (recvpriv s)\<lparr>dbg_rx_drop_count := dbg_rx_drop_count (recvpriv s) + 1\<rparr>\<rparr>"

text \<open>The fields \<open>pw_save\<close> and \<open>mdata\<close> of the attributes, which no modelled code reads, are left out.\<close>

definition validate_recv_frame :: "rx_env \<Rightarrow> rx_state \<Rightarrow> rx_frame \<Rightarrow> (rx_ret \<times> rx_frame \<times> rx_state) option" where
  "validate_recv_frame env s f =
     do { b0 \<leftarrow> rd (mem f) (rx_data f);
          if b0 AND 3 \<noteq> 0 then Some (RX_FAIL, f, s)
          else do {
            fc \<leftarrow> rdf16 f 0;
            sc \<leftarrow> rdf16 f 22;
            let f = f\<lparr>to_fr_ds := (if bit fc 9 then 2 else 0) OR (if bit fc 8 then 1 else 0),
                      frag_num := ucast (sc AND 0xf), seq_num := drop_bit 4 sc,
                      mfrag := (if bit fc 10 then 1 else 0), privacy := (if bit fc 14 then 1 else 0),
                      order := (if bit fc 15 then 1 else 0)\<rparr>;
            if fc AND 0xc = 0 then Some (RX_FAIL, f, rx_log ValidateMgntFrame s)
            else if fc AND 0xc = 4 then Some (RX_FAIL, f, rx_log ValidateCtrlFrame s)
            else if fc AND 0xc = 8 then
              do { (ret, f, s) \<leftarrow> validate_recv_data_frame env s (f\<lparr>qos := bit fc 7\<rparr>);
                   Some (ret, f, if ret = RX_FAIL then count_rx_drop s else s) }
            else Some (RX_FAIL, f, s) } }"

subsection \<open>What passes\<close>

text \<open>The header validators only fill in addresses; they change neither the table nor the keys.\<close>

definition same_attrib :: "rx_frame \<Rightarrow> rx_frame \<Rightarrow> bool" where
  "same_attrib f g \<longleftrightarrow> mem g = mem f \<and> rx_data g = rx_data f \<and> privacy g = privacy f \<and> order g = order f
     \<and> qos g = qos f \<and> amsdu g = amsdu f \<and> to_fr_ds g = to_fr_ds f"

definition hdr_room :: "rx_frame \<Rightarrow> bool" where
  "hdr_room f \<longleftrightarrow> rx_data f + 62 \<le> length (mem f)"

lemma rdf_room: "hdr_room f \<Longrightarrow> off + n \<le> 62 \<Longrightarrow> \<exists>b. rdf f off n = Some b \<and> length b = n"
  by (auto simp: rdf_def rds_def hdr_room_def)

lemma rdf16_room: "hdr_room f \<Longrightarrow> off + 2 \<le> 62 \<Longrightarrow> \<exists>w. rdf16 f off = Some w"
  by (auto simp: rdf16_def RTW_GET_LE16_def rd_def hdr_room_def)

text \<open>The station a validator finds: the transmitter, or the BSS in the manufacturing mode.\<close>

definition sta_of_frame :: "rx_env \<Rightarrow> rx_state \<Rightarrow> rx_frame \<Rightarrow> nat option \<Rightarrow> bool" where
  "sta_of_frame env s f sta \<longleftrightarrow> sta \<noteq> None \<and>
     (if check_fwstate env WIFI_MP_STATE \<and> \<not> check_fwstate env WIFI_AP_STATE \<and> \<not> check_fwstate env WIFI_STATION_STATE
      then \<exists>a. sta = rtw_get_stainfo (stapriv s) (Some a) else sta = rtw_get_stainfo (stapriv s) (Some (ta f)))"

definition hdr_valid :: "rx_env \<Rightarrow> rx_state \<Rightarrow> rx_frame \<Rightarrow> hdr_result \<Rightarrow> bool" where
  "hdr_valid env s f r \<longleftrightarrow> (\<exists>ret sta g s'. r = Some (ret, sta, g, s') \<and> same_attrib f g \<and> stapriv s' = stapriv s
     \<and> securitypriv s' = securitypriv s \<and> (ret = RX_SUCCESS \<longrightarrow> sta_of_frame env s g sta))"

lemma hdr_validI:
  "same_attrib f g \<Longrightarrow> stapriv s' = stapriv s \<Longrightarrow> securitypriv s' = securitypriv s \<Longrightarrow>
   (ret = RX_SUCCESS \<Longrightarrow> sta_of_frame env s g sta) \<Longrightarrow> hdr_valid env s f (Some (ret, sta, g, s'))"
  unfolding hdr_valid_def by blast

lemma sta_of_frameI:
  "rtw_get_stainfo (stapriv s) (Some a) = Some i \<Longrightarrow>
   (check_fwstate env WIFI_MP_STATE \<and> \<not> check_fwstate env WIFI_AP_STATE \<and> \<not> check_fwstate env WIFI_STATION_STATE) \<or> a = ta f \<Longrightarrow>
   sta_of_frame env s f (Some i)"
  unfolding sta_of_frame_def by (metis option.distinct(1))

lemma rx_log_same [simp]: "stapriv (rx_log c s) = stapriv s" "securitypriv (rx_log c s) = securitypriv s"
  by (simp_all add: rx_log_def)

lemma hdr_reads:
  assumes "hdr_room f"
  obtains a1 a2 a3 a4 fc where "rds (mem f) (rx_data f + 4) 6 = Some a1" "rds (mem f) (rx_data f + 10) 6 = Some a2"
    "rds (mem f) (rx_data f + 16) 6 = Some a3" "rds (mem f) (rx_data f + 24) 6 = Some a4"
    "RTW_GET_LE16 (mem f) (rx_data f + 0) = Some fc"
  using rdf_room [OF assms, of 4 6] rdf_room [OF assms, of 10 6] rdf_room [OF assms, of 16 6] rdf_room [OF assms, of 24 6]
    rdf16_room [OF assms, of 0] unfolding rdf_def rdf16_def by auto

lemmas hdr_defs = hdr_valid_def same_attrib_def sta_of_frame_def rdf_def rdf16_def Let_def

lemma sta_rx_filter_valid:
  assumes "hdr_room g" "check_fwstate env WIFI_STATION_STATE" "same_attrib f g"
  shows "hdr_valid env s f (sta_rx_filter env mc s g)"
proof -
  obtain fc where "rdf16 g 0 = Some fc" using rdf16_room [OF assms(1), of 0] by auto
  then show ?thesis unfolding sta_rx_filter_def using assms(2,3)
    by (auto intro!: hdr_validI simp: sta_of_frame_def split: option.split)
qed

lemma sta_validate_hdr:
  assumes "hdr_room f" "check_fwstate env WIFI_STATION_STATE"
  shows "hdr_valid env s f (rtw_sta_rx_data_validate_hdr env s f)"
proof -
  obtain a1 a2 a3 a4 fc where a: "rds (mem f) (rx_data f + 4) 6 = Some a1" "rds (mem f) (rx_data f + 10) 6 = Some a2"
    "rds (mem f) (rx_data f + 16) 6 = Some a3" "rds (mem f) (rx_data f + 24) 6 = Some a4"
    "RTW_GET_LE16 (mem f) (rx_data f + 0) = Some fc" using hdr_reads [OF assms(1)] .
  consider "to_fr_ds f = 0" | "to_fr_ds f \<noteq> 0" "fw_state env AND (WIFI_ASOC_STATE OR WIFI_UNDER_LINKING) = 0"
    | "to_fr_ds f \<noteq> 0" "fw_state env AND (WIFI_ASOC_STATE OR WIFI_UNDER_LINKING) \<noteq> 0" by blast
  then show ?thesis
  proof cases
    case 3
    have t: "hdr_valid env s f (sta_rx_filter env mc s g)" if "same_attrib f g" for g mc
      using sta_rx_filter_valid [OF _ assms(2) that] assms(1) that by (simp add: hdr_room_def same_attrib_def)
    show ?thesis
      unfolding rtw_sta_rx_data_validate_hdr_def rdf_def a Option.bind.bind_lunit Let_def using 3 a(4)
      by (auto intro!: t hdr_validI) (simp_all add: same_attrib_def)
  qed (auto simp: rtw_sta_rx_data_validate_hdr_def rdf_def a Let_def sta_of_frame_def same_attrib_def assms(2)
         intro!: hdr_validI split: option.split)
qed

lemma ap_validate_hdr:
  assumes "hdr_room f" "check_fwstate env WIFI_AP_STATE"
  shows "hdr_valid env s f (rtw_ap_rx_data_validate_hdr env s f)"
proof -
  obtain a1 a2 a3 a4 fc where a: "rds (mem f) (rx_data f + 4) 6 = Some a1" "rds (mem f) (rx_data f + 10) 6 = Some a2"
    "rds (mem f) (rx_data f + 16) 6 = Some a3" "rds (mem f) (rx_data f + 24) 6 = Some a4"
    "RTW_GET_LE16 (mem f) (rx_data f + 0) = Some fc" using hdr_reads [OF assms(1)] .
  show ?thesis
    unfolding rtw_ap_rx_data_validate_hdr_def using assms(2) a
    by (auto simp: hdr_defs split: option.split)
qed

lemma mp_validate:
  assumes "\<not> check_fwstate env WIFI_AP_STATE" "\<not> check_fwstate env WIFI_STATION_STATE" "same_attrib f g" "hdr_room f"
  shows "hdr_valid env s f (sta2sta_data_frame env s g)" "hdr_valid env s f (ap2sta_data_frame env s g)"
    "hdr_valid env s f (sta2ap_data_frame env s g)"
proof -
  have g: "mem g = mem f" "rx_data g = rx_data f" using assms(3) by (simp_all add: same_attrib_def)
  obtain a1 a2 a3 a4 fc where a: "rds (mem f) (rx_data f + 4) 6 = Some a1" "rds (mem f) (rx_data f + 10) 6 = Some a2"
    "rds (mem f) (rx_data f + 16) 6 = Some a3" "rds (mem f) (rx_data f + 24) 6 = Some a4"
    "RTW_GET_LE16 (mem f) (rx_data f + 0) = Some fc" using hdr_reads [OF assms(4)] .
  have m: "same_attrib f (mp_addrs g a1 a2 a3)" using assms(3) by (simp add: same_attrib_def mp_addrs_def)
  show "hdr_valid env s f (sta2sta_data_frame env s g)"
    unfolding sta2sta_data_frame_def rdf_def g a Option.bind.bind_lunit Let_def using assms(1,2,3) m
    by (auto intro!: hdr_validI elim!: sta_of_frameI split: option.split)
  show "hdr_valid env s f (ap2sta_data_frame env s g)" "hdr_valid env s f (sta2ap_data_frame env s g)"
    unfolding ap2sta_data_frame_def sta2ap_data_frame_def rdf_def g a Option.bind.bind_lunit Let_def using assms(1,2,3) m
    by (auto intro!: hdr_validI elim!: sta_of_frameI split: option.split)
qed

lemma other_validate_hdr:
  assumes "hdr_room f" "\<not> check_fwstate env WIFI_AP_STATE" "\<not> check_fwstate env WIFI_STATION_STATE"
  shows "hdr_valid env s f (other_rx_data_validate_hdr env s f)"
proof -
  obtain a1 a2 a3 a4 fc where a: "rds (mem f) (rx_data f + 4) 6 = Some a1" "rds (mem f) (rx_data f + 10) 6 = Some a2"
    "rds (mem f) (rx_data f + 16) 6 = Some a3" "rds (mem f) (rx_data f + 24) 6 = Some a4"
    "RTW_GET_LE16 (mem f) (rx_data f + 0) = Some fc" using hdr_reads [OF assms(1)] .
  show ?thesis
    unfolding other_rx_data_validate_hdr_def rdf_def a Option.bind.bind_lunit
    by (auto intro!: mp_validate hdr_validI assms) (simp_all add: same_attrib_def)
qed

text \<open>The arrays of a station over traffic ids.\<close>

definition rx_arrays_ok :: "sta_info \<Rightarrow> bool" where
  "rx_arrays_ok si \<longleftrightarrow> length (tid_rxseq si) = 16 \<and> length (bmc_tid_rxseq si) = 16 \<and> length (rxcache_iv si) = 16"

definition rxseq_slot :: "sta_info \<Rightarrow> rx_frame \<Rightarrow> u16" where
  "rxseq_slot si f =
     (if qos f then (if is_mcast (ra f) then bmc_tid_rxseq si else tid_rxseq si) ! unat (priority f)
      else if is_mcast (ra f) then nonqos_bmc_rxseq si else nonqos_rxseq si)"

lemma fst_recv_decache:
  "fst (recv_decache si f) \<longleftrightarrow> unat (priority f) \<le> 15
     \<and> push_bit 4 (seq_num f AND 0xffff) OR (ucast (frag_num f) AND 0xf) \<noteq> rxseq_slot si f"
  unfolding recv_decache_def rxseq_slot_def Let_def
  by (cases "qos f"; cases "is_mcast (ra f)"; cases "unat (priority f) \<le> 15") simp_all

lemma recv_decache_slot:
  "rx_arrays_ok si \<Longrightarrow> fst (recv_decache si f) \<Longrightarrow>
   rxseq_slot (snd (recv_decache si f)) f = push_bit 4 (seq_num f AND 0xffff) OR (ucast (frag_num f) AND 0xf)"
  unfolding fst_recv_decache
  unfolding recv_decache_def rxseq_slot_def Let_def rx_arrays_ok_def
  by (cases "qos f"; cases "is_mcast (ra f)") simp_all

lemma recv_decache_repeat:
  "rx_arrays_ok si \<Longrightarrow> fst (recv_decache si f) \<Longrightarrow> \<not> fst (recv_decache (snd (recv_decache si f)) f)"
  using recv_decache_slot [of si f] by (simp add: fst_recv_decache [of "snd (recv_decache si f)"])

text \<open>Duplicate detection reads no more of the station and the frame than these fields.\<close>

lemma recv_decache_cong:
  assumes "tid_rxseq si' = tid_rxseq si" "bmc_tid_rxseq si' = bmc_tid_rxseq si" "nonqos_rxseq si' = nonqos_rxseq si"
    "nonqos_bmc_rxseq si' = nonqos_bmc_rxseq si" "priority g = priority f" "seq_num g = seq_num f" "frag_num g = frag_num f"
    "qos g = qos f" "ra g = ra f"
  shows "fst (recv_decache si' g) = fst (recv_decache si f)"
  unfolding fst_recv_decache rxseq_slot_def assms ..

lemma set_sta_simps [simp]:
  "securitypriv (set_sta i si s) = securitypriv s"
  "i < length (stainfo (stapriv s)) \<Longrightarrow> stainfo (stapriv (set_sta i si s)) ! i = si"
  "length (stainfo (stapriv (set_sta i si s))) = length (stainfo (stapriv s))"
  by (simp_all add: set_sta_def)

lemma parse_qc_total:
  assumes "hdr_room f" "a4 \<le> 6"
  shows "\<exists>g s'. parse_qc a4 f s = Some (g, s') \<and> same_attrib f g \<and> unat (hdrlen g) \<le> 32 \<and> stapriv s' = stapriv s
    \<and> securitypriv s' = securitypriv s \<and> ra g = ra f \<and> ta g = ta f \<and> dst g = dst f \<and> frame_sta g = frame_sta f"
proof -
  have "24 + a4 + 2 \<le> 62" using assms(2) by simp
  then obtain qc where "rdf16 f (24 + a4) = Some qc" using rdf16_room [OF assms(1)] by blast
  moreover have "unat (of_nat n :: u8) \<le> 32" if "n \<le> 32" for n
    using that by (simp add: unat_of_nat take_bit_nat_eq_self)
  then have "unat (of_nat (26 + a4) :: u8) \<le> 32" "unat (of_nat (24 + a4) :: u8) \<le> 32" using assms(2) by (simp_all only: add_le_mono)
  ultimately show ?thesis by (auto simp: parse_qc_def same_attrib_def Let_def simp del: of_nat_add)
qed

lemma recv_ucast_pn_decache_total:
  assumes "rdf g (unat (hdrlen g)) 8 = Some iv"
  shows "\<exists>ok si'. recv_ucast_pn_decache si g = Some (ok, si') \<and> tid_rxseq si' = tid_rxseq si \<and> bmc_tid_rxseq si' = bmc_tid_rxseq si
    \<and> nonqos_rxseq si' = nonqos_rxseq si \<and> nonqos_bmc_rxseq si' = nonqos_bmc_rxseq si"
  unfolding recv_ucast_pn_decache_def assms by (auto simp: Let_def)

lemma pn_decache_total:
  assumes "hdr_room f" "unat (hdrlen f) + 8 \<le> 62" "i < length (stainfo (stapriv s))" "stainfo (stapriv s) ! i = si"
  shows "\<exists>ok g s' si'. pn_decache env i f s = Some (ok, g, s') \<and> same_attrib f g \<and> hdrlen g = hdrlen f \<and> ra g = ra f \<and> ta g = ta f \<and> dst g = dst f
    \<and> frame_sta g = frame_sta f \<and> priority g = priority f \<and> seq_num g = seq_num f \<and> frag_num g = frag_num f
    \<and> dot11PrivacyAlgrthm (securitypriv s') = dot11PrivacyAlgrthm (securitypriv s)
    \<and> dot11AuthAlgrthm (securitypriv s') = dot11AuthAlgrthm (securitypriv s)
    \<and> stainfo (stapriv s') ! i = si' \<and> tid_rxseq si' = tid_rxseq si \<and> bmc_tid_rxseq si' = bmc_tid_rxseq si
    \<and> nonqos_rxseq si' = nonqos_rxseq si \<and> nonqos_bmc_rxseq si' = nonqos_bmc_rxseq si"
proof -
  obtain iv where iv: "rds (mem f) (rx_data f + unat (hdrlen f)) 8 = Some iv"
    using rdf_room [OF assms(1,2)] by (auto simp: rdf_def)
  show ?thesis
  proof (cases "is_mcast (ra f)")
    case True
    then show ?thesis using assms(4) iv by (auto simp: pn_decache_def recv_bcast_pn_decache_def rdf_def Let_def same_attrib_def)
  next
    case False
    define g where "g = (if qos f then f\<lparr>preorder_tid := Some (unat (priority f))\<rparr> else f)"
    have "rdf g (unat (hdrlen g)) 8 = Some iv" using iv by (simp add: g_def rdf_def)
    from recv_ucast_pn_decache_total [OF this, of si] obtain ok si' where "recv_ucast_pn_decache si g = Some (ok, si')"
      "tid_rxseq si' = tid_rxseq si \<and> bmc_tid_rxseq si' = bmc_tid_rxseq si
       \<and> nonqos_rxseq si' = nonqos_rxseq si \<and> nonqos_bmc_rxseq si' = nonqos_bmc_rxseq si" by blast
    moreover have "same_attrib f g" "hdrlen g = hdrlen f" "ra g = ra f" "ta g = ta f" "dst g = dst f" "frame_sta g = frame_sta f"
      "priority g = priority f" "seq_num g = seq_num f" "frag_num g = frag_num f" by (simp_all add: g_def same_attrib_def)
    ultimately show ?thesis using False assms(3,4) by (simp add: pn_decache_def Let_def g_def [symmetric])
  qed
qed

lemma SET_ICE_IV_LEN_le: "unat (fst (SET_ICE_IV_LEN e)) \<le> 18"
  by (simp add: SET_ICE_IV_LEN_def)

lemma set_cipher_same:
  "same_attrib f (set_cipher sec si f)" "hdrlen (set_cipher sec si f) = hdrlen f" "ra (set_cipher sec si f) = ra f"
  "ta (set_cipher sec si f) = ta f" "frame_sta (set_cipher sec si f) = frame_sta f" "priority (set_cipher sec si f) = priority f"
  "seq_num (set_cipher sec si f) = seq_num f" "frag_num (set_cipher sec si f) = frag_num f" "unat (iv_len (set_cipher sec si f)) \<le> 18"
  "dst (set_cipher sec si f) = dst f"
  by (simp_all add: set_cipher_def Let_def same_attrib_def SET_ICE_IV_LEN_le)

definition ether_type :: "rx_frame \<Rightarrow> u16 option" where
  "ether_type f = RTW_GET_BE16 (mem f) (rx_data f + unat (hdrlen f) + unat (iv_len f) + 6)"

lemma ether_type_Some: "hdr_room f \<Longrightarrow> unat (hdrlen f) \<le> 36 \<Longrightarrow> unat (iv_len f) \<le> 18 \<Longrightarrow> \<exists>e. ether_type f = Some e"
  by (auto simp: ether_type_def RTW_GET_BE16_def rd_def hdr_room_def)

text \<open>What the rules on unprotected frames leave.\<close>

definition protected_or_eapol :: "rx_security \<Rightarrow> rx_frame \<Rightarrow> bool" where
  "protected_or_eapol sec f \<longleftrightarrow> dot11PrivacyAlgrthm sec = 0 \<or> privacy f \<noteq> 0
     \<or> dot11AuthAlgrthm sec = dot11AuthAlgrthm_8021X \<and> \<not> is_mcast (ra f) \<and> amsdu f = 0 \<and> ether_type f = Some 0x888e"

lemma protection_ok_total:
  assumes "\<exists>e. ether_type f = Some e"
  shows "\<exists>ok. protection_ok env sec si f = Some ok \<and> (ok \<longrightarrow> protected_or_eapol sec f)"
proof -
  obtain e where "RTW_GET_BE16 (mem f) (rx_data f + unat (hdrlen f) + unat (iv_len f) + 6) = Some e"
    using assms by (auto simp: ether_type_def)
  then show ?thesis unfolding protection_ok_def protected_or_eapol_def ether_type_def
    by (cases "privacy f = 0"; cases "is_mcast (ra f)"; cases "dot11PrivacyAlgrthm sec = 0") auto
qed

definition passes :: "rx_env \<Rightarrow> rx_state \<Rightarrow> nat \<Rightarrow> rx_frame \<Rightarrow> rx_state \<Rightarrow> bool" where
  "passes env s i g s' \<longleftrightarrow> frame_sta g = Some i \<and> fst (recv_decache (stainfo (stapriv s) ! i) g)
     \<and> \<not> fst (recv_decache (stainfo (stapriv s') ! i) g) \<and> protected_or_eapol (securitypriv s) g"

lemma validate_sta_data_frame_total:
  assumes "hdr_room f" "a4 \<le> 6" "i < length (stainfo (stapriv s))" "rx_arrays_ok (stainfo (stapriv s) ! i)"
  shows "\<exists>ret g s'. validate_sta_data_frame env i a4 s f = Some (ret, g, s') \<and> (ret = RX_SUCCESS \<longrightarrow>
    passes env s i g s' \<and> ta g = ta f \<and> privacy g = privacy f \<and> amsdu g = amsdu f)"
proof -
  let ?f = "f\<lparr>frame_sta := Some i, preorder_tid := None, ack_policy := 0\<rparr>"
  have "hdr_room ?f" using assms(1) by (simp add: hdr_room_def)
  from parse_qc_total [OF this assms(2), of s] obtain g s1 where
    q: "parse_qc a4 ?f s = Some (g, s1)" "same_attrib ?f g" "unat (hdrlen g) \<le> 32" "stapriv s1 = stapriv s"
    "securitypriv s1 = securitypriv s" "ta g = ta ?f" "frame_sta g = Some i" by auto
  define h where "h = (if order g \<noteq> 0 then g\<lparr>hdrlen := hdrlen g + 4\<rparr> else g)"
  have "unat (hdrlen g + 4) = unat (hdrlen g) + 4" using q(3) by (simp add: unat_add_lem [THEN iffD1])
  then have h: "same_attrib f h" "unat (hdrlen h) \<le> 36" "ta h = ta f" "frame_sta h = Some i"
    using q(2,3,6,7) by (auto simp: h_def same_attrib_def)
  obtain ok si where d: "recv_decache (stainfo (stapriv s) ! i) h = (ok, si)" by fastforce
  have st: "validate_sta_data_frame env i a4 s f = (if \<not> ok then Some (RX_FAIL, h, set_sta i si s1) else do {
            (ok, f, s) \<leftarrow> pn_decache env i h (set_sta i si s1);
            if \<not> ok then Some (RX_FAIL, f, s)
            else do {
              let f = set_cipher (securitypriv s) (stainfo (stapriv s) ! i) f;
              ok \<leftarrow> protection_ok env (securitypriv s) (stainfo (stapriv s) ! i) f;
              Some (if ok then RX_SUCCESS else RX_FAIL, f, s) } })"
    unfolding validate_sta_data_frame_def q(1) Option.bind.bind_lunit prod.case Let_def h_def [symmetric] q(4) d by (rule refl)
  show ?thesis
  proof (cases ok)
    case True
    have r: "hdr_room h" using h(1) assms(1) by (simp add: hdr_room_def same_attrib_def)
    let ?s = "set_sta i si s1"
    have "unat (hdrlen h) + 8 \<le> 62" "i < length (stainfo (stapriv ?s))" "stainfo (stapriv ?s) ! i = si"
      using h(2) assms(3) q(4) by simp_all
    from pn_decache_total [OF r this, of env] obtain ok2 k s2 si2 where
      p: "pn_decache env i h ?s = Some (ok2, k, s2)" and k: "same_attrib h k" "hdrlen k = hdrlen h" "ra k = ra h" "ta k = ta h"
        "frame_sta k = frame_sta h" "priority k = priority h" "seq_num k = seq_num h" "frag_num k = frag_num h"
      and s2: "dot11PrivacyAlgrthm (securitypriv s2) = dot11PrivacyAlgrthm (securitypriv s)"
        "dot11AuthAlgrthm (securitypriv s2) = dot11AuthAlgrthm (securitypriv s)" "stainfo (stapriv s2) ! i = si2"
        "tid_rxseq si2 = tid_rxseq si" "bmc_tid_rxseq si2 = bmc_tid_rxseq si"
        "nonqos_rxseq si2 = nonqos_rxseq si" "nonqos_bmc_rxseq si2 = nonqos_bmc_rxseq si"
      using q(5) by auto
    define c where "c = set_cipher (securitypriv s2) (stainfo (stapriv s2) ! i) k"
    note c = set_cipher_same [where f = k and sec = "securitypriv s2" and si = "stainfo (stapriv s2) ! i", folded c_def]
    have same: "same_attrib f c" using h(1) k(1) c(1) by (simp add: same_attrib_def)
    then have "hdr_room c" using assms(1) by (simp add: hdr_room_def same_attrib_def)
    then have "\<exists>e. ether_type c = Some e" using ether_type_Some c(2,9) h(2) k(2) by simp
    from protection_ok_total [OF this, of env "securitypriv s2" "stainfo (stapriv s2) ! i"] obtain ok3 where
      ok3: "protection_ok env (securitypriv s2) (stainfo (stapriv s2) ! i) c = Some ok3" "ok3 \<longrightarrow> protected_or_eapol (securitypriv s2) c"
      by blast
    have D1: "fst (recv_decache (stainfo (stapriv s) ! i) c) = fst (recv_decache (stainfo (stapriv s) ! i) h)"
      using c k h(1) same k(1) by (intro recv_decache_cong) (simp_all add: same_attrib_def)
    have D2: "fst (recv_decache (stainfo (stapriv s2) ! i) c) = fst (recv_decache si h)"
      using c k h(1) same k(1) s2 by (intro recv_decache_cong) (simp_all add: same_attrib_def)
    have "ok3 \<longrightarrow> passes env s i c s2"
      using D1 D2 recv_decache_repeat [OF assms(4), of h] d True ok3(2) s2(1,2) c(5) k(5) h(4)
      by (simp add: passes_def protected_or_eapol_def)
    moreover have "validate_sta_data_frame env i a4 s f = (if \<not> ok2 then Some (RX_FAIL, k, s2) else Some (if ok3 then RX_SUCCESS else RX_FAIL, c, s2))"
      unfolding st p using True ok3(1) by (simp add: c_def [symmetric])
    moreover have "ta c = ta f" "privacy c = privacy f" "amsdu c = amsdu f"
      using same c(4) k(4) h(3) by (simp_all add: same_attrib_def)
    ultimately show ?thesis by (cases ok2; cases ok3) auto
  qed (simp add: st)
qed

lemma validate_recv_data_frame_total:
  assumes "sta_inv (stapriv s)" "\<forall>si \<in> set (stainfo (stapriv s)). rx_arrays_ok si" "hdr_room f"
  shows "\<exists>ret g s'. validate_recv_data_frame env s f = Some (ret, g, s') \<and> (ret = RX_SUCCESS \<longrightarrow>
    privacy g = privacy f \<and> (\<exists>i. sta_of_frame env s g (Some i) \<and> passes env s i g s'))"
proof -
  define a4 :: nat where "a4 = (if to_fr_ds f = 3 then 6 else 0)"
  have a4: "a4 \<le> 6" by (simp add: a4_def)
  obtain qc where qc: "rdf16 f (24 + a4) = Some qc" using rdf16_room [OF assms(3), of "24 + a4"] a4 by auto
  define h where "h = (if qos f then f\<lparr>amsdu := ucast (drop_bit 7 qc AND 1)\<rparr> else f\<lparr>amsdu := 0\<rparr>)"
  have h: "hdr_room h" "privacy h = privacy f" using assms(3) by (simp_all add: h_def hdr_room_def)
  let ?r = "if check_fwstate env WIFI_AP_STATE then rtw_ap_rx_data_validate_hdr env s h
    else if check_fwstate env WIFI_STATION_STATE then rtw_sta_rx_data_validate_hdr env s h else other_rx_data_validate_hdr env s h"
  have "hdr_valid env s h ?r" using ap_validate_hdr [OF h(1)] sta_validate_hdr [OF h(1)] other_validate_hdr [OF h(1)] by auto
  then obtain ret sta k s1 where
    v: "?r = Some (ret, sta, k, s1)" "same_attrib h k" "stapriv s1 = stapriv s" "securitypriv s1 = securitypriv s"
    "ret = RX_SUCCESS \<longrightarrow> sta_of_frame env s k sta" unfolding hdr_valid_def by blast
  have hk: "(if qos f then do { qc \<leftarrow> rdf16 f (24 + a4); Some (f\<lparr>amsdu := ucast (drop_bit 7 qc AND 1)\<rparr>) }
      else Some (f\<lparr>amsdu := 0\<rparr>)) = Some h" by (simp add: qc h_def)
  have st: "validate_recv_data_frame env s f = (if ret \<noteq> RX_SUCCESS then Some (ret, k, s1)
      else (case sta of None \<Rightarrow> Some (RX_FAIL, k, s1)
        | Some i \<Rightarrow> if sta_flags (stainfo (stapriv s1) ! i) AND WLAN_STA_AMSDU_DISABLE \<noteq> 0 \<and> amsdu k \<noteq> 0 then Some (RX_FAIL, k, s1)
                    else validate_sta_data_frame env i a4 s1 k))"
    unfolding validate_recv_data_frame_def Let_def a4_def [symmetric] hk Option.bind.bind_lunit v(1) prod.case by (rule refl)
  show ?thesis
  proof (cases "ret = RX_SUCCESS")
    case True
    with v(5) obtain i where i: "sta = Some i" "sta_of_frame env s k (Some i)" by (auto simp: sta_of_frame_def)
    then obtain a where "rtw_get_stainfo (stapriv s) (Some a) = Some i" by (auto simp: sta_of_frame_def split: if_splits)
    then have "i < length (stainfo (stapriv s1))"
      using rtw_get_stainfo_iff [OF assms(1)] assms(1) v(3) by (auto simp: sta_inv_def)
    moreover then have "rx_arrays_ok (stainfo (stapriv s1) ! i)" using assms(2) v(3) by simp
    moreover have "hdr_room k" using h(1) v(2) by (simp add: hdr_room_def same_attrib_def)
    ultimately obtain ret' g s' where T: "validate_sta_data_frame env i a4 s1 k = Some (ret', g, s')"
      "ret' = RX_SUCCESS \<longrightarrow> passes env s1 i g s' \<and> ta g = ta k \<and> privacy g = privacy k"
      using validate_sta_data_frame_total [OF _ a4, of k i s1 env] by blast
    have "privacy k = privacy f" using v(2) h(2) by (simp add: same_attrib_def)
    then show ?thesis using T i st True v(3,4) by (auto simp: sta_of_frame_def passes_def)
  qed (simp add: st)
qed

text \<open>C3. Validation: with a consistent station table and a buffer that holds at least 62 bytes from the start of the frame,
  \<open>validate_recv_frame\<close> returns without an access outside the buffer; a frame passes only if its transmitter is
  a known station (in the manufacturing mode: some known station), it is not the frame that station sent last (and the same
  frame would be dropped as a duplicate next time), and, in a network with encryption, it is protected or
  else a unicast EAPOL frame that is not an A-MSDU in an 802.1X network.\<close>

theorem validate_recv_frame_safe:
  assumes "sta_inv (stapriv s)" "\<forall>si \<in> set (stainfo (stapriv s)). rx_arrays_ok si" "rx_data f + 62 \<le> length (mem f)"
  shows "\<exists>ret g s'. validate_recv_frame env s f = Some (ret, g, s') \<and> (ret = RX_SUCCESS \<longrightarrow> (\<exists>i a. frame_sta g = Some i
    \<and> rtw_get_stainfo (stapriv s) (Some a) = Some i
    \<and> (a = ta g \<or> check_fwstate env WIFI_MP_STATE \<and> \<not> check_fwstate env WIFI_AP_STATE \<and> \<not> check_fwstate env WIFI_STATION_STATE)
    \<and> fst (recv_decache (stainfo (stapriv s) ! i) g) \<and> \<not> fst (recv_decache (stainfo (stapriv s') ! i) g)
    \<and> (dot11PrivacyAlgrthm (securitypriv s) \<noteq> 0 \<longrightarrow> privacy g \<noteq> 0 \<or>
         dot11AuthAlgrthm (securitypriv s) = dot11AuthAlgrthm_8021X \<and> \<not> is_mcast (ra g) \<and> amsdu g = 0 \<and> ether_type g = Some 0x888e)))"
proof -
  have room: "hdr_room f" using assms(3) by (simp add: hdr_room_def)
  obtain b0 where b0: "rd (mem f) (rx_data f) = Some b0" using assms(3) by (auto simp: rd_def)
  obtain fc sc where fc: "rdf16 f 0 = Some fc" "rdf16 f 22 = Some sc" using rdf16_room [OF room, of 0] rdf16_room [OF room, of 22] by auto
  define h where "h = f\<lparr>to_fr_ds := (if bit fc 9 then 2 else 0) OR (if bit fc 8 then 1 else 0),
    frag_num := ucast (sc AND 0xf), seq_num := drop_bit 4 sc, mfrag := (if bit fc 10 then 1 else 0),
    privacy := (if bit fc 14 then 1 else 0), order := (if bit fc 15 then 1 else 0)\<rparr>"
  have hr: "hdr_room (h\<lparr>qos := bit fc 7\<rparr>)" using room by (simp add: hdr_room_def h_def)
  from validate_recv_data_frame_total [OF assms(1,2) this, of env] obtain ret g s' where
    V: "validate_recv_data_frame env s (h\<lparr>qos := bit fc 7\<rparr>) = Some (ret, g, s')"
    "ret = RX_SUCCESS \<longrightarrow> (\<exists>i. sta_of_frame env s g (Some i) \<and> passes env s i g s')" by blast
  have st: "validate_recv_frame env s f = (if b0 AND 3 \<noteq> 0 then Some (RX_FAIL, f, s)
      else if fc AND 0xc = 0 then Some (RX_FAIL, h, rx_log ValidateMgntFrame s)
      else if fc AND 0xc = 4 then Some (RX_FAIL, h, rx_log ValidateCtrlFrame s)
      else if fc AND 0xc = 8 then Some (ret, g, if ret = RX_FAIL then count_rx_drop s' else s')
      else Some (RX_FAIL, h, s))"
    unfolding validate_recv_frame_def b0 fc Option.bind.bind_lunit Let_def h_def [symmetric] V(1) prod.case by (rule refl)
  show ?thesis
  proof (cases "b0 AND 3 = 0 \<and> fc AND 0xc = 8 \<and> ret = RX_SUCCESS")
    case True
    with V(2) obtain i where i: "sta_of_frame env s g (Some i)" "passes env s i g s'" by blast
    moreover obtain a where "rtw_get_stainfo (stapriv s) (Some a) = Some i"
      "a = ta g \<or> check_fwstate env WIFI_MP_STATE \<and> \<not> check_fwstate env WIFI_AP_STATE \<and> \<not> check_fwstate env WIFI_STATION_STATE"
      using i(1) unfolding sta_of_frame_def by (metis (full_types))
    moreover have "validate_recv_frame env s f = Some (RX_SUCCESS, g, s')" unfolding st using True by simp
    ultimately show ?thesis unfolding passes_def protected_or_eapol_def by blast
  next
    case False
    then have "\<exists>r g s'. validate_recv_frame env s f = Some (r, g, s') \<and> r \<noteq> RX_SUCCESS" unfolding st by auto
    then show ?thesis by blast
  qed
qed

definition example_env :: rx_env where
  "example_env = \<lparr>fw_state = 0x9, my_mac = [2, 0, 0, 0, 0, 9], my_bssid = [2, 0, 0, 0, 0, 1], radar_detected = False,
     cur_time = 5, hz = 250, mlme_key_index = 0, passing_ms = (\<lambda>_. 0)\<rparr>"

definition example_sec :: rx_security where
  "example_sec = \<lparr>dot11PrivacyKeyIndex = 0, dot11DefKey = [], dot11DefKeylen = [], dot118021XGrpKeyid = 1, dot118021XGrpKey = [],
     binstallGrpkey = True, dot118021XGrprxmickey = [], bcheck_grpkey = False, iv_seq = replicate 4 (replicate 8 0), dot11AuthAlgrthm = 2,
     dot11PrivacyAlgrthm = 4, dot118021XGrpPrivacy = 4, hw_decrypted = True, busetkipkey = True, last_mic_err_time = 0,
     btkip_countermeasure = False, btkip_countermeasure_time = 0\<rparr>"

definition example_rx_state :: rx_state where
  "example_rx_state = \<lparr>stapriv = snd (rtw_alloc_stainfo (rtw_init_sta_priv 32) [2, 0, 0, 0, 0, 1]), securitypriv = example_sec,
     recvpriv = recv_priv_zero, crc_state = crc32_globals_init, rx_calls = [], send_issue_deauth_time = 0, ap2sta_deauth_time = 0, is_any_non_be_pkts = False\<rparr>"

text \<open>A protected data frame from the access point, with packet number 3 under group key 1.\<close>

definition example_data_frame :: "buf \<Rightarrow> rx_frame" where
  "example_data_frame dest = (example_frame 0)\<lparr>encrypt := SEC_AES, hdrlen := 24,
     mem := [0x08, 0x42, 0, 0] @ dest @ [2, 0, 0, 0, 0, 1] @ [2, 0, 0, 0, 0, 7] @ [0x10, 0x00] @ [3, 0, 0, 0x60, 0, 0, 0, 0] @ replicate 40 7,
     rlen := 72, rx_tail := 72\<rparr>"

lemma example_rx_inv: "sta_inv (stapriv example_rx_state)" "\<forall>si \<in> set (stainfo (stapriv example_rx_state)). rx_arrays_ok si"
proof -
  have q: "free_sta_queue (rtw_init_sta_priv 32) = 0 # [1..<NUM_STA]" by code_simp
  have "hashed (rtw_init_sta_priv 32) = []" by code_simp
  then have "\<forall>j \<in> set (hashed (rtw_init_sta_priv 32)). mac_addr (stainfo (rtw_init_sta_priv 32) ! j) \<noteq> [2, 0, 0, 0, 0, 1]"
    by (simp only: list.set ball_empty)
  from sta_inv_alloc(1) [OF sta_inv_init q _ this] show "sta_inv (stapriv example_rx_state)"
    by (simp add: example_rx_state_def)
  show "\<forall>si \<in> set (stainfo (stapriv example_rx_state)). rx_arrays_ok si" by code_simp
qed

theorem validate_recv_frame_safe_witness:
  "\<exists>g s' i. validate_recv_frame example_env example_rx_state (example_data_frame [2, 0, 0, 0, 0, 9]) = Some (RX_SUCCESS, g, s')
     \<and> frame_sta g = Some i \<and> \<not> fst (recv_decache (stainfo (stapriv s') ! i) g)"
proof -
  have "rx_data (example_data_frame [2, 0, 0, 0, 0, 9]) + 62 \<le> length (mem (example_data_frame [2, 0, 0, 0, 0, 9]))" by code_simp
  from validate_recv_frame_safe [OF example_rx_inv this, of example_env]
  have "\<exists>ret g s'. validate_recv_frame example_env example_rx_state (example_data_frame [2, 0, 0, 0, 0, 9]) = Some (ret, g, s') \<and>
    (ret = RX_SUCCESS \<longrightarrow> (\<exists>i. frame_sta g = Some i \<and> \<not> fst (recv_decache (stainfo (stapriv s') ! i) g)))" by blast
  moreover have "map_option fst (validate_recv_frame example_env example_rx_state (example_data_frame [2, 0, 0, 0, 0, 9])) = Some RX_SUCCESS"
    by code_simp
  ultimately show ?thesis by auto
qed

subsection \<open>Packet numbers of group frames\<close>

lemma bit47_diff:
  fixes x y :: int
  assumes "0 \<le> x" "x < 2 ^ 48" "0 \<le> y" "y < 2 ^ 48"
  shows "odd ((x - y) mod 2 ^ 64 div 2 ^ 47) \<longleftrightarrow> 0 < (y - x) mod 2 ^ 48 \<and> (y - x) mod 2 ^ 48 \<le> 2 ^ 47"
proof -
  define d where "d = x - y"
  have d: "- (2 ^ 48) < d" "d < 2 ^ 48" using assms by (simp_all add: d_def)
  have yx: "y - x = - d" by (simp add: d_def)
  have neg: "d mod 2 ^ 64 div 2 ^ 47 = 2 ^ 17 + d div 2 ^ 47" if "d < 0"
  proof -
    have "d mod 2 ^ 64 = (d + 2 ^ 64) mod 2 ^ 64" by simp
    also have "\<dots> = d + 2 ^ 64" by (rule mod_pos_pos_trivial) (use that d in simp_all)
    also have "\<dots> = d + 2 ^ 17 * 2 ^ 47" by simp
    finally show ?thesis by simp
  qed
  consider "d < - (2 ^ 47)" | "- (2 ^ 47) \<le> d" "d < 0" | "0 \<le> d" "d < 2 ^ 47" | "2 ^ 47 \<le> d" by linarith
  then show ?thesis
  proof cases
    case 1
    have "d div 2 ^ 47 = - 2" using 1 d by (intro int_div_pos_eq [where r = "d + 2 ^ 48"]) simp_all
    moreover have "(- d) mod 2 ^ 48 = - d" using 1 d by simp
    ultimately show ?thesis using 1 d neg unfolding yx d_def [symmetric] by simp
  next
    case 2
    have "d div 2 ^ 47 = - 1" using 2 by (intro int_div_pos_eq [where r = "d + 2 ^ 47"]) simp_all
    moreover have "(- d) mod 2 ^ 48 = - d" using 2 by simp
    ultimately show ?thesis using 2 neg unfolding yx d_def [symmetric] by simp
  next
    case 3
    have "d mod 2 ^ 64 = d" using 3 by simp
    then have "d mod 2 ^ 64 div 2 ^ 47 = 0" using 3 by simp
    moreover have "(- d) mod 2 ^ 48 = (if d = 0 then 0 else 2 ^ 48 - d)" using 3 by (auto simp: zmod_zminus1_eq_if)
    ultimately show ?thesis using 3 unfolding yx d_def [symmetric] by auto
  next
    case 4
    have "d mod 2 ^ 64 = d" using 4 d by simp
    then have "d mod 2 ^ 64 div 2 ^ 47 = 1" using 4 d by (intro int_div_pos_eq [where r = "d - 2 ^ 47"]) simp_all
    moreover have "(- d) mod 2 ^ 48 = 2 ^ 48 - d" using 4 d by (auto simp: zmod_zminus1_eq_if)
    ultimately show ?thesis using 4 d unfolding yx d_def [symmetric] by auto
  qed
qed

lemma byte_step: "push_bit 8 (drop_bit (8 * Suc m) w) OR ucast (ucast (drop_bit (8 * m) w) :: u8) = drop_bit (8 * m) (w :: u64)"
proof (rule bit_word_eqI)
  fix n assume "n < LENGTH(64)"
  then show "bit (push_bit 8 (drop_bit (8 * Suc m) w) OR ucast (ucast (drop_bit (8 * m) w) :: u8)) n = bit (drop_bit (8 * m) w) n"
    by (cases "n < 8") (simp_all add: bit_simps)
qed

lemma le64_tail: "m \<le> 8 \<Longrightarrow> le64 (map (\<lambda>i. ucast (drop_bit (8 * i) w)) [m..<8]) = drop_bit (8 * m) w"
proof (induction m rule: inc_induct)
  case base
  show ?case by (rule bit_word_eqI) (auto simp: le64_def bit_simps dest: bit_imp_le_length)
next
  case (step m)
  then show ?case using byte_step [of m w] by (simp add: le64_def upt_rec [of m] del: mult_Suc_right)
qed

lemma le64_le64_bytes: "le64 (le64_bytes w) = w"
  using le64_tail [of 0 w] by (simp add: le64_bytes_def)

lemma CCMPH_2_PN_less: "uint (CCMPH_2_PN w) < 2 ^ 48"
proof -
  have m: "(0xffff :: u64) = mask 16" by (simp add: mask_eq_exp_minus_1)
  have "CCMPH_2_PN w = take_bit 48 (CCMPH_2_PN w)"
    unfolding CCMPH_2_PN_def m by (rule bit_word_eqI) (auto simp: bit_simps dest: bit_imp_le_length)
  then have "uint (CCMPH_2_PN w) = take_bit 48 (uint (CCMPH_2_PN w))" by (metis unsigned_take_bit_eq)
  then show ?thesis by (metis take_bit_int_less_exp)
qed

lemma PN_LESS_CHK_iff:
  assumes "uint a < 2 ^ 48" "uint b < 2 ^ 48"
  shows "PN_LESS_CHK a b \<longleftrightarrow> 0 < (uint b - uint a) mod 2 ^ 48 \<and> (uint b - uint a) mod 2 ^ 48 \<le> 2 ^ 47"
proof -
  have "PN_LESS_CHK a b \<longleftrightarrow> bit (a - b) 47"
    using and_exp_eq_0_iff_not_bit [of "a - b" 47] by (simp add: PN_LESS_CHK_def)
  also have "\<dots> \<longleftrightarrow> bit (uint (a - b)) 47" by (simp add: bit_uint_iff)
  also have "\<dots> \<longleftrightarrow> odd ((uint a - uint b) mod 2 ^ 64 div 2 ^ 47)"
    by (simp only: bit_iff_odd uint_word_ariths(2)) simp
  finally show ?thesis using bit47_diff [of "uint a" "uint b"] assms by simp
qed

lemma CCMPH_2_KEYID_less: "CCMPH_2_KEYID w < 4"
proof -
  have "drop_bit 30 (w AND 0xc0000000) = take_bit 2 (drop_bit 30 w)"
  proof (rule bit_word_eqI)
    fix n assume "n < LENGTH(64)"
    have "(0xc0000000 :: u64) = push_bit 30 (mask 2)" by (simp add: mask_eq_exp_minus_1)
    note m = this
    show "bit (drop_bit 30 (w AND 0xc0000000)) n = bit (take_bit 2 (drop_bit 30 w)) n"
      unfolding m bit_drop_bit_eq comp_def bit_and_iff bit_push_bit_iff bit_mask_iff bit_take_bit_iff
      by (auto dest: bit_imp_le_length)
  qed
  then have "unat (drop_bit 30 (w AND 0xc0000000)) = take_bit 2 (unat (drop_bit 30 w))" by (simp add: unsigned_take_bit_eq)
  then show ?thesis unfolding CCMPH_2_KEYID_def using take_bit_nat_less_exp [of 2 "unat (drop_bit 30 w)"] by simp
qed

lemma pn_mask: "uint w < 2 ^ 48 \<Longrightarrow> w AND 0xffffffffffff = (w :: u64)"
proof -
  assume "uint w < 2 ^ 48"
  then have "take_bit 48 (uint w) = uint w" by (simp add: take_bit_int_eq_self)
  then have "take_bit 48 w = w" by (intro word_uint_eqI) (simp add: unsigned_take_bit_eq)
  moreover have "(0xffffffffffff :: u64) = mask 48" by (simp add: mask_eq_exp_minus_1)
  ultimately show ?thesis by (simp add: take_bit_eq_mask)
qed

text \<open>Replay protection of group frames: once a station has accepted a CCMP group frame with packet number \<open>p\<close> under
  a key, it accepts a further frame under that key exactly when \<open>p\<close> is zero or the new packet number is at least
  1 and at most \<open>2\<^sup>4\<^sup>7\<close> ahead of \<open>p\<close> modulo \<open>2\<^sup>4\<^sup>8\<close>; so a repeated frame is rejected, but the rule that
  the comment gives (the new number is greater) holds only for numbers less than \<open>2\<^sup>4\<^sup>7\<close> apart.\<close>

theorem recv_bcast_pn_decache_replay:
  assumes "encrypt f = SEC_AES" "encrypt g = SEC_AES" "check_fwstate env WIFI_STATION_STATE" "length (iv_seq sec) = 4"
    and "rdf f (unat (hdrlen f)) 8 = Some a" "rdf g (unat (hdrlen g)) 8 = Some b" "CCMPH_2_KEYID (le64 b) = CCMPH_2_KEYID (le64 a)"
    and "recv_bcast_pn_decache env sec f = Some (True, sec')"
  shows "\<exists>ok sec''. recv_bcast_pn_decache env sec' g = Some (ok, sec'') \<and>
    (ok \<longleftrightarrow> CCMPH_2_PN (le64 a) = 0 \<or>
       0 < (uint (CCMPH_2_PN (le64 b)) - uint (CCMPH_2_PN (le64 a))) mod 2 ^ 48 \<and>
       (uint (CCMPH_2_PN (le64 b)) - uint (CCMPH_2_PN (le64 a))) mod 2 ^ 48 \<le> 2 ^ 47)"
proof -
  let ?k = "CCMPH_2_KEYID (le64 a)" and ?p = "CCMPH_2_PN (le64 a)"
  have "sec' = sec\<lparr>iv_seq := (iv_seq sec)[?k := le64_bytes ?p]\<rparr>"
    using assms(1,3,5,8) by (auto simp: recv_bcast_pn_decache_def Let_def split: if_splits)
  then have "le64 (iv_seq sec' ! ?k) AND 0xffffffffffff = ?p"
    using CCMPH_2_KEYID_less [of "le64 a"] assms(4) pn_mask [OF CCMPH_2_PN_less] by (simp add: le64_le64_bytes)
  then show ?thesis
    using assms(2,3,6,7) PN_LESS_CHK_iff [OF CCMPH_2_PN_less CCMPH_2_PN_less, of "le64 a" "le64 b"]
    by (simp add: recv_bcast_pn_decache_def Let_def VALID_PN_CHK_def)
qed

theorem recv_bcast_pn_decache_replay_witness:
  "\<exists>sec' sec''. recv_bcast_pn_decache example_env example_sec (example_data_frame (replicate 6 0xff)) = Some (True, sec')
     \<and> recv_bcast_pn_decache example_env sec' (example_data_frame (replicate 6 0xff)) = Some (False, sec'')"
proof -
  let ?f = "example_data_frame (replicate 6 0xff)" and ?a = "[3, 0, 0, 0x60, 0, 0, 0, 0] :: buf"
  have h: "encrypt ?f = SEC_AES" "check_fwstate example_env WIFI_STATION_STATE" "length (iv_seq example_sec) = 4"
    "rdf ?f (unat (hdrlen ?f)) 8 = Some ?a" "CCMPH_2_PN (le64 ?a) \<noteq> 0" by code_simp+
  have "map_option fst (recv_bcast_pn_decache example_env example_sec ?f) = Some True" by code_simp
  then obtain sec' where s: "recv_bcast_pn_decache example_env example_sec ?f = Some (True, sec')" by auto
  from recv_bcast_pn_decache_replay [OF h(1,1-3,4,4) refl s] h(5) s show ?thesis by auto
qed

end
