(* ===== verification/Sec_Tkip.thy ===== *)
theory Sec_Tkip
  imports Sec_Wep
begin

text \<open>
  Software TKIP (\<^verbatim>\<open>core/rtw_security.c\<close>): the Michael message integrity code, the two phases of
  the key mixing, and the encryption and decryption of frames, on the RC4, CRC-32 and fragment
  loop of \<open>Sec_Wep\<close>. The properties: the byte-wise Michael code computes the blocks of the standard
  on the padded message; the key mixing never gives two packets of one temporal key the same
  RC4 key; decryption undoes encryption and accepts the ICV.
\<close>

subsection \<open>Michael\<close>

record mic_data =
  mic_K0 :: u32
  mic_K1 :: u32
  mic_L :: u32
  mic_R :: u32
  mic_M :: u32
  nBytesInM :: u32

definition ROL32 :: "u32 \<Rightarrow> nat \<Rightarrow> u32" where
  "ROL32 A n = push_bit n A OR (drop_bit (32 - n) A AND (push_bit n 1 - 1))"

definition ROR32 :: "u32 \<Rightarrow> nat \<Rightarrow> u32" where
  "ROR32 A n = ROL32 A (32 - n)"

definition secmicgetuint32 :: "buf \<Rightarrow> nat \<Rightarrow> u32 option" where
  "secmicgetuint32 b i =
     do { p0 \<leftarrow> rd b i; p1 \<leftarrow> rd b (i + 1); p2 \<leftarrow> rd b (i + 2); p3 \<leftarrow> rd b (i + 3); Some (le32 p0 p1 p2 p3) }"

definition secmicclear :: "mic_data \<Rightarrow> mic_data" where
  "secmicclear m = m\<lparr>mic_L := mic_K0 m, mic_R := mic_K1 m, nBytesInM := 0, mic_M := 0\<rparr>"

definition rtw_secmicsetkey :: "mic_data \<Rightarrow> buf \<Rightarrow> mic_data option" where
  "rtw_secmicsetkey m key =
     do { k0 \<leftarrow> secmicgetuint32 key 0; k1 \<leftarrow> secmicgetuint32 key 4; Some (secmicclear (m\<lparr>mic_K0 := k0, mic_K1 := k1\<rparr>)) }"

text \<open>The mixing of a full word in \<open>rtw_secmicappendbyte\<close>, on \<open>L\<close> and \<open>R\<close>.\<close>

definition mic_mix :: "u32 \<Rightarrow> u32 \<Rightarrow> u32 \<Rightarrow> u32 \<times> u32" where
  "mic_mix M L R =
     (let L = L XOR M;
          R = R XOR ROL32 L 17;
          L = L + R;
          R = R XOR (drop_bit 8 (L AND 0xff00ff00) OR push_bit 8 (L AND 0x00ff00ff));
          L = L + R;
          R = R XOR ROL32 L 3;
          L = L + R;
          R = R XOR ROR32 L 2;
          L = L + R in (L, R))"

definition rtw_secmicappendbyte :: "mic_data \<Rightarrow> u8 \<Rightarrow> mic_data" where
  "rtw_secmicappendbyte m b =
     (let M = mic_M m OR push_bit (8 * unat (nBytesInM m)) (ucast b); n = nBytesInM m + 1 in
      if n \<ge> 4 then
        (case mic_mix M (mic_L m) (mic_R m) of (L, R) \<Rightarrow> m\<lparr>mic_L := L, mic_R := R, mic_M := 0, nBytesInM := 0\<rparr>)
      else m\<lparr>mic_M := M, nBytesInM := n\<rparr>)"

fun rtw_secmicappend :: "mic_data \<Rightarrow> u8 list \<Rightarrow> mic_data" where
  "rtw_secmicappend m [] = m"
| "rtw_secmicappend m (b # bs) = rtw_secmicappend (rtw_secmicappendbyte m b) bs"

text \<open>The loop that pads with zeroes until the word buffer is empty.\<close>

definition secgetmic_pad_step :: "mic_data \<Rightarrow> (mic_data, mic_data) iteration" where
  "secgetmic_pad_step m = (if nBytesInM m \<noteq> 0 then Next (rtw_secmicappendbyte m 0) else Ret m)"

definition rtw_secgetmic :: "mic_data \<Rightarrow> (buf \<times> mic_data) option" where
  "rtw_secgetmic m =
     do { m \<leftarrow> run_loop secgetmic_pad_step (rtw_secmicappend m [0x5a, 0, 0, 0, 0]);
          Some (le32_bytes (mic_L m) @ le32_bytes (mic_R m), secmicclear m) }"

text \<open>\<open>rtw_seccalctkipmic\<close>: the eight bytes of \<open>mic_code\<close>; the local \<open>micdata\<close> starts with any contents.\<close>

definition rtw_seccalctkipmic :: "mic_data \<Rightarrow> buf \<Rightarrow> buf \<Rightarrow> buf \<Rightarrow> nat \<Rightarrow> u8 \<Rightarrow> buf option" where
  "rtw_seccalctkipmic m key header data data_len pri =
     do { m \<leftarrow> rtw_secmicsetkey m key;
          fc1 \<leftarrow> rd header 1;
          da \<leftarrow> rds header (if fc1 AND 1 \<noteq> 0 then 16 else 4) 6;
          sa \<leftarrow> rds header (if fc1 AND 1 \<noteq> 0 then (if fc1 AND 2 \<noteq> 0 then 24 else 10)
                             else (if fc1 AND 2 \<noteq> 0 then 16 else 10)) 6;
          d \<leftarrow> rds data 0 data_len;
          let m = rtw_secmicappend (rtw_secmicappend m da) sa;
          let m = rtw_secmicappend (rtw_secmicappend m [pri, 0, 0, 0]) d;
          map_option fst (rtw_secgetmic m) }"

subsection \<open>Key mixing\<close>

type_synonym p1k = "u16 \<times> u16 \<times> u16 \<times> u16 \<times> u16"

definition RotR1 :: "u16 \<Rightarrow> u16" where "RotR1 v = (drop_bit 1 v AND 0x7FFF) XOR push_bit 15 (v AND 1)"
definition Lo8 :: "u16 \<Rightarrow> u8" where "Lo8 v = ucast (v AND 0x00FF)"
definition Hi8 :: "u16 \<Rightarrow> u8" where "Hi8 v = ucast (drop_bit 8 v AND 0x00FF)"
definition Lo16 :: "u32 \<Rightarrow> u16" where "Lo16 v = ucast (v AND 0xFFFF)"
definition Hi16 :: "u32 \<Rightarrow> u16" where "Hi16 v = ucast (drop_bit 16 v AND 0xFFFF)"
definition Mk16 :: "u8 \<Rightarrow> u8 \<Rightarrow> u16" where "Mk16 hi lo = ucast lo XOR push_bit 8 (ucast hi)"
definition TK16 :: "buf \<Rightarrow> nat \<Rightarrow> u16" where "TK16 tk N = Mk16 (tk ! (2 * N + 1)) (tk ! (2 * N))"

definition Sbox1_lo :: "u16 list" where
  "Sbox1_lo =
    [0xC6A5, 0xF884, 0xEE99, 0xF68D, 0xFF0D, 0xD6BD, 0xDEB1, 0x9154, 0x6050, 0x0203, 0xCEA9, 0x567D,
     0xE719, 0xB562, 0x4DE6, 0xEC9A, 0x8F45, 0x1F9D, 0x8940, 0xFA87, 0xEF15, 0xB2EB, 0x8EC9, 0xFB0B,
     0x41EC, 0xB367, 0x5FFD, 0x45EA, 0x23BF, 0x53F7, 0xE496, 0x9B5B, 0x75C2, 0xE11C, 0x3DAE, 0x4C6A,
     0x6C5A, 0x7E41, 0xF502, 0x834F, 0x685C, 0x51F4, 0xD134, 0xF908, 0xE293, 0xAB73, 0x6253, 0x2A3F,
     0x080C, 0x9552, 0x4665, 0x9D5E, 0x3028, 0x37A1, 0x0A0F, 0x2FB5, 0x0E09, 0x2436, 0x1B9B, 0xDF3D,
     0xCD26, 0x4E69, 0x7FCD, 0xEA9F, 0x121B, 0x1D9E, 0x5874, 0x342E, 0x362D, 0xDCB2, 0xB4EE, 0x5BFB,
     0xA4F6, 0x764D, 0xB761, 0x7DCE, 0x527B, 0xDD3E, 0x5E71, 0x1397, 0xA6F5, 0xB968, 0x0000, 0xC12C,
     0x4060, 0xE31F, 0x79C8, 0xB6ED, 0xD4BE, 0x8D46, 0x67D9, 0x724B, 0x94DE, 0x98D4, 0xB0E8, 0x854A,
     0xBB6B, 0xC52A, 0x4FE5, 0xED16, 0x86C5, 0x9AD7, 0x6655, 0x1194, 0x8ACF, 0xE910, 0x0406, 0xFE81,
     0xA0F0, 0x7844, 0x25BA, 0x4BE3, 0xA2F3, 0x5DFE, 0x80C0, 0x058A, 0x3FAD, 0x21BC, 0x7048, 0xF104,
     0x63DF, 0x77C1, 0xAF75, 0x4263, 0x2030, 0xE51A, 0xFD0E, 0xBF6D, 0x814C, 0x1814, 0x2635, 0xC32F,
     0xBEE1, 0x35A2, 0x88CC, 0x2E39, 0x9357, 0x55F2, 0xFC82, 0x7A47, 0xC8AC, 0xBAE7, 0x322B, 0xE695,
     0xC0A0, 0x1998, 0x9ED1, 0xA37F, 0x4466, 0x547E, 0x3BAB, 0x0B83, 0x8CCA, 0xC729, 0x6BD3, 0x283C,
     0xA779, 0xBCE2, 0x161D, 0xAD76, 0xDB3B, 0x6456, 0x744E, 0x141E, 0x92DB, 0x0C0A, 0x486C, 0xB8E4,
     0x9F5D, 0xBD6E, 0x43EF, 0xC4A6, 0x39A8, 0x31A4, 0xD337, 0xF28B, 0xD532, 0x8B43, 0x6E59, 0xDAB7,
     0x018C, 0xB164, 0x9CD2, 0x49E0, 0xD8B4, 0xACFA, 0xF307, 0xCF25, 0xCAAF, 0xF48E, 0x47E9, 0x1018,
     0x6FD5, 0xF088, 0x4A6F, 0x5C72, 0x3824, 0x57F1, 0x73C7, 0x9751, 0xCB23, 0xA17C, 0xE89C, 0x3E21,
     0x96DD, 0x61DC, 0x0D86, 0x0F85, 0xE090, 0x7C42, 0x71C4, 0xCCAA, 0x90D8, 0x0605, 0xF701, 0x1C12,
     0xC2A3, 0x6A5F, 0xAEF9, 0x69D0, 0x1791, 0x9958, 0x3A27, 0x27B9, 0xD938, 0xEB13, 0x2BB3, 0x2233,
     0xD2BB, 0xA970, 0x0789, 0x33A7, 0x2DB6, 0x3C22, 0x1592, 0xC920, 0x8749, 0xAAFF, 0x5078, 0xA57A,
     0x038F, 0x59F8, 0x0980, 0x1A17, 0x65DA, 0xD731, 0x84C6, 0xD0B8, 0x82C3, 0x29B0, 0x5A77, 0x1E11,
     0x7BCB, 0xA8FC, 0x6DD6, 0x2C3A]"

definition Sbox1_hi :: "u16 list" where
  "Sbox1_hi =
    [0xA5C6, 0x84F8, 0x99EE, 0x8DF6, 0x0DFF, 0xBDD6, 0xB1DE, 0x5491, 0x5060, 0x0302, 0xA9CE, 0x7D56,
     0x19E7, 0x62B5, 0xE64D, 0x9AEC, 0x458F, 0x9D1F, 0x4089, 0x87FA, 0x15EF, 0xEBB2, 0xC98E, 0x0BFB,
     0xEC41, 0x67B3, 0xFD5F, 0xEA45, 0xBF23, 0xF753, 0x96E4, 0x5B9B, 0xC275, 0x1CE1, 0xAE3D, 0x6A4C,
     0x5A6C, 0x417E, 0x02F5, 0x4F83, 0x5C68, 0xF451, 0x34D1, 0x08F9, 0x93E2, 0x73AB, 0x5362, 0x3F2A,
     0x0C08, 0x5295, 0x6546, 0x5E9D, 0x2830, 0xA137, 0x0F0A, 0xB52F, 0x090E, 0x3624, 0x9B1B, 0x3DDF,
     0x26CD, 0x694E, 0xCD7F, 0x9FEA, 0x1B12, 0x9E1D, 0x7458, 0x2E34, 0x2D36, 0xB2DC, 0xEEB4, 0xFB5B,
     0xF6A4, 0x4D76, 0x61B7, 0xCE7D, 0x7B52, 0x3EDD, 0x715E, 0x9713, 0xF5A6, 0x68B9, 0x0000, 0x2CC1,
     0x6040, 0x1FE3, 0xC879, 0xEDB6, 0xBED4, 0x468D, 0xD967, 0x4B72, 0xDE94, 0xD498, 0xE8B0, 0x4A85,
     0x6BBB, 0x2AC5, 0xE54F, 0x16ED, 0xC586, 0xD79A, 0x5566, 0x9411, 0xCF8A, 0x10E9, 0x0604, 0x81FE,
     0xF0A0, 0x4478, 0xBA25, 0xE34B, 0xF3A2, 0xFE5D, 0xC080, 0x8A05, 0xAD3F, 0xBC21, 0x4870, 0x04F1,
     0xDF63, 0xC177, 0x75AF, 0x6342, 0x3020, 0x1AE5, 0x0EFD, 0x6DBF, 0x4C81, 0x1418, 0x3526, 0x2FC3,
     0xE1BE, 0xA235, 0xCC88, 0x392E, 0x5793, 0xF255, 0x82FC, 0x477A, 0xACC8, 0xE7BA, 0x2B32, 0x95E6,
     0xA0C0, 0x9819, 0xD19E, 0x7FA3, 0x6644, 0x7E54, 0xAB3B, 0x830B, 0xCA8C, 0x29C7, 0xD36B, 0x3C28,
     0x79A7, 0xE2BC, 0x1D16, 0x76AD, 0x3BDB, 0x5664, 0x4E74, 0x1E14, 0xDB92, 0x0A0C, 0x6C48, 0xE4B8,
     0x5D9F, 0x6EBD, 0xEF43, 0xA6C4, 0xA839, 0xA431, 0x37D3, 0x8BF2, 0x32D5, 0x438B, 0x596E, 0xB7DA,
     0x8C01, 0x64B1, 0xD29C, 0xE049, 0xB4D8, 0xFAAC, 0x07F3, 0x25CF, 0xAFCA, 0x8EF4, 0xE947, 0x1810,
     0xD56F, 0x88F0, 0x6F4A, 0x725C, 0x2438, 0xF157, 0xC773, 0x5197, 0x23CB, 0x7CA1, 0x9CE8, 0x213E,
     0xDD96, 0xDC61, 0x860D, 0x850F, 0x90E0, 0x427C, 0xC471, 0xAACC, 0xD890, 0x0506, 0x01F7, 0x121C,
     0xA3C2, 0x5F6A, 0xF9AE, 0xD069, 0x9117, 0x5899, 0x273A, 0xB927, 0x38D9, 0x13EB, 0xB32B, 0x3322,
     0xBBD2, 0x70A9, 0x8907, 0xA733, 0xB62D, 0x223C, 0x9215, 0x20C9, 0x4987, 0xFFAA, 0x7850, 0x7AA5,
     0x8F03, 0xF859, 0x8009, 0x171A, 0xDA65, 0x31D7, 0xC684, 0xB8D0, 0xC382, 0xB029, 0x775A, 0x111E,
     0xCB7B, 0xFCA8, 0xD66D, 0x3A2C]"

definition S16 :: "u16 \<Rightarrow> u16" where
  "S16 v = Sbox1_lo ! unat (Lo8 v) XOR Sbox1_hi ! unat (Hi8 v)"

definition phase1_round :: "buf \<Rightarrow> nat \<Rightarrow> p1k \<Rightarrow> p1k" where
  "phase1_round tk i = (\<lambda>(p0, p1, p2, p3, p4).
     let j = i mod 2;
         p0 = p0 + S16 (p4 XOR TK16 tk (j + 0));
         p1 = p1 + S16 (p0 XOR TK16 tk (j + 2));
         p2 = p2 + S16 (p1 XOR TK16 tk (j + 4));
         p3 = p3 + S16 (p2 XOR TK16 tk (j + 6));
         p4 = p4 + S16 (p3 XOR TK16 tk (j + 0));
         p4 = p4 + of_nat i in
     (p0, p1, p2, p3, p4))"

definition phase1 :: "buf \<Rightarrow> buf \<Rightarrow> u32 \<Rightarrow> p1k" where
  "phase1 tk ta iv32 =
     fold (phase1_round tk) [0..<8]
       (Lo16 iv32, Hi16 iv32, Mk16 (ta ! 1) (ta ! 0), Mk16 (ta ! 3) (ta ! 2), Mk16 (ta ! 5) (ta ! 4))"

text \<open>The mixing of \<open>PPK[0..5]\<close> in \<open>phase2\<close>.\<close>

definition phase2_mix :: "buf \<Rightarrow> p1k \<Rightarrow> u16 \<Rightarrow> u16 \<times> p1k" where
  "phase2_mix tk = (\<lambda>(k0, k1, k2, k3, k4) iv16.
     let k5 = k4 + iv16;
         k0 = k0 + S16 (k5 XOR TK16 tk 0);
         k1 = k1 + S16 (k0 XOR TK16 tk 1);
         k2 = k2 + S16 (k1 XOR TK16 tk 2);
         k3 = k3 + S16 (k2 XOR TK16 tk 3);
         k4 = k4 + S16 (k3 XOR TK16 tk 4);
         k5 = k5 + S16 (k4 XOR TK16 tk 5);
         k0 = k0 + RotR1 (k5 XOR TK16 tk 6);
         k1 = k1 + RotR1 (k0 XOR TK16 tk 7);
         k2 = k2 + RotR1 k1;
         k3 = k3 + RotR1 k2;
         k4 = k4 + RotR1 k3;
         k5 = k5 + RotR1 k4 in
     (k5, k0, k1, k2, k3, k4))"

definition phase2 :: "buf \<Rightarrow> p1k \<Rightarrow> u16 \<Rightarrow> buf" where
  "phase2 tk p iv16 =
     (case phase2_mix tk p iv16 of (k5, k0, k1, k2, k3, k4) \<Rightarrow>
        [Hi8 iv16, (Hi8 iv16 OR 0x20) AND 0x7F, Lo8 iv16, Lo8 (drop_bit 1 (k5 XOR TK16 tk 0))]
        @ concat (map (\<lambda>k. [Lo8 k, Hi8 k]) [k0, k1, k2, k3, k4, k5]))"

subsection \<open>Frames\<close>

text \<open>\<open>GET_TKIP_PN\<close> on the eight bytes of the IV: \<open>pnl\<close> and \<open>pnh\<close>.\<close>

definition GET_TKIP_PN :: "buf \<Rightarrow> nat \<Rightarrow> (u16 \<times> u32) option" where
  "GET_TKIP_PN b i =
     do { tsc0 \<leftarrow> rd b (i + 2); tsc1 \<leftarrow> rd b i; tsc2 \<leftarrow> rd b (i + 4); tsc3 \<leftarrow> rd b (i + 5);
          tsc4 \<leftarrow> rd b (i + 6); tsc5 \<leftarrow> rd b (i + 7);
          Some (be16 tsc1 tsc0, le32 tsc2 tsc3 tsc4 tsc5) }"

text \<open>The RC4 key of one packet; \<open>skey\<close> is the 32-byte array of a \<open>union Keytype\<close>.\<close>

definition tkip_key :: "buf \<Rightarrow> buf \<Rightarrow> buf \<Rightarrow> nat \<Rightarrow> (buf \<times> nat) option" where
  "tkip_key skey ta b i =
     do { (pnl, pnh) \<leftarrow> GET_TKIP_PN b i;
          tk \<leftarrow> rds skey 0 16;
          ta \<leftarrow> rds ta 0 6;
          Some (phase2 tk (phase1 tk ta pnh) pnl, 16) }"

definition IS_MCAST :: "buf \<Rightarrow> bool option" where
  "IS_MCAST da = do { x \<leftarrow> rd da 0; Some (x AND 0x01 \<noteq> 0) }"

text \<open>\<open>True\<close> stands for \<open>_SUCCESS\<close>, \<open>False\<close> for \<open>_FAIL\<close>.\<close>

definition rtw_tkip_encrypt ::
  "security_priv \<Rightarrow> u32 \<Rightarrow> pkt_attrib \<Rightarrow> xmit_frame \<Rightarrow> crc32_globals \<Rightarrow> (bool \<times> xmit_frame \<times> crc32_globals) option" where
  "rtw_tkip_encrypt sec frag_len a xf g =
     (case buf_addr xf of
        None \<Rightarrow> Some (False, xf, g)
      | Some (base, b) \<Rightarrow>
          if ta_encrypt a = SEC_TKIP then
            do { mc \<leftarrow> IS_MCAST (ta_ra a);
                 skey \<leftarrow> (if mc then idx (dot118021XGrpKey sec) (unat (dot118021XGrpKeyid sec)) else Some (ta_UncstKey a));
                 (b, g) \<leftarrow> frag_loop (tkip_key skey (ta_ta a)) a frag_len base
                             (unat (ta_nr_frags a)) (unat (hw_hdr_offset xf)) b g;
                 Some (True, xf\<lparr>buf_addr := Some (base, b)\<rparr>, g) }
          else Some (True, xf, g))"

text \<open>
  \<open>get_stainfo\<close> stands for \<open>rtw_get_stainfo\<close>: the unicast key of the station with an address.
  The counters behind the log message about a missing group key are left out.
\<close>

definition tkip_check_icv :: "buf \<Rightarrow> nat \<Rightarrow> int \<Rightarrow> crc32_globals \<Rightarrow> (bool \<times> crc32_globals) option" where
  "tkip_check_icv b payload len g =
     do { data \<leftarrow> rds b payload (nat (len - 4));
          let (crc, g) = getcrc32 g data;
          tail \<leftarrow> (if int payload + len < 4 then None else rds b (nat (int payload + len - 4)) 4);
          Some (tail = le32_bytes crc, g) }"

definition rtw_tkip_decrypt ::
  "security_priv \<Rightarrow> (buf \<Rightarrow> buf option) \<Rightarrow> rx_pkt_attrib \<Rightarrow> u32 \<Rightarrow> buf \<Rightarrow> crc32_globals
   \<Rightarrow> (bool \<times> buf \<times> crc32_globals) option" where
  "rtw_tkip_decrypt sec get_stainfo a hdr_len b g =
     (if ra_encrypt a = SEC_TKIP then
        (case get_stainfo (ra_ta a) of
           None \<Rightarrow> Some (False, b, g)
         | Some UncstKey \<Rightarrow>
             do { mc \<leftarrow> IS_MCAST (ra_ra a);
                  if mc \<and> \<not> binstallGrpkey sec then Some (False, b, g)
                  else do {
                    skey \<leftarrow> (if mc then idx (dot118021XGrpKey sec) (unat (ra_key_index a)) else Some UncstKey);
                    let payload = unat (ra_iv_len a) + unat (ra_hdrlen a);
                    let len = sint (hdr_len - ucast (ra_hdrlen a) - ucast (ra_iv_len a));
                    (key, key_len) \<leftarrow> tkip_key skey (ra_ta a) b (unat (ra_hdrlen a));
                    b \<leftarrow> rc4_open key key_len b payload len;
                    (ok, g) \<leftarrow> tkip_check_icv b payload len g;
                    Some (ok, b, g) } })
      else Some (True, b, g))"

subsection \<open>Michael computes the blocks of the standard\<close>

text \<open>
  The reference (IEEE 802.11, the Michael block function): the message, a byte \<open>0x5a\<close> and four
  to seven zero bytes, read as little-endian words and mixed into the pair of words one by one.
\<close>

definition xswap :: "u32 \<Rightarrow> u32" where
  "xswap l = le32 (ucast (drop_bit 8 l)) (ucast l) (ucast (drop_bit 24 l)) (ucast (drop_bit 16 l))"

definition michael_block :: "u32 \<times> u32 \<Rightarrow> u32 \<times> u32" where
  "michael_block = (\<lambda>(l, r).
     let r1 = r XOR word_rotl 17 l; l1 = l + r1;
         r2 = r1 XOR xswap l1; l2 = l1 + r2;
         r3 = r2 XOR word_rotl 3 l2; l3 = l2 + r3;
         r4 = r3 XOR word_rotr 2 l3; l4 = l3 + r4 in (l4, r4))"

fun michael_words :: "u32 \<times> u32 \<Rightarrow> u8 list \<Rightarrow> u32 \<times> u32" where
  "michael_words (l, r) (b0 # b1 # b2 # b3 # bs) = michael_words (michael_block (l XOR le32 b0 b1 b2 b3, r)) bs"
| "michael_words lr bs = lr"

definition michael_pad :: "u8 list \<Rightarrow> u8 list" where
  "michael_pad msg = msg @ [0x5a] @ replicate (7 - length msg mod 4) 0"

lemma ROL32_rotl:
  assumes "n < 32" shows "ROL32 A n = word_rotl n A"
proof (rule bit_word_eqI)
  fix k assume "k < LENGTH(32)"
  then have k: "k < 32" by simp
  have m: "(k + (32 - n)) mod 32 = (if n \<le> k then k - n else 32 - n + k)"
  proof (cases "n \<le> k")
    case True
    then have e: "k + (32 - n) = (k - n) + 32" using assms by simp
    show ?thesis unfolding e using True k by (simp only: mod_add_self2) simp
  qed (use assms k in simp)
  have "bit (word_rotl n A) k = bit A ((k + (32 - n)) mod 32)"
    using bit_word_rotl_iff [of n A k] k assms by simp
  also have "\<dots> = (n \<le> k \<and> bit A (k - n) \<or> bit A (32 - n + k) \<and> k < n)"
    using bit_imp_le_length [of A "32 - n + k"] k by (simp only: m) auto
  also have "\<dots> = bit (push_bit n A OR (drop_bit (32 - n) A AND mask n)) k"
    using k by (simp only: bit_or_iff bit_push_bit_iff bit_and_iff bit_drop_bit_eq bit_mask_iff o_apply) auto
  finally show "bit (ROL32 A n) k = bit (word_rotl n A) k"
    by (simp add: ROL32_def mask_eq_exp_minus_1)
qed

lemma xswap_mask: "drop_bit 8 (L AND 0xff00ff00) OR push_bit 8 (L AND 0x00ff00ff) = xswap L"
proof (rule bit_word_eqI)
  fix k assume k: "k < LENGTH(32)"
  have m: "(0xff00ff00 :: u32) = push_bit 8 (mask 8) OR push_bit 24 (mask 8)" "(0x00ff00ff :: u32) = mask 8 OR push_bit 16 (mask 8)"
    by (simp_all add: mask_eq_exp_minus_1)
  show "bit (drop_bit 8 (L AND 0xff00ff00) OR push_bit 8 (L AND 0x00ff00ff)) k = bit (xswap L) k"
    using k by (simp only: m) (auto simp: xswap_def bit_le32 bit_simps dest: bit_imp_le_length)
qed
lemma mic_mix_block: "mic_mix M L R = michael_block (L XOR M, R)"
proof -
  have "ROR32 x 2 = word_rotr 2 x" for x
    by (simp add: ROR32_def ROL32_rotl word_rotl_eq_word_rotr)
  then show ?thesis
    unfolding mic_mix_def xswap_mask michael_block_def by (simp add: ROL32_rotl Let_def)
qed

definition mic_of :: "mic_data \<Rightarrow> u32 \<times> u32" where
  "mic_of m = (mic_L m, mic_R m)"

lemma michael_words_append4:
  "length bs mod 4 = 0 \<Longrightarrow> michael_words lr (bs @ cs) = michael_words (michael_words lr bs) cs"
proof (induction lr bs rule: michael_words.induct)
  case (1 l r b0 b1 b2 b3 bs)
  have "length (b0 # b1 # b2 # b3 # bs) = length bs + 4" by simp
  with 1(2) have "length bs mod 4 = 0" by (simp only: mod_add_self2)
  with 1(1) show ?case by simp
qed simp_all

lemma michael_words_short: "length cs < 4 \<Longrightarrow> michael_words lr cs = lr"
  by (cases "(lr, cs)" rule: michael_words.cases) auto


lemma le32_short:
  "le32 b0 0 0 0 = ucast b0"
  "ucast b0 OR push_bit 8 (ucast b1) = le32 b0 b1 0 0"
  "le32 b0 b1 0 0 OR push_bit 16 (ucast b2) = le32 b0 b1 b2 0"
  "le32 b0 b1 b2 0 OR push_bit 24 (ucast b3) = le32 b0 b1 b2 b3"
  by (simp_all add: le32_def or.assoc)

text \<open>
  \<open>mic_inv m lr msg\<close>: \<open>m\<close> is the state after the bytes \<open>msg\<close> from the pair of words \<open>lr\<close>: the
  complete words are mixed in, the bytes of the word begun are in \<open>M\<close>.
\<close>

fun mic_rest :: "u8 list \<Rightarrow> u32" where
  "mic_rest [] = 0"
| "mic_rest [b0] = ucast b0"
| "mic_rest [b0, b1] = le32 b0 b1 0 0"
| "mic_rest [b0, b1, b2] = le32 b0 b1 b2 0"
| "mic_rest _ = 0"

definition mic_inv :: "mic_data \<Rightarrow> u32 \<times> u32 \<Rightarrow> u8 list \<Rightarrow> bool" where
  "mic_inv m lr msg \<longleftrightarrow> (\<exists>ws rest. msg = ws @ rest \<and> length ws mod 4 = 0 \<and> length rest < 4
     \<and> (mic_L m, mic_R m) = michael_words lr ws \<and> nBytesInM m = of_nat (length rest) \<and> mic_M m = mic_rest rest)"

lemma appendbyte_0: "nBytesInM m = 0 \<Longrightarrow> rtw_secmicappendbyte m b = m\<lparr>mic_M := mic_M m OR ucast b, nBytesInM := 1\<rparr>"
  and appendbyte_1: "nBytesInM m = 1 \<Longrightarrow> rtw_secmicappendbyte m b = m\<lparr>mic_M := mic_M m OR push_bit 8 (ucast b), nBytesInM := 2\<rparr>"
  and appendbyte_2: "nBytesInM m = 2 \<Longrightarrow> rtw_secmicappendbyte m b = m\<lparr>mic_M := mic_M m OR push_bit 16 (ucast b), nBytesInM := 3\<rparr>"
  and appendbyte_3: "nBytesInM m = 3 \<Longrightarrow> rtw_secmicappendbyte m b =
      (case mic_mix (mic_M m OR push_bit 24 (ucast b)) (mic_L m) (mic_R m) of
         (L, R) \<Rightarrow> m\<lparr>mic_L := L, mic_R := R, mic_M := 0, nBytesInM := 0\<rparr>)"
  by (simp_all add: rtw_secmicappendbyte_def Let_def word_le_nat_alt)

lemma mic_invI:
  "length ws mod 4 = 0 \<Longrightarrow> length rest < 4 \<Longrightarrow> (mic_L m, mic_R m) = michael_words lr ws
   \<Longrightarrow> nBytesInM m = of_nat (length rest) \<Longrightarrow> mic_M m = mic_rest rest \<Longrightarrow> mic_inv m lr (ws @ rest)"
  unfolding mic_inv_def by (rule exI [of _ ws], rule exI [of _ rest]) (intro conjI refl)

lemma mic_invE:
  assumes "mic_inv m lr msg"
  obtains ws rest where "msg = ws @ rest" "length ws mod 4 = 0" "length rest < 4"
    "(mic_L m, mic_R m) = michael_words lr ws" "nBytesInM m = of_nat (length rest)" "mic_M m = mic_rest rest"
  using assms unfolding mic_inv_def by (elim exE conjE)

lemma mic_inv_byte:
  assumes "mic_inv m lr msg" shows "mic_inv (rtw_secmicappendbyte m b) lr (msg @ [b])"
proof -
  obtain ws rest where r: "msg = ws @ rest" "length ws mod 4 = 0" "length rest < 4"
    "(mic_L m, mic_R m) = michael_words lr ws" "nBytesInM m = of_nat (length rest)" "mic_M m = mic_rest rest"
    by (rule mic_invE [OF assms])
  consider "rest = []" | b0 where "rest = [b0]" | b0 b1 where "rest = [b0, b1]" | b0 b1 b2 where "rest = [b0, b1, b2]"
    using r(3) by (cases rest rule: mic_rest.cases) auto
  then show ?thesis
  proof cases
    case 1
    with r have "mic_inv (rtw_secmicappendbyte m b) lr (ws @ [b])"
      by (intro mic_invI) (simp_all add: appendbyte_0)
    with r 1 show ?thesis by simp
  next
    case (2 b0)
    with r have "mic_inv (rtw_secmicappendbyte m b) lr (ws @ [b0, b])"
      by (intro mic_invI) (simp_all add: appendbyte_1 le32_short)
    with r 2 show ?thesis by simp
  next
    case (3 b0 b1)
    with r have "mic_inv (rtw_secmicappendbyte m b) lr (ws @ [b0, b1, b])"
      by (intro mic_invI) (simp_all add: appendbyte_2 le32_short)
    with r 3 show ?thesis by simp
  next
    case (4 b0 b1 b2)
    have l: "length (ws @ [b0, b1, b2, b]) mod 4 = 0" using r(2) by (simp only: length_append) simp
    have "michael_words lr (ws @ [b0, b1, b2, b]) = michael_block (mic_L m XOR le32 b0 b1 b2 b, mic_R m)"
      using michael_words_append4 [OF r(2), of lr "[b0, b1, b2, b]"] r(4) by (metis michael_words.simps(1,2))
    moreover have "nBytesInM m = 3" "mic_M m OR push_bit 24 (ucast b) = le32 b0 b1 b2 b"
      using r(5,6) 4 by (simp_all add: le32_short)
    ultimately have "mic_inv (rtw_secmicappendbyte m b) lr ((ws @ [b0, b1, b2, b]) @ [])"
      using l by (intro mic_invI) (simp_all add: appendbyte_3 mic_mix_block split: prod.splits)
    with r 4 show ?thesis by simp
  qed
qed

lemma mic_inv_append: "mic_inv m lr msg \<Longrightarrow> mic_inv (rtw_secmicappend m bs) lr (msg @ bs)"
proof (induction bs arbitrary: m msg)
  case (Cons b bs)
  from Cons.IH [OF mic_inv_byte [OF Cons.prems, of b]] show ?case by simp
qed simp


lemma mic_inv_count: "mic_inv m lr msg \<Longrightarrow> nBytesInM m = of_nat (length msg mod 4)"
proof (erule mic_invE)
  fix ws rest assume r: "msg = ws @ rest" "length ws mod 4 = 0" "length rest < 4" "nBytesInM m = of_nat (length rest)"
  have "length msg mod 4 = (length ws mod 4 + length rest) mod 4" using r(1) by (simp only: length_append mod_add_left_eq)
  with r show ?thesis by simp
qed

lemma mic_inv_full:
  assumes "mic_inv m lr msg" "length msg mod 4 = 0" shows "(mic_L m, mic_R m) = michael_words lr msg"
proof -
  obtain ws rest where r: "msg = ws @ rest" "length ws mod 4 = 0" "length rest < 4"
    "(mic_L m, mic_R m) = michael_words lr ws"
    by (rule mic_invE [OF assms(1)])
  have "length msg mod 4 = (length ws mod 4 + length rest) mod 4" using r(1) by (simp only: length_append mod_add_left_eq)
  with assms(2) r show ?thesis by simp
qed

lemma secgetmic_pad:
  "mic_inv m lr msg \<Longrightarrow> (length msg + k) mod 4 = 0 \<Longrightarrow> k < 4 \<Longrightarrow>
   \<exists>m'. run_loop secgetmic_pad_step m = Some m' \<and> mic_inv m' lr (msg @ replicate k 0)"
proof (induction k arbitrary: m msg)
  case 0
  have "length msg mod 4 = 0" using 0(2) by (simp only: add_0_right)
  with mic_inv_count [OF 0(1)] have "nBytesInM m = of_nat 0" by (simp only:)
  then have "run_loop secgetmic_pad_step m = Some m" by (intro run_loop_Ret) (simp add: secgetmic_pad_step_def)
  with 0(1) show ?case by simp
next
  case (Suc k)
  have "length msg mod 4 \<noteq> 0"
  proof
    assume "length msg mod 4 = 0"
    then have "(length msg + Suc k) mod 4 = (0 + Suc k) mod 4" by (subst mod_add_left_eq [symmetric]) (simp only:)
    then have "Suc k mod 4 = 0" using Suc.prems(2) by (simp only: add_0)
    moreover have "Suc k mod 4 = Suc k" using Suc.prems(3) by (rule mod_less)
    ultimately show False by (simp only:)
  qed
  moreover have "unat (of_nat (length msg mod 4) :: u32) = length msg mod 4"
    by (rule unat_of_nat_u32) (rule less_trans [of _ 4], simp_all)
  ultimately have "nBytesInM m \<noteq> 0" using mic_inv_count [OF Suc.prems(1)] by auto
  then have "run_loop secgetmic_pad_step m = run_loop secgetmic_pad_step (rtw_secmicappendbyte m 0)"
    by (intro run_loop_Next) (simp add: secgetmic_pad_step_def)
  moreover have "(length (msg @ [0 :: u8]) + k) mod 4 = 0" using Suc.prems(2) by simp
  moreover have "k < 4" using Suc.prems(3) by simp
  moreover have "msg @ replicate (Suc k) 0 = (msg @ [0 :: u8]) @ replicate k 0" by simp
  ultimately show ?case
    using Suc.IH [OF mic_inv_byte [OF Suc.prems(1), of 0]] by metis
qed

lemma pad_count: "(n + 5 + (3 - n mod 4)) mod 4 = (0 :: nat)" "3 - n mod 4 < (4 :: nat)" "7 - n mod 4 = 4 + (3 - n mod (4 :: nat))"
  by presburger+

lemma replicate_4_add: "replicate (4 + k) x = [x, x, x, x] @ replicate k x"
  by (simp add: numeral_eq_Suc)

lemma michael_pad_eq: "michael_pad msg = (msg @ [0x5a, 0, 0, 0, 0]) @ replicate (3 - length msg mod 4) 0"
  unfolding michael_pad_def pad_count(3) replicate_4_add by simp

lemma rtw_secgetmic_words:
  assumes "mic_inv m lr msg"
  shows "\<exists>m'. rtw_secgetmic m = Some ((case michael_words lr (michael_pad msg) of (l, r) \<Rightarrow> le32_bytes l @ le32_bytes r), m')"
proof -
  let ?k = "3 - length msg mod 4" and ?p = "msg @ [0x5a, 0, 0, 0, 0]"
  have l: "length ?p = length msg + 5" by simp
  have k: "(length ?p + ?k) mod 4 = 0" unfolding l by (rule pad_count)
  obtain m' where m': "run_loop secgetmic_pad_step (rtw_secmicappend m [0x5a, 0, 0, 0, 0]) = Some m'"
    "mic_inv m' lr (michael_pad msg)"
    using secgetmic_pad [OF mic_inv_append [OF assms] k pad_count(2)] unfolding michael_pad_eq by blast
  have "length (michael_pad msg) mod 4 = 0" unfolding michael_pad_eq length_append length_replicate
    using k unfolding length_append .
  from mic_inv_full [OF m'(2) this, symmetric] show ?thesis
    unfolding rtw_secgetmic_def m'(1) by simp
qed


text \<open>The addresses of a data frame: address fields 1 to 4, and the destination and source among them.\<close>

definition hdr_addr :: "buf \<Rightarrow> nat \<Rightarrow> buf" where
  "hdr_addr h n = take 6 (drop (if n = 4 then 24 else 6 * n - 2) h)"

fun hdr_da :: "bool \<Rightarrow> bool \<Rightarrow> nat" where
  "hdr_da to_ds from_ds = (if to_ds then 3 else 1)"

fun hdr_sa :: "bool \<Rightarrow> bool \<Rightarrow> nat" where
  "hdr_sa to_ds from_ds = (if from_ds then (if to_ds then 4 else 3) else 2)"

definition michael :: "buf \<Rightarrow> buf \<Rightarrow> buf" where
  "michael key msg =
     (case michael_words (le32 (key ! 0) (key ! 1) (key ! 2) (key ! 3), le32 (key ! 4) (key ! 5) (key ! 6) (key ! 7)) (michael_pad msg)
      of (l, r) \<Rightarrow> le32_bytes l @ le32_bytes r)"

lemma mic_inv_setkey:
  assumes "8 \<le> length key"
  shows "\<exists>m'. rtw_secmicsetkey m key = Some m'
    \<and> mic_inv m' (le32 (key ! 0) (key ! 1) (key ! 2) (key ! 3), le32 (key ! 4) (key ! 5) (key ! 6) (key ! 7)) []"
proof -
  let ?k0 = "le32 (key ! 0) (key ! 1) (key ! 2) (key ! 3)" and ?k1 = "le32 (key ! 4) (key ! 5) (key ! 6) (key ! 7)"
  have "mic_inv (secmicclear (m\<lparr>mic_K0 := ?k0, mic_K1 := ?k1\<rparr>)) (?k0, ?k1) ([] @ [])"
    by (rule mic_invI) (simp_all add: secmicclear_def)
  moreover have "key \<noteq> []" using assms by auto
  ultimately show ?thesis using assms
    by (simp add: rtw_secmicsetkey_def secmicgetuint32_def rd_def numeral_2_eq_2)
qed

lemma rtw_seccalctkipmic_spec:
  assumes "8 \<le> length key" "30 \<le> length header" "data_len \<le> length data"
  shows "rtw_seccalctkipmic m key header data data_len pri = Some (michael key
    (hdr_addr header (hdr_da (bit (header ! 1) 0) (bit (header ! 1) 1))
     @ hdr_addr header (hdr_sa (bit (header ! 1) 0) (bit (header ! 1) 1)) @ [pri, 0, 0, 0] @ take data_len data))"
proof -
  let ?fc = "header ! 1"
  have b: "(?fc AND 1 \<noteq> 0) = bit ?fc 0" "(?fc AND 2 \<noteq> 0) = bit ?fc 1"
    using and_exp_eq_0_iff_not_bit [of ?fc 0] and_exp_eq_0_iff_not_bit [of ?fc 1] by simp_all
  let ?da = "hdr_addr header (hdr_da (bit ?fc 0) (bit ?fc 1))" and ?sa = "hdr_addr header (hdr_sa (bit ?fc 0) (bit ?fc 1))"
  have a: "rds header (if bit ?fc 0 then 16 else 4) 6 = Some ?da"
    "rds header (if bit ?fc 0 then (if bit ?fc 1 then 24 else 10) else (if bit ?fc 1 then 16 else 10)) 6 = Some ?sa"
    using assms(2) by (auto simp: rds_def hdr_addr_def)
  obtain m' where m': "rtw_secmicsetkey m key = Some m'"
    "mic_inv m' (le32 (key ! 0) (key ! 1) (key ! 2) (key ! 3), le32 (key ! 4) (key ! 5) (key ! 6) (key ! 7)) []"
    using mic_inv_setkey [OF assms(1)] by blast
  let ?m = "rtw_secmicappend (rtw_secmicappend (rtw_secmicappend (rtw_secmicappend m' ?da) ?sa) [pri, 0, 0, 0]) (take data_len data)"
  have "mic_inv ?m (le32 (key ! 0) (key ! 1) (key ! 2) (key ! 3), le32 (key ! 4) (key ! 5) (key ! 6) (key ! 7))
      (?da @ ?sa @ [pri, 0, 0, 0] @ take data_len data)"
    using mic_inv_append [OF mic_inv_append [OF mic_inv_append [OF mic_inv_append
      [OF m'(2), of ?da], of ?sa], of "[pri, 0, 0, 0]"], of "take data_len data"]
    by (simp only: append_Nil append_assoc)
  from rtw_secgetmic_words [OF this] obtain m'' where
    e: "rtw_secgetmic ?m = Some (michael key (?da @ ?sa @ [pri, 0, 0, 0] @ take data_len data), m'')"
    unfolding michael_def by blast
  have fc: "rd header 1 = Some ?fc" and d: "rds data 0 data_len = Some (take data_len data)"
    using assms(2,3) by (auto simp: rd_def rds_0)
  show ?thesis
    by (simp only: rtw_seccalctkipmic_def m'(1) fc Option.bind.bind_lunit b a d Let_def e option.map fst_conv)
qed

text \<open>C26. Equivalence: \<open>rtw_seccalctkipmic\<close>, which works byte by byte on a word buffer, returns the Michael code of
  IEEE 802.11: the block function over the little-endian words of destination address, source address,
  priority and data, padded by \<open>0x5a\<close> and four to seven zeroes. The padding loop ends. The
  addresses are those the ToDS and FromDS bits of the header select.\<close>

theorem rtw_seccalctkipmic_michael:
  assumes "8 \<le> length key" "30 \<le> length header" "data_len \<le> length data"
  shows "rtw_seccalctkipmic m key header data data_len pri = Some (michael key
    (hdr_addr header (hdr_da (bit (header ! 1) 0) (bit (header ! 1) 1))
     @ hdr_addr header (hdr_sa (bit (header ! 1) 0) (bit (header ! 1) 1)) @ [pri, 0, 0, 0] @ take data_len data))"
  using assms by (rule rtw_seccalctkipmic_spec)

theorem rtw_seccalctkipmic_michael_witness:
  "rtw_seccalctkipmic \<lparr>mic_K0 = 0, mic_K1 = 0, mic_L = 0, mic_R = 0, mic_M = 0, nBytesInM = 0\<rparr>
     [1, 2, 3, 4, 5, 6, 7, 8] (replicate 30 1) [9, 9] 2 5
   = Some (michael [1, 2, 3, 4, 5, 6, 7, 8] (replicate 12 1 @ [5, 0, 0, 0, 9, 9]))"
  using rtw_seccalctkipmic_michael [of "[1, 2, 3, 4, 5, 6, 7, 8]" "replicate 30 1" 2 "[9, 9]"
      "\<lparr>mic_K0 = 0, mic_K1 = 0, mic_L = 0, mic_R = 0, mic_M = 0, nBytesInM = 0\<rparr>" 5]
  by (simp add: hdr_addr_def replicate_add [of 6 6, simplified])


subsection \<open>The key mixing is injective\<close>

lemma phase1_round_inj: "inj (phase1_round tk i)"
proof (rule injI)
  fix p q assume e: "phase1_round tk i p = phase1_round tk i q"
  obtain r0 r1 r2 r3 r4 where r: "phase1_round tk i q = (r0, r1, r2, r3, r4)" by (metis prod_cases5)
  have inv: "x = (r0 - S16 ((r4 - of_nat i - S16 (r3 XOR TK16 tk (i mod 2))) XOR TK16 tk (i mod 2)),
      r1 - S16 (r0 XOR TK16 tk (i mod 2 + 2)), r2 - S16 (r1 XOR TK16 tk (i mod 2 + 4)),
      r3 - S16 (r2 XOR TK16 tk (i mod 2 + 6)), r4 - of_nat i - S16 (r3 XOR TK16 tk (i mod 2)))"
    if "phase1_round tk i x = (r0, r1, r2, r3, r4)" for x
    using that by (cases x) (auto simp: phase1_round_def Let_def)
  show "p = q" using inv [of p] inv [of q] e r by simp
qed

lemma phase1_rounds_inj: "inj (fold (phase1_round tk) is)"
proof (induction "is")
  case (Cons i "is")
  from inj_compose [OF Cons phase1_round_inj] show ?case by (simp only: fold_Cons)
qed simp

lemma Lo16_Hi16: "Lo16 v = Lo16 w \<Longrightarrow> Hi16 v = Hi16 w \<Longrightarrow> v = w"
proof (rule bit_word_eqI)
  fix n assume l: "Lo16 v = Lo16 w" and h: "Hi16 v = Hi16 w" and n: "n < LENGTH(32)"
  have m: "(0xFFFF :: u32) = mask 16" by (simp add: mask_eq_exp_minus_1)
  have "bit (Lo16 v) n = (n < 16 \<and> bit v n)" "bit (Hi16 v) n = (n < 16 \<and> bit v (n + 16))" for v n
    by (auto simp: Lo16_def Hi16_def m bit_simps ac_simps)
  from this(1) [of v n] this(1) [of w n] this(2) [of v "n - 16"] this(2) [of w "n - 16"] l h n
  show "bit v n = bit w n" by (cases "n < 16") auto
qed

lemma bit_Lo8_Hi8: "bit (Lo8 v) n \<longleftrightarrow> n < 8 \<and> bit v n" "bit (Hi8 v) n \<longleftrightarrow> n < 8 \<and> bit v (n + 8)"
proof -
  have m: "(0x00FF :: u16) = mask 8" by (simp add: mask_eq_exp_minus_1)
  show "bit (Lo8 v) n \<longleftrightarrow> n < 8 \<and> bit v n" "bit (Hi8 v) n \<longleftrightarrow> n < 8 \<and> bit v (n + 8)"
    by (auto simp: Lo8_def Hi8_def m bit_simps ac_simps)
qed

lemma Lo8_Hi8: "Lo8 v = Lo8 w \<Longrightarrow> Hi8 v = Hi8 w \<Longrightarrow> v = w"
proof (rule bit_word_eqI)
  fix n assume l: "Lo8 v = Lo8 w" and h: "Hi8 v = Hi8 w" and n: "n < LENGTH(16)"
  show "bit v n = bit w n"
    using bit_Lo8_Hi8 [of v n] bit_Lo8_Hi8 [of w n] bit_Lo8_Hi8 [of v "n - 8"] bit_Lo8_Hi8 [of w "n - 8"] l h n
    by (cases "n < 8") auto
qed

lemma Mk16_parts: "Lo8 (Mk16 hi lo) = lo" "Hi8 (Mk16 hi lo) = hi"
  by (rule bit_word_eqI, auto simp: bit_Lo8_Hi8 Mk16_def bit_simps dest: bit_imp_le_length)+

lemma Mk16_inj: "Mk16 a b = Mk16 c d \<Longrightarrow> a = c \<and> b = d"
  by (metis Mk16_parts)

lemma length_6: "length xs = 6 \<Longrightarrow> xs = [xs ! 0, xs ! 1, xs ! 2, xs ! 3, xs ! 4, xs ! 5]"
  by (rule nth_equalityI) (auto simp: less_Suc_eq numeral_eq_Suc)

lemma phase1_inj:
  assumes "phase1 tk ta iv32 = phase1 tk ta' iv32'" "length ta = 6" "length ta' = 6"
  shows "ta = ta' \<and> iv32 = iv32'"
proof -
  have "(Lo16 iv32, Hi16 iv32, Mk16 (ta ! 1) (ta ! 0), Mk16 (ta ! 3) (ta ! 2), Mk16 (ta ! 5) (ta ! 4))
      = (Lo16 iv32', Hi16 iv32', Mk16 (ta' ! 1) (ta' ! 0), Mk16 (ta' ! 3) (ta' ! 2), Mk16 (ta' ! 5) (ta' ! 4))"
    using assms(1) unfolding phase1_def by (rule injD [OF phase1_rounds_inj])
  then show ?thesis
    using Lo16_Hi16 length_6 [OF assms(2)] length_6 [OF assms(3)] by (metis Mk16_inj prod.inject)
qed

lemma phase2_mix_inj:
  assumes "phase2_mix tk p iv16 = phase2_mix tk p' iv16"
  shows "p = p'"
proof -
  obtain r5 r0 r1 r2 r3 r4 where r: "phase2_mix tk p' iv16 = (r5, r0, r1, r2, r3, r4)" by (metis prod_cases6)
  define k5 where "k5 = r5 - RotR1 r4"
  define k0 where "k0 = r0 - RotR1 (k5 XOR TK16 tk 6)"
  define k1 where "k1 = r1 - RotR1 (r0 XOR TK16 tk 7)"
  define k2 where "k2 = r2 - RotR1 r1"
  define k3 where "k3 = r3 - RotR1 r2"
  define k4 where "k4 = r4 - RotR1 r3"
  have "x = (k0 - S16 ((k5 - S16 (k4 XOR TK16 tk 5)) XOR TK16 tk 0), k1 - S16 (k0 XOR TK16 tk 1),
      k2 - S16 (k1 XOR TK16 tk 2), k3 - S16 (k2 XOR TK16 tk 3), k4 - S16 (k3 XOR TK16 tk 4))"
    if "phase2_mix tk x iv16 = (r5, r0, r1, r2, r3, r4)" for x
    using that by (cases x) (auto simp: phase2_mix_def Let_def k5_def k0_def k1_def k2_def k3_def k4_def)
  from this [of p] this [of p'] assms r show ?thesis by simp
qed

lemma phase2_inj:
  assumes "phase2 tk p iv16 = phase2 tk p' iv16'" shows "p = p' \<and> iv16 = iv16'"
proof -
  have iv: "iv16 = iv16'" using assms by (intro Lo8_Hi8) (auto simp: phase2_def split: prod.splits)
  have "phase2_mix tk p iv16 = phase2_mix tk p' iv16'"
    using assms by (auto simp: phase2_def split: prod.splits intro: Lo8_Hi8)
  with iv phase2_mix_inj show ?thesis by blast
qed


text \<open>C40. Safety: the key mixing gives no two packets under one temporal key the same RC4 key: transmitter
  address, the upper 32 bits of the packet number and its lower 16 bits can be read back from the
  16 key bytes. This is the uniqueness the comments of \<open>phase1\<close> and \<open>phase2\<close> rely on, for every
  temporal key and whatever the S-box holds.\<close>

theorem tkip_rc4key_unique:
  "inj_on (\<lambda>(ta, iv32, iv16). phase2 tk (phase1 tk ta iv32) iv16) {(ta, iv32, iv16). length ta = 6}"
proof (rule inj_onI)
  fix x y :: "buf \<times> u32 \<times> u16"
  assume x: "x \<in> {(ta, iv32, iv16). length ta = 6}" and y: "y \<in> {(ta, iv32, iv16). length ta = 6}"
    and e: "(\<lambda>(ta, iv32, iv16). phase2 tk (phase1 tk ta iv32) iv16) x = (\<lambda>(ta, iv32, iv16). phase2 tk (phase1 tk ta iv32) iv16) y"
  obtain ta iv32 iv16 ta' iv32' iv16' where v: "x = (ta, iv32, iv16)" "y = (ta', iv32', iv16')"
    by (metis prod_cases3)
  have "phase1 tk ta iv32 = phase1 tk ta' iv32' \<and> iv16 = iv16'" using e v by (intro phase2_inj) simp
  with phase1_inj [of tk ta iv32 ta' iv32'] x y v show "x = y" by simp
qed

subsection \<open>TKIP on the fragment cipher\<close>

lemma length_phase2 [simp]: "length (phase2 tk p iv16) = 16"
  by (simp add: phase2_def split: prod.splits)

lemma GET_TKIP_PN_slice: "i + 8 \<le> length b \<Longrightarrow> GET_TKIP_PN b i = GET_TKIP_PN (take 8 (drop i b)) 0"
  by (simp add: GET_TKIP_PN_def rd_def)

lemma GET_TKIP_PN_Some: "i + 8 \<le> length b \<Longrightarrow> \<exists>pnl pnh. GET_TKIP_PN b i = Some (pnl, pnh)"
  by (simp add: GET_TKIP_PN_def rd_def)

definition tkip_key_ok :: "buf \<Rightarrow> buf \<Rightarrow> bool" where
  "tkip_key_ok skey ta \<longleftrightarrow> 16 \<le> length skey \<and> 6 \<le> length ta"

interpretation tkip: frag_cipher "tkip_key skey ta" 8 "tkip_key_ok skey ta" for skey ta
proof (unfold_locales, goal_cases)
  case (1 i b)
  then show ?case using GET_TKIP_PN_Some [of i b] by (auto simp: tkip_key_def tkip_key_ok_def rds_def)
next
  case (2 i b j c)
  then have "GET_TKIP_PN b i = GET_TKIP_PN c j" using GET_TKIP_PN_slice [of i b] GET_TKIP_PN_slice [of j c] by simp
  then show ?case by (simp add: tkip_key_def)
qed


lemma rds_mid: "i = length h \<Longrightarrow> n = length d \<Longrightarrow> rds (h @ d @ post) i n = Some d"
  by (simp add: rds_def)

lemma tkip_check_icv_ok:
  assumes "crc_ok g" "p = length h" "l = int (length d + 4)"
  shows "\<exists>g'. tkip_check_icv (h @ d @ icv d) p l g = Some (True, g')"
proof -
  obtain g' where g': "getcrc32 g d = (NOT (crc_serial 0xffffffff d), g')" using getcrc32_serial [OF assms(1)] by blast
  have n: "nat (l - 4) = length d" "nat (int p + l - 4) = length (h @ d)" "\<not> int p + l < 4"
    unfolding assms(2,3) by simp_all
  have "rds (h @ d @ icv d) p (length d) = Some d" by (rule rds_mid [OF assms(2) refl])
  moreover have "rds (h @ d @ icv d) (length (h @ d)) 4 = Some (icv d)"
    using rds_mid [of "length (h @ d)" "h @ d" 4 "icv d" "[]"] by simp
  ultimately show ?thesis
    unfolding tkip_check_icv_def n by (simp add: g' Let_def n(3) icv_def)
qed

lemma tkip_opens_decrypt:
  assumes "tkip.opens skey (ra_ta r) a f (h @ d @ icv d)" "crc_ok g"
    "ra_encrypt r = SEC_TKIP" "get_stainfo (ra_ta r) = Some ukey" "IS_MCAST (ra_ra r) = Some mc" "mc \<longrightarrow> binstallGrpkey sec"
    "(if mc then idx (dot118021XGrpKey sec) (unat (ra_key_index r)) else Some ukey) = Some skey"
    "unat (ra_hdrlen r) = unat (ta_hdrlen a)" "ra_iv_len r = ta_iv_len a"
    "length f = length (h @ d @ icv d)" "length h = unat (ta_hdrlen a) + unat (ta_iv_len a)" "length f < 2 ^ 31"
  shows "\<exists>g'. rtw_tkip_decrypt sec get_stainfo r (of_nat (length f)) f g = Some (True, h @ d @ icv d, g')"
proof -
  let ?n = "length d + 4"
  have n: "length f = unat (ta_hdrlen a) + unat (ta_iv_len a) + ?n" using assms(10,11) by simp
  have len: "sint (of_nat (length f) - ucast (ra_hdrlen r) - ucast (ra_iv_len r) :: u32) = int ?n"
    unfolding n by (rule sint_frame_length) (use assms(8,9,12) n in simp_all)
  obtain key kl where k: "tkip_key skey (ra_ta r) f (unat (ra_hdrlen r)) = Some (key, kl)"
    "rc4_open key kl f (unat (ra_iv_len r) + unat (ra_hdrlen r)) (int ?n) = Some (h @ d @ icv d)"
    using assms(1,8,9,11) by (auto simp: tkip.opens_def ac_simps)
  obtain g' where g': "tkip_check_icv (h @ d @ icv d) (unat (ra_iv_len r) + unat (ra_hdrlen r)) (int ?n) g = Some (True, g')"
    using tkip_check_icv_ok [OF assms(2), of "unat (ra_iv_len r) + unat (ra_hdrlen r)" h "int ?n" d] assms(8,9,11) by auto
  show ?thesis
    using assms(3-7) k g' unfolding rtw_tkip_decrypt_def len by (auto simp: Let_def)
qed


text \<open>C15. Round trip: every fragment that \<open>rtw_tkip_encrypt\<close> leaves in the transmit buffer, unicast or multicast,
  taken as a frame received by a station that holds the same temporal key, is accepted by
  \<open>rtw_tkip_decrypt\<close> (the ICV matches) and decrypted to the header, IV and payload it was made
  of, followed by the CRC-32 of the payload.\<close>

theorem rtw_tkip_roundtrip:
  assumes "buf_addr xf = Some (base, b)" "ta_encrypt a = SEC_TKIP" "IS_MCAST (ta_ra a) = Some mc"
    and "(if mc then idx (dot118021XGrpKey sec) (unat (dot118021XGrpKeyid sec)) else Some (ta_UncstKey a)) = Some skey"
    and "tkip_key_ok skey (ta_ta a)" "ta_iv_len a = 8" "crc_ok g" "length b < 2 ^ 31"
    and "frags_fit frag_len a base (unat (ta_nr_frags a)) (unat (hw_hdr_offset xf)) (length b)"
    and "ra_encrypt r = SEC_TKIP" "ra_ra r = ta_ra a" "ra_ta r = ta_ta a" "get_stainfo (ta_ta a) = Some ukey"
    and "mc \<longrightarrow> binstallGrpkey sec'"
    and "(if mc then idx (dot118021XGrpKey sec') (unat (ra_key_index r)) else Some ukey) = Some skey"
    and "unat (ra_hdrlen r) = unat (ta_hdrlen a)" "ra_iv_len r = 8"
  shows "\<exists>b' g'. rtw_tkip_encrypt sec frag_len a xf g = Some (True, xf\<lparr>buf_addr := Some (base, b')\<rparr>, g') \<and> length b' = length b
    \<and> (\<forall>k < unat (ta_nr_frags a). \<exists>g''. let p = frag_off frag_len base (unat (hw_hdr_offset xf)) k;
           n = unat (ta_hdrlen a) + 8 + nat (payload_length frag_len a (unat (ta_nr_frags a)) k) in
         rtw_tkip_decrypt sec' get_stainfo r (of_nat (n + 4)) (take (n + 4) (drop p b')) g'
         = Some (True, take n (drop p b) @ icv (drop (unat (ta_hdrlen a) + 8) (take n (drop p b))), g''))"
proof -
  let ?off = "unat (hw_hdr_offset xf)" and ?N = "unat (ta_nr_frags a)" and ?h = "unat (ta_hdrlen a)"
  have iv8: "unat (ta_iv_len a) = 8" using assms(6) by simp
  then have "8 \<le> unat (ta_iv_len a)" by simp
  from tkip.frag_loop_opens [OF assms(7,5) this assms(9)] obtain b' g' where L:
    "frag_loop (tkip_key skey (ta_ta a)) a frag_len base ?N ?off b g = Some (b', g')" "crc_ok g'" "length b' = length b"
    "\<And>k. k < ?N \<Longrightarrow> let p = frag_off frag_len base ?off k; m = nat (payload_length frag_len a ?N k); h = ?h + unat (ta_iv_len a) in
        tkip.opens skey (ta_ta a) a (take (h + m + 4) (drop p b')) (take (h + m) (drop p b) @ icv (take m (drop (p + h) b)))"
    by blast
  have "\<exists>g''. let p = frag_off frag_len base ?off k; n = ?h + 8 + nat (payload_length frag_len a ?N k) in
         rtw_tkip_decrypt sec' get_stainfo r (of_nat (n + 4)) (take (n + 4) (drop p b')) g'
         = Some (True, take n (drop p b) @ icv (drop (?h + 8) (take n (drop p b))), g'')" if k: "k < ?N" for k
  proof -
    define p m where "p = frag_off frag_len base ?off k" and "m = nat (payload_length frag_len a ?N k)"
    have fit: "p + ?h + 8 + m + 4 \<le> length b" using assms(9) iv8 k by (auto simp: frags_fit_def p_def m_def)
    define h d where "h = take (?h + 8) (drop p b)" and "d = take m (drop (p + ?h + 8) b)"
    let ?f = "take (?h + 8 + m + 4) (drop p b')"
    have lf: "length ?f = ?h + 8 + m + 4" "length h = ?h + 8" "length d = m" using fit L(3) by (simp_all add: h_def d_def)
    have hd: "take (?h + 8 + m) (drop p b) = h @ d"
      unfolding h_def d_def take_add drop_drop by (simp add: ac_simps)
    have dd: "drop (?h + 8) (h @ d) = d" using lf(2) by simp
    have "tkip.opens skey (ra_ta r) a ?f (h @ d @ icv d)"
      using L(4) [OF k] assms(12) hd d_def unfolding iv8 Let_def p_def [symmetric] m_def [symmetric] by (simp add: ac_simps)
    from tkip_opens_decrypt [OF this L(2) assms(10), of get_stainfo ukey mc sec'] lf fit assms(3,6,8,11-17) iv8
    have "\<exists>g''. rtw_tkip_decrypt sec' get_stainfo r (of_nat (length ?f)) ?f g' = Some (True, h @ d @ icv d, g'')" by simp
    then show ?thesis unfolding Let_def p_def [symmetric] m_def [symmetric] hd dd lf(1) by simp
  qed
  then show ?thesis
    using L(1,3) assms(1-4) by (auto simp: rtw_tkip_encrypt_def)
qed


definition tkip_example_attrib :: pkt_attrib where
  "tkip_example_attrib = \<lparr>ta_encrypt = SEC_TKIP, ta_hdrlen = 24, ta_iv_len = 8, ta_icv_len = 4, ta_nr_frags = 1,
     ta_last_txcmdsz = 41, ta_ra = [2, 0, 0, 0, 0, 1], ta_ta = [2, 0, 0, 0, 0, 2], ta_UncstKey = replicate 32 3\<rparr>"

definition tkip_example_rx :: rx_pkt_attrib where
  "tkip_example_rx = \<lparr>ra_encrypt = SEC_TKIP, ra_hdrlen = 24, ra_iv_len = 8, ra_key_index = 0,
     ra_ra = [2, 0, 0, 0, 0, 1], ra_ta = [2, 0, 0, 0, 0, 2]\<rparr>"

theorem rtw_tkip_roundtrip_witness:
  "\<exists>b' g' g''. rtw_tkip_encrypt wep_example_sec 50 tkip_example_attrib \<lparr>buf_addr = Some (0, replicate 200 7), pkt_offset = 0\<rparr> crc32_globals_init
       = Some (True, \<lparr>buf_addr = Some (0, b'), pkt_offset = 0\<rparr>, g')
     \<and> rtw_tkip_decrypt wep_example_sec (\<lambda>_. Some (replicate 32 3)) tkip_example_rx 41 (take 41 (drop 48 b')) g'
       = Some (True, replicate 37 7 @ icv (replicate 5 7), g'')"
proof -
  let ?a = tkip_example_attrib and ?xf = "\<lparr>buf_addr = Some (0, replicate 200 7), pkt_offset = 0\<rparr>" and ?r = tkip_example_rx
  have c: "unat (ta_nr_frags ?a) = 1" "unat (hw_hdr_offset ?xf) = 48" "unat (ta_hdrlen ?a) = 24"
    "payload_length 50 ?a (Suc 0) 0 = 5"
    by code_simp+
  have g0: "crc_ok crc32_globals_init" by (simp add: crc_ok_def crc32_globals_init_def)
  have h: "ta_encrypt ?a = SEC_TKIP" "IS_MCAST (ta_ra ?a) = Some False" "tkip_key_ok (replicate 32 3) (ta_ta ?a)" "ta_iv_len ?a = 8"
    "frags_fit 50 ?a 0 1 48 200" "ra_encrypt ?r = SEC_TKIP" "ra_ra ?r = ta_ra ?a" "ra_ta ?r = ta_ta ?a"
    "unat (ra_hdrlen ?r) = unat (ta_hdrlen ?a)" "ra_iv_len ?r = 8" "ta_UncstKey ?a = replicate 32 3"
    by code_simp+
  from rtw_tkip_roundtrip [OF _ h(1,2) _ h(3,4) g0 _ _ h(6-8) _ _ _ h(9,10), of ?xf 0 "replicate 200 7" wep_example_sec 50
      "\<lambda>_. Some (replicate 32 3)" "replicate 32 3" wep_example_sec] h(5,11)
  obtain b' g' g'' where
    "rtw_tkip_encrypt wep_example_sec 50 ?a ?xf crc32_globals_init = Some (True, ?xf\<lparr>buf_addr := Some (0, b')\<rparr>, g')"
    "rtw_tkip_decrypt wep_example_sec (\<lambda>_. Some (replicate 32 3)) ?r 41 (take 41 (drop 48 b')) g'
       = Some (True, replicate 37 7 @ icv (replicate 5 7), g'')"
    by (auto simp: c Let_def)
  then show ?thesis by auto
qed

end
