(* ===== verification/Recv_Data.thy ===== *)
theory Recv_Data
  imports Recv_Validate Sec_Tkip
begin

text \<open>
  The receive path behind the validation (\<^verbatim>\<open>core/rtw_recv.c\<close>: \<open>decryptor\<close>,
  \<open>recvframe_chkmic\<close>, \<open>recvframe_chk_defrag\<close>, \<open>portctrl\<close>, \<open>recv_func_posthandle\<close>;
  \<^verbatim>\<open>os_dep/linux/recv_linux.c\<close>: \<open>rtw_handle_tkip_mic_err\<close>): decryption, reassembly, the Michael code, the
  802.1X port, and the hand-over to the reordering. The decryption of CCMP and GCMP, which calls a
  cryptographic library, and \<open>recv_process_mpdu\<close>, which hands a frame to the network stack, are parameters.
\<close>

subsection \<open>Decryption\<close>

text \<open>The attributes the software decryption reads.\<close>

definition sec_attrib :: "rx_frame \<Rightarrow> rx_pkt_attrib" where
  "sec_attrib f = \<lparr>ra_encrypt = encrypt f, ra_hdrlen = hdrlen f, ra_iv_len = iv_len f, ra_key_index = key_index f,
     ra_ra = ra f, ra_ta = ta f\<rparr>"

definition set_data :: "buf \<Rightarrow> rx_frame \<Rightarrow> rx_frame" where
  "set_data b f = f\<lparr>mem := take (rx_data f) (mem f) @ b\<rparr>"

definition uncst_key :: "sta_priv \<Rightarrow> buf \<Rightarrow> buf option" where
  "uncst_key st a = map_option (\<lambda>i. UncstKey (stainfo st ! i)) (rtw_get_stainfo st (Some a))"

text \<open>A software decryption by cipher; \<open>aes\<close> is \<open>rtw_aes_decrypt\<close> and \<open>gcmp\<close> is \<open>rtw_gcmp_decrypt\<close>.\<close>

type_synonym aead_decrypt = "rx_state \<Rightarrow> rx_frame \<Rightarrow> (bool \<times> rx_frame) option"

definition sw_decrypt :: "aead_decrypt \<Rightarrow> aead_decrypt \<Rightarrow> rx_state \<Rightarrow> rx_frame \<Rightarrow> (bool \<times> rx_frame \<times> rx_state) option" where
  "sw_decrypt aes gcmp s f =
     (let sec = security_priv.truncate (securitypriv s); b = drop (rx_data f) (mem f) in
      if encrypt f = SEC_WEP40 \<or> encrypt f = SEC_WEP104 then
        do { (b, g) \<leftarrow> rtw_wep_decrypt sec (sec_attrib f) (rlen f) b (crc_state s);
             Some (True, set_data b f, s\<lparr>crc_state := g\<rparr>) }
      else if encrypt f = SEC_TKIP then
        do { (ok, b, g) \<leftarrow> rtw_tkip_decrypt sec (uncst_key (stapriv s)) (sec_attrib f) (rlen f) b (crc_state s);
             Some (ok, set_data b f, s\<lparr>crc_state := g\<rparr>) }
      else if encrypt f = SEC_AES \<or> encrypt f = SEC_CCMP_256 then do { (ok, f) \<leftarrow> aes s f; Some (ok, f, s) }
      else if encrypt f = SEC_GCMP \<or> encrypt f = SEC_GCMP_256 then do { (ok, f) \<leftarrow> gcmp s f; Some (ok, f, s) }
      else Some (True, f, s))"

definition key_index_of :: "rx_security \<Rightarrow> rx_frame \<Rightarrow> u8 \<Rightarrow> u8" where
  "key_index_of sec f iv3 =
     (let k = drop_bit 6 iv3 AND 0x3 in
      if k > 4 then
        if encrypt f = SEC_WEP40 \<or> encrypt f = SEC_WEP104 then ucast (dot11PrivacyKeyIndex sec) else ucast (dot118021XGrpKeyid sec)
      else k)"

definition set_hw_decrypted :: "bool \<Rightarrow> rx_state \<Rightarrow> rx_state" where
  "set_hw_decrypted b s = s\<lparr>securitypriv := (securitypriv s)\<lparr>hw_decrypted := b\<rparr>\<rparr>"

definition set_key_index :: "rx_state \<Rightarrow> rx_frame \<Rightarrow> rx_frame option" where
  "set_key_index s f =
     (if encrypt f > 0 then
        do { iv3 \<leftarrow> rd (mem f) (rx_data f + unat (hdrlen f) + 3);
             Some (f\<lparr>key_index := key_index_of (securitypriv s) f iv3\<rparr>) }
      else Some f)"

definition decrypt_frame :: "aead_decrypt \<Rightarrow> aead_decrypt \<Rightarrow> rx_state \<Rightarrow> rx_frame \<Rightarrow> (bool \<times> rx_frame \<times> rx_state) option" where
  "decrypt_frame aes gcmp s f =
     (if encrypt f \<noteq> 0 \<and> bdecrypted f = 0 then
        do { fc \<leftarrow> rdf16 f 0;
             sw_decrypt aes gcmp (if fc AND 0xc = 8 then set_hw_decrypted False s else s) f }
      else if bdecrypted f = 1 \<and> encrypt f > 0 \<and> (busetkipkey (securitypriv s) \<or> encrypt f \<noteq> SEC_TKIP)
      then Some (True, f, set_hw_decrypted True s)
      else Some (True, f, s))"

definition decryptor ::
  "aead_decrypt \<Rightarrow> aead_decrypt \<Rightarrow> rx_state \<Rightarrow> 'a recv_pool_scheme \<Rightarrow> rx_frame
   \<Rightarrow> (rx_frame option \<times> rx_state \<times> 'a recv_pool_scheme) option" where
  "decryptor aes gcmp s p f =
     do { f \<leftarrow> set_key_index s f;
          (res, f, s) \<leftarrow> decrypt_frame aes gcmp s f;
          if \<not> res then Some (None, s, rtw_free_recvframe f p)
          else Some (Some (f\<lparr>bdecrypted := 1\<rparr>), s, p) }"

subsection \<open>The Michael code\<close>

definition rtw_handle_tkip_mic_err :: "rx_env \<Rightarrow> buf \<Rightarrow> bool \<Rightarrow> rx_state \<Rightarrow> rx_state" where
  "rtw_handle_tkip_mic_err env addr bgroup s =
     (let sec = securitypriv s; now = cur_time env;
          sec = (if last_mic_err_time sec = 0 then sec\<lparr>last_mic_err_time := now\<rparr>
                 else if now - last_mic_err_time sec < 60 * hz env
                 then sec\<lparr>btkip_countermeasure := True, last_mic_err_time := 0, btkip_countermeasure_time := now\<rparr>
                 else sec\<lparr>last_mic_err_time := now\<rparr>) in
      rx_log (MichaelMicFailure addr bgroup) (s\<lparr>securitypriv := sec\<rparr>))"

text \<open>The local \<open>micdata\<close> of \<open>rtw_seccalctkipmic\<close> is uninitialised; \<open>rtw_secmicsetkey\<close> sets all of it.\<close>

definition mic_data_any :: mic_data where
  "mic_data_any = \<lparr>mic_K0 = 0, mic_K1 = 0, mic_L = 0, mic_R = 0, mic_M = 0, nBytesInM = 0\<rparr>"

definition recvframe_chkmic :: "rx_env \<Rightarrow> rx_state \<Rightarrow> rx_frame \<Rightarrow> (bool \<times> rx_frame \<times> rx_state) option" where
  "recvframe_chkmic env s f =
     (if encrypt f \<noteq> SEC_TKIP then Some (True, f, s)
      else case rtw_get_stainfo (stapriv s) (Some (ta f)) of
        None \<Rightarrow> Some (True, snd (recvframe_pull_tail f 8), s)
      | Some i \<Rightarrow>
          let mc = is_mcast (ra f); sec = securitypriv s; si = stainfo (stapriv s) ! i in
          if mc \<and> \<not> binstallGrpkey sec then Some (False, f, s)
          else do {
            mickey \<leftarrow> (if mc then idx (dot118021XGrprxmickey sec) (unat (key_index f)) else Some (dot11tkiprxmickey si));
            let datalen = unat (rlen f - ucast (hdrlen f) - ucast (iv_len f) - ucast (icv_len f) - 8);
            let payload = rx_data f + unat (hdrlen f) + unat (iv_len f);
            miccode \<leftarrow> rtw_seccalctkipmic mic_data_any mickey (drop (rx_data f) (mem f)) (drop payload (mem f)) datalen (priority f);
            framemic \<leftarrow> rds (mem f) (payload + datalen) 8;
            let s' = (if miccode \<noteq> framemic then
                        if bdecrypted f = 1 \<and> \<not> (mc \<and> key_index f \<noteq> mlme_key_index env)
                        then rtw_handle_tkip_mic_err env (mac_addr si) mc s else s
                      else if \<not> bcheck_grpkey sec \<and> mc then s\<lparr>securitypriv := sec\<lparr>bcheck_grpkey := True\<rparr>\<rparr> else s);
            Some (miccode = framemic, snd (recvframe_pull_tail f 8), s') })"

subsection \<open>Fragments\<close>

definition set_defrag_q :: "nat \<Rightarrow> rx_frame list \<Rightarrow> rx_state \<Rightarrow> rx_state" where
  "set_defrag_q i q s = set_sta i ((stainfo (stapriv s) ! i)\<lparr>defrag_q := q\<rparr>) s"

text \<open>The station whose queue takes the fragments of a frame.\<close>

definition defrag_sta :: "rx_state \<Rightarrow> rx_frame \<Rightarrow> nat option option" where
  "defrag_sta s f =
     (case rtw_get_stainfo (stapriv s) (Some (ta f)) of
        Some i \<Rightarrow> Some (Some i)
      | None \<Rightarrow> do { fc \<leftarrow> rdf16 f 0;
                     Some (if fc AND 0xc \<noteq> 8 then rtw_get_bcmc_stainfo (stapriv s) else None) })"

text \<open>\<open>recvframe_chk_defrag\<close> up to the check of the Michael code.\<close>

definition chk_defrag_queue ::
  "rx_state \<Rightarrow> 'a recv_pool_scheme \<Rightarrow> rx_frame \<Rightarrow> (rx_frame option \<times> rx_state \<times> 'a recv_pool_scheme) option" where
  "chk_defrag_queue s p f =
     do { psta \<leftarrow> defrag_sta s f;
          if mfrag f = 0 \<and> frag_num f = 0 then Some (Some f, s, p)
          else if is_mcast (ra f) then Some (None, s, rtw_free_recvframe f p)
          else (case psta of
                  None \<Rightarrow> if mfrag f = 1 \<or> mfrag f = 0 then Some (None, s, rtw_free_recvframe f p) else Some (None, s, p)
                | Some i \<Rightarrow>
                    let si = stainfo (stapriv s) ! i; f = f\<lparr>keytrack := sta_keytrack si\<rparr> in
                    if mfrag f = 1 then
                      if frag_num f = 0
                      then Some (None, set_defrag_q i [f] s, rtw_free_recvframe_queue (defrag_q si) p)
                      else Some (None, set_defrag_q i (defrag_q si @ [f]) s, p)
                    else if mfrag f = 0 then
                      do { (g, p) \<leftarrow> recvframe_defrag (defrag_q si @ [f]) p;
                           Some (g, set_defrag_q i [] s, p) }
                    else Some (None, s, p)) }"

definition recvframe_chk_defrag ::
  "rx_env \<Rightarrow> rx_state \<Rightarrow> 'a recv_pool_scheme \<Rightarrow> rx_frame \<Rightarrow> (rx_frame option \<times> rx_state \<times> 'a recv_pool_scheme) option" where
  "recvframe_chk_defrag env s p f =
     do { (g, s, p) \<leftarrow> chk_defrag_queue s p f;
          (case g of
             None \<Rightarrow> Some (None, s, p)
           | Some g \<Rightarrow>
               if privacy g \<noteq> 0 then
                 do { (ok, g, s) \<leftarrow> recvframe_chkmic env s g;
                      Some (if ok then (Some g, s, p) else (None, s, rtw_free_recvframe g p)) }
               else Some (Some g, s, p)) }"

subsection \<open>The 802.1X port\<close>

definition portctrl ::
  "rx_state \<Rightarrow> 'a recv_pool_scheme \<Rightarrow> rx_frame \<Rightarrow> (rx_frame option \<times> 'a recv_pool_scheme) option" where
  "portctrl s p f =
     (if dot11AuthAlgrthm (securitypriv s) = dot11AuthAlgrthm_8021X then
        (case rtw_get_stainfo (stapriv s) (Some (ta f)) of
           None \<Rightarrow> Some (Some f, p)
         | Some i \<Rightarrow>
             if ieee8021x_blocked (stainfo (stapriv s) ! i) then
               do { e \<leftarrow> ether_type f;
                    if e = 0x888e then Some (Some f, p) else Some (None, rtw_free_recvframe f p) }
             else Some (Some f, p))
      else Some (Some f, p))"

subsection \<open>The rest of the path\<close>

definition frame_ctrl :: "rx_state \<Rightarrow> rx_frame \<Rightarrow> recv_reorder_ctrl option" where
  "frame_ctrl s f =
     (case (frame_sta f, preorder_tid f) of
        (Some i, Some t) \<Rightarrow> Some (recvreorder_ctrl (stainfo (stapriv s) ! i) ! t)
      | _ \<Rightarrow> None)"

definition set_frame_ctrl :: "rx_frame \<Rightarrow> recv_reorder_ctrl option \<Rightarrow> rx_state \<Rightarrow> rx_state" where
  "set_frame_ctrl f c s =
     (case (frame_sta f, preorder_tid f, c) of
        (Some i, Some t, Some c) \<Rightarrow>
          let si = stainfo (stapriv s) ! i in set_sta i (si\<lparr>recvreorder_ctrl := (recvreorder_ctrl si)[t := c]\<rparr>) s
      | _ \<Rightarrow> s)"

definition rx_stats :: "rx_frame \<Rightarrow> rx_state \<Rightarrow> rx_state" where
  "rx_stats f s = (case frame_sta f of None \<Rightarrow> s | Some i \<Rightarrow> rx_log (CountRxStats i) s)"

text \<open>
  From the reordering on: \<open>orig\<close> is \<open>orig_prframe\<close>, the frame the handler was called with, and \<open>f\<close> the frame that
  reassembly returned.
\<close>

definition posthandle_reorder ::
  "(rx_frame \<Rightarrow> bool) \<Rightarrow> rx_state \<Rightarrow> 'a recv_pool_scheme \<Rightarrow> rx_frame \<Rightarrow> rx_frame \<Rightarrow> rx_ret \<times> rx_state \<times> 'a recv_pool_scheme" where
  "posthandle_reorder recv_process_mpdu s p orig f =
     (case recv_indicatepkt_reorder recv_process_mpdu (recvpriv s) (frame_ctrl s f) f of
        (RX_FAIL, pv, c) \<Rightarrow> (RX_FAIL, count_rx_drop (set_frame_ctrl f c (s\<lparr>recvpriv := pv\<rparr>)), rtw_free_recvframe orig p)
      | (RX_HANDLED, pv, c) \<Rightarrow> (RX_HANDLED, set_frame_ctrl f c (s\<lparr>recvpriv := pv\<rparr>), p)
      | (RX_SUCCESS, pv, c) \<Rightarrow>
          let c = recv_set_iseq_after_mpdu_process (recv_set_iseq_before_mpdu_process c (seq_num orig));
              s = set_frame_ctrl f c (s\<lparr>recvpriv := pv\<lparr>indicated := indicated pv @ [f]\<rparr>\<rparr>) in
          if recv_process_mpdu f then (RX_SUCCESS, s, p) else (RX_FAIL, count_rx_drop s, p))"

definition recv_func_posthandle ::
  "aead_decrypt \<Rightarrow> aead_decrypt \<Rightarrow> (rx_frame \<Rightarrow> bool) \<Rightarrow> rx_env \<Rightarrow> rx_state \<Rightarrow> 'a recv_pool_scheme \<Rightarrow> rx_frame
   \<Rightarrow> (rx_ret \<times> rx_state \<times> 'a recv_pool_scheme) option" where
  "recv_func_posthandle aes gcmp recv_process_mpdu env s p f =
     do { (r, s, p) \<leftarrow> decryptor aes gcmp s p f;
          (case r of
             None \<Rightarrow> Some (RX_FAIL, count_rx_drop s, p)
           | Some orig \<Rightarrow>
               do { (r, s, p) \<leftarrow> recvframe_chk_defrag env s p orig;
                    (case r of
                       None \<Rightarrow> Some (RX_SUCCESS, count_rx_drop s, p)
                     | Some f \<Rightarrow>
                         do { (r, p) \<leftarrow> portctrl s p f;
                              (case r of
                                 None \<Rightarrow> Some (RX_FAIL, count_rx_drop s, p)
                               | Some f \<Rightarrow> Some (posthandle_reorder recv_process_mpdu (rx_stats f s) p orig f)) }) }) }"

subsection \<open>The check of the Michael code\<close>

text \<open>The Michael code that a TKIP frame has to carry, by the standard.\<close>

definition mic_payload :: "rx_frame \<Rightarrow> buf" where
  "mic_payload f = take (length (rdata f) - (unat (hdrlen f) + unat (iv_len f) + unat (icv_len f) + 8))
     (drop (unat (hdrlen f) + unat (iv_len f)) (rdata f))"

definition frame_michael :: "buf \<Rightarrow> rx_frame \<Rightarrow> buf" where
  "frame_michael key f = (let h = drop (rx_data f) (mem f) in
     michael key (hdr_addr h (hdr_da (bit (h ! 1) 0) (bit (h ! 1) 1)) @ hdr_addr h (hdr_sa (bit (h ! 1) 0) (bit (h ! 1) 1))
       @ [priority f, 0, 0, 0] @ mic_payload f))"

lemma hdr_sum_less: "unat (hdrlen f) + unat (iv_len f) + unat (icv_len f) + 8 < 1000"
proof -
  have "unat x < 256" for x :: u8 using unsigned_less [of x, where ?'a = nat] by (simp only: len_num1 len_bit0) simp
  from this [of "hdrlen f"] this [of "iv_len f"] this [of "icv_len f"] show ?thesis by linarith
qed

lemma chkmic_datalen:
  assumes "frame_ok f"
  shows "unat (rlen f - ucast (hdrlen f) - ucast (iv_len f) - ucast (icv_len f) - 8) =
    (let n = unat (hdrlen f) + unat (iv_len f) + unat (icv_len f) + 8 in
     if n \<le> length (rdata f) then length (rdata f) - n else length (rdata f) + 2 ^ 32 - n)"
proof -
  define n where "n = unat (hdrlen f) + unat (iv_len f) + unat (icv_len f) + 8"
  have u: "ucast x = (of_nat (unat x) :: u32)" for x :: u8 by simp
  have e: "rlen f - ucast (hdrlen f) - ucast (iv_len f) - ucast (icv_len f) - 8 = rlen f - of_nat n"
    unfolding n_def u of_nat_add by (simp add: algebra_simps)
  have "unat (of_nat n :: u32) = n"
    using hdr_sum_less [of f] unfolding n_def [symmetric] unat_of_nat by simp
  then show ?thesis unfolding e using frame_ok_rlen [OF assms] by (simp add: unat_sub_if' Let_def n_def [symmetric])
qed

text \<open>C22. The Michael check and its missing length check: a unicast TKIP frame from a known station that is long enough for
  its header, IV, code and integrity value is accepted exactly when it carries the Michael code of the
  standard under the station's key, and loses eight bytes at its end. For a shorter frame the length of the payload wraps
  around and the check reads outside the buffer.\<close>

theorem recvframe_chkmic_bounds:
  assumes "frame_ok f" "rx_data f + 30 \<le> length (mem f)" "encrypt f = SEC_TKIP" "\<not> is_mcast (ra f)"
    and "rtw_get_stainfo (stapriv s) (Some (ta f)) = Some i" "key = dot11tkiprxmickey (stainfo (stapriv s) ! i)" "8 \<le> length key"
  shows "if unat (hdrlen f) + unat (iv_len f) + unat (icv_len f) + 8 \<le> length (rdata f)
    then \<exists>g s'. recvframe_chkmic env s f =
           Some (frame_michael key f = take 8 (drop (length (rdata f) - unat (icv_len f) - 8) (rdata f)), g, s')
         \<and> frame_ok g \<and> rdata g = take (length (rdata f) - 8) (rdata f)
    else recvframe_chkmic env s f = None"
proof -
  define n where "n = unat (hdrlen f) + unat (iv_len f) + unat (icv_len f) + 8"
  let ?L = "length (rdata f)" and ?h = "drop (rx_data f) (mem f)" and ?o = "rx_data f + unat (hdrlen f) + unat (iv_len f)"
  define dl where "dl = (if n \<le> ?L then ?L - n else ?L + 2 ^ 32 - n)"
  have fo: "rx_data f + ?L \<le> length (mem f)" "length (mem f) < 2 ^ 31"
    using assms(1) frame_ok_length [OF assms(1)] by (auto simp: frame_ok_def)
  have dl: "unat (rlen f - ucast (hdrlen f) - ucast (iv_len f) - ucast (icv_len f) - 8) = dl"
    unfolding chkmic_datalen [OF assms(1)] by (simp add: Let_def n_def dl_def)
  have E: "recvframe_chkmic env s f = do {
      miccode \<leftarrow> rtw_seccalctkipmic mic_data_any key ?h (drop ?o (mem f)) dl (priority f);
      framemic \<leftarrow> rds (mem f) (?o + dl) 8;
      Some (miccode = framemic, snd (recvframe_pull_tail f 8), if miccode \<noteq> framemic then
                        if bdecrypted f = 1 then rtw_handle_tkip_mic_err env (mac_addr (stainfo (stapriv s) ! i)) False s else s
                      else s) }"
    unfolding recvframe_chkmic_def dl using assms(3-6) by (simp add: Let_def)
  show ?thesis
  proof (cases "n \<le> ?L")
    case True
    have r: "rdata f = take ?L ?h" using frame_ok_length [OF assms(1)] by (simp add: rdata_def)
    have "take dl (drop ?o (mem f)) = mic_payload f"
      unfolding mic_payload_def dl_def using True by (subst (2) r) (simp add: n_def drop_take ac_simps min_def)
    moreover have "rtw_seccalctkipmic mic_data_any key ?h (drop ?o (mem f)) dl (priority f) = Some (michael key
      (hdr_addr ?h (hdr_da (bit (?h ! 1) 0) (bit (?h ! 1) 1)) @ hdr_addr ?h (hdr_sa (bit (?h ! 1) 0) (bit (?h ! 1) 1))
        @ [priority f, 0, 0, 0] @ take dl (drop ?o (mem f))))"
      using assms(2,7) fo True by (intro rtw_seccalctkipmic_spec) (simp_all add: dl_def n_def)
    ultimately have m: "rtw_seccalctkipmic mic_data_any key ?h (drop ?o (mem f)) dl (priority f) = Some (frame_michael key f)"
      by (simp add: frame_michael_def Let_def)
    have p: "rx_data f + (?L - unat (icv_len f) - 8) = ?o + dl" "?o + dl + 8 \<le> length (mem f)" using True fo(1) by (auto simp: dl_def n_def)
    have "rds (mem f) (?o + dl) 8 = Some (take 8 (drop (?o + dl) (mem f)))" using p(2) by (simp add: rds_def)
    moreover have "take 8 (drop (?L - unat (icv_len f) - 8) (rdata f)) = take 8 (drop (?o + dl) (mem f))"
      unfolding p(1) [symmetric] using True by (subst (2) r) (simp add: drop_take add.commute n_def min_def)
    ultimately have "recvframe_chkmic env s f = Some (frame_michael key f = take 8 (drop (?L - unat (icv_len f) - 8) (rdata f)), snd (recvframe_pull_tail f 8),
       if frame_michael key f \<noteq> take 8 (drop (?L - unat (icv_len f) - 8) (rdata f)) then
                        if bdecrypted f = 1 then rtw_handle_tkip_mic_err env (mac_addr (stainfo (stapriv s) ! i)) False s else s
                      else s)" unfolding E m by simp
    moreover have "8 \<le> ?L" using True by (simp add: n_def)
    ultimately show ?thesis using True recvframe_pull_tail_ok(2,3) [OF assms(1), of 8] unfolding n_def by simp
  next
    case False
    have "n < 1000" using hdr_sum_less [of f] by (simp add: n_def)
    then have "length (mem f) < dl" using False fo by (simp add: dl_def)
    then have "rds (mem f) (?o + dl) 8 = None" by (simp add: rds_def)
    then show ?thesis using False unfolding n_def [symmetric] E by simp
  qed
qed

theorem recvframe_chkmic_bounds_witness:
  "recvframe_chkmic example_env example_rx_state
     ((example_frag 0 4)\<lparr>encrypt := SEC_TKIP, ta := [2, 0, 0, 0, 0, 1], ra := [2, 0, 0, 0, 0, 9]\<rparr>) = None"
proof -
  let ?f = "(example_frag 0 4)\<lparr>encrypt := SEC_TKIP, ta := [2, 0, 0, 0, 0, 1], ra := [2, 0, 0, 0, 0, 9]\<rparr>"
  have ok: "frame_ok ?f" by (simp add: frame_ok_def example_frag_def)
  have h: "rx_data ?f + 30 \<le> length (mem ?f)" "encrypt ?f = SEC_TKIP" "\<not> is_mcast (ra ?f)"
    "rtw_get_stainfo (stapriv example_rx_state) (Some (ta ?f)) = Some 0"
    "8 \<le> length (dot11tkiprxmickey (stainfo (stapriv example_rx_state) ! 0))"
    "\<not> unat (hdrlen ?f) + unat (iv_len ?f) + unat (icv_len ?f) + 8 \<le> length (rdata ?f)" by code_simp+
  show ?thesis using recvframe_chkmic_bounds [OF ok h(1-4) refl h(5), of example_env] unfolding if_not_P [OF h(6)] .
qed

subsection \<open>No frame is lost\<close>

text \<open>
  The frames the driver holds: those in the pool and those queued at the stations. With the frames it has handed to
  the network stack, they are the frames it accounts for.
\<close>

definition sta_frame_ids :: "sta_info \<Rightarrow> nat list" where
  "sta_frame_ids si = map frame_id (defrag_q si @ concat (map pending_recvframe_queue (recvreorder_ctrl si)))"

definition held_ids :: "rx_state \<Rightarrow> 'a recv_pool_scheme \<Rightarrow> nat list" where
  "held_ids s p = pool_ids p @ concat (map sta_frame_ids (stainfo (stapriv s)))"

definition accounted :: "rx_state \<Rightarrow> 'a recv_pool_scheme \<Rightarrow> nat multiset" where
  "accounted s p = mset (held_ids s p) + mset (map frame_id (indicated (recvpriv s)))"

lemma mset_concat_update:
  "i < length xs \<Longrightarrow> mset (concat (map g (xs[i := x]))) + mset (g (xs ! i)) = mset (concat (map g xs)) + mset (g x)"
  by (induction xs arbitrary: i) (auto split: nat.splits)

lemma held_ids_cong: "stapriv s = stapriv s' \<Longrightarrow> held_ids s p = held_ids s' p"
  by (simp add: held_ids_def)

lemma held_ids_set_sta:
  "i < length (stainfo (stapriv s)) \<Longrightarrow>
   mset (held_ids (set_sta i si s) p) + mset (sta_frame_ids (stainfo (stapriv s) ! i)) = mset (held_ids s p) + mset (sta_frame_ids si)"
  using mset_concat_update [of i "stainfo (stapriv s)" sta_frame_ids si] by (simp add: held_ids_def set_sta_def)

lemma held_ids_free:
  "frame_id f \<notin> set (held_ids s p) \<Longrightarrow> mset (held_ids s (rtw_free_recvframe f p)) = add_mset (frame_id f) (mset (held_ids s p))"
  using rtw_free_recvframe_ids(1) [of f p] by (simp add: held_ids_def)

lemma held_ids_sta:
  assumes "i < length (stainfo (stapriv s))" "distinct (held_ids s p)"
  shows "distinct (sta_frame_ids (stainfo (stapriv s) ! i))"
    and "set (sta_frame_ids (stainfo (stapriv s) ! i)) \<inter> set (pool_ids p) = {}"
    and "set (sta_frame_ids (stainfo (stapriv s) ! i)) \<subseteq> set (held_ids s p)"
proof -
  have m: "sta_frame_ids (stainfo (stapriv s) ! i) \<in> set (map sta_frame_ids (stainfo (stapriv s)))" using assms(1) by simp
  then have sub: "set (sta_frame_ids (stainfo (stapriv s) ! i)) \<subseteq> set (concat (map sta_frame_ids (stainfo (stapriv s))))" by force
  have d: "distinct (concat (map sta_frame_ids (stainfo (stapriv s))))"
    "set (pool_ids p) \<inter> set (concat (map sta_frame_ids (stainfo (stapriv s)))) = {}"
    using assms(2) by (simp_all add: held_ids_def)
  show "distinct (sta_frame_ids (stainfo (stapriv s) ! i))" using d(1) m unfolding distinct_concat_iff by blast
  show "set (sta_frame_ids (stainfo (stapriv s) ! i)) \<inter> set (pool_ids p) = {}" using sub d(2) by blast
  show "set (sta_frame_ids (stainfo (stapriv s) ! i)) \<subseteq> set (held_ids s p)" using sub by (auto simp: held_ids_def)
qed

text \<open>A decryption works in place: it changes the bytes of the frame and nothing else.\<close>

definition in_place :: "aead_decrypt \<Rightarrow> bool" where
  "in_place d \<longleftrightarrow> (\<forall>s f ok g. d s f = Some (ok, g) \<longrightarrow> g = f\<lparr>mem := mem g\<rparr>)"

definition same_frame :: "rx_frame \<Rightarrow> rx_frame \<Rightarrow> bool" where
  "same_frame f g \<longleftrightarrow> frame_id g = frame_id f \<and> frag_num g = frag_num f \<and> mfrag g = mfrag f
     \<and> frame_sta g = frame_sta f \<and> preorder_tid g = preorder_tid f"

lemma same_frame_mem: "g = f\<lparr>mem := m\<rparr> \<Longrightarrow> same_frame f g"
  by (simp add: same_frame_def)

lemma same_frame_refl [simp]: "same_frame f f"
  by (simp add: same_frame_def)

lemma same_frame_set_data [simp]: "same_frame f (set_data b f)"
  by (simp add: same_frame_def set_data_def)

lemma sw_decrypt_frame:
  assumes "in_place aes" "in_place gcmp" "sw_decrypt aes gcmp s f = Some (ok, g, s')"
  shows "same_frame f g \<and> stapriv s' = stapriv s \<and> recvpriv s' = recvpriv s"
proof -
  have a: "same_frame f g" if "aes s f = Some (ok, g) \<or> gcmp s f = Some (ok, g)" for s f ok g
    using that assms(1,2) same_frame_mem [of g "mem g" f] unfolding in_place_def by blast
  show ?thesis using assms(3) unfolding sw_decrypt_def Let_def
    by (auto simp: bind_eq_Some_conv split: if_splits intro: a)
qed

lemma set_hw_decrypted_simps [simp]: "stapriv (set_hw_decrypted b s) = stapriv s" "recvpriv (set_hw_decrypted b s) = recvpriv s"
  by (simp_all add: set_hw_decrypted_def)

lemma same_frame_updates [simp]:
  "same_frame f (g\<lparr>key_index := k\<rparr>) = same_frame f g" "same_frame f (g\<lparr>bdecrypted := b\<rparr>) = same_frame f g"
  "same_frame (f\<lparr>key_index := k\<rparr>) g = same_frame f g"
  by (simp_all add: same_frame_def)

text \<open>What a stage of the path does with its frame: it passes it on, or the driver holds it.\<close>

definition frame_ids :: "rx_frame option \<Rightarrow> nat list" where
  "frame_ids r = map frame_id (case r of None \<Rightarrow> [] | Some f \<Rightarrow> [f])"

definition stage_keeps :: "rx_state \<Rightarrow> 'a recv_pool_scheme \<Rightarrow> rx_frame \<Rightarrow> rx_frame option \<Rightarrow> rx_state \<Rightarrow> 'a recv_pool_scheme \<Rightarrow> bool" where
  "stage_keeps s p f r s' p' \<longleftrightarrow> indicated (recvpriv s') = indicated (recvpriv s) \<and>
     mset (frame_ids r @ held_ids s' p') = add_mset (frame_id f) (mset (held_ids s p))"

lemma stage_keeps_pass: "same_frame f g \<Longrightarrow> stapriv s' = stapriv s \<Longrightarrow> recvpriv s' = recvpriv s \<Longrightarrow> stage_keeps s p f (Some g) s' p"
  using held_ids_cong [of s' s p] by (simp add: stage_keeps_def frame_ids_def same_frame_def)

lemma stage_keeps_free:
  "frame_id f \<notin> set (held_ids s p) \<Longrightarrow> same_frame f g \<Longrightarrow> stapriv s' = stapriv s \<Longrightarrow> recvpriv s' = recvpriv s \<Longrightarrow>
   stage_keeps s p f None s' (rtw_free_recvframe g p)"
  using held_ids_free [of g s p] held_ids_cong [of s' s "rtw_free_recvframe g p"] by (simp add: stage_keeps_def frame_ids_def same_frame_def)

lemma decrypt_frame_frame:
  assumes "in_place aes" "in_place gcmp" "decrypt_frame aes gcmp s f = Some (ok, g, s')"
  shows "same_frame f g \<and> stapriv s' = stapriv s \<and> recvpriv s' = recvpriv s"
  using assms(3) unfolding decrypt_frame_def
  by (auto simp: bind_eq_Some_conv split: if_splits dest!: sw_decrypt_frame [OF assms(1,2)])

lemma decryptor_frame:
  assumes "in_place aes" "in_place gcmp" "decryptor aes gcmp s p f = Some (r, s', p')" "frame_id f \<notin> set (held_ids s p)"
  shows "stage_keeps s p f r s' p' \<and> (\<forall>g. r = Some g \<longrightarrow> same_frame f g) \<and> stapriv s' = stapriv s"
proof -
  obtain f1 ok g s2 where f1: "set_key_index s f = Some f1" and m: "decrypt_frame aes gcmp s f1 = Some (ok, g, s2)"
    and r: "(if \<not> ok then Some (None, s2, rtw_free_recvframe g p) else Some (Some (g\<lparr>bdecrypted := 1\<rparr>), s2, p)) = Some (r, s', p')"
    using assms(3) unfolding decryptor_def bind_eq_Some_conv by auto
  have "same_frame f1 g = same_frame f g" using f1 by (auto simp: set_key_index_def bind_eq_Some_conv split: if_splits)
  then show ?thesis using decrypt_frame_frame [OF assms(1,2) m] r assms(4)
    by (auto intro: stage_keeps_pass stage_keeps_free split: if_splits)
qed

lemma defrag_loop_ids:
  "defrag_loop pf pn k pre fs = Some (ok, pf', q) \<Longrightarrow> frame_id pf' = frame_id pf \<and> frame_sta pf' = frame_sta pf \<and>
   preorder_tid pf' = preorder_tid pf \<and> map frame_id q = map frame_id (pre @ fs)"
proof (induction fs arbitrary: pf pn k pre)
  case (Cons f fs)
  let ?f = "snd (recvframe_pull f (unat (hdrlen f + iv_len f)))"
  have f: "frame_id ?f = frame_id f" by (simp add: recvframe_pull_def)
  have p: "frame_id (snd (recvframe_put ((snd (recvframe_pull_tail pf n))\<lparr>mem := m\<rparr>) l)) = frame_id pf"
    "frame_sta (snd (recvframe_put ((snd (recvframe_pull_tail pf n))\<lparr>mem := m\<rparr>) l)) = frame_sta pf"
    "preorder_tid (snd (recvframe_put ((snd (recvframe_pull_tail pf n))\<lparr>mem := m\<rparr>) l)) = preorder_tid pf" for n m l
    by (simp_all add: recvframe_put_def recvframe_pull_tail_def)
  show ?case using Cons.prems unfolding defrag_loop.simps Let_def
    by (auto simp: bind_eq_Some_conv f p dest!: Cons.IH split: if_splits)
qed simp

lemma defrag_frames:
  assumes "recvframe_defrag q p = Some (r, p')" "distinct (pool_ids p @ map frame_id q)"
  shows "mset (frame_ids r @ pool_ids p') = mset (pool_ids p @ map frame_id q)"
    and "r = Some g \<Longrightarrow> frame_id g = frame_id (hd q) \<and> frame_sta g = frame_sta (hd q) \<and> preorder_tid g = preorder_tid (hd q)"
proof -
  obtain f fs where q: "q = f # fs" using assms(1) by (cases q) (auto simp: recvframe_defrag_def)
  obtain pn where pn: "(if pn_checked (encrypt f) then frame_pn f else Some 0) = Some pn"
    using assms(1) unfolding recvframe_defrag_def q list.case bind_eq_Some_conv by blast
  consider "r = None" "p' = rtw_free_recvframe_queue fs (rtw_free_recvframe f p)"
    | ok f' q' where "defrag_loop f pn 1 [] fs = Some (ok, f', q')"
        "(r, p') = (if ok then (Some f', rtw_free_recvframe_queue q' p) else (None, rtw_free_recvframe_queue q' (rtw_free_recvframe f' p)))"
    using assms(1) unfolding recvframe_defrag_def q list.case pn Option.bind.bind_lunit
    by (auto simp: bind_eq_Some_conv split: if_splits)
  then have "mset (frame_ids r @ pool_ids p') = mset (pool_ids p @ map frame_id q) \<and>
     (\<forall>g. r = Some g \<longrightarrow> frame_id g = frame_id f \<and> frame_sta g = frame_sta f \<and> preorder_tid g = preorder_tid f)"
  proof cases
    case 1
    then show ?thesis using rtw_free_recvframe_then_queue(1) [of p f fs] assms(2) q by (simp add: frame_ids_def)
  next
    case 2
    note l = defrag_loop_ids [OF 2(1)]
    have "distinct (pool_ids p @ frame_id f' # map frame_id q')" using assms(2) l q by simp
    note d = rtw_free_recvframe_then_queue(1) [OF this]
    have "distinct (map frame_id q')" "set (map frame_id q') \<inter> set (pool_ids p) = {}" using assms(2) l q by auto
    note e = rtw_free_recvframe_queue_ids [OF this, THEN conjunct1]
    show ?thesis using 2(2) l d e q by (cases ok) (simp_all add: frame_ids_def)
  qed
  then show "mset (frame_ids r @ pool_ids p') = mset (pool_ids p @ map frame_id q)"
    "r = Some g \<Longrightarrow> frame_id g = frame_id (hd q) \<and> frame_sta g = frame_sta (hd q) \<and> preorder_tid g = preorder_tid (hd q)"
    using q by simp_all
qed

text \<open>The pointers of a frame into the station table are good.\<close>

definition refs_ok :: "rx_state \<Rightarrow> rx_frame \<Rightarrow> bool" where
  "refs_ok s f = (case (frame_sta f, preorder_tid f) of
     (Some i, Some t) \<Rightarrow> i < length (stainfo (stapriv s)) \<and> t < length (recvreorder_ctrl (stainfo (stapriv s) ! i))
   | _ \<Rightarrow> True)"

lemma refs_ok_cong: "frame_sta f = frame_sta g \<Longrightarrow> preorder_tid f = preorder_tid g \<Longrightarrow> stapriv s = stapriv s' \<Longrightarrow> refs_ok s f = refs_ok s' g"
  by (simp add: refs_ok_def split: option.split)

lemma refs_ok_set_defrag_q [simp]: "refs_ok (set_defrag_q i q s) g = refs_ok s g"
  by (cases "i < length (stainfo (stapriv s))")
     (auto simp: refs_ok_def set_defrag_q_def set_sta_def nth_list_update split: option.splits)

lemma get_stainfo_less: "sta_inv st \<Longrightarrow> rtw_get_stainfo st (Some a) = Some i \<Longrightarrow> i < length (stainfo st)"
  unfolding rtw_get_stainfo_iff by (auto simp: sta_inv_def)

lemma defrag_sta_less: "sta_inv (stapriv s) \<Longrightarrow> defrag_sta s f = Some (Some i) \<Longrightarrow> i < length (stainfo (stapriv s))"
  unfolding defrag_sta_def rtw_get_bcmc_stainfo_def
  by (auto simp: bind_eq_Some_conv split: option.splits if_splits dest: get_stainfo_less)

lemma set_defrag_q_recvpriv [simp]: "recvpriv (set_defrag_q i q s) = recvpriv s"
  by (simp add: set_defrag_q_def set_sta_def)

lemma held_ids_set_defrag_q:
  assumes "i < length (stainfo (stapriv s))"
  shows "mset (held_ids (set_defrag_q i q s) p) + mset (map frame_id (defrag_q (stainfo (stapriv s) ! i)))
    = mset (held_ids s p) + mset (map frame_id q)"
  using held_ids_set_sta [OF assms, of "(stainfo (stapriv s) ! i)\<lparr>defrag_q := q\<rparr>" p]
  by (simp add: set_defrag_q_def sta_frame_ids_def)

text \<open>A queue of fragments that changes while frames go to the pool.\<close>

lemma stage_keeps_defrag:
  assumes "i < length (stainfo (stapriv s))"
    and "mset (frame_ids r) + mset (pool_ids p') + mset (map frame_id q)
      = add_mset (frame_id f) (mset (pool_ids p) + mset (map frame_id (defrag_q (stainfo (stapriv s) ! i))))"
  shows "stage_keeps s p f r (set_defrag_q i q s) p'"
proof -
  let ?st = "mset (concat (map sta_frame_ids (stainfo (stapriv (set_defrag_q i q s)))))" and ?D = "mset (map frame_id (defrag_q (stainfo (stapriv s) ! i)))"
  have h: "?st + ?D = mset (concat (map sta_frame_ids (stainfo (stapriv s)))) + mset (map frame_id q)"
    using held_ids_set_defrag_q [OF assms(1), of q p] by (simp add: held_ids_def)
  have "mset (frame_ids r @ held_ids (set_defrag_q i q s) p') + ?D = mset (frame_ids r) + mset (pool_ids p') + (?st + ?D)"
    by (simp add: held_ids_def)
  also have "\<dots> = add_mset (frame_id f) (mset (held_ids s p)) + ?D"
    unfolding h using arg_cong [OF assms(2), of "\<lambda>M. M + mset (concat (map sta_frame_ids (stainfo (stapriv s))))"]
    by (simp add: held_ids_def)
  finally show ?thesis by (simp add: stage_keeps_def)
qed

lemma word_le_1: "x \<le> 1 \<Longrightarrow> x = 1 \<or> x = (0 :: u8)"
  by (metis One_nat_def le_Suc_eq le_zero_eq unsigned_0 unsigned_1 unsigned_word_eqI word_le_nat_alt)

lemma chk_defrag_queue_frame:
  assumes "chk_defrag_queue s p f = Some (r, s', p')" "sta_inv (stapriv s)" "distinct (frame_id f # held_ids s p)" "mfrag f \<le> 1"
    and "refs_ok s f" "\<forall>si \<in> set (stainfo (stapriv s)). \<forall>g \<in> set (defrag_q si). refs_ok s g"
  shows "stage_keeps s p f r s' p' \<and> (\<forall>g. r = Some g \<longrightarrow> refs_ok s' g \<and> (frag_num f = 0 \<or> mfrag f = 1 \<longrightarrow> same_frame f g))"
proof -
  have nin: "frame_id f \<notin> set (held_ids s p)" and dh: "distinct (held_ids s p)" using assms(3) by simp_all
  obtain psta where ps: "defrag_sta s f = Some psta" using assms(1) unfolding chk_defrag_queue_def bind_eq_Some_conv by blast
  note c = assms(1) [unfolded chk_defrag_queue_def ps Option.bind.bind_lunit]
  have mf: "mfrag f = 1 \<or> mfrag f = 0" using assms(4) word_le_1 by blast
  consider (whole) "mfrag f = 0" "frag_num f = 0" "r = Some f" "s' = s" "p' = p"
    | (drop) "\<not> (mfrag f = 0 \<and> frag_num f = 0)" "r = None" "s' = s" "p' = rtw_free_recvframe f p"
    | (queue) i where "psta = Some i" "\<not> (mfrag f = 0 \<and> frag_num f = 0)" "\<not> is_mcast (ra f)"
    using c mf by (cases psta) (auto split: if_splits)
  then show ?thesis
  proof cases
    case whole
    then show ?thesis using assms(5) by (simp add: stage_keeps_pass)
  next
    case drop
    then show ?thesis using nin by (auto simp: stage_keeps_free)
  next
    case (queue i)
    let ?si = "stainfo (stapriv s) ! i" and ?f = "f\<lparr>keytrack := sta_keytrack (stainfo (stapriv s) ! i)\<rparr>"
    have i: "i < length (stainfo (stapriv s))" using defrag_sta_less assms(2) ps queue(1) by blast
    have dq: "distinct (map frame_id (defrag_q ?si))" "set (map frame_id (defrag_q ?si)) \<inter> set (pool_ids p) = {}"
      "frame_id f \<notin> set (map frame_id (defrag_q ?si))" "frame_id f \<notin> set (pool_ids p)" "distinct (pool_ids p)"
      using held_ids_sta [OF i dh] nin dh unfolding sta_frame_ids_def map_append by (auto simp: held_ids_def)
    have c: "(if mfrag f = 1 then
          if frag_num f = 0 then Some (None, set_defrag_q i [?f] s, rtw_free_recvframe_queue (defrag_q ?si) p)
          else Some (None, set_defrag_q i (defrag_q ?si @ [?f]) s, p)
        else do { (g, p) \<leftarrow> recvframe_defrag (defrag_q ?si @ [?f]) p; Some (g, set_defrag_q i [] s, p) }) = Some (r, s', p')"
      using c queue mf by (auto simp: Let_def split: if_splits)
    show ?thesis
    proof (cases "mfrag f = 1")
      case True
      then show ?thesis using c i rtw_free_recvframe_queue_ids [OF dq(1,2)]
        by (auto intro!: stage_keeps_defrag simp: frame_ids_def split: if_splits)
    next
      case False
      then obtain p1 where d: "recvframe_defrag (defrag_q ?si @ [?f]) p = Some (r, p1)" and s': "s' = set_defrag_q i [] s" "p' = p1"
        using c by (auto simp: bind_eq_Some_conv)
      have "distinct (pool_ids p @ map frame_id (defrag_q ?si @ [?f]))" using dq by auto
      note D = defrag_frames [OF d this]
      have "hd (defrag_q ?si @ [?f]) = ?f \<or> hd (defrag_q ?si @ [?f]) \<in> set (defrag_q ?si)" by (cases "defrag_q ?si") auto
      moreover have "refs_ok s ?f" using assms(5) refs_ok_cong [of ?f f s s] by simp
      ultimately have "refs_ok s (hd (defrag_q ?si @ [?f]))" using assms(6) i nth_mem by metis
      then have "refs_ok s' g" if "r = Some g" for g using D(2) [OF that] refs_ok_cong [of g "hd (defrag_q ?si @ [?f])" s s] s' by simp
      moreover have "stage_keeps s p f r s' p'"
        unfolding s' by (rule stage_keeps_defrag [OF i]) (use D(1) in \<open>simp add: ac_simps\<close>)
      ultimately show ?thesis using queue(2) False mf by blast
    qed
  qed
qed

lemma stage_keeps_trans:
  "stage_keeps s p f (Some g) s1 p1 \<Longrightarrow> stage_keeps s1 p1 g r s2 p2 \<Longrightarrow> stage_keeps s p f r s2 p2"
  by (simp add: stage_keeps_def frame_ids_def)

lemma stage_keeps_distinct:
  assumes "stage_keeps s p f (Some g) s1 p1" "distinct (frame_id f # held_ids s p)"
  shows "distinct (frame_id g # held_ids s1 p1)"
proof -
  have "mset (frame_id g # held_ids s1 p1) = mset (frame_id f # held_ids s p)"
    using assms(1) by (simp add: stage_keeps_def frame_ids_def)
  then show ?thesis using assms(2) mset_eq_imp_distinct_iff by blast
qed

lemma recvframe_chkmic_frame:
  assumes "recvframe_chkmic env s f = Some (ok, g, s')"
  shows "same_frame f g \<and> stapriv s' = stapriv s \<and> recvpriv s' = recvpriv s"
proof -
  have t: "same_frame f (snd (recvframe_pull_tail f n))" for n by (simp add: same_frame_def recvframe_pull_tail_def)
  have m: "stapriv (rtw_handle_tkip_mic_err env a b s) = stapriv s" "recvpriv (rtw_handle_tkip_mic_err env a b s) = recvpriv s" for a b
    by (simp_all add: rtw_handle_tkip_mic_err_def rx_log_def Let_def)
  show ?thesis using assms unfolding recvframe_chkmic_def
    by (auto simp: Let_def bind_eq_Some_conv t m split: option.splits if_splits)
qed

lemma recvframe_chk_defrag_frame:
  assumes "recvframe_chk_defrag env s p f = Some (r, s', p')" "sta_inv (stapriv s)" "distinct (frame_id f # held_ids s p)" "mfrag f \<le> 1"
    and "refs_ok s f" "\<forall>si \<in> set (stainfo (stapriv s)). \<forall>g \<in> set (defrag_q si). refs_ok s g"
  shows "stage_keeps s p f r s' p' \<and> (\<forall>g. r = Some g \<longrightarrow> refs_ok s' g \<and> (frag_num f = 0 \<or> mfrag f = 1 \<longrightarrow> same_frame f g))"
proof -
  obtain r1 s1 p1 where q: "chk_defrag_queue s p f = Some (r1, s1, p1)"
    using assms(1) unfolding recvframe_chk_defrag_def bind_eq_Some_conv by (metis prod_cases3)
  note Q = chk_defrag_queue_frame [OF q assms(2-6)]
  note c = assms(1) [unfolded recvframe_chk_defrag_def q Option.bind.bind_lunit, simplified]
  show ?thesis
  proof (cases r1)
    case None
    then show ?thesis using c Q by simp
  next
    case (Some g)
    have K: "stage_keeps s p f (Some g) s1 p1" "refs_ok s1 g" "frag_num f = 0 \<or> mfrag f = 1 \<longrightarrow> same_frame f g" using Q Some by simp_all
    have nin: "frame_id g \<notin> set (held_ids s1 p1)" using stage_keeps_distinct [OF K(1) assms(3)] by simp
    show ?thesis
    proof (cases "privacy g = 0")
      case True
      then show ?thesis using c Some K by auto
    next
      case False
      then obtain ok h s2 where m: "recvframe_chkmic env s1 g = Some (ok, h, s2)"
        and r: "(if ok then (Some h, s2, p1) else (None, s2, rtw_free_recvframe h p1)) = (r, s', p')"
        using c Some by (auto simp: bind_eq_Some_conv)
      note M = recvframe_chkmic_frame [OF m]
      have "stage_keeps s1 p1 g r s' p'" using r M nin by (auto intro: stage_keeps_pass stage_keeps_free split: if_splits)
      from stage_keeps_trans [OF K(1) this] show ?thesis
        using r M K(2,3) refs_ok_cong [of h g s2 s1] by (auto simp: same_frame_def split: if_splits)
    qed
  qed
qed

lemma portctrl_frame:
  assumes "portctrl s p f = Some (r, p')" "frame_id f \<notin> set (held_ids s p)"
  shows "stage_keeps s p f r s p' \<and> (\<forall>g. r = Some g \<longrightarrow> g = f)"
  using assms unfolding portctrl_def
  by (auto simp: bind_eq_Some_conv stage_keeps_pass stage_keeps_free split: option.splits if_splits)

lemma frame_ctrl_cases:
  assumes "refs_ok s f"
  shows "frame_ctrl s f = None \<and> set_frame_ctrl f c s = s \<or>
    (\<exists>i t. frame_ctrl s f = Some (recvreorder_ctrl (stainfo (stapriv s) ! i) ! t) \<and> i < length (stainfo (stapriv s))
       \<and> t < length (recvreorder_ctrl (stainfo (stapriv s) ! i)) \<and>
       (\<forall>c s'. stapriv s' = stapriv s \<longrightarrow> set_frame_ctrl f (Some c) s' = set_sta i ((stainfo (stapriv s) ! i)
          \<lparr>recvreorder_ctrl := (recvreorder_ctrl (stainfo (stapriv s) ! i))[t := c]\<rparr>) s'))"
  using assms by (auto simp: refs_ok_def frame_ctrl_def set_frame_ctrl_def Let_def split: option.splits)

lemma frame_ctrl_None: "frame_ctrl s f = None \<Longrightarrow> set_frame_ctrl f c s' = s'"
  by (auto simp: frame_ctrl_def set_frame_ctrl_def split: option.splits)

lemma held_ids_set_frame_ctrl:
  assumes "refs_ok s f" "frame_ctrl s f = Some c" "stapriv s' = stapriv s"
  shows "mset (held_ids (set_frame_ctrl f (Some c') s') p) + mset (map frame_id (pending_recvframe_queue c))
    = mset (held_ids s p) + mset (map frame_id (pending_recvframe_queue c'))"
proof -
  obtain i t where i: "i < length (stainfo (stapriv s))" "t < length (recvreorder_ctrl (stainfo (stapriv s) ! i))"
    and c: "c = recvreorder_ctrl (stainfo (stapriv s) ! i) ! t"
    and s': "set_frame_ctrl f (Some c') s' = set_sta i ((stainfo (stapriv s) ! i)
          \<lparr>recvreorder_ctrl := (recvreorder_ctrl (stainfo (stapriv s) ! i))[t := c']\<rparr>) s'"
    using frame_ctrl_cases [OF assms(1)] assms(2,3) by auto
  let ?si = "stainfo (stapriv s) ! i" and ?pend = "\<lambda>c. map frame_id (pending_recvframe_queue c)"
  let ?si' = "?si\<lparr>recvreorder_ctrl := (recvreorder_ctrl ?si)[t := c']\<rparr>"
  have m: "mset (sta_frame_ids ?si') + mset (?pend c) = mset (sta_frame_ids ?si) + mset (?pend c')"
    using mset_concat_update [OF i(2), of ?pend c'] c by (simp add: sta_frame_ids_def map_concat comp_def)
  have "mset (held_ids (set_sta i ?si' s') p) + mset (sta_frame_ids ?si) = mset (held_ids s p) + mset (sta_frame_ids ?si')"
    using held_ids_set_sta [of i s' ?si' p] i(1) assms(3) held_ids_cong [of s' s p] by simp
  then have "(mset (held_ids (set_sta i ?si' s') p) + mset (?pend c)) + mset (sta_frame_ids ?si)
    = mset (held_ids s p) + (mset (sta_frame_ids ?si') + mset (?pend c))" by simp
  then show ?thesis unfolding m s' by simp
qed

lemma set_frame_ctrl_recvpriv [simp]: "recvpriv (set_frame_ctrl f c s) = recvpriv s"
  by (auto simp: set_frame_ctrl_def set_sta_def Let_def split: option.splits)

lemma count_rx_drop_simps [simp]: "stapriv (count_rx_drop s) = stapriv s" "indicated (recvpriv (count_rx_drop s)) = indicated (recvpriv s)"
  by (simp_all add: count_rx_drop_def)

lemma rx_stats_simps [simp]: "stapriv (rx_stats f s) = stapriv s" "recvpriv (rx_stats f s) = recvpriv s"
  by (simp_all add: rx_stats_def rx_log_def split: option.split)

lemma frame_ctrl_rx_stats [simp]: "frame_ctrl (rx_stats g s) f = frame_ctrl s f"
  by (simp add: frame_ctrl_def split: option.split)

lemma held_ids_log [simp]: "held_ids (count_rx_drop s) p = held_ids s p" "held_ids (rx_stats f s) p = held_ids s p"
  by (simp_all add: held_ids_def)

lemma accounted_log [simp]: "accounted (count_rx_drop s) p = accounted s p" "accounted (rx_stats f s) p = accounted s p"
  by (simp_all add: accounted_def)

lemma recv_set_iseq_pending:
  "map_option pending_recvframe_queue (recv_set_iseq_after_mpdu_process (recv_set_iseq_before_mpdu_process c n)) = map_option pending_recvframe_queue c"
  by (cases c) (auto simp: recv_set_iseq_after_mpdu_process_def recv_set_iseq_before_mpdu_process_def Let_def)

lemma held_ids_same_queue:
  assumes "refs_ok s f" "stapriv s' = stapriv s" "map_option pending_recvframe_queue c = map_option pending_recvframe_queue (frame_ctrl s f)"
  shows "mset (held_ids (set_frame_ctrl f c s') p) = mset (held_ids s p)"
proof (cases "frame_ctrl s f")
  case None
  then show ?thesis using held_ids_cong [OF assms(2), of p] by (simp add: frame_ctrl_None)
next
  case (Some d)
  then obtain c' where "c = Some c'" "pending_recvframe_queue c' = pending_recvframe_queue d" using assms(3) by (cases c) auto
  then show ?thesis using held_ids_set_frame_ctrl [OF assms(1) Some assms(2), of c' p] by simp
qed

lemma posthandle_reorder_accounts:
  assumes "posthandle_reorder pm s p orig f = (ret, s', p')" "refs_ok s f" "distinct (frame_id f # held_ids s p)"
    and "frame_id orig = frame_id f \<or> ret \<noteq> RX_FAIL"
  shows "accounted s' p' = add_mset (frame_id f) (accounted s p)"
proof -
  obtain ret' pv c where r: "recv_indicatepkt_reorder pm (recvpriv s) (frame_ctrl s f) f = (ret', pv, c)" by (metis prod_cases3)
  let ?s = "s\<lparr>recvpriv := pv\<rparr>" and ?c = "recv_set_iseq_after_mpdu_process (recv_set_iseq_before_mpdu_process c (seq_num orig))"
  from reorder_frames [OF r] obtain del where ind: "indicated pv = indicated (recvpriv s) @ del"
    and D: "if ret' = RX_HANDLED then \<exists>d c'. frame_ctrl s f = Some d \<and> c = Some c' \<and>
       mset del + mset (pending_recvframe_queue c') = add_mset f (mset (pending_recvframe_queue d))
     else del = [] \<and> map_option pending_recvframe_queue c = map_option pending_recvframe_queue (frame_ctrl s f)" by blast
  note p = assms(1) [unfolded posthandle_reorder_def r]
  show ?thesis
  proof (cases ret')
    case RX_HANDLED
    then obtain d c' where d: "frame_ctrl s f = Some d" "c = Some c'"
      "mset del + mset (pending_recvframe_queue c') = add_mset f (mset (pending_recvframe_queue d))" using D by auto
    have q: "mset (map frame_id del) + mset (map frame_id (pending_recvframe_queue c')) = add_mset (frame_id f) (mset (map frame_id (pending_recvframe_queue d)))"
      using arg_cong [OF d(3), of "image_mset frame_id"] by simp
    have "accounted (set_frame_ctrl f c ?s) p + mset (map frame_id (pending_recvframe_queue d))
       = mset (held_ids s p) + mset (map frame_id (indicated (recvpriv s))) + (mset (map frame_id del) + mset (map frame_id (pending_recvframe_queue c')))"
      using held_ids_set_frame_ctrl [OF assms(2) d(1), of ?s c' p] ind by (simp add: accounted_def d(2) ac_simps)
    then have "accounted (set_frame_ctrl f c ?s) p = add_mset (frame_id f) (accounted s p)" unfolding q by (simp add: accounted_def)
    then show ?thesis using p RX_HANDLED by auto
  next
    case RX_FAIL
    then have o: "frame_id orig = frame_id f" using p assms(4) by auto
    have "mset (held_ids (set_frame_ctrl f c ?s) p) = mset (held_ids s p)" using held_ids_same_queue [OF assms(2), of ?s c] D RX_FAIL by simp
    then have "mset (held_ids (set_frame_ctrl f c ?s) (rtw_free_recvframe orig p)) = add_mset (frame_id f) (mset (held_ids s p))"
      using held_ids_free [of orig "set_frame_ctrl f c ?s" p] assms(3) o by (metis distinct.simps(2) mset_eq_setD)
    then show ?thesis using p RX_FAIL D ind o by (auto simp: accounted_def)
  next
    case RX_SUCCESS
    have "mset (held_ids (set_frame_ctrl f ?c (s\<lparr>recvpriv := pv\<lparr>indicated := indicated pv @ [f]\<rparr>\<rparr>)) p) = mset (held_ids s p)"
      using D RX_SUCCESS recv_set_iseq_pending [of c "seq_num orig"] by (intro held_ids_same_queue [OF assms(2)]) simp_all
    then have "accounted (set_frame_ctrl f ?c (s\<lparr>recvpriv := pv\<lparr>indicated := indicated pv @ [f]\<rparr>\<rparr>)) p = add_mset (frame_id f) (accounted s p)"
      using ind D RX_SUCCESS by (simp add: accounted_def)
    then show ?thesis using p RX_SUCCESS by (auto simp: Let_def split: if_splits)
  qed
qed

lemma stage_keeps_accounted: "stage_keeps s p f r s' p' \<Longrightarrow> mset (frame_ids r) + accounted s' p' = add_mset (frame_id f) (accounted s p)"
  by (simp add: stage_keeps_def accounted_def)

text \<open>The state in which the handler is called: the tables are well-formed and the frame is nobody else's.\<close>

definition rx_ready :: "rx_state \<Rightarrow> 'a recv_pool_scheme \<Rightarrow> rx_frame \<Rightarrow> bool" where
  "rx_ready s p f \<longleftrightarrow> sta_inv (stapriv s) \<and> distinct (frame_id f # held_ids s p) \<and> mfrag f \<le> 1 \<and> refs_ok s f
     \<and> (\<forall>si \<in> set (stainfo (stapriv s)). \<forall>g \<in> set (defrag_q si). refs_ok s g)"

lemma rx_ready_same: "rx_ready s p f \<Longrightarrow> same_frame f g \<Longrightarrow> stapriv s' = stapriv s \<Longrightarrow> rx_ready s' p g"
  using held_ids_cong [of s' s p] refs_ok_cong [of _ _ s' s] by (auto simp: rx_ready_def same_frame_def)

lemma rx_ready_stages:
  assumes "rx_ready s p f" "in_place aes" "in_place gcmp" "decryptor aes gcmp s p f = Some (r, s1, p1)"
  shows "stage_keeps s p f r s1 p1"
    and "r = Some g \<Longrightarrow> rx_ready s1 p g \<and> same_frame f g \<and> p1 = p"
  using decryptor_frame [OF assms(2-4)] assms(1,4) rx_ready_same [of s p f g s1]
  by (auto simp: rx_ready_def decryptor_def bind_eq_Some_conv split: if_splits)

lemma portctrl_passes: "portctrl s p f = Some (Some h, p') \<Longrightarrow> h = f \<and> p' = p"
  unfolding portctrl_def by (simp add: bind_eq_Some_conv split: option.splits if_splits)

lemma rx_ready_reassembled:
  assumes "rx_ready s p f" "in_place aes" "in_place gcmp" "decryptor aes gcmp s p f = Some (Some orig, s1, p1)"
    and "recvframe_chk_defrag env s1 p1 orig = Some (r, s2, p2)"
  shows "stage_keeps s p f r s2 p2"
    and "r = Some g \<Longrightarrow> distinct (frame_id g # held_ids s2 p2)"
    and "r = Some g \<Longrightarrow> refs_ok (rx_stats g s2) g"
    and "r = Some g \<Longrightarrow> frag_num f = 0 \<or> mfrag f = 1 \<Longrightarrow> frame_id orig = frame_id g"
proof -
  note K = rx_ready_stages [OF assms(1-4)]
  have R: "rx_ready s1 p orig" "same_frame f orig" "p1 = p" using K(2) by simp_all
  note C = recvframe_chk_defrag_frame [OF assms(5) [unfolded R(3)]]
  have C: "stage_keeps s1 p orig r s2 p2" "\<forall>g. r = Some g \<longrightarrow> refs_ok s2 g \<and> (frag_num orig = 0 \<or> mfrag orig = 1 \<longrightarrow> same_frame orig g)"
    using C R(1) unfolding rx_ready_def by simp_all
  show k: "stage_keeps s p f r s2 p2" using stage_keeps_trans [OF K(1) [unfolded R(3)] C(1)] .
  show "r = Some g \<Longrightarrow> distinct (frame_id g # held_ids s2 p2)"
    using stage_keeps_distinct [of s p f g s2 p2] k assms(1) by (simp add: rx_ready_def)
  show "r = Some g \<Longrightarrow> refs_ok (rx_stats g s2) g" using C(2) refs_ok_cong [of g g "rx_stats g s2" s2] by simp
  show "r = Some g \<Longrightarrow> frag_num f = 0 \<or> mfrag f = 1 \<Longrightarrow> frame_id orig = frame_id g"
    using C(2) R(2) by (auto simp: same_frame_def)
qed

lemma bind3E:
  assumes "(m \<bind> (\<lambda>(a, b, c). k a b c)) = Some x"
  obtains a b c where "m = Some (a, b, c)" "k a b c = Some x"
  using assms by (cases m) auto

lemma bind2E:
  assumes "(m \<bind> (\<lambda>(a, b). k a b)) = Some x"
  obtains a b where "m = Some (a, b)" "k a b = Some x"
  using assms by (cases m) auto

lemma case_optionE:
  assumes "(case r of None \<Rightarrow> Some a | Some y \<Rightarrow> k y) = Some x"
  obtains "r = None" "x = a" | y where "r = Some y" "k y = Some x"
  using assms by (cases r) auto

lemma posthandle_cases:
  assumes "recv_func_posthandle aes gcmp pm env s p f = Some x"
  obtains (crypt) s1 p1 where "decryptor aes gcmp s p f = Some (None, s1, p1)" "x = (RX_FAIL, count_rx_drop s1, p1)"
  | (frag) orig s1 p1 s2 p2 where "decryptor aes gcmp s p f = Some (Some orig, s1, p1)"
      "recvframe_chk_defrag env s1 p1 orig = Some (None, s2, p2)" "x = (RX_SUCCESS, count_rx_drop s2, p2)"
  | (port) orig s1 p1 g s2 p2 p3 where "decryptor aes gcmp s p f = Some (Some orig, s1, p1)"
      "recvframe_chk_defrag env s1 p1 orig = Some (Some g, s2, p2)" "portctrl s2 p2 g = Some (None, p3)" "x = (RX_FAIL, count_rx_drop s2, p3)"
  | (order) orig s1 p1 g s2 p2 h p3 where "decryptor aes gcmp s p f = Some (Some orig, s1, p1)"
      "recvframe_chk_defrag env s1 p1 orig = Some (Some g, s2, p2)" "portctrl s2 p2 g = Some (Some h, p3)"
      "x = posthandle_reorder pm (rx_stats h s2) p3 orig h"
  using assms unfolding recv_func_posthandle_def
  by (elim bind3E case_optionE bind2E) (simp_all only: option.inject)

text \<open>C1. No frame is lost: whatever \<open>recv_func_posthandle\<close> does with a received frame (decryption fails, a fragment is
  stored, the port is closed, the frame waits in a reordering queue or goes to the network stack together with
  others), afterwards the frames in the pool, in the queues of the stations and in the hands of the
  network stack are those from before plus the received frame, each as often as before. The one exception is the last
  fragment of a frame for which the handler reports an error.\<close>

theorem recv_func_posthandle_accounts:
  assumes "rx_ready s p f" "in_place aes" "in_place gcmp"
    and "recv_func_posthandle aes gcmp recv_process_mpdu env s p f = Some (ret, s', p')"
    and "frag_num f = 0 \<or> mfrag f = 1 \<or> ret \<noteq> RX_FAIL"
  shows "accounted s' p' = add_mset (frame_id f) (accounted s p)"
  using assms(4)
proof (cases rule: posthandle_cases)
  case (crypt s1 p1)
  show ?thesis using stage_keeps_accounted [OF rx_ready_stages(1) [OF assms(1-3) crypt(1)]] crypt(2) by (simp add: frame_ids_def)
next
  case (frag orig s1 p1 s2 p2)
  show ?thesis using stage_keeps_accounted [OF rx_ready_reassembled(1) [OF assms(1-3) frag(1,2)]] frag(3) by (simp add: frame_ids_def)
next
  case (port orig s1 p1 g s2 p2 p3)
  note G = rx_ready_reassembled [OF assms(1-3) port(1,2)]
  have "stage_keeps s p f None s2 p3" using portctrl_frame [OF port(3)] G(2) stage_keeps_trans [OF G(1)] by simp
  from stage_keeps_accounted [OF this] show ?thesis using port(4) by (simp add: frame_ids_def)
next
  case (order orig s1 p1 g s2 p2 h p3)
  note G = rx_ready_reassembled [OF assms(1-3) order(1,2)]
  have h: "h = g" "p3 = p2" using portctrl_passes [OF order(3)] by simp_all
  have "accounted s' p' = add_mset (frame_id g) (accounted (rx_stats g s2) p2)"
    using posthandle_reorder_accounts [OF order(4) [symmetric, unfolded h] G(3)] G(2,4) assms(5) by fastforce
  then show ?thesis using stage_keeps_accounted [OF G(1)] by (simp add: frame_ids_def)
qed


lemma defrag_pool_ok:
  assumes "recvframe_defrag q p = Some (Some g, p')" "distinct (pool_ids p @ map frame_id q)"
  shows "pool_ok p' = pool_ok p"
proof -
  obtain f fs where q: "q = f # fs" using assms(1) by (cases q) (auto simp: recvframe_defrag_def)
  obtain pn q' where l: "defrag_loop f pn 1 [] fs = Some (True, g, q')" "p' = rtw_free_recvframe_queue q' p"
    using assms(1) unfolding recvframe_defrag_def q list.case bind_eq_Some_conv
    by (auto simp: bind_eq_Some_conv split: if_splits)
  have "distinct (map frame_id q')" "set (map frame_id q') \<inter> set (pool_ids p) = {}"
    using assms(2) defrag_loop_ids [OF l(1)] q by auto
  then show ?thesis using rtw_free_recvframe_queue_ids [of q' p] l(2) by simp
qed

text \<open>A frame that reassembly returned in place of the last fragment: the last fragment is back in the pool.\<close>

lemma chk_defrag_last_freed:
  assumes "recvframe_chk_defrag env s p f = Some (Some g, s', p')" "rx_ready s p f" "frame_id g \<noteq> frame_id f"
  shows "frame_id f \<in> set (pool_ids p') \<and> pool_ok p' = pool_ok p"
proof -
  obtain g1 s1 where q: "chk_defrag_queue s p f = Some (Some g1, s1, p')" and id: "frame_id g1 = frame_id g"
    using assms(1) recvframe_chkmic_frame unfolding recvframe_chk_defrag_def same_frame_def
    by (elim bind3E case_optionE) (auto simp: bind_eq_Some_conv split: if_splits)
  obtain psta where ps: "defrag_sta s f = Some psta" using q unfolding chk_defrag_queue_def bind_eq_Some_conv by blast
  note c = q [unfolded chk_defrag_queue_def ps Option.bind.bind_lunit]
  obtain i where i: "psta = Some i" and d: "recvframe_defrag (defrag_q (stainfo (stapriv s) ! i) @ [f\<lparr>keytrack := sta_keytrack (stainfo (stapriv s) ! i)\<rparr>]) p = Some (Some g1, p')"
    using c assms(3) id by (cases psta) (auto simp: Let_def bind_eq_Some_conv split: if_splits)
  let ?si = "stainfo (stapriv s) ! i"
  have l: "i < length (stainfo (stapriv s))" using defrag_sta_less ps i assms(2) by (auto simp: rx_ready_def)
  have D: "distinct (pool_ids p @ map frame_id (defrag_q ?si @ [f\<lparr>keytrack := sta_keytrack ?si\<rparr>]))"
    using assms(2) held_ids_sta [OF l, of p] unfolding rx_ready_def sta_frame_ids_def map_append by (auto simp: held_ids_def)
  have "frame_id f \<in># mset (frame_ids (Some g1) @ pool_ids p')" unfolding defrag_frames(1) [OF d D] by simp
  then show ?thesis using assms(3) id defrag_pool_ok [OF d D] by (auto simp: frame_ids_def)
qed

lemma free_again:
  assumes "frame_id f \<in> set (pool_ids p)" "pool_ok p"
  shows "set (pool_ids (rtw_free_recvframe f p)) = set (pool_ids p)"
    and "free_recvframe_cnt (rtw_free_recvframe f p) = of_nat (length (free_recv_queue (rtw_free_recvframe f p))) + 1"
proof -
  have d: "distinct (pool_ids p)" and c: "free_recvframe_cnt p = of_nat (length (free_recv_queue p))" using assms(2) by (simp_all add: pool_ok_def)
  have i: "pool_ids (rtw_free_recvframe f p) = filter (\<lambda>n. n \<noteq> frame_id f) (pool_ids p) @ [frame_id f]"
    by (simp add: pool_ids_def rtw_free_recvframe_def filter_map comp_def)
  then show "set (pool_ids (rtw_free_recvframe f p)) = set (pool_ids p)" using assms(1) by auto
  have "length (pool_ids (rtw_free_recvframe f p)) = length (pool_ids p)" using length_filter_neq [OF d assms(1)] i by simp
  then show "free_recvframe_cnt (rtw_free_recvframe f p) = of_nat (length (free_recv_queue (rtw_free_recvframe f p))) + 1"
    using c by (simp add: pool_ids_def) (simp add: rtw_free_recvframe_def)
qed

text \<open>C23. A leak: when the last fragment completes a frame and the reordering then refuses the frame (it is older than the
  window or already queued), \<open>recv_func_posthandle\<close> releases the last fragment, which reassembly has already released,
  instead of the reassembled frame. That frame is then in no queue and not with the network
  stack, and the count of free frames is one too high.\<close>

theorem recv_func_posthandle_leak:
  assumes "rx_ready s p f" "pool_ok p" "in_place aes" "in_place gcmp"
    and "decryptor aes gcmp s p f = Some (Some orig, s1, p1)" "recvframe_chk_defrag env s1 p1 orig = Some (Some g, s2, p2)"
    and "frame_id g \<noteq> frame_id f" "portctrl s2 p2 g = Some (Some g, p2)"
    and "fst (recv_indicatepkt_reorder recv_process_mpdu (recvpriv s2) (frame_ctrl s2 g) g) = RX_FAIL"
  shows "\<exists>s' p'. recv_func_posthandle aes gcmp recv_process_mpdu env s p f = Some (RX_FAIL, s', p') \<and>
    frame_id g \<notin> set (held_ids s' p') \<and> indicated (recvpriv s') = indicated (recvpriv s) \<and>
    free_recvframe_cnt p' = of_nat (length (free_recv_queue p')) + 1"
proof -
  note G = rx_ready_reassembled [OF assms(1,3-6)] and K = rx_ready_stages(2) [OF assms(1,3-5) refl]
  have o: "frame_id orig = frame_id f" "p1 = p" "rx_ready s1 p1 orig" using K by (simp_all add: same_frame_def)
  have fr: "frame_id orig \<in> set (pool_ids p2)" "pool_ok p2"
    using chk_defrag_last_freed [OF assms(6) o(3)] assms(2,7) o by simp_all
  obtain pv c where r: "recv_indicatepkt_reorder recv_process_mpdu (recvpriv s2) (frame_ctrl s2 g) g = (RX_FAIL, pv, c)"
    using assms(9) by (metis prod.collapse)
  let ?s = "(rx_stats g s2)\<lparr>recvpriv := pv\<rparr>"
  let ?s' = "count_rx_drop (set_frame_ctrl g c ?s)" and ?p' = "rtw_free_recvframe orig p2"
  have q: "map_option pending_recvframe_queue c = map_option pending_recvframe_queue (frame_ctrl (rx_stats g s2) g)"
    and ind: "indicated pv = indicated (recvpriv s2)" using reorder_frames [OF r] by auto
  have "recv_func_posthandle aes gcmp recv_process_mpdu env s p f = Some (RX_FAIL, ?s', ?p')"
    using r by (simp add: recv_func_posthandle_def assms(5,6,8) posthandle_reorder_def)
  moreover have "mset (held_ids ?s' p2) = mset (held_ids s2 p2)"
    using held_ids_same_queue [OF G(3) _ q, of ?s p2] by simp
  then have "set (held_ids ?s' ?p') = set (held_ids s2 p2)"
    using free_again(1) [OF fr] by (metis held_ids_def mset_eq_setD set_append)
  then have "frame_id g \<notin> set (held_ids ?s' ?p')" using G(2) by simp
  moreover have "indicated (recvpriv ?s') = indicated (recvpriv s)" using ind G(1) by (simp add: stage_keeps_def)
  ultimately show ?thesis using free_again(2) [OF fr] by blast
qed

text \<open>A station with the first fragment of a frame, and the second fragment; \<open>w\<close> is the start of the reordering window.\<close>

definition example_fragment :: "u8 \<Rightarrow> rx_frame" where
  "example_fragment n = (example_frag n (n + 4))\<lparr>mfrag := 1 - n, qos := True, ta := [2, 0, 0, 0, 0, 1], ra := [2, 0, 0, 0, 0, 9],
     frame_sta := Some 0, preorder_tid := Some 0, keytrack := 0\<rparr>"

definition example_frag_state :: "u16 \<Rightarrow> rx_state" where
  "example_frag_state w = (let si = stainfo (stapriv example_rx_state) ! 0 in
     set_sta 0 (si\<lparr>defrag_q := [example_fragment 0],
       recvreorder_ctrl := (recvreorder_ctrl si)[0 := reorder_ctrl_init\<lparr>enable := True, indicate_seq := w\<rparr>]\<rparr>) example_rx_state)"

definition aead_none :: aead_decrypt where "aead_none s f = Some (False, f)"

lemma in_place_none: "in_place aead_none"
  by (simp add: in_place_def aead_none_def)

lemma example_rx_ready: "rx_ready (example_frag_state w) example_pool (example_fragment 1)"
proof -
  have "sta_inv (stapriv (example_frag_state w))"
    by (rule sta_inv_same_table [OF example_rx_inv(1)]) (simp_all add: example_frag_state_def set_sta_def Let_def mac_addr_update)
  moreover have "distinct (frame_id (example_fragment 1) # held_ids (example_frag_state w) example_pool)" by code_simp
  moreover have "mfrag (example_fragment 1) \<le> 1" "refs_ok (example_frag_state w) (example_fragment 1)" by code_simp+
  moreover have "\<forall>si \<in> set (stainfo (stapriv (example_frag_state w))). \<forall>g \<in> set (defrag_q si). refs_ok (example_frag_state w) g" by code_simp
  ultimately show ?thesis by (simp only: rx_ready_def)
qed

theorem recv_func_posthandle_accounts_witness:
  "\<exists>s' p'. recv_func_posthandle aead_none aead_none (\<lambda>_. True) example_env (example_frag_state 7) example_pool (example_fragment 1)
     = Some (RX_HANDLED, s', p') \<and> accounted s' p' = {#0, 1#}"
proof -
  let ?r = "recv_func_posthandle aead_none aead_none (\<lambda>_. True) example_env (example_frag_state 7) example_pool (example_fragment 1)"
  have "map_option fst ?r = Some RX_HANDLED" by code_simp
  then obtain s' p' where r: "?r = Some (RX_HANDLED, s', p')" by auto
  have "held_ids (example_frag_state 7) example_pool = [0]" "indicated (recvpriv (example_frag_state 7)) = []" "frame_id (example_fragment 1) = 1" by code_simp+
  then have "accounted (example_frag_state 7) example_pool = {#0#}" "frame_id (example_fragment 1) = 1" by (simp_all add: accounted_def)
  with recv_func_posthandle_accounts [OF example_rx_ready in_place_none in_place_none r] r show ?thesis by auto
qed

theorem recv_func_posthandle_leak_witness:
  "\<exists>s' p'. recv_func_posthandle aead_none aead_none (\<lambda>_. True) example_env (example_frag_state 100) example_pool (example_fragment 1)
     = Some (RX_FAIL, s', p') \<and> 0 \<notin> set (held_ids s' p') \<and> indicated (recvpriv s') = [] \<and> free_recvframe_cnt p' = of_nat (length (free_recv_queue p')) + 1"
proof -
  let ?s = "example_frag_state 100" and ?f = "example_fragment 1"
  have d: "map_option (map_option frame_id \<circ> fst) (decryptor aead_none aead_none ?s example_pool ?f) = Some (Some 1)" by code_simp
  then obtain orig s1 p1 where o: "decryptor aead_none aead_none ?s example_pool ?f = Some (Some orig, s1, p1)" by auto
  have "map_option (\<lambda>(r, s2, p2). map_option (\<lambda>g. (frame_id g, portctrl s2 p2 g = Some (Some g, p2),
      fst (recv_indicatepkt_reorder (\<lambda>_. True) (recvpriv s2) (frame_ctrl s2 g) g) = RX_FAIL)) r)
     (decryptor aead_none aead_none ?s example_pool ?f \<bind> (\<lambda>(r, s1, p1). recvframe_chk_defrag example_env s1 p1 (the r)))
     = Some (Some (0, True, True))" by code_simp
  then obtain g s2 p2 where g: "recvframe_chk_defrag example_env s1 p1 orig = Some (Some g, s2, p2)" "frame_id g = 0"
    "portctrl s2 p2 g = Some (Some g, p2)" "fst (recv_indicatepkt_reorder (\<lambda>_. True) (recvpriv s2) (frame_ctrl s2 g) g) = RX_FAIL"
    unfolding o Option.bind.bind_lunit by auto
  have i: "pool_ok example_pool" "indicated (recvpriv ?s) = []" "frame_id ?f = 1" by code_simp+
  from recv_func_posthandle_leak [OF example_rx_ready i(1) in_place_none in_place_none o g(1) _ g(3,4)] g(2) i(2,3)
  show ?thesis by simp
qed

end
