(* ===== verification/Recv_Check.thy ===== *)
theory Recv_Check
  imports Recv_Validate
begin

text \<open>
  What the driver looks for in a packet before it hands it to the network stack (\<^verbatim>\<open>core/rtw_recv.c\<close>:
  \<open>rtw_recv_indicatepkt_check\<close>; \<^verbatim>\<open>core/rtw_wlan_util.c\<close>: \<open>parsing_eapol_packet\<close>;
  \<^verbatim>\<open>core/rtw_sta_mgt.c\<close>: \<open>rtw_st_ctl_rx\<close>, \<open>rtw_st_ctl_chk_reg_s_proto\<close>, \<open>rtw_st_ctl_chk_reg_rule\<close>;
  \<^verbatim>\<open>core/rtw_debug.c\<close>: \<open>rtw_sink_rtp_seq_dbg\<close>): EAPOL key frames, tracked TCP sessions and the sequence numbers of a
  test stream. None of these functions knows the length of the packet.

  The functions read from a byte string, and a read behind its end is \<open>None\<close>. \<open>skb_view\<close> is the packet with the memory behind
  it, on which the driver runs them; on the bare packet they succeed exactly when they stay inside it. What they change is a list
  of notes. A note carries the pointer \<open>psta\<close> through which it is written (\<open>None\<close> is \<open>NULL\<close>).
\<close>

datatype rx_note = EapolKeyTime "nat option" u64 | HandshakeDone "nat option"
  | RxSessionAdd nat buf buf buf buf | RxSessionDel nat buf buf buf buf | RtpSeq u16

datatype eap_type = EAP_PACKET | NON_EAPOL | EAPOL_START | EAPOL_LOGOFF | EAPOL_KEY | EAPOL_ENCAP_ASF_ALERT | EAPOL_PACKET
  | EAPOL_WPA_GROUP_KEY_1_2 | EAPOL_WPA_GROUP_KEY_2_2 | EAPOL_1_4 | EAPOL_2_4 | EAPOL_3_4 | EAPOL_4_4

text \<open>The one entry of the array \<open>reg\<close> of a station's \<open>st_ctl\<close>; the rule gets the addresses and ports of a session.\<close>

record st_register =
  s_proto :: u8
  st_rule :: "(buf \<Rightarrow> buf \<Rightarrow> buf \<Rightarrow> buf \<Rightarrow> bool) option"

text \<open>
  What the check reads of the adapter: whether \<open>ndisauthtype\<close> is \<open>Ndis802_11AuthModeWPAPSK\<close>, the session tracker of a station, the
  port of the test stream, and the bytes that lie in memory behind the end of a packet.
\<close>

record chk_env =
  wpapsk :: bool
  sta_st_reg :: "nat \<Rightarrow> st_register"
  sink_udpport :: u16
  behind :: "buf \<Rightarrow> nat \<Rightarrow> u8"

subsection \<open>EAPOL\<close>

text \<open>
  \<open>parsing_eapol_packet\<close>: the kind of an EAPOL packet at \<open>key_payload\<close>, and whether the handshake flag of the station is cleared. The
  key descriptor begins behind the four bytes of the EAPOL header; \<open>key_info\<close> is at 1 and \<open>key_data_length\<close> at 93 of it.
\<close>

definition parsing_eapol_packet :: "bool \<Rightarrow> buf \<Rightarrow> nat \<Rightarrow> (eap_type \<times> bool) option" where
  "parsing_eapol_packet psk b i =
     do { type \<leftarrow> rd b (i + 1);
          start \<leftarrow> (if type = 1 then do { len \<leftarrow> RTW_GET_LE16 b (i + 2); Some (len = 0) } else Some False);
          if start then Some (EAPOL_START, False)
          else if type = 0 then Some (EAPOL_PACKET, False)
          else do {
            key_info \<leftarrow> RTW_GET_BE16 b (i + 4 + 1);
            key_data_length \<leftarrow> RTW_GET_BE16 b (i + 4 + 93);
            if \<not> bit key_info 3 then
              Some (if bit key_info 7 then (EAPOL_WPA_GROUP_KEY_1_2, False) else (EAPOL_WPA_GROUP_KEY_2_2, psk))
            else if bit key_info 8 then
              Some (if key_data_length = 0 then EAPOL_4_4 else if bit key_info 7 then EAPOL_3_4 else EAPOL_2_4, False)
            else Some (EAPOL_1_4, False) } }"

subsection \<open>Sessions\<close>

definition rtw_st_ctl_chk_reg_s_proto :: "st_register \<Rightarrow> u8 \<Rightarrow> bool" where
  "rtw_st_ctl_chk_reg_s_proto reg proto \<longleftrightarrow> s_proto reg = proto"

definition rtw_st_ctl_chk_reg_rule :: "st_register \<Rightarrow> buf \<Rightarrow> buf \<Rightarrow> buf \<Rightarrow> buf \<Rightarrow> bool" where
  "rtw_st_ctl_chk_reg_rule reg local_naddr local_port remote_naddr remote_port \<longleftrightarrow>
     (case st_rule reg of None \<Rightarrow> False | Some rule \<Rightarrow> rule local_naddr local_port remote_naddr remote_port)"

text \<open>
  \<open>rtw_st_ctl_rx\<close>: the IP header is at 14. The rule gets pointers; the one the driver registers reads the ports, so that the
  addresses are read only by the commands to the tracker.
\<close>

definition rtw_st_ctl_rx :: "st_register \<Rightarrow> nat \<Rightarrow> buf \<Rightarrow> rx_note list option" where
  "rtw_st_ctl_rx reg k b =
     do { h_proto \<leftarrow> RTW_GET_BE16 b 12;
          if h_proto \<noteq> 0x0800 then Some []
          else do {
            proto \<leftarrow> rd b (14 + 9);
            if \<not> (proto = 0x06 \<and> rtw_st_ctl_chk_reg_s_proto reg 0x06) then Some []
            else do {
              ihl \<leftarrow> rd b 14;
              let tcp = 14 + unat (ihl AND 0x0f) * 4;
              sport \<leftarrow> rds b tcp 2;
              dport \<leftarrow> rds b (tcp + 2) 2;
              if \<not> rtw_st_ctl_chk_reg_rule reg (take 4 (drop 30 b)) dport (take 4 (drop 26 b)) sport then Some []
              else do {
                flags \<leftarrow> rd b (tcp + 13);
                if \<not> (bit flags 1 \<and> bit flags 4) \<and> \<not> bit flags 0 then Some []
                else do {
                  dst \<leftarrow> rds b 30 4;
                  src \<leftarrow> rds b 26 4;
                  Some ((if bit flags 1 \<and> bit flags 4 then [RxSessionAdd k dst dport src sport] else [])
                    @ (if bit flags 0 then [RxSessionDel k dst dport src sport] else [])) } } } } }"

definition rtw_sink_rtp_seq_dbg :: "u16 \<Rightarrow> buf \<Rightarrow> rx_note list option" where
  "rtw_sink_rtp_seq_dbg port b =
     (if port > 0 then
        do { dport \<leftarrow> RTW_GET_BE16 b 0x24;
             if dport = port then do { seq \<leftarrow> RTW_GET_BE16 b 0x2C; Some [RtpSeq seq] } else Some [] }
      else Some [])"

subsection \<open>The check\<close>

definition eapol_notes :: "rx_env \<Rightarrow> rx_frame \<Rightarrow> eap_type \<times> bool \<Rightarrow> rx_note list" where
  "eapol_notes env f r = (case r of (eapol_type, done) \<Rightarrow>
     (if done then [HandshakeDone (frame_sta f)] else [])
     @ (if (eapol_type = EAPOL_1_4 \<or> eapol_type = EAPOL_3_4) \<and> encrypt f = 0 then [EapolKeyTime (frame_sta f) (cur_time env)] else []))"

definition rtw_recv_indicatepkt_check :: "rx_env \<Rightarrow> 'a chk_env_scheme \<Rightarrow> rx_frame \<Rightarrow> buf \<Rightarrow> rx_note list option" where
  "rtw_recv_indicatepkt_check env ce f b =
     do { st \<leftarrow> (case frame_sta f of None \<Rightarrow> Some [] | Some k \<Rightarrow> rtw_st_ctl_rx (sta_st_reg ce k) k b);
          h_proto \<leftarrow> RTW_GET_BE16 b 12;
          eap \<leftarrow> (if h_proto = 0x888e then map_option (eapol_notes env f) (parsing_eapol_packet (wpapsk ce) b 14) else Some []);
          rtp \<leftarrow> rtw_sink_rtp_seq_dbg (sink_udpport ce) b;
          Some (st @ eap @ rtp) }"

text \<open>
  The memory on which the driver runs the check: the longest read ends at 113. The buffers of the kernel end with
  a structure that is longer than that, so these reads do not leave the allocation.
\<close>

definition INSPECTED_MAX :: nat where "INSPECTED_MAX = 113"

definition skb_view :: "'a chk_env_scheme \<Rightarrow> buf \<Rightarrow> buf" where
  "skb_view ce pkt = pkt @ map (behind ce pkt) [0..<INSPECTED_MAX]"

definition indicate_notes :: "rx_env \<Rightarrow> 'a chk_env_scheme \<Rightarrow> rx_frame \<Rightarrow> buf \<Rightarrow> rx_note list option" where
  "indicate_notes env ce f pkt = rtw_recv_indicatepkt_check env ce f (skb_view ce pkt)"

lemma indicate_notes_cong: "frame_sta f = frame_sta g \<Longrightarrow> encrypt f = encrypt g \<Longrightarrow> indicate_notes env ce f = indicate_notes env ce g"
proof -
  assume a: "frame_sta f = frame_sta g" "encrypt f = encrypt g"
  then have "eapol_notes env f = eapol_notes env g" by (intro ext) (simp add: eapol_notes_def split: prod.split)
  with a show ?thesis by (intro ext) (simp only: indicate_notes_def rtw_recv_indicatepkt_check_def)
qed

subsection \<open>How far the check reads\<close>

lemma rd_Some: "i < length b \<Longrightarrow> rd b i = Some (b ! i)" by (simp add: rd_def)
lemma be16_Some: "i + 1 < length b \<Longrightarrow> RTW_GET_BE16 b i = Some (be16 (b ! i) (b ! (i + 1)))" by (simp add: RTW_GET_BE16_def rd_def)
lemma rds_Some: "i + n \<le> length b \<Longrightarrow> rds b i n = Some (take n (drop i b))" by (simp add: rds_def)

text \<open>An IP packet that holds its IP header and the TCP header behind it.\<close>

definition ip_complete :: "buf \<Rightarrow> bool" where
  "ip_complete pkt \<longleftrightarrow> 34 \<le> length pkt \<and> 14 + unat (pkt ! 14 AND 0x0f) * 4 + 14 \<le> length pkt"

lemma st_ctl_rx_complete:
  assumes "ip_complete b"
  shows "rtw_st_ctl_rx reg k b \<noteq> None"
proof -
  define t where "t = 14 + unat (b ! 14 AND 0x0f) * 4"
  have l: "34 \<le> length b" "t + 14 \<le> length b" using assms by (simp_all add: ip_complete_def t_def)
  obtain p0 p1 sp dp fl da sa where r: "RTW_GET_BE16 b 12 = Some p0" "rd b 14 = Some (b ! 14)" "rd b (14 + 9) = Some p1" "rds b t 2 = Some sp"
    "rds b (t + 2) 2 = Some dp" "rd b (t + 13) = Some fl" "rds b 30 4 = Some da" "rds b 26 4 = Some sa"
    using l by (simp add: be16_Some rd_Some rds_Some)
  show ?thesis unfolding rtw_st_ctl_rx_def Let_def r Option.bind.bind_lunit t_def [symmetric] by simp
qed

lemma long_ip_complete: "113 \<le> length b \<Longrightarrow> ip_complete b"
  using word_and_le1 [of "b ! 14" "0x0f"] by (simp add: ip_complete_def word_le_nat_alt)

lemma sink_reads: "113 \<le> length b \<Longrightarrow> rtw_sink_rtp_seq_dbg port b \<noteq> None"
  by (auto simp: rtw_sink_rtp_seq_dbg_def be16_Some)

text \<open>An EAPOL packet in which the parser finds all it reads.\<close>

definition eapol_readable :: "buf \<Rightarrow> bool" where
  "eapol_readable pkt \<longleftrightarrow> 16 \<le> length pkt \<and>
     (pkt ! 15 = 0 \<or> pkt ! 15 = 1 \<and> 18 \<le> length pkt \<and> pkt ! 16 = 0 \<and> pkt ! 17 = 0 \<or> 113 \<le> length pkt)"

lemma be16_0: "be16 x y = 0 \<longleftrightarrow> x = 0 \<and> y = 0"
proof -
  have "ucast (drop_bit 8 (push_bit 8 (ucast x :: u16))) = x" "ucast (ucast y :: u16) = y" by (rule bit_word_eqI; auto simp: bit_simps)+
  then show ?thesis unfolding be16_def or_eq_0_iff by (metis drop_bit_of_0 push_bit_of_0 unsigned_0)
qed

lemma eapol_reads: "(parsing_eapol_packet w b 14 \<noteq> None) = eapol_readable b"
proof -
  show ?thesis
    by (auto simp: parsing_eapol_packet_def eapol_readable_def RTW_GET_BE16_def RTW_GET_LE16_def rd_def be16_0 split: if_splits)
qed

lemma check_reads:
  assumes "113 \<le> length b"
  shows "rtw_recv_indicatepkt_check env ce f b \<noteq> None"
proof -
  have "rtw_st_ctl_rx (sta_st_reg ce k) k b \<noteq> None" "rtw_sink_rtp_seq_dbg (sink_udpport ce) b \<noteq> None" for k
    using st_ctl_rx_complete [OF long_ip_complete [OF assms]] sink_reads [OF assms] by blast+
  moreover have "parsing_eapol_packet (wpapsk ce) b 14 \<noteq> None" unfolding eapol_reads using assms by (simp add: eapol_readable_def)
  ultimately show ?thesis using assms
    by (cases "frame_sta f") (auto simp: rtw_recv_indicatepkt_check_def be16_Some bind_eq_None_conv)
qed

lemma indicate_notes_total: "\<exists>ns. indicate_notes env ce f pkt = Some ns"
  using check_reads [of "skb_view ce pkt"] by (simp add: indicate_notes_def skb_view_def INSPECTED_MAX_def)

text \<open>On a bare packet with an Ethernet header, and without a test stream.\<close>

lemma check_other:
  assumes "14 \<le> length pkt" "sink_udpport ce = 0" "be16 (pkt ! 12) (pkt ! 13) \<noteq> 0x0800"
  shows "(rtw_recv_indicatepkt_check env ce f pkt \<noteq> None) = (be16 (pkt ! 12) (pkt ! 13) = 0x888e \<longrightarrow> eapol_readable pkt)"
proof -
  have b: "RTW_GET_BE16 pkt 12 = Some (be16 (pkt ! 12) (pkt ! 13))" using assms(1) by (simp add: be16_Some)
  have "(case frame_sta f of None \<Rightarrow> Some [] | Some k \<Rightarrow> rtw_st_ctl_rx (sta_st_reg ce k) k pkt) = Some []"
    using b assms(3) by (auto simp: rtw_st_ctl_rx_def split: option.splits)
  then show ?thesis
    using b assms(2) eapol_reads [of "wpapsk ce" pkt]
    by (simp add: rtw_recv_indicatepkt_check_def rtw_sink_rtp_seq_dbg_def bind_eq_None_conv)
qed

lemma check_ip:
  assumes "14 \<le> length pkt" "sink_udpport ce = 0" "be16 (pkt ! 12) (pkt ! 13) = 0x0800"
  shows "ip_complete pkt \<Longrightarrow> rtw_recv_indicatepkt_check env ce f pkt \<noteq> None"
    and "frame_sta f \<noteq> None \<Longrightarrow> rtw_recv_indicatepkt_check env ce f pkt \<noteq> None \<Longrightarrow> 24 \<le> length pkt"
proof -
  have b: "RTW_GET_BE16 pkt 12 = Some 0x0800" using assms(1,3) by (simp add: be16_Some)
  have e: "rtw_recv_indicatepkt_check env ce f pkt = (case frame_sta f of None \<Rightarrow> Some [] | Some k \<Rightarrow> rtw_st_ctl_rx (sta_st_reg ce k) k pkt)"
    using b assms(2) by (simp add: rtw_recv_indicatepkt_check_def rtw_sink_rtp_seq_dbg_def)
  show "rtw_recv_indicatepkt_check env ce f pkt \<noteq> None" if "ip_complete pkt"
    using st_ctl_rx_complete [OF that] unfolding e by (simp split: option.splits)
  show "24 \<le> length pkt" if "frame_sta f \<noteq> None" "rtw_recv_indicatepkt_check env ce f pkt \<noteq> None"
    using that b unfolding e by (auto simp: rtw_st_ctl_rx_def rd_def split: if_splits)
qed

lemma check_bounds:
  assumes "14 \<le> length pkt"
  shows "let inside = (rtw_recv_indicatepkt_check env ce f pkt \<noteq> None); h_proto = be16 (pkt ! 12) (pkt ! 13) in
    (113 \<le> length pkt \<longrightarrow> inside) \<and>
    (sink_udpport ce = 0 \<longrightarrow>
      (if h_proto = 0x888e then inside = eapol_readable pkt
       else if h_proto = 0x0800 then (ip_complete pkt \<longrightarrow> inside) \<and> (frame_sta f \<noteq> None \<and> inside \<longrightarrow> 24 \<le> length pkt)
       else inside))"
  using check_reads [of pkt env ce f] check_other [OF assms, of ce env f] check_ip(1) [OF assms, of ce env f] check_ip(2) [OF assms, of ce f env]
  unfolding Let_def by (simp only: simp_thms split: if_split) fastforce

end
