(* ===== verification/Recv_Msdu.thy ===== *)
theory Recv_Msdu
  imports Recv_Check
begin

text \<open>
  From a received MPDU to Ethernet frames (\<^verbatim>\<open>core/rtw_recv.c\<close>: \<open>rtw_recv_llc_parse\<close>,
  \<open>wlanhdr_to_ethhdr\<close>, \<open>validate_amsdu_content\<close>, \<open>rtw_sta_rx_amsdu_act_check\<close>, \<open>amsdu_to_msdu\<close>,
  \<open>recv_process_mpdu\<close>; \<^verbatim>\<open>core/rtw_ap.c\<close>: \<open>rtw_ap_rx_msdu_act_check\<close>; \<^verbatim>\<open>os_dep/linux/recv_linux.c\<close>:
  \<open>rtw_os_alloc_msdu_pkt\<close>, \<open>rtw_recv_indicatepkt\<close>): the LLC header, the deaggregation of A-MSDUs and the
  decision of an access point to forward a frame.

  The packets given to the network stack and those given to the transmit path are lists of byte strings; memory
  allocations succeed. \<open>fwd_taken\<close> is the answer of the transmit path to a request for a transmit frame.
  A packet that goes to the network stack is first inspected by \<open>rtw_recv_indicatepkt_check\<close> (see \<open>Recv_Check\<close>), which always lets it
  pass without WAPI; \<open>noted\<close> is what the inspections change. Mesh and WDS are not part of the default build.
\<close>

definition ETH_HLEN :: nat where "ETH_HLEN = 14"
definition SNAP_SIZE :: nat where "SNAP_SIZE = 6"
definition MAX_SUBFRAME_COUNT :: nat where "MAX_SUBFRAME_COUNT = 64"
definition rtw_rfc1042_header :: buf where "rtw_rfc1042_header = [0xaa, 0xaa, 0x03, 0x00, 0x00, 0x00]"
definition rtw_bridge_tunnel_header :: buf where "rtw_bridge_tunnel_header = [0xaa, 0xaa, 0x03, 0x00, 0x00, 0xf8]"

record msdu_env = chk_env +
  amsdu_mode :: u8
  ap_isolate :: bool
  asoc_list_cnt :: u8
  cannot_run :: bool
  fwd_taken :: "buf \<Rightarrow> buf \<Rightarrow> bool"

record msdu_out =
  subframes :: "buf list"
  forwarded :: "buf list"
  noted :: "rx_note list"

subsection \<open>LLC header\<close>

text \<open>\<open>True\<close> is \<open>RTW_RX_LLC_REMOVE\<close> and \<open>False\<close> is \<open>RTW_RX_LLC_KEEP\<close>.\<close>

definition rtw_recv_llc_parse :: "buf \<Rightarrow> nat \<Rightarrow> u16 \<Rightarrow> bool option" where
  "rtw_recv_llc_parse m msdu msdu_len =
     (if msdu_len < 8 then Some False
      else do {
        eth_type \<leftarrow> RTW_GET_BE16 m (msdu + SNAP_SIZE);
        rfc \<leftarrow> rtw_memcmp m msdu rtw_rfc1042_header SNAP_SIZE;
        bt \<leftarrow> rtw_memcmp m msdu rtw_bridge_tunnel_header SNAP_SIZE;
        Some (rfc \<and> eth_type \<noteq> 0x80F3 \<and> eth_type \<noteq> 0x8137 \<or> bt) })"

definition wlanhdr_to_ethhdr :: "rx_frame \<Rightarrow> bool \<Rightarrow> (bool \<times> rx_frame) option" where
  "wlanhdr_to_ethhdr f llc =
     (let f = (if encrypt f \<noteq> 0 then snd (recvframe_pull_tail f (unat (icv_len f))) else f);
          rmv_len = unat (hdrlen f) + unat (iv_len f) + (if llc then SNAP_SIZE else 0);
          len = ucast (rlen f - of_nat rmv_len) :: u16 in
      if rmv_len + (if llc then 2 else 0) < ETH_HLEN then None
      else case recvframe_pull f (rmv_len + (if llc then 2 else 0) - ETH_HLEN) of
        (False, f) \<Rightarrow> Some (False, f)
      | (True, f) \<Rightarrow>
          do { m \<leftarrow> wrs (mem f) (rx_data f) (take 6 (dst f));
               m \<leftarrow> wrs m (rx_data f + 6) (take 6 (src f));
               m \<leftarrow> (if llc then Some m else wrs m (rx_data f + 12) (be16_bytes len));
               Some (True, f\<lparr>mem := m\<rparr>) })"

subsection \<open>Aggregated frames\<close>

definition validate_amsdu_content :: "msdu_env \<Rightarrow> rx_security \<Rightarrow> rx_frame \<Rightarrow> buf \<Rightarrow> buf \<Rightarrow> bool" where
  "validate_amsdu_content me sec f da sa =
     (if amsdu_mode me = 0 \<and> dot11PrivacyAlgrthm sec \<noteq> 0 then
        \<not> (to_fr_ds f = 2 \<and> da \<noteq> ra f) \<and> \<not> (to_fr_ds f = 1 \<and> sa \<noteq> ta f) \<and> da \<noteq> rtw_rfc1042_header
      else True)"

text \<open>The result is the pair of the bits \<open>RTW_RX_MSDU_ACT_INDICATE\<close> and \<open>RTW_RX_MSDU_ACT_FORWARD\<close>.\<close>

definition rtw_sta_rx_amsdu_act_check :: "buf \<Rightarrow> buf \<Rightarrow> bool \<times> bool" where
  "rtw_sta_rx_amsdu_act_check da sa = (True, False)"

definition rtw_ap_rx_msdu_act_check :: "rx_env \<Rightarrow> msdu_env \<Rightarrow> sta_priv \<Rightarrow> buf \<Rightarrow> buf \<Rightarrow> bool \<times> bool" where
  "rtw_ap_rx_msdu_act_check env me st da sa =
     (let fwd_chk = (\<lambda>ind. (ind, unat (asoc_list_cnt me) > 1 \<and> fwd_taken me da sa)) in
      if sa = my_mac env then (False, False)
      else if is_mcast da then (if ap_isolate me then (True, False) else fwd_chk True)
      else if da = my_mac env then (True, False)
      else if rtw_get_stainfo st (Some da) \<noteq> None then (if ap_isolate me then (False, False) else fwd_chk False)
      else if ap_isolate me then (True, False) else fwd_chk True)"

definition msdu_act :: "rx_env \<Rightarrow> msdu_env \<Rightarrow> sta_priv \<Rightarrow> buf \<Rightarrow> buf \<Rightarrow> bool \<times> bool" where
  "msdu_act env me st da sa =
     (if check_fwstate env WIFI_AP_STATE then rtw_ap_rx_msdu_act_check env me st da sa
      else if check_fwstate env WIFI_STATION_STATE then rtw_sta_rx_amsdu_act_check da sa else (True, False))"

definition rtw_os_alloc_msdu_pkt :: "buf \<Rightarrow> buf \<Rightarrow> buf \<Rightarrow> nat \<Rightarrow> u16 \<Rightarrow> bool \<Rightarrow> buf option" where
  "rtw_os_alloc_msdu_pkt da sa m msdu msdu_len llc =
     do { d \<leftarrow> rds m msdu (unat msdu_len);
          Some (if llc then da @ sa @ (if length d < SNAP_SIZE then d else drop SNAP_SIZE d)
                else da @ sa @ be16_bytes msdu_len @ d) }"

text \<open>A packet goes to the transmit path, to the array \<open>subframes\<close> after the inspection \<open>chk\<close>, or both.\<close>

definition emit_subframe :: "(buf \<Rightarrow> rx_note list option) \<Rightarrow> bool \<times> bool \<Rightarrow> buf \<Rightarrow> msdu_out \<Rightarrow> msdu_out option" where
  "emit_subframe chk act pkt out =
     (let out = (if snd act then out\<lparr>forwarded := forwarded out @ [pkt]\<rparr> else out) in
      if \<not> fst act then Some out
      else do {
        ns \<leftarrow> chk pkt;
        if length (subframes out) < MAX_SUBFRAME_COUNT
        then Some (out\<lparr>subframes := subframes out @ [pkt], noted := noted out @ ns\<rparr>) else None })"

definition amsdu_padding :: "nat \<Rightarrow> int" where
  "amsdu_padding n = (let p = 4 - (n + ETH_HLEN) mod 4 in if p = 4 then 0 else int p)"

lemma amsdu_padding_bounds: "0 \<le> amsdu_padding n" "amsdu_padding n < 4"
  by (auto simp: amsdu_padding_def Let_def)

lemma amsdu_padding_less: "- uint n - amsdu_padding (unat n) < 14" for n :: u16
  using amsdu_padding_bounds(1) [of "unat n"] unsigned_greater_eq [of n, where ?'a = int] by linarith

text \<open>The loop of \<open>amsdu_to_msdu\<close>; \<open>a_len\<close> is the \<open>int\<close> of the code.\<close>

function amsdu_loop ::
  "(buf \<Rightarrow> buf \<Rightarrow> bool) \<Rightarrow> (buf \<Rightarrow> buf \<Rightarrow> bool \<times> bool) \<Rightarrow> (buf \<Rightarrow> rx_note list option) \<Rightarrow> buf \<Rightarrow> nat \<Rightarrow> int \<Rightarrow> msdu_out \<Rightarrow> msdu_out option" where
  "amsdu_loop valid act chk m pdata a_len out =
     (if a_len > int ETH_HLEN then
        do { n \<leftarrow> RTW_GET_BE16 m (pdata + 12);
             if a_len < int ETH_HLEN + int (unat n) then Some out
             else do {
               da \<leftarrow> rds m pdata 6;
               sa \<leftarrow> rds m (pdata + 6) 6;
               if \<not> valid da sa then Some out
               else do {
                 llc \<leftarrow> rtw_recv_llc_parse m (pdata + ETH_HLEN) n;
                 out \<leftarrow> (if act da sa = (False, False) then Some out
                         else do { pkt \<leftarrow> rtw_os_alloc_msdu_pkt da sa m (pdata + ETH_HLEN) n llc;
                                   emit_subframe chk (act da sa) pkt out });
                 let pdata = pdata + ETH_HLEN;
                 let a_len = a_len - int ETH_HLEN;
                 if length (subframes out) \<ge> MAX_SUBFRAME_COUNT then Some out
                 else do {
                   let pdata = pdata + unat n;
                   let a_len = a_len - int (unat n);
                   if a_len \<noteq> 0 then
                     if a_len < amsdu_padding (unat n) then Some out
                     else amsdu_loop valid act chk m (pdata + nat (amsdu_padding (unat n))) (a_len - amsdu_padding (unat n)) out
                   else amsdu_loop valid act chk m pdata a_len out } } } }
      else Some out)"
  by pat_completeness auto
termination
  by (relation "measure (\<lambda>(valid, act, chk, m, pdata, a_len, out). nat a_len)") (auto simp: ETH_HLEN_def amsdu_padding_less)

declare amsdu_loop.simps [simp del]

definition msdu_out_empty :: msdu_out where "msdu_out_empty = \<lparr>subframes = [], forwarded = [], noted = []\<rparr>"

definition amsdu_to_msdu ::
  "rx_env \<Rightarrow> msdu_env \<Rightarrow> rx_state \<Rightarrow> 'a recv_pool_scheme \<Rightarrow> rx_frame \<Rightarrow> (bool \<times> msdu_out \<times> 'a recv_pool_scheme) option" where
  "amsdu_to_msdu env me s p f =
     (let f = snd (recvframe_pull f (unat (hdrlen f)));
          f = (if iv_len f > 0 then snd (recvframe_pull f (unat (iv_len f))) else f);
          f = (if encrypt f \<noteq> 0 then snd (recvframe_pull_tail f (unat (icv_len f))) else f) in
      do { out \<leftarrow> amsdu_loop (validate_amsdu_content me (securitypriv s) f) (msdu_act env me (stapriv s))
                    (indicate_notes env me f) (mem f) (rx_data f) (sint (rlen f)) msdu_out_empty;
           Some (True, out, rtw_free_recvframe (f\<lparr>rlen := 0\<rparr>) p) })"

text \<open>The packet of a frame is its bytes from \<open>rx_data\<close> to \<open>rx_tail\<close>.\<close>

definition recv_process_mpdu ::
  "rx_env \<Rightarrow> msdu_env \<Rightarrow> rx_state \<Rightarrow> 'a recv_pool_scheme \<Rightarrow> rx_frame \<Rightarrow> (bool \<times> msdu_out \<times> 'a recv_pool_scheme) option" where
  "recv_process_mpdu env me s p f =
     (if amsdu f \<noteq> 0 then amsdu_to_msdu env me s p f
      else
        let msdu = rx_data f + unat (hdrlen f) + unat (iv_len f);
            msdu_len = ucast (rlen f - ucast (hdrlen f) - ucast (iv_len f) - (if encrypt f \<noteq> 0 then ucast (icv_len f) else 0));
            out = msdu_out_empty in
        do { llc \<leftarrow> rtw_recv_llc_parse (mem f) msdu msdu_len;
             let act = (if check_fwstate env WIFI_AP_STATE then rtw_ap_rx_msdu_act_check env me (stapriv s) (dst f) (src f) else (True, False));
             if act = (False, False) then Some (False, out, rtw_free_recvframe f p)
             else do {
               (ok, f) \<leftarrow> wlanhdr_to_ethhdr f llc;
               if \<not> ok then Some (False, out, rtw_free_recvframe f p)
               else
                 let out = (if snd act then out\<lparr>forwarded := [rdata f]\<rparr> else out) in
                 if \<not> fst act then Some (True, out, rtw_free_recvframe f p)
                 else if cannot_run me then Some (True, out, rtw_free_recvframe f p)
                 else do {
                   ns \<leftarrow> indicate_notes env me f (rdata f);
                   Some (True, out\<lparr>subframes := [rdata f], noted := ns\<rparr>, rtw_free_recvframe f p) } } })"

subsection \<open>Ethernet form of an MSDU\<close>

text \<open>
  The specification: an LLC header with the RFC 1042 or the bridge-tunnel prefix is removed, so that its type field becomes the
  one of the Ethernet header; every other MSDU follows a length field.
\<close>

definition llc_removed :: "buf \<Rightarrow> bool" where
  "llc_removed pl \<longleftrightarrow> 8 \<le> length pl \<and>
     (take 6 pl = rtw_rfc1042_header \<and> be16 (pl ! 6) (pl ! 7) \<notin> {0x80F3, 0x8137} \<or> take 6 pl = rtw_bridge_tunnel_header)"

definition eth_of :: "buf \<Rightarrow> buf \<Rightarrow> buf \<Rightarrow> buf" where
  "eth_of da sa pl = da @ sa @ (if llc_removed pl then drop 6 pl else be16_bytes (of_nat (length pl)) @ pl)"

lemma get_be16: "i + 1 < length m \<Longrightarrow> RTW_GET_BE16 m i = Some (be16 (m ! i) (m ! (i + 1)))"
  by (simp add: RTW_GET_BE16_def rd_def)

lemma unat_ge_8: "(n < 8) = (unat n < 8)" for n :: u16
  by (simp add: word_less_nat_alt)

lemma llc_parse_eq:
  assumes "msdu + unat n \<le> length m"
  shows "rtw_recv_llc_parse m msdu n = Some (llc_removed (take (unat n) (drop msdu m)))"
proof (cases "n < 8")
  case True
  then show ?thesis by (auto simp: rtw_recv_llc_parse_def llc_removed_def unat_ge_8)
next
  case False
  then have n: "8 \<le> unat n" by (simp add: unat_ge_8)
  have "8 \<le> length m - msdu" using n assms by linarith
  then show ?thesis using assms n False get_be16 [of "msdu + SNAP_SIZE" m]
    by (simp add: rtw_recv_llc_parse_def llc_removed_def rtw_memcmp_def rds_def SNAP_SIZE_def rtw_rfc1042_header_def
        rtw_bridge_tunnel_header_def min_def ac_simps)
qed

lemma alloc_msdu_eq:
  assumes "msdu + unat n \<le> length m" "rtw_recv_llc_parse m msdu n = Some llc"
  shows "rtw_os_alloc_msdu_pkt da sa m msdu n llc = Some (eth_of da sa (take (unat n) (drop msdu m)))"
proof -
  have "llc = llc_removed (take (unat n) (drop msdu m))" using assms llc_parse_eq [OF assms(1)] by simp
  then show ?thesis using assms(1) by (auto simp: rtw_os_alloc_msdu_pkt_def rds_def eth_of_def SNAP_SIZE_def llc_removed_def)
qed

subsection \<open>The loop over the subframes\<close>

definition emit_opt :: "(buf \<Rightarrow> rx_note list option) \<Rightarrow> bool \<times> bool \<Rightarrow> buf \<Rightarrow> msdu_out \<Rightarrow> msdu_out option" where
  "emit_opt chk a pkt out = (if a = (False, False) then Some out else emit_subframe chk a pkt out)"

text \<open>One round, as long as the remaining bytes are in the buffer.\<close>

lemma amsdu_loop_step:
  assumes "14 < a_len" "pdata + nat a_len \<le> length m"
    and "n = unat (be16 (m ! (pdata + 12)) (m ! (pdata + 13)))" "da = take 6 (drop pdata m)" "sa = take 6 (drop (pdata + 6) m)"
  shows "amsdu_loop valid act chk m pdata a_len out =
    (if a_len < 14 + int n \<or> \<not> valid da sa then Some out
     else do {
       out \<leftarrow> emit_opt chk (act da sa) (eth_of da sa (take n (drop (pdata + 14) m))) out;
       if MAX_SUBFRAME_COUNT \<le> length (subframes out) \<or> a_len - 14 - int n \<noteq> 0 \<and> a_len - 14 - int n < amsdu_padding n then Some out
       else if a_len - 14 - int n = 0 then Some out
       else amsdu_loop valid act chk m (pdata + 14 + n + nat (amsdu_padding n)) (a_len - 14 - int n - amsdu_padding n) out })"
proof -
  have b: "RTW_GET_BE16 m (pdata + 12) = Some (be16 (m ! (pdata + 12)) (m ! (pdata + 13)))"
    using get_be16 [of "pdata + 12" m] assms(1,2) by (simp add: add.commute)
  have r: "rds m pdata 6 = Some da" "rds m (pdata + 6) 6 = Some sa" using assms(1,2,4,5) by (auto simp: rds_def)
  have z: "amsdu_loop valid act chk m q 0 o' = Some o'" for q o' by (simp add: amsdu_loop.simps ETH_HLEN_def)
  show ?thesis
  proof (cases "a_len < 14 + int n \<or> \<not> valid da sa")
    case True
    then show ?thesis by (subst amsdu_loop.simps) (use assms(1,3) in \<open>auto simp: b r ETH_HLEN_def\<close>)
  next
    case False
    then have l: "pdata + 14 + n \<le> length m" using assms(2) by linarith
    have p: "rtw_recv_llc_parse m (pdata + 14) (be16 (m ! (pdata + 12)) (m ! (pdata + 13))) = Some (llc_removed (take n (drop (pdata + 14) m)))"
      using llc_parse_eq [of "pdata + 14"] l assms(3) by simp
    have a: "rtw_os_alloc_msdu_pkt da sa m (pdata + 14) (be16 (m ! (pdata + 12)) (m ! (pdata + 13))) (llc_removed (take n (drop (pdata + 14) m)))
      = Some (eth_of da sa (take n (drop (pdata + 14) m)))"
      using alloc_msdu_eq [OF _ p] l assms(3) by simp
    have e: "(if act da sa = (False, False) then Some out else do { pkt \<leftarrow> rtw_os_alloc_msdu_pkt da sa m (pdata + 14) (be16 (m ! (pdata + 12)) (m ! (pdata + 13)))
        (llc_removed (take n (drop (pdata + 14) m))); emit_subframe chk (act da sa) pkt out }) = emit_opt chk (act da sa) (eth_of da sa (take n (drop (pdata + 14) m))) out"
      by (simp add: emit_opt_def a)
    have u: "int (unat (be16 (m ! (pdata + 12)) (m ! (pdata + 13)))) = int n" using assms(3) by simp
    show ?thesis
      unfolding amsdu_loop.simps [of valid act chk m pdata a_len out] b r Option.bind.bind_lunit ETH_HLEN_def p Let_def e u assms(3) [symmetric]
      using assms(1) False by (cases "emit_opt chk (act da sa) (eth_of da sa (take n (drop (pdata + 14) m))) out")
        (auto simp: z p e [simplified] add.assoc)
  qed
qed

lemma emit_opt_Some:
  assumes "chk pkt = Some ns" "length (subframes out) < 64"
  shows "\<exists>o'. emit_opt chk a pkt out = Some o' \<and> length (subframes o') \<le> 64
     \<and> subframes o' = subframes out @ (if fst a then [pkt] else []) \<and> forwarded o' = forwarded out @ (if snd a then [pkt] else [])
     \<and> noted o' = noted out @ (if fst a then ns else [])"
  using assms by (cases a) (auto simp: emit_opt_def emit_subframe_def MAX_SUBFRAME_COUNT_def)

text \<open>Every packet that is indicated has an Ethernet header, and each is inspected once.\<close>

lemma eth_of_length: "length da = 6 \<Longrightarrow> length sa = 6 \<Longrightarrow> 14 \<le> length (eth_of da sa pl)"
  by (auto simp: eth_of_def llc_removed_def)

lemma amsdu_loop_total:
  assumes "\<And>pkt. chk pkt = Some (nt pkt)"
  shows "pdata + nat a_len \<le> length m \<Longrightarrow> length (subframes out) < 64 \<Longrightarrow> noted out = concat (map nt (subframes out)) \<Longrightarrow>
    \<forall>pkt \<in> set (subframes out). 14 \<le> length pkt \<Longrightarrow>
    \<exists>o'. amsdu_loop valid act chk m pdata a_len out = Some o' \<and> length (subframes o') \<le> 64 \<and> noted o' = concat (map nt (subframes o'))
      \<and> (\<forall>pkt \<in> set (subframes o'). 14 \<le> length pkt)"
proof (induction "nat a_len" arbitrary: pdata a_len out rule: less_induct)
  case less
  show ?case
  proof (cases "14 < a_len")
    case False
    then show ?thesis using less.prems(2-4) by (auto simp: amsdu_loop.simps ETH_HLEN_def)
  next
    case True
    define n where "n = unat (be16 (m ! (pdata + 12)) (m ! (pdata + 13)))"
    let ?da = "take 6 (drop pdata m)" and ?sa = "take 6 (drop (pdata + 6) m)" and ?a = "a_len - 14 - int n - amsdu_padding n"
    let ?pkt = "eth_of ?da ?sa (take n (drop (pdata + 14) m))"
    have "14 \<le> length ?pkt" using True less.prems(1) by (intro eth_of_length) auto
    then obtain o' where o': "emit_opt chk (act ?da ?sa) ?pkt out = Some o'" "length (subframes o') \<le> 64" "noted o' = concat (map nt (subframes o'))"
      "\<forall>pkt \<in> set (subframes o'). 14 \<le> length pkt"
      using emit_opt_Some [where chk = chk and pkt = ?pkt, OF assms less.prems(2), of "act ?da ?sa"] less.prems(3,4) by (auto split: if_splits)
    have IH: "\<exists>o''. amsdu_loop valid act chk m (pdata + 14 + n + nat (amsdu_padding n)) ?a o' = Some o'' \<and> length (subframes o'') \<le> 64
        \<and> noted o'' = concat (map nt (subframes o'')) \<and> (\<forall>pkt \<in> set (subframes o''). 14 \<le> length pkt)"
      if "length (subframes o') < 64" "amsdu_padding n \<le> a_len - 14 - int n"
      using that less.prems(1) True amsdu_padding_bounds(1) [of n] o'(3,4) by (intro less.hyps) (simp_all add: nat_le_iff of_nat_diff)
    show ?thesis unfolding amsdu_loop_step [OF True less.prems(1) n_def refl refl] o'(1) Option.bind.bind_lunit
      using IH o'(2-4) less.prems(2-4) by (auto simp: MAX_SUBFRAME_COUNT_def)
  qed
qed

text \<open>An A-MSDU by the standard: subframe headers, payloads, padding to a multiple of four bytes except at the end.\<close>

type_synonym msdu = "buf \<times> buf \<times> buf"

definition subframe_bytes :: "msdu \<Rightarrow> buf" where
  "subframe_bytes x = (case x of (da, sa, pl) \<Rightarrow> da @ sa @ be16_bytes (of_nat (length pl)) @ pl)"

text \<open>Zero bytes up to the next multiple of four.\<close>

definition pad4 :: "buf \<Rightarrow> buf" where
  "pad4 b = b @ replicate (nat ((- int (length b)) mod 4)) 0"

lemma pad4_length: "4 dvd length (pad4 b)" "length b \<le> length (pad4 b)" "length (pad4 b) < length b + 4"
proof -
  have "int (length (pad4 b)) = int (length b) + (- int (length b)) mod 4" by (simp add: pad4_def)
  moreover have "4 dvd int (length b) + (- int (length b)) mod 4" "(- int (length b)) mod 4 < 4" "0 \<le> (- int (length b)) mod 4" by presburger+
  ultimately show "4 dvd length (pad4 b)" "length b \<le> length (pad4 b)" "length (pad4 b) < length b + 4" by presburger+
qed

fun amsdu_bytes :: "msdu list \<Rightarrow> buf" where
  "amsdu_bytes [] = []"
| "amsdu_bytes [x] = subframe_bytes x"
| "amsdu_bytes (x # xs) = pad4 (subframe_bytes x) @ amsdu_bytes xs"

definition msdu_ok :: "msdu \<Rightarrow> bool" where
  "msdu_ok x \<longleftrightarrow> (case x of (da, sa, pl) \<Rightarrow> length da = 6 \<and> length sa = 6 \<and> 0 < length pl \<and> length pl < 2 ^ 16)"

definition eth_msdu :: "msdu \<Rightarrow> buf" where
  "eth_msdu x = (case x of (da, sa, pl) \<Rightarrow> eth_of da sa pl)"

definition msdu_addrs :: "(buf \<Rightarrow> buf \<Rightarrow> 'a) \<Rightarrow> msdu \<Rightarrow> 'a" where
  "msdu_addrs P x = (case x of (da, sa, pl) \<Rightarrow> P da sa)"

definition deliver :: "(buf \<Rightarrow> rx_note list) \<Rightarrow> (buf \<Rightarrow> buf \<Rightarrow> bool \<times> bool) \<Rightarrow> msdu list \<Rightarrow> msdu_out \<Rightarrow> msdu_out" where
  "deliver nt act xs out = \<lparr>subframes = subframes out @ map eth_msdu (filter (fst \<circ> msdu_addrs act) xs),
     forwarded = forwarded out @ map eth_msdu (filter (snd \<circ> msdu_addrs act) xs),
     noted = noted out @ concat (map (nt \<circ> eth_msdu) (filter (fst \<circ> msdu_addrs act) xs))\<rparr>"

text \<open>The code's padding is that of the specification.\<close>

lemma amsdu_padding_eq: "amsdu_padding n = (- int (14 + n)) mod 4"
  unfolding amsdu_padding_def Let_def ETH_HLEN_def by presburger

lemma amsdu_bytes_Cons:
  assumes "msdu_ok x"
  shows "amsdu_bytes (x # xs) = subframe_bytes x @ (if xs = [] then [] else replicate (nat (amsdu_padding (length (snd (snd x))))) 0 @ amsdu_bytes xs)"
proof -
  have "length (subframe_bytes x) = 14 + length (snd (snd x))" using assms by (auto simp: subframe_bytes_def msdu_ok_def split: prod.splits)
  then show ?thesis by (cases xs) (simp_all add: pad4_def amsdu_padding_eq)
qed

lemma amsdu_bytes_nonempty: "xs \<noteq> [] \<Longrightarrow> \<forall>x \<in> set xs. msdu_ok x \<Longrightarrow> 14 < length (amsdu_bytes xs)"
  by (cases xs) (auto simp: amsdu_bytes_Cons subframe_bytes_def msdu_ok_def)

lemma amsdu_loop_bytes:
  assumes chk: "\<And>pkt. chk pkt = Some (nt pkt)" and "\<forall>x \<in> set xs. msdu_ok x" "length (subframes out) + length xs \<le> 64"
  shows "amsdu_loop valid act chk (pre @ amsdu_bytes xs @ post) (length pre) (int (length (amsdu_bytes xs))) out
    = Some (deliver nt act (takeWhile (msdu_addrs valid) xs) out)"
  using assms(2,3)
proof (induction xs arbitrary: pre out)
  case Nil
  show ?case by (simp add: amsdu_loop.simps ETH_HLEN_def deliver_def)
next
  case (Cons x xs)
  obtain da sa pl where x: "x = (da, sa, pl)" by (cases x)
  have ok: "length da = 6" "length sa = 6" "0 < length pl" "length pl < 2 ^ 16" using Cons.prems(1) by (auto simp: x msdu_ok_def)
  let ?m = "pre @ amsdu_bytes (x # xs) @ post" and ?a = "int (length (amsdu_bytes (x # xs)))" and ?pad = "amsdu_padding (length pl)"
  let ?bs = "be16_bytes (of_nat (length pl)) :: buf"
  define rest where "rest = (if xs = [] then [] else replicate (nat ?pad) 0 @ amsdu_bytes xs)"
  have okx: "msdu_ok (da, sa, pl)" using Cons.prems(1) by (simp add: x)
  have m: "?m = pre @ da @ sa @ ?bs @ pl @ rest @ post" by (simp add: amsdu_bytes_Cons [OF okx] x subframe_bytes_def rest_def)
  have a: "?a = 14 + int (length pl) + int (length rest)" using ok by (simp add: amsdu_bytes_Cons [OF okx] x subframe_bytes_def rest_def)
  have bm: "14 < ?a" using ok a by linarith
  have bm2: "length pre + nat ?a \<le> length ?m" by simp
  have n: "length pl = unat (be16 (?m ! (length pre + 12)) (?m ! (length pre + 13)))"
    unfolding m using ok by (simp add: nth_append be16_bytes_def be16_split unat_of_nat take_bit_nat_eq_self)
  have d: "da = take 6 (drop (length pre) ?m)" "sa = take 6 (drop (length pre + 6) ?m)" "take (length pl) (drop (length pre + 14) ?m) = pl"
    unfolding m using ok by (simp_all add: be16_bytes_def)
  note st = amsdu_loop_step [OF bm bm2 n d(1,2), where valid = valid and act = act and chk = chk and out = out, folded d(1,2), unfolded d(3)]
  show ?case
  proof (cases "valid da sa")
    case False
    then show ?thesis unfolding st by (simp add: x msdu_addrs_def deliver_def)
  next
    case True
    obtain o' where o': "emit_opt chk (act da sa) (eth_of da sa pl) out = Some o'"
      "subframes o' = subframes out @ (if fst (act da sa) then [eth_of da sa pl] else [])"
      "forwarded o' = forwarded out @ (if snd (act da sa) then [eth_of da sa pl] else [])"
      "noted o' = noted out @ (if fst (act da sa) then nt (eth_of da sa pl) else [])"
      using emit_opt_Some [where chk = chk and pkt = "eth_of da sa pl", OF chk, of out "act da sa"] Cons.prems(2) by auto
    have dl: "deliver nt act (takeWhile (msdu_addrs valid) (x # xs)) out = deliver nt act (takeWhile (msdu_addrs valid) xs) o'"
      using o'(2-4) True by (simp add: deliver_def x msdu_addrs_def eth_msdu_def)
    show ?thesis
    proof (cases "xs = []")
      case True
      then show ?thesis unfolding st dl o'(1) Option.bind.bind_lunit using a \<open>valid da sa\<close> by (auto simp: deliver_def rest_def)
    next
      case False
      have l: "length (subframes o') + length xs \<le> 64" "length (subframes o') < 64" using o'(2) Cons.prems(2) False by (auto split: if_splits) (cases xs, auto)+
      have pad: "int (length rest) = ?pad + int (length (amsdu_bytes xs))" "length (amsdu_bytes xs) > 0"
        using False amsdu_padding_bounds(1) [of "length pl"] amsdu_bytes_nonempty [OF False] Cons.prems(1) by (auto simp: rest_def)
      have mm: "?m = (pre @ da @ sa @ ?bs @ pl @ replicate (nat ?pad) 0) @ amsdu_bytes xs @ post" using False by (simp add: m rest_def)
      have lp: "length (pre @ da @ sa @ ?bs @ pl @ replicate (nat ?pad) 0) = length pre + 14 + length pl + nat ?pad" using ok by simp
      have "amsdu_loop valid act chk ?m (length pre + 14 + length pl + nat ?pad) (int (length (amsdu_bytes xs))) o'
          = Some (deliver nt act (takeWhile (msdu_addrs valid) xs) o')"
        unfolding mm lp [symmetric] using Cons.prems(1) l(1) by (intro Cons.IH) simp_all
      moreover have r: "?a - 14 - int (length pl) - ?pad = int (length (amsdu_bytes xs))" using a pad(1) by simp
      moreover have c: "\<not> (?a < 14 + int (length pl) \<or> \<not> valid da sa)" using a \<open>valid da sa\<close> by simp
      moreover have c2: "?a - 14 - int (length pl) \<noteq> 0" "\<not> ?a - 14 - int (length pl) < ?pad"
        using r pad(2) amsdu_padding_bounds(1) [of "length pl"] by linarith+
      moreover have c3: "\<not> MAX_SUBFRAME_COUNT \<le> length (subframes o')" using l(2) by (simp add: MAX_SUBFRAME_COUNT_def)
      ultimately show ?thesis unfolding st dl if_not_P [OF c] o'(1) Option.bind.bind_lunit by (simp only: simp_thms if_False)
    qed
  qed
qed

subsection \<open>Whole frames\<close>

definition strip_frame :: "rx_frame \<Rightarrow> rx_frame" where
  "strip_frame f = (let f = snd (recvframe_pull f (unat (hdrlen f)));
     f = (if iv_len f > 0 then snd (recvframe_pull f (unat (iv_len f))) else f) in
     if encrypt f \<noteq> 0 then snd (recvframe_pull_tail f (unat (icv_len f))) else f)"

lemma pull_fields:
  "mem (snd (recvframe_pull f n)) = mem f" "iv_len (snd (recvframe_pull f n)) = iv_len f" "icv_len (snd (recvframe_pull f n)) = icv_len f"
  "encrypt (snd (recvframe_pull f n)) = encrypt f" "frame_sta (snd (recvframe_pull f n)) = frame_sta f" "to_fr_ds (snd (recvframe_pull f n)) = to_fr_ds f" "ra (snd (recvframe_pull f n)) = ra f"
  "ta (snd (recvframe_pull f n)) = ta f" "frame_id (snd (recvframe_pull f n)) = frame_id f"
  by (simp_all add: recvframe_pull_def)

lemma pull_tail_fields:
  "mem (snd (recvframe_pull_tail f n)) = mem f" "to_fr_ds (snd (recvframe_pull_tail f n)) = to_fr_ds f" "ra (snd (recvframe_pull_tail f n)) = ra f"
  "ta (snd (recvframe_pull_tail f n)) = ta f" "frame_id (snd (recvframe_pull_tail f n)) = frame_id f"
  "encrypt (snd (recvframe_pull_tail f n)) = encrypt f" "frame_sta (snd (recvframe_pull_tail f n)) = frame_sta f"
  by (simp_all add: recvframe_pull_tail_def)

lemma strip_fields:
  "mem (strip_frame f) = mem f" "to_fr_ds (strip_frame f) = to_fr_ds f" "ra (strip_frame f) = ra f" "ta (strip_frame f) = ta f"
  "frame_id (strip_frame f) = frame_id f" "encrypt (strip_frame f) = encrypt f" "frame_sta (strip_frame f) = frame_sta f"
  by (simp_all add: strip_frame_def Let_def pull_fields pull_tail_fields)

lemma pull_tail_frame_ok: "frame_ok f \<Longrightarrow> frame_ok (snd (recvframe_pull_tail f n))"
  using recvframe_pull_tail_ok(2) [of f n] frame_ok_length [of f]
  by (cases "rx_tail f < rx_data f + n") (auto simp: recvframe_pull_tail_def)

lemma strip_ok: "frame_ok f \<Longrightarrow> frame_ok (strip_frame f)"
  by (simp add: strip_frame_def Let_def recvframe_pull_ok(2) pull_tail_frame_ok)

lemma amsdu_to_msdu_eq:
  "amsdu_to_msdu env me s p f =
     do { out \<leftarrow> amsdu_loop (validate_amsdu_content me (securitypriv s) f) (msdu_act env me (stapriv s)) (indicate_notes env me f)
                    (mem f) (rx_data (strip_frame f)) (sint (rlen (strip_frame f))) msdu_out_empty;
          Some (True, out, rtw_free_recvframe ((strip_frame f)\<lparr>rlen := 0\<rparr>) p) }"
proof -
  have "validate_amsdu_content me (securitypriv s) (strip_frame f) = validate_amsdu_content me (securitypriv s) f"
    by (intro ext) (simp add: validate_amsdu_content_def strip_fields)
  moreover have "indicate_notes env me (strip_frame f) = indicate_notes env me f"
    by (rule indicate_notes_cong) (simp_all add: strip_fields)
  ultimately show ?thesis using strip_fields(1) [of f] unfolding amsdu_to_msdu_def Let_def strip_frame_def by simp
qed

lemma frame_ok_sint: assumes "frame_ok f" shows "sint (rlen f) = int (length (rdata f))"
proof -
  have "length (rdata f) < 2 ^ 31" using assms frame_ok_length [OF assms] by (auto simp: frame_ok_def)
  then have u: "uint (rlen f) = int (length (rdata f))" "uint (rlen f) < 2 ^ 31" using frame_ok_rlen [OF assms] uint_nat [of "rlen f"] by simp_all
  then show ?thesis using signed_take_bit_int_eq_self [of 31 "uint (rlen f)"] by (simp add: sint_uint)
qed

text \<open>Three MSDUs, the last one with a source address that is not the transmitter's, and a frame that carries them.\<close>

definition example_msdus :: "msdu list" where
  "example_msdus = [([2, 0, 0, 0, 0, 5], [2, 0, 0, 0, 0, 1], [1, 2, 3]),
     ([2, 0, 0, 0, 0, 6], [2, 0, 0, 0, 0, 1], rtw_rfc1042_header @ [8, 0, 7]), ([2, 0, 0, 0, 0, 5], [2, 0, 0, 0, 0, 8], [4])]"

definition example_amsdu :: rx_frame where
  "example_amsdu = (example_frag 0 4)\<lparr>amsdu := 1, ta := [2, 0, 0, 0, 0, 1], mem := replicate 32 1 @ amsdu_bytes example_msdus @ replicate 8 9,
     rlen := 99, rx_tail := 99\<rparr>"

definition example_msdu_env :: msdu_env where
  "example_msdu_env = \<lparr>wpapsk = False, sta_st_reg = (\<lambda>_. \<lparr>s_proto = 0, st_rule = None\<rparr>), sink_udpport = 0, behind = (\<lambda>_ _. 0),
     amsdu_mode = 0, ap_isolate = False, asoc_list_cnt = 0, cannot_run = False, fwd_taken = (\<lambda>_ _. False)\<rparr>"

lemma example_amsdu_ok: "frame_ok example_amsdu"
proof -
  have "length (mem example_amsdu) = 99" "rx_data example_amsdu = 0" "rx_tail example_amsdu = 99" "rlen example_amsdu = 99" by code_simp+
  then show ?thesis by (simp add: frame_ok_def)
qed


text \<open>A frame with one subframe, an EAPOL packet of type 3 (a key frame) of which only four bytes are there.\<close>

definition example_eapol :: rx_frame where
  "example_eapol = example_amsdu\<lparr>mem := replicate 32 1 @ amsdu_bytes [([2, 0, 0, 0, 0, 5], [2, 0, 0, 0, 0, 1], rtw_rfc1042_header @ [0x88, 0x8e, 1, 3, 0, 0])]
     @ replicate 8 9, rlen := 66, rx_tail := 66\<rparr>"

lemma example_eapol_ok: "frame_ok example_eapol"
proof -
  have "length (mem example_eapol) = 66" "rx_data example_eapol = 0" "rx_tail example_eapol = 66" "rlen example_eapol = 66" by code_simp+
  then show ?thesis by (simp add: frame_ok_def)
qed


lemma strip_rdata:
  assumes "frame_ok f" "length (rdata f) = unat (hdrlen f) + unat (iv_len f) + length b + (if encrypt f \<noteq> 0 then unat (icv_len f) else 0)"
    and "take (length b) (drop (unat (hdrlen f) + unat (iv_len f)) (rdata f)) = b"
  shows "rdata (strip_frame f) = b"
proof -
  let ?h = "unat (hdrlen f)" and ?i = "unat (iv_len f)"
  let ?g1 = "snd (recvframe_pull f ?h)"
  let ?g2 = "if iv_len f > 0 then snd (recvframe_pull ?g1 ?i) else ?g1"
  have 1: "frame_ok ?g1" "rdata ?g1 = drop ?h (rdata f)" using recvframe_pull_ok(2,3) [OF assms(1), of ?h] assms(2) by simp_all
  have i0: "\<not> iv_len f > 0 \<Longrightarrow> ?i = 0" by (simp add: word_gt_0)
  have 2: "frame_ok ?g2" "rdata ?g2 = drop (?h + ?i) (rdata f)"
    using recvframe_pull_ok(2,3) [OF 1(1), of ?i] assms(2) 1 i0 by (auto simp: add.commute)
  have s: "strip_frame f = (if encrypt f \<noteq> 0 then snd (recvframe_pull_tail ?g2 (unat (icv_len f))) else ?g2)"
    by (simp add: strip_frame_def Let_def pull_fields)
  show ?thesis
  proof (cases "encrypt f = 0")
    case True
    then show ?thesis using 2(2) assms(2,3) by (simp add: s)
  next
    case False
    have l: "length (rdata ?g2) = length b + unat (icv_len f)" unfolding 2(2) using assms(2) False by simp
    have "rdata (strip_frame f) = take (length (rdata ?g2) - unat (icv_len f)) (rdata ?g2)"
      using recvframe_pull_tail_ok(3) [OF 2(1), of "unat (icv_len f)"] l False by (simp only: s if_True simp_thms)
    also have "\<dots> = b" unfolding l unfolding 2(2) using assms(3) by simp
    finally show ?thesis .
  qed
qed



subsection \<open>Plain frames\<close>

text \<open>The MSDU of a frame, and the window that \<open>wlanhdr_to_ethhdr\<close> leaves.\<close>

definition frame_msdu :: "rx_frame \<Rightarrow> buf" where
  "frame_msdu f = take (length (rdata f) - (unat (hdrlen f) + unat (iv_len f)) - (if encrypt f \<noteq> 0 then unat (icv_len f) else 0))
     (drop (unat (hdrlen f) + unat (iv_len f)) (rdata f))"

lemma wrs_wrs:
  assumes "wrs m a x = Some m1" "a + length x + length y \<le> length m"
  shows "wrs m1 (a + length x) y = wrs m a (x @ y)"
proof -
  have a: "length (take a m) = a" using assms(2) by simp
  have "m1 = take a m @ x @ drop (a + length x) m" using assms by (simp add: wrs_def split: if_splits)
  then show ?thesis using assms(2) a unfolding wrs_def by (simp add: ac_simps)
qed

lemma rdata_write:
  assumes "frame_ok g" "length d \<le> length (rdata g)"
  shows "\<exists>m. wrs (mem g) (rx_data g) d = Some m \<and> length m = length (mem g) \<and> rdata (g\<lparr>mem := m\<rparr>) = d @ drop (length d) (rdata g)"
proof -
  have b: "rx_data g + length d \<le> rx_tail g" "rx_tail g \<le> length (mem g)" using assms frame_ok_length [OF assms(1)] by (auto simp: frame_ok_def)
  then show ?thesis by (auto simp: wrs_def rdata_def drop_take min_def add.commute)
qed

lemma wlanhdr_to_ethhdr_spec:
  assumes "frame_ok f" "14 \<le> unat (hdrlen f)" "length (dst f) = 6" "length (src f) = 6"
    and "unat (hdrlen f) + unat (iv_len f) + (if encrypt f \<noteq> 0 then unat (icv_len f) else 0) \<le> length (rdata f)"
    and "length (frame_msdu f) < 2 ^ 16" "llc = llc_removed (frame_msdu f)"
  shows "\<exists>g. wlanhdr_to_ethhdr f llc = Some (True, g) \<and> rdata g = eth_of (dst f) (src f) (frame_msdu f) \<and> frame_id g = frame_id f
    \<and> encrypt g = encrypt f \<and> frame_sta g = frame_sta f"
proof -
  define f1 where "f1 = (if encrypt f \<noteq> 0 then snd (recvframe_pull_tail f (unat (icv_len f))) else f)"
  let ?h = "unat (hdrlen f) + unat (iv_len f)"
  have f1: "frame_ok f1" "rdata f1 = take (length (rdata f) - (if encrypt f \<noteq> 0 then unat (icv_len f) else 0)) (rdata f)"
    "mem f1 = mem f" "hdrlen f1 = hdrlen f" "iv_len f1 = iv_len f" "dst f1 = dst f" "src f1 = src f" "frame_id f1 = frame_id f"
    "encrypt f1 = encrypt f" "frame_sta f1 = frame_sta f"
    using assms(1,5) recvframe_pull_tail_ok(2,3) [OF assms(1), of "unat (icv_len f)"] by (auto simp: f1_def recvframe_pull_tail_def)
  have m: "drop ?h (rdata f1) = frame_msdu f" "length (rdata f1) = ?h + length (frame_msdu f)"
    using assms(5) by (auto simp: f1(2) frame_msdu_def drop_take ac_simps)
  define k where "k = ?h + (if llc then SNAP_SIZE else 0) + (if llc then 2 else 0) - ETH_HLEN"
  have L: "llc \<Longrightarrow> 8 \<le> length (frame_msdu f)" using assms(7) by (simp add: llc_removed_def)
  have k: "k + 14 = ?h + (if llc then 8 else 0)" "k + 14 \<le> length (rdata f1) + (if llc then 0 else 14)" "k \<le> length (rdata f1)"
    using assms(2) L by (auto simp: k_def SNAP_SIZE_def ETH_HLEN_def m(2))
  define g where "g = f1\<lparr>rx_data := rx_data f1 + k, rlen := rlen f1 - of_nat k\<rparr>"
  have p: "recvframe_pull f1 k = (True, g)" using recvframe_pull_ok(1) [OF f1(1), of k] k(3) by (simp add: g_def)
  have g: "frame_ok g" "rdata g = drop k (rdata f1)" using recvframe_pull_ok(2,3) [OF f1(1), of k] k(3) by (simp_all add: p)
  define hdr where "hdr = dst f @ src f @ (if llc then [] else be16_bytes (of_nat (length (frame_msdu f))))"
  have lh: "length hdr = (if llc then 12 else 14)" using assms(3,4) by (simp add: hdr_def)
  have lg: "length hdr \<le> length (rdata g)" using k lh L by (auto simp: g(2) m(2))
  obtain m' where m': "wrs (mem g) (rx_data g) hdr = Some m'" "rdata (g\<lparr>mem := m'\<rparr>) = hdr @ drop (length hdr) (rdata g)"
    using rdata_write [OF g(1) lg] by blast
  have "drop (length hdr) (rdata g) = drop (if llc then 6 else 0) (frame_msdu f)"
    unfolding g(2) m(1) [symmetric] drop_drop using k(1) lh by (intro arg_cong [of _ _ "\<lambda>n. drop n (rdata f1)"]) (auto split: if_splits)
  then have "rdata (g\<lparr>mem := m'\<rparr>) = eth_of (dst f) (src f) (frame_msdu f)" using m'(2) assms(7) by (simp add: hdr_def eth_of_def)
  moreover have "wlanhdr_to_ethhdr f llc = Some (True, g\<lparr>mem := m'\<rparr>)"
  proof -
    let ?len = "\<lambda>n. be16_bytes (ucast (rlen f1 - of_nat n)) :: buf"
    have W: "wlanhdr_to_ethhdr f llc = do { m \<leftarrow> wrs (mem g) (rx_data g) (dst f); m \<leftarrow> wrs m (rx_data g + 6) (src f);
        m \<leftarrow> (if llc then Some m else wrs m (rx_data g + 12) (?len (?h + (if llc then SNAP_SIZE else 0))));
        Some (True, g\<lparr>mem := m\<rparr>) }"
      using assms(2-4) f1 p by (simp add: wlanhdr_to_ethhdr_def Let_def f1_def [symmetric] k_def [symmetric] ETH_HLEN_def [symmetric] g_def)
    have "of_nat (length (rdata f1)) = rlen f1" using f1(1) frame_ok_length [OF f1(1)] by (simp add: frame_ok_def)
    then have "rlen f1 - of_nat ?h = of_nat (length (frame_msdu f))" unfolding m(2) of_nat_add by (metis add_diff_cancel_left')
    then have len: "?len ?h = be16_bytes (of_nat (length (frame_msdu f)))" using assms(6) by (simp add: unsigned_of_nat take_bit_nat_eq_self)
    have X: "(do { m \<leftarrow> wrs (mem g) (rx_data g) (dst f); m \<leftarrow> wrs m (rx_data g + 6) (src f);
        if llc then Some m else wrs m (rx_data g + 12) (be16_bytes (of_nat (length (frame_msdu f)))) }) = Some m'"
    proof -
      have le: "rx_data g + length hdr \<le> length (mem g)" using g(1) frame_ok_length [OF g(1)] lg by (auto simp: frame_ok_def)
      obtain m1 where w1: "wrs (mem g) (rx_data g) (dst f) = Some m1" using le lh assms(3) by (auto simp: wrs_def split: if_splits)
      have w2: "wrs m1 (rx_data g + 6) (src f) = wrs (mem g) (rx_data g) (dst f @ src f)"
        using wrs_wrs [OF w1, of "src f"] le lh assms(3,4) by (simp split: if_splits)
      obtain m2 where w3: "wrs (mem g) (rx_data g) (dst f @ src f) = Some m2" using le lh assms(3,4) by (auto simp: wrs_def split: if_splits)
      have w4: "wrs m2 (rx_data g + 12) (be16_bytes v) = wrs (mem g) (rx_data g) (dst f @ src f @ be16_bytes v)" if "\<not> llc" for v
        using wrs_wrs [OF w3, of "be16_bytes v"] le lh assms(3,4) that by simp
      show ?thesis using m'(1) by (cases llc) (simp_all add: w1 w2 w3 w4 hdr_def)
    qed
    have e: "(if llc then Some m else wrs m (rx_data g + 12) (?len (?h + (if llc then SNAP_SIZE else 0))))
       = (if llc then Some m else wrs m (rx_data g + 12) (be16_bytes (of_nat (length (frame_msdu f)))))" for m
      unfolding len [symmetric] by (cases llc) (simp_all only: if_True if_False simp_thms add_0_right)
    show ?thesis using arg_cong [OF X, of "\<lambda>r. r \<bind> (\<lambda>m. Some (True, g\<lparr>mem := m\<rparr>))"]
      unfolding W e Option.bind.bind_lunit Option.bind_assoc .
  qed
  ultimately show ?thesis by (auto simp: g_def f1(8-10))
qed



end
