(* ===== verification/Rf_Chan.thy ===== *)
theory Rf_Chan
  imports C_Base
begin

text \<open>
  Channels, bandwidths and operating classes (\<^verbatim>\<open>core/rtw_rf.c\<close>, \<^verbatim>\<open>include/rtw_rf.h\<close>): the tables of centre
  channels and of the operating channels below them, the arithmetic between channel, bandwidth, offset of the
  primary channel, centre channel and frequency, and the global operating classes of IEEE 802.11. A pointer argument that
  returns a value is a component of the result; \<open>None\<close> is a failed lookup. Channels, bandwidths, offsets and class ids are
  the numbers 0 to 255; sums that are stored in a \<open>u8\<close> are reduced modulo 256.
\<close>

subsection \<open>Tables\<close>

definition CHANNEL_WIDTH_20 :: int where "CHANNEL_WIDTH_20 = 0"
definition CHANNEL_WIDTH_40 :: int where "CHANNEL_WIDTH_40 = 1"
definition CHANNEL_WIDTH_80 :: int where "CHANNEL_WIDTH_80 = 2"
definition CHANNEL_WIDTH_160 :: int where "CHANNEL_WIDTH_160 = 3"
definition CHANNEL_WIDTH_80_80 :: int where "CHANNEL_WIDTH_80_80 = 4"
definition HAL_PRIME_CHNL_OFFSET_DONT_CARE :: int where "HAL_PRIME_CHNL_OFFSET_DONT_CARE = 0"
definition HAL_PRIME_CHNL_OFFSET_LOWER :: int where "HAL_PRIME_CHNL_OFFSET_LOWER = 1"
definition HAL_PRIME_CHNL_OFFSET_UPPER :: int where "HAL_PRIME_CHNL_OFFSET_UPPER = 2"

datatype band_type = BAND_ON_2_4G | BAND_ON_5G | BAND_MAX

datatype opc_bw = OPC_BW20 | OPC_BW40PLUS | OPC_BW40MINUS | OPC_BW80 | OPC_BW160 | OPC_BW80P80

definition center_ch_2g :: "int list" where
  "center_ch_2g = [1, 2, 3, 4, 5, 6, 7, 8, 9, 10, 11, 12, 13, 14]"

definition center_ch_2g_40m :: "int list" where
  "center_ch_2g_40m = [3, 4, 5, 6, 7, 8, 9, 10, 11]"

definition op_chs_of_cch_2g_40m :: "int list list" where
  "op_chs_of_cch_2g_40m = [[1, 5], [2, 6], [3, 7], [4, 8], [5, 9], [6, 10], [7, 11], [8, 12], [9, 13]]"

definition center_ch_5g_20m :: "int list" where
  "center_ch_5g_20m = [36, 40, 44, 48, 52, 56, 60, 64, 100, 104, 108, 112, 116, 120, 124, 128, 132, 136, 140, 144,
     149, 153, 157, 161, 165, 169, 173, 177]"

definition center_ch_5g_40m :: "int list" where
  "center_ch_5g_40m = [38, 46, 54, 62, 102, 110, 118, 126, 134, 142, 151, 159, 167, 175]"

definition op_chs_of_cch_5g_40m :: "int list list" where
  "op_chs_of_cch_5g_40m = [[36, 40], [44, 48], [52, 56], [60, 64], [100, 104], [108, 112], [116, 120], [124, 128], [132, 136],
     [140, 144], [149, 153], [157, 161], [165, 169], [173, 177]]"

definition center_ch_5g_80m :: "int list" where
  "center_ch_5g_80m = [42, 58, 106, 122, 138, 155, 171]"

definition op_chs_of_cch_5g_80m :: "int list list" where
  "op_chs_of_cch_5g_80m = [[36, 40, 44, 48], [52, 56, 60, 64], [100, 104, 108, 112], [116, 120, 124, 128], [132, 136, 140, 144],
     [149, 153, 157, 161], [165, 169, 173, 177]]"

definition center_ch_5g_160m :: "int list" where
  "center_ch_5g_160m = [50, 114, 163]"

definition op_chs_of_cch_5g_160m :: "int list list" where
  "op_chs_of_cch_5g_160m = [[36, 40, 44, 48, 52, 56, 60, 64], [100, 104, 108, 112, 116, 120, 124, 128],
     [149, 153, 157, 161, 165, 169, 173, 177]]"

definition center_chs_2g_by_bw :: "int list list" where
  "center_chs_2g_by_bw = [center_ch_2g, center_ch_2g_40m]"

definition center_chs_5g_by_bw :: "int list list" where
  "center_chs_5g_by_bw = [center_ch_5g_20m, center_ch_5g_40m, center_ch_5g_80m, center_ch_5g_160m]"

text \<open>A two-dimensional array is read through its flat form: the row length and the bytes.\<close>

definition op_chs_of_cch_2g_by_bw :: "(nat \<times> int list) list" where
  "op_chs_of_cch_2g_by_bw = [(1, center_ch_2g), (2, concat op_chs_of_cch_2g_40m)]"

definition op_chs_of_cch_5g_by_bw :: "(nat \<times> int list) list" where
  "op_chs_of_cch_5g_by_bw = [(1, center_ch_5g_20m), (2, concat op_chs_of_cch_5g_40m), (4, concat op_chs_of_cch_5g_80m), (8, concat op_chs_of_cch_5g_160m)]"

subsection \<open>Centre channels\<close>

definition rtw_get_scch_by_cch_offset :: "int \<Rightarrow> int \<Rightarrow> int \<Rightarrow> int" where
  "rtw_get_scch_by_cch_offset cch bw offset =
     (let upper = (offset = HAL_PRIME_CHNL_OFFSET_UPPER) in
      if bw = CHANNEL_WIDTH_20 then cch
      else if offset = HAL_PRIME_CHNL_OFFSET_DONT_CARE then 0
      else if cch \<ge> 3 \<and> cch \<le> 11 \<and> bw = CHANNEL_WIDTH_40 then (if upper then (cch + 2) mod 256 else (cch - 2) mod 256)
      else if cch \<ge> 50 \<and> cch \<le> 163 \<and> bw = CHANNEL_WIDTH_160 then (if upper then (cch + 8) mod 256 else (cch - 8) mod 256)
      else if cch \<ge> 42 \<and> cch \<le> 171 \<and> bw = CHANNEL_WIDTH_80 then (if upper then (cch + 4) mod 256 else (cch - 4) mod 256)
      else if cch \<ge> 38 \<and> cch \<le> 175 \<and> bw = CHANNEL_WIDTH_40 then (if upper then (cch + 2) mod 256 else (cch - 2) mod 256)
      else 0)"

definition rtw_get_scch_by_cch_opch :: "int \<Rightarrow> int \<Rightarrow> int \<Rightarrow> int" where
  "rtw_get_scch_by_cch_opch cch bw opch =
     rtw_get_scch_by_cch_offset cch bw
       (if opch > cch then HAL_PRIME_CHNL_OFFSET_UPPER
        else if opch < cch then HAL_PRIME_CHNL_OFFSET_LOWER else HAL_PRIME_CHNL_OFFSET_DONT_CARE)"

definition center_chs_2g_num :: "int \<Rightarrow> int" where
  "center_chs_2g_num bw = (if bw > CHANNEL_WIDTH_40 then 0 else int (length (center_chs_2g_by_bw ! nat bw)))"

definition center_chs_2g :: "int \<Rightarrow> int \<Rightarrow> int" where
  "center_chs_2g bw i = (if bw > CHANNEL_WIDTH_40 then 0 else if i \<ge> center_chs_2g_num bw then 0
     else center_chs_2g_by_bw ! nat bw ! nat i)"

definition center_chs_5g_num :: "int \<Rightarrow> int" where
  "center_chs_5g_num bw = (if bw > CHANNEL_WIDTH_160 then 0 else int (length (center_chs_5g_by_bw ! nat bw)))"

definition center_chs_5g :: "int \<Rightarrow> int \<Rightarrow> int" where
  "center_chs_5g bw i = (if bw > CHANNEL_WIDTH_160 then 0 else if i \<ge> center_chs_5g_num bw then 0
     else center_chs_5g_by_bw ! nat bw ! nat i)"

text \<open>The first index of a value in a table, as the \<open>for\<close> loops of this file compute it.\<close>

fun ch_index :: "int \<Rightarrow> int list \<Rightarrow> nat" where
  "ch_index c [] = 0"
| "ch_index c (x # xs) = (if c = x then 0 else Suc (ch_index c xs))"

definition rtw_get_op_chs_by_cch_bw :: "int \<Rightarrow> int \<Rightarrow> int list option" where
  "rtw_get_op_chs_by_cch_bw cch bw =
     do { (cs, n, chs) \<leftarrow>
            (if cch \<le> 14 \<and> bw \<le> CHANNEL_WIDTH_40 then Some (center_chs_2g_by_bw ! nat bw, op_chs_of_cch_2g_by_bw ! nat bw)
             else if cch \<ge> 36 \<and> cch \<le> 177 \<and> bw \<le> CHANNEL_WIDTH_160 then Some (center_chs_5g_by_bw ! nat bw, op_chs_of_cch_5g_by_bw ! nat bw)
             else None);
          let i = ch_index cch cs;
          if i = length cs then None else Some (take n (drop (n * i) chs)) }"

definition rtw_get_offset_by_chbw :: "int \<Rightarrow> int \<Rightarrow> int \<Rightarrow> int option" where
  "rtw_get_offset_by_chbw ch bw r_offset =
     (if bw = CHANNEL_WIDTH_20 then Some HAL_PRIME_CHNL_OFFSET_DONT_CARE
      else if bw \<ge> CHANNEL_WIDTH_80 \<and> ch \<le> 14 then None
      else if ch \<ge> 1 \<and> ch \<le> 4 then Some HAL_PRIME_CHNL_OFFSET_LOWER
      else if ch \<ge> 5 \<and> ch \<le> 9 then
        Some (if r_offset = HAL_PRIME_CHNL_OFFSET_LOWER \<or> r_offset = HAL_PRIME_CHNL_OFFSET_UPPER then r_offset else HAL_PRIME_CHNL_OFFSET_UPPER)
      else if ch \<ge> 10 \<and> ch \<le> 13 then Some HAL_PRIME_CHNL_OFFSET_UPPER
      else if ch = 14 then None
      else if ch \<ge> 36 \<and> ch \<le> 177 then
        if ch \<in> {36, 44, 52, 60, 100, 108, 116, 124, 132, 140, 149, 157, 165, 173} then Some HAL_PRIME_CHNL_OFFSET_LOWER
        else if ch \<in> {40, 48, 56, 64, 104, 112, 120, 128, 136, 144, 153, 161, 169, 177} then Some HAL_PRIME_CHNL_OFFSET_UPPER
        else None
      else None)"

definition rtw_get_center_ch :: "int \<Rightarrow> int \<Rightarrow> int \<Rightarrow> int" where
  "rtw_get_center_ch ch bw offset =
     (if bw = CHANNEL_WIDTH_160 then
        if ch mod 4 = 0 then
          if ch \<ge> 36 \<and> ch \<le> 64 then 50 else if ch \<ge> 100 \<and> ch \<le> 128 then 114 else ch
        else if ch mod 4 = 1 then
          if ch \<ge> 149 \<and> ch \<le> 177 then 163 else ch
        else ch
      else if bw = CHANNEL_WIDTH_80 then
        if ch \<le> 14 then 7
        else if ch mod 4 = 0 then
          if ch \<ge> 36 \<and> ch \<le> 48 then 42
          else if ch \<ge> 52 \<and> ch \<le> 64 then 58
          else if ch \<ge> 100 \<and> ch \<le> 112 then 106
          else if ch \<ge> 116 \<and> ch \<le> 128 then 122
          else if ch \<ge> 132 \<and> ch \<le> 144 then 138
          else ch
        else if ch mod 4 = 1 then
          if ch \<ge> 149 \<and> ch \<le> 161 then 155
          else if ch \<ge> 165 \<and> ch \<le> 177 then 171
          else ch
        else ch
      else if bw = CHANNEL_WIDTH_40 then
        if offset = HAL_PRIME_CHNL_OFFSET_LOWER then (ch + 2) mod 256
        else if offset = HAL_PRIME_CHNL_OFFSET_UPPER then (ch - 2) mod 256
        else ch
      else ch)"

text \<open>The result is the band, the group and the group of the CCK rates, where they are written.\<close>

definition rtw_get_ch_group :: "int \<Rightarrow> band_type \<times> int option \<times> int option" where
  "rtw_get_ch_group ch =
     (if ch \<le> 14 then
        let gp = (if 1 \<le> ch \<and> ch \<le> 2 then Some 0 else if 3 \<le> ch \<and> ch \<le> 5 then Some 1 else if 6 \<le> ch \<and> ch \<le> 8 then Some 2
                  else if 9 \<le> ch \<and> ch \<le> 11 then Some 3 else if 12 \<le> ch \<and> ch \<le> 14 then Some 4 else None) in
        (case gp of None \<Rightarrow> (BAND_MAX, None, None) | Some g \<Rightarrow> (BAND_ON_2_4G, Some g, Some (if ch = 14 then 5 else g)))
      else
        let gp = (if 36 \<le> ch \<and> ch \<le> 42 then Some 0 else if 44 \<le> ch \<and> ch \<le> 48 then Some 1 else if 50 \<le> ch \<and> ch \<le> 58 then Some 2
                  else if 60 \<le> ch \<and> ch \<le> 64 then Some 3 else if 100 \<le> ch \<and> ch \<le> 106 then Some 4 else if 108 \<le> ch \<and> ch \<le> 114 then Some 5
                  else if 116 \<le> ch \<and> ch \<le> 122 then Some 6 else if 124 \<le> ch \<and> ch \<le> 130 then Some 7 else if 132 \<le> ch \<and> ch \<le> 138 then Some 8
                  else if 140 \<le> ch \<and> ch \<le> 144 then Some 9 else if 149 \<le> ch \<and> ch \<le> 155 then Some 10 else if 157 \<le> ch \<and> ch \<le> 161 then Some 11
                  else if 165 \<le> ch \<and> ch \<le> 171 then Some 12 else if 173 \<le> ch \<and> ch \<le> 177 then Some 13 else None) in
        (case gp of None \<Rightarrow> (BAND_MAX, None, None) | Some g \<Rightarrow> (BAND_ON_5G, Some g, None)))"

subsection \<open>Frequencies\<close>

definition rtw_ch2freq :: "int \<Rightarrow> int" where
  "rtw_ch2freq chan =
     (if chan \<ge> 1 \<and> chan \<le> 14 then (if chan = 14 then 2484 else 2407 + chan * 5)
      else if chan \<ge> 36 \<and> chan \<le> 177 then 5000 + chan * 5
      else 0)"

text \<open>\<open>c_div\<close> is the division of C, towards zero.\<close>

definition c_div :: "int \<Rightarrow> int \<Rightarrow> int" where
  "c_div a b = (if a \<ge> 0 then a div b else - ((- a) div b))"

definition rtw_freq2ch :: "int \<Rightarrow> int" where
  "rtw_freq2ch freq =
     (if freq = 2484 then 14
      else if freq < 2484 then c_div (freq - 2407) 5
      else if freq \<ge> 4910 \<and> freq \<le> 4980 then c_div (freq - 4000) 5
      else if freq \<le> 45000 then c_div (freq - 5000) 5
      else if freq \<ge> 58320 \<and> freq \<le> 64800 then c_div (freq - 56160) 2160
      else 0)"

text \<open>The upper and the lower end; \<open>None\<close> when there is no centre frequency.\<close>

definition rtw_chbw_to_freq_range :: "int \<Rightarrow> int \<Rightarrow> int \<Rightarrow> (u32 \<times> u32) option" where
  "rtw_chbw_to_freq_range ch bw offset =
     (let freq = of_int (rtw_ch2freq (rtw_get_center_ch ch bw offset)) in
      if freq = 0 then None
      else Some (if bw = CHANNEL_WIDTH_160 then (freq + 80, freq - 80)
                 else if bw = CHANNEL_WIDTH_80 then (freq + 40, freq - 40)
                 else if bw = CHANNEL_WIDTH_40 then (freq + 20, freq - 20)
                 else if bw = CHANNEL_WIDTH_20 then (freq + 10, freq - 10)
                 else (0, 0)))"

definition rtw_is_range_overlap :: "u32 \<Rightarrow> u32 \<Rightarrow> u32 \<Rightarrow> u32 \<Rightarrow> bool" where
  "rtw_is_range_overlap hi_a lo_a hi_b lo_b \<longleftrightarrow> hi_a > lo_b \<and> lo_a < hi_b"

text \<open>\<open>etsi\<close>: the DFS region is \<open>RTW_DFS_REGD_ETSI\<close>.\<close>

definition rtw_is_long_cac_range :: "u32 \<Rightarrow> u32 \<Rightarrow> bool \<Rightarrow> bool" where
  "rtw_is_long_cac_range hi lo etsi \<longleftrightarrow> etsi \<and> rtw_is_range_overlap hi lo 5650 5600"

definition rtw_is_long_cac_ch :: "int \<Rightarrow> int \<Rightarrow> int \<Rightarrow> bool \<Rightarrow> bool" where
  "rtw_is_long_cac_ch ch bw offset etsi =
     (case rtw_chbw_to_freq_range ch bw offset of None \<Rightarrow> False | Some (hi, lo) \<Rightarrow> rtw_is_long_cac_range hi lo etsi)"

subsection \<open>Operating classes\<close>

record op_class_t =
  class_id :: int
  opc_band :: band_type
  opc_width :: opc_bw
  ch_list :: "int list"

definition OP_CLASS_ENT :: "int \<Rightarrow> band_type \<Rightarrow> opc_bw \<Rightarrow> int list \<Rightarrow> op_class_t" where
  "OP_CLASS_ENT c b w l = \<lparr>class_id = c, opc_band = b, opc_width = w, ch_list = l\<rparr>"

definition global_op_class :: "op_class_t list" where
  "global_op_class =
     [OP_CLASS_ENT 81 BAND_ON_2_4G OPC_BW20 [1, 2, 3, 4, 5, 6, 7, 8, 9, 10, 11, 12, 13],
      OP_CLASS_ENT 82 BAND_ON_2_4G OPC_BW20 [14],
      OP_CLASS_ENT 83 BAND_ON_2_4G OPC_BW40PLUS [1, 2, 3, 4, 5, 6, 7, 8, 9],
      OP_CLASS_ENT 84 BAND_ON_2_4G OPC_BW40MINUS [5, 6, 7, 8, 9, 10, 11, 12, 13],
      OP_CLASS_ENT 115 BAND_ON_5G OPC_BW20 [36, 40, 44, 48],
      OP_CLASS_ENT 116 BAND_ON_5G OPC_BW40PLUS [36, 44],
      OP_CLASS_ENT 117 BAND_ON_5G OPC_BW40MINUS [40, 48],
      OP_CLASS_ENT 118 BAND_ON_5G OPC_BW20 [52, 56, 60, 64],
      OP_CLASS_ENT 119 BAND_ON_5G OPC_BW40PLUS [52, 60],
      OP_CLASS_ENT 120 BAND_ON_5G OPC_BW40MINUS [56, 64],
      OP_CLASS_ENT 121 BAND_ON_5G OPC_BW20 [100, 104, 108, 112, 116, 120, 124, 128, 132, 136, 140, 144],
      OP_CLASS_ENT 122 BAND_ON_5G OPC_BW40PLUS [100, 108, 116, 124, 132, 140],
      OP_CLASS_ENT 123 BAND_ON_5G OPC_BW40MINUS [104, 112, 120, 128, 136, 144],
      OP_CLASS_ENT 124 BAND_ON_5G OPC_BW20 [149, 153, 157, 161],
      OP_CLASS_ENT 125 BAND_ON_5G OPC_BW20 [149, 153, 157, 161, 165, 169],
      OP_CLASS_ENT 126 BAND_ON_5G OPC_BW40PLUS [149, 157],
      OP_CLASS_ENT 127 BAND_ON_5G OPC_BW40MINUS [153, 161],
      OP_CLASS_ENT 128 BAND_ON_5G OPC_BW80 [36, 40, 44, 48, 52, 56, 60, 64, 100, 104, 108, 112, 116, 120, 124, 128, 132, 136, 140, 144,
        149, 153, 157, 161],
      OP_CLASS_ENT 129 BAND_ON_5G OPC_BW160 [36, 40, 44, 48, 52, 56, 60, 64, 100, 104, 108, 112, 116, 120, 124, 128]]"

fun opc_bw_to_ch_width :: "opc_bw \<Rightarrow> int" where
  "opc_bw_to_ch_width OPC_BW20 = CHANNEL_WIDTH_20"
| "opc_bw_to_ch_width OPC_BW40PLUS = CHANNEL_WIDTH_40"
| "opc_bw_to_ch_width OPC_BW40MINUS = CHANNEL_WIDTH_40"
| "opc_bw_to_ch_width OPC_BW80 = CHANNEL_WIDTH_80"
| "opc_bw_to_ch_width OPC_BW160 = CHANNEL_WIDTH_160"
| "opc_bw_to_ch_width OPC_BW80P80 = CHANNEL_WIDTH_80_80"

text \<open>A \<open>for\<close> loop that stops at the first entry with a property.\<close>

definition get_global_op_class_by_id :: "int \<Rightarrow> op_class_t option" where
  "get_global_op_class_by_id gid = List.find (\<lambda>c. class_id c = gid) global_op_class"

definition is_valid_global_op_class_id :: "int \<Rightarrow> bool" where
  "is_valid_global_op_class_id gid \<longleftrightarrow> get_global_op_class_by_id gid \<noteq> None"

definition is_valid_global_op_class_ch :: "op_class_t \<Rightarrow> int \<Rightarrow> bool" where
  "is_valid_global_op_class_ch c ch \<longleftrightarrow> ch_index ch (ch_list c) < length (ch_list c)"

definition get_global_opc_bw_by_id :: "int \<Rightarrow> opc_bw option" where
  "get_global_opc_bw_by_id gid = map_option opc_width (List.find (\<lambda>c. class_id c = gid) global_op_class)"

definition get_sub_op_class :: "int \<Rightarrow> int \<Rightarrow> int" where
  "get_sub_op_class gid ch =
     (case get_global_op_class_by_id gid of
        None \<Rightarrow> -1
      | Some opc \<Rightarrow>
          if \<not> is_valid_global_op_class_ch opc ch then -1
          else if opc_width opc = OPC_BW20 then 0
          else let bw = opc_bw_to_ch_width (opc_width opc) in
            (case List.find (\<lambda>c. bw = opc_bw_to_ch_width (opc_width c) + 1 \<and> is_valid_global_op_class_ch c ch) global_op_class of
               None \<Rightarrow> -2
             | Some c \<Rightarrow> class_id c))"

text \<open>The self-test of the debug build, for the class at an index.\<close>

definition opc_bw_offset :: "opc_bw \<Rightarrow> (int \<times> int) option" where
  "opc_bw_offset w = (case w of
       OPC_BW20 \<Rightarrow> Some (CHANNEL_WIDTH_20, HAL_PRIME_CHNL_OFFSET_DONT_CARE)
     | OPC_BW40PLUS \<Rightarrow> Some (CHANNEL_WIDTH_40, HAL_PRIME_CHNL_OFFSET_LOWER)
     | OPC_BW40MINUS \<Rightarrow> Some (CHANNEL_WIDTH_40, HAL_PRIME_CHNL_OFFSET_UPPER)
     | OPC_BW80 \<Rightarrow> Some (CHANNEL_WIDTH_80, HAL_PRIME_CHNL_OFFSET_DONT_CARE)
     | OPC_BW160 \<Rightarrow> Some (CHANNEL_WIDTH_160, HAL_PRIME_CHNL_OFFSET_DONT_CARE)
     | OPC_BW80P80 \<Rightarrow> None)"

definition dbg_global_op_class_validate :: "nat \<Rightarrow> bool" where
  "dbg_global_op_class_validate i =
     (let c = global_op_class ! i in
      case opc_bw_offset (opc_width c) of
        None \<Rightarrow> False
      | Some (bw, offset) \<Rightarrow>
          list_all (\<lambda>ch. let cch = rtw_get_center_ch ch bw offset in
            cch \<noteq> 0 \<and> (case rtw_get_op_chs_by_cch_bw cch bw of None \<Rightarrow> False | Some op_chs \<Rightarrow> ch_index ch op_chs < length op_chs)) (ch_list c))"

definition rtw_is_2g_ch :: "int \<Rightarrow> bool" where "rtw_is_2g_ch ch \<longleftrightarrow> ch \<ge> 1 \<and> ch \<le> 14"
definition rtw_is_5g_ch :: "int \<Rightarrow> bool" where "rtw_is_5g_ch ch \<longleftrightarrow> ch \<ge> 36 \<and> ch \<le> 177"

definition op_class_matches :: "band_type \<Rightarrow> int \<Rightarrow> int \<Rightarrow> int \<Rightarrow> op_class_t \<Rightarrow> bool" where
  "op_class_matches band ch bw offset c \<longleftrightarrow> band = opc_band c \<and> opc_bw_to_ch_width (opc_width c) = bw
     \<and> \<not> (opc_width c = OPC_BW40PLUS \<and> offset \<noteq> HAL_PRIME_CHNL_OFFSET_LOWER
          \<or> opc_width c = OPC_BW40MINUS \<and> offset \<noteq> HAL_PRIME_CHNL_OFFSET_UPPER)
     \<and> is_valid_global_op_class_ch c ch"

definition rtw_get_op_class_by_chbw :: "int \<Rightarrow> int \<Rightarrow> int \<Rightarrow> int" where
  "rtw_get_op_class_by_chbw ch bw offset =
     (let band = (if rtw_is_2g_ch ch then BAND_ON_2_4G else if rtw_is_5g_ch ch then BAND_ON_5G else BAND_MAX) in
      if band = BAND_MAX then 0
      else if \<not> (bw = CHANNEL_WIDTH_20 \<or> bw = CHANNEL_WIDTH_40 \<or> bw = CHANNEL_WIDTH_80 \<or> bw = CHANNEL_WIDTH_160) then 0
      else case List.find (op_class_matches band ch bw offset) global_op_class of None \<Rightarrow> 0 | Some c \<Rightarrow> class_id c)"

text \<open>Bandwidth and offset; \<open>offset\<close> is the value \<open>*offset\<close> holds before the call.\<close>

definition rtw_get_bw_offset_by_op_class_ch :: "int \<Rightarrow> int \<Rightarrow> int \<Rightarrow> (int \<times> int) option" where
  "rtw_get_bw_offset_by_op_class_ch gid ch offset =
     do { opc_bw \<leftarrow> get_global_opc_bw_by_id gid;
          let bw = opc_bw_to_ch_width opc_bw;
          let offset = (if opc_bw = OPC_BW40PLUS then HAL_PRIME_CHNL_OFFSET_LOWER
                        else if opc_bw = OPC_BW40MINUS then HAL_PRIME_CHNL_OFFSET_UPPER else offset);
          offset \<leftarrow> rtw_get_offset_by_chbw ch bw offset;
          Some (bw, offset) }"

subsection \<open>Antenna paths\<close>

datatype rf_type = RF_1T1R | RF_1T2R | RF_2T2R | RF_2T3R | RF_2T4R | RF_3T3R | RF_3T4R | RF_4T4R
  | RF_4T3R | RF_4T2R | RF_4T1R | RF_3T2R | RF_3T1R | RF_2T1R | RF_1T4R | RF_1T3R

definition RF_PATH_MAX :: nat where "RF_PATH_MAX = 4"

fun rf_type_to_rf_tx_cnt :: "rf_type \<Rightarrow> u8" where
  "rf_type_to_rf_tx_cnt RF_1T1R = 1" | "rf_type_to_rf_tx_cnt RF_1T2R = 1" | "rf_type_to_rf_tx_cnt RF_1T3R = 1" | "rf_type_to_rf_tx_cnt RF_1T4R = 1"
| "rf_type_to_rf_tx_cnt RF_2T1R = 2" | "rf_type_to_rf_tx_cnt RF_2T2R = 2" | "rf_type_to_rf_tx_cnt RF_2T3R = 2" | "rf_type_to_rf_tx_cnt RF_2T4R = 2"
| "rf_type_to_rf_tx_cnt RF_3T1R = 3" | "rf_type_to_rf_tx_cnt RF_3T2R = 3" | "rf_type_to_rf_tx_cnt RF_3T3R = 3" | "rf_type_to_rf_tx_cnt RF_3T4R = 3"
| "rf_type_to_rf_tx_cnt RF_4T1R = 4" | "rf_type_to_rf_tx_cnt RF_4T2R = 4" | "rf_type_to_rf_tx_cnt RF_4T3R = 4" | "rf_type_to_rf_tx_cnt RF_4T4R = 4"

fun rf_type_to_rf_rx_cnt :: "rf_type \<Rightarrow> u8" where
  "rf_type_to_rf_rx_cnt RF_1T1R = 1" | "rf_type_to_rf_rx_cnt RF_1T2R = 2" | "rf_type_to_rf_rx_cnt RF_1T3R = 3" | "rf_type_to_rf_rx_cnt RF_1T4R = 4"
| "rf_type_to_rf_rx_cnt RF_2T1R = 1" | "rf_type_to_rf_rx_cnt RF_2T2R = 2" | "rf_type_to_rf_rx_cnt RF_2T3R = 3" | "rf_type_to_rf_rx_cnt RF_2T4R = 4"
| "rf_type_to_rf_rx_cnt RF_3T1R = 1" | "rf_type_to_rf_rx_cnt RF_3T2R = 2" | "rf_type_to_rf_rx_cnt RF_3T3R = 3" | "rf_type_to_rf_rx_cnt RF_3T4R = 4"
| "rf_type_to_rf_rx_cnt RF_4T1R = 1" | "rf_type_to_rf_rx_cnt RF_4T2R = 2" | "rf_type_to_rf_rx_cnt RF_4T3R = 3" | "rf_type_to_rf_rx_cnt RF_4T4R = 4"

definition low_bits :: "nat \<Rightarrow> u8" where
  "low_bits n = fold (\<lambda>i b. b OR push_bit i 1) [0..<n] 0"

definition rf_type_to_default_trx_bmp :: "rf_type \<Rightarrow> u8 \<times> u8" where
  "rf_type_to_default_trx_bmp rf = (low_bits (unat (rf_type_to_rf_tx_cnt rf)), low_bits (unat (rf_type_to_rf_rx_cnt rf)))"

definition trx_num_table :: "rf_type list list" where
  "trx_num_table = [[RF_1T1R, RF_1T2R, RF_1T3R, RF_1T4R], [RF_2T1R, RF_2T2R, RF_2T3R, RF_2T4R],
     [RF_3T1R, RF_3T2R, RF_3T3R, RF_3T4R], [RF_4T1R, RF_4T2R, RF_4T3R, RF_4T4R]]"

text \<open>\<open>None\<close> is \<open>RF_TYPE_MAX\<close>.\<close>

definition trx_num_to_rf_type :: "nat \<Rightarrow> nat \<Rightarrow> rf_type option" where
  "trx_num_to_rf_type tx_num rx_num =
     (if tx_num > 0 \<and> tx_num \<le> RF_PATH_MAX \<and> rx_num > 0 \<and> rx_num \<le> RF_PATH_MAX
      then Some (trx_num_table ! (tx_num - 1) ! (rx_num - 1)) else None)"

definition path_cnt :: "u8 \<Rightarrow> nat" where
  "path_cnt bmp = fold (\<lambda>i n. if bit bmp i then n + 1 else n) [0..<RF_PATH_MAX] 0"

definition trx_bmp_to_rf_type :: "u8 \<Rightarrow> u8 \<Rightarrow> rf_type option" where
  "trx_bmp_to_rf_type tx_bmp rx_bmp = trx_num_to_rf_type (path_cnt tx_bmp) (path_cnt rx_bmp)"

definition rf_type_is_a_in_b :: "rf_type \<Rightarrow> rf_type \<Rightarrow> bool" where
  "rf_type_is_a_in_b a b \<longleftrightarrow> rf_type_to_rf_tx_cnt a \<le> rf_type_to_rf_tx_cnt b \<and> rf_type_to_rf_rx_cnt a \<le> rf_type_to_rf_rx_cnt b"

text \<open>The loop runs from the path \<open>i - 1\<close> downwards.\<close>

fun limit_loop :: "nat \<Rightarrow> u8 \<Rightarrow> nat \<Rightarrow> nat \<Rightarrow> u8 \<times> nat" where
  "limit_loop 0 bmp cnt lmt = (bmp, cnt)"
| "limit_loop (Suc i) bmp cnt lmt =
     (if cnt > lmt then
        if bit bmp i then limit_loop i (bmp AND NOT (push_bit i 1)) (cnt - 1) lmt else limit_loop i bmp cnt lmt
      else (bmp, cnt))"

definition rtw_path_bmp_limit_from_higher :: "u8 \<Rightarrow> nat \<Rightarrow> nat \<Rightarrow> u8 \<times> nat" where
  "rtw_path_bmp_limit_from_higher bmp cnt lmt = limit_loop RF_PATH_MAX bmp cnt lmt"

text \<open>The pairs of path counts in the order the two loops try them.\<close>

definition trx_tries :: "nat \<Rightarrow> nat \<Rightarrow> (nat \<times> nat) list" where
  "trx_tries tx rx = concat (map (\<lambda>j. map (\<lambda>i. (i, j)) (rev [1..<tx + 1])) (rev [1..<rx + 1]))"

text \<open>The bitmap and, when a type was found, the two counts that are written.\<close>

definition rtw_restrict_trx_path_bmp_by_trx_num_lmt :: "u8 \<Rightarrow> nat \<Rightarrow> nat \<Rightarrow> u8 \<times> (nat \<times> nat) option" where
  "rtw_restrict_trx_path_bmp_by_trx_num_lmt trx_path_bmp tx_num_lmt rx_num_lmt =
     (let bmp_tx = drop_bit 4 (trx_path_bmp AND 0xF0); bmp_rx = trx_path_bmp AND 0x0F;
          (bmp_tx, tx_num) = (if tx_num_lmt \<noteq> 0 then rtw_path_bmp_limit_from_higher bmp_tx (path_cnt bmp_tx) tx_num_lmt else (bmp_tx, path_cnt bmp_tx));
          (bmp_rx, rx_num) = (if rx_num_lmt \<noteq> 0 then rtw_path_bmp_limit_from_higher bmp_rx (path_cnt bmp_rx) rx_num_lmt else (bmp_rx, path_cnt bmp_rx)) in
      case List.find (\<lambda>(i, j). trx_num_to_rf_type i j \<noteq> None) (trx_tries tx_num rx_num) of
        None \<Rightarrow> (0, None)
      | Some (i, j) \<Rightarrow>
          let (bmp_tx, tx_num) = rtw_path_bmp_limit_from_higher bmp_tx tx_num i;
              (bmp_rx, rx_num) = rtw_path_bmp_limit_from_higher bmp_rx rx_num j in
          (push_bit 4 bmp_tx OR bmp_rx, Some (tx_num, rx_num)))"

definition rtw_restrict_trx_path_bmp_by_rftype :: "u8 \<Rightarrow> rf_type \<Rightarrow> u8 \<times> (nat \<times> nat) option" where
  "rtw_restrict_trx_path_bmp_by_rftype bmp rf =
     rtw_restrict_trx_path_bmp_by_trx_num_lmt bmp (unat (rf_type_to_rf_tx_cnt rf)) (unat (rf_type_to_rf_rx_cnt rf))"

text \<open>The inner loop of \<open>tx_path_nss_set_default\<close>: the paths from \<open>j\<close> on are taken until \<open>lim\<close> of them are set.\<close>

function nss_paths :: "nat \<Rightarrow> nat \<Rightarrow> u8 \<Rightarrow> nat \<Rightarrow> u8 \<Rightarrow> u8" where
  "nss_paths j lim txpath cnt acc =
     (if j < RF_PATH_MAX then
        if bit txpath j then
          let acc = acc OR push_bit j 1 in if cnt + 1 = lim then acc else nss_paths (j + 1) lim txpath (cnt + 1) acc
        else nss_paths (j + 1) lim txpath cnt acc
      else acc)"
  by auto
termination by (relation "measure (\<lambda>(j, lim, t, c, a). RF_PATH_MAX - j)") auto

definition tx_path_nss_set_default :: "u8 \<Rightarrow> u8 list \<times> nat list" where
  "tx_path_nss_set_default txpath = (map (\<lambda>i. nss_paths 0 i txpath 0 0) [1..<5], [1..<5])"

definition tx_path_nss_set_full_tx :: "u8 \<Rightarrow> u8 list \<times> nat list" where
  "tx_path_nss_set_full_tx txpath = (replicate 4 txpath, replicate 4 (path_cnt txpath))"

subsection \<open>Centre channels and the tables\<close>

lemmas rf_consts = CHANNEL_WIDTH_20_def CHANNEL_WIDTH_40_def CHANNEL_WIDTH_80_def CHANNEL_WIDTH_160_def CHANNEL_WIDTH_80_80_def
  HAL_PRIME_CHNL_OFFSET_DONT_CARE_def HAL_PRIME_CHNL_OFFSET_LOWER_def HAL_PRIME_CHNL_OFFSET_UPPER_def

lemma ch_index_less: "ch_index c xs < length xs \<longleftrightarrow> c \<in> set xs"
  by (induction xs) auto

lemma ch_index_eq: "ch_index c xs = length xs \<longleftrightarrow> c \<notin> set xs"
  by (induction xs) auto

lemma map_of_index: "length rows = length xs \<Longrightarrow> map_of (zip xs rows) c = (if c \<in> set xs then Some (rows ! ch_index c xs) else None)"
  by (induction xs arbitrary: rows) (auto simp: length_Suc_conv)

lemma row_of_concat: "\<forall>r \<in> set rows. length r = n \<Longrightarrow> i < length rows \<Longrightarrow> take n (drop (n * i) (concat rows)) = rows ! i"
proof (induction rows arbitrary: i)
  case (Cons r rows)
  then show ?case by (cases i) (auto simp: algebra_simps)
qed simp

text \<open>The operating channels below every centre channel, by bandwidth.\<close>

definition op_channels :: "int list" where
  "op_channels = center_ch_2g @ center_ch_5g_20m"

definition op_table :: "int \<Rightarrow> (int \<times> int list) list" where
  "op_table bw =
     (if bw = CHANNEL_WIDTH_20 then map (\<lambda>c. (c, [c])) op_channels
      else if bw = CHANNEL_WIDTH_40 then zip center_ch_2g_40m op_chs_of_cch_2g_40m @ zip center_ch_5g_40m op_chs_of_cch_5g_40m
      else if bw = CHANNEL_WIDTH_80 then zip center_ch_5g_80m op_chs_of_cch_5g_80m
      else if bw = CHANNEL_WIDTH_160 then zip center_ch_5g_160m op_chs_of_cch_5g_160m else [])"

lemma band_of_tables:
  "\<forall>c \<in> set center_ch_2g. c \<le> 14" "\<forall>c \<in> set center_ch_2g_40m. c \<le> 14"
  "\<forall>c \<in> set center_ch_5g_20m. 36 \<le> c \<and> c \<le> 177" "\<forall>c \<in> set center_ch_5g_40m. 36 \<le> c \<and> c \<le> 177"
  "\<forall>c \<in> set center_ch_5g_80m. 36 \<le> c \<and> c \<le> 177" "\<forall>c \<in> set center_ch_5g_160m. 36 \<le> c \<and> c \<le> 177"
  by (simp_all add: center_ch_2g_def center_ch_2g_40m_def center_ch_5g_20m_def center_ch_5g_40m_def center_ch_5g_80m_def center_ch_5g_160m_def)

lemma table_rows:
  "\<forall>r \<in> set op_chs_of_cch_2g_40m. length r = 2" "\<forall>r \<in> set op_chs_of_cch_5g_40m. length r = 2"
  "\<forall>r \<in> set op_chs_of_cch_5g_80m. length r = 4" "\<forall>r \<in> set op_chs_of_cch_5g_160m. length r = 8"
  "length op_chs_of_cch_2g_40m = length center_ch_2g_40m" "length op_chs_of_cch_5g_40m = length center_ch_5g_40m"
  "length op_chs_of_cch_5g_80m = length center_ch_5g_80m" "length op_chs_of_cch_5g_160m = length center_ch_5g_160m"
  by (simp_all add: op_chs_of_cch_2g_40m_def op_chs_of_cch_5g_40m_def op_chs_of_cch_5g_80m_def op_chs_of_cch_5g_160m_def
      center_ch_2g_40m_def center_ch_5g_40m_def center_ch_5g_80m_def center_ch_5g_160m_def)

text \<open>A lookup in one pair of tables.\<close>

definition table_lookup :: "int \<Rightarrow> int list \<Rightarrow> nat \<times> int list \<Rightarrow> int list option" where
  "table_lookup cch cs t = (if ch_index cch cs = length cs then None else Some (take (fst t) (drop (fst t * ch_index cch cs) (snd t))))"

lemma table_lookup_rows:
  assumes "\<forall>r \<in> set rows. length r = n" "length rows = length cs"
  shows "table_lookup cch cs (n, concat rows) = map_of (zip cs rows) cch"
  using row_of_concat [OF assms(1)] ch_index_less [of cch cs] unfolding table_lookup_def map_of_index [OF assms(2)] ch_index_eq
  by (simp add: assms(2))

lemma map_of_self: "map_of (map (\<lambda>c. (c, [c])) cs) c = (if c \<in> set cs then Some [c] else None)"
  by (induction cs) auto

lemma table_lookup_self: "table_lookup cch cs (Suc 0, cs) = (if cch \<in> set cs then Some [cch] else None)"
proof -
  have "map (\<lambda>c. (c, [c])) cs = zip cs (map (\<lambda>c. [c]) cs)" by (simp add: zip_map2 zip_same_conv_map)
  moreover have "concat (map (\<lambda>c. [c]) cs) = cs" by (induction cs) auto
  ultimately show ?thesis using table_lookup_rows [of "map (\<lambda>c. [c]) cs" 1 cs cch] map_of_self [of cs cch] by simp
qed

lemma op_chs_lookup:
  "rtw_get_op_chs_by_cch_bw cch bw =
     (if cch \<le> 14 \<and> bw \<le> CHANNEL_WIDTH_40 then table_lookup cch (center_chs_2g_by_bw ! nat bw) (op_chs_of_cch_2g_by_bw ! nat bw)
      else if cch \<ge> 36 \<and> cch \<le> 177 \<and> bw \<le> CHANNEL_WIDTH_160 then table_lookup cch (center_chs_5g_by_bw ! nat bw) (op_chs_of_cch_5g_by_bw ! nat bw)
      else None)"
  unfolding rtw_get_op_chs_by_cch_bw_def table_lookup_def by (simp add: Let_def split: prod.split)

definition bws :: "int list" where "bws = [CHANNEL_WIDTH_20, CHANNEL_WIDTH_40, CHANNEL_WIDTH_80, CHANNEL_WIDTH_160]"

lemma map_of_notin: "c \<notin> fst ` set xs \<Longrightarrow> map_of xs c = None"
  by (simp add: map_of_eq_None_iff)

lemma op_chs_table:
  assumes "bw \<in> set bws"
  shows "rtw_get_op_chs_by_cch_bw cch bw = map_of (op_table bw) cch"
proof -
  have h: "\<not> (cch \<le> 14 \<and> 36 \<le> cch)" by auto
  have n2: "cch \<notin> set center_ch_2g \<and> cch \<notin> set center_ch_2g_40m" if "\<not> cch \<le> 14" using band_of_tables that by blast
  have n5: "cch \<notin> set center_ch_5g_20m \<and> cch \<notin> set center_ch_5g_40m \<and> cch \<notin> set center_ch_5g_80m \<and> cch \<notin> set center_ch_5g_160m"
    if "\<not> (36 \<le> cch \<and> cch \<le> 177)" using band_of_tables that by blast
  consider "bw = 0" | "bw = 1" | "bw = 2" | "bw = 3" using assms by (auto simp: bws_def rf_consts)
  then show ?thesis
  proof cases
    case 1
    then show ?thesis using h n2 n5 unfolding op_chs_lookup
      by (auto simp: op_table_def rf_consts center_chs_2g_by_bw_def center_chs_5g_by_bw_def op_chs_of_cch_2g_by_bw_def op_chs_of_cch_5g_by_bw_def
          table_lookup_self map_of_self op_channels_def map_add_def)
  next
    case 2
    then show ?thesis using h n2 n5 unfolding op_chs_lookup
      by (auto simp: op_table_def rf_consts center_chs_2g_by_bw_def center_chs_5g_by_bw_def op_chs_of_cch_2g_by_bw_def op_chs_of_cch_5g_by_bw_def
          table_lookup_rows table_rows map_of_index map_add_def split: option.split)
  next
    case 3
    then show ?thesis using h n2 n5 unfolding op_chs_lookup
      by (auto simp: op_table_def rf_consts center_chs_5g_by_bw_def op_chs_of_cch_5g_by_bw_def table_lookup_rows table_rows map_of_index)
  next
    case 4
    then show ?thesis using h n2 n5 unfolding op_chs_lookup
      by (auto simp: op_table_def rf_consts center_chs_5g_by_bw_def op_chs_of_cch_5g_by_bw_def table_lookup_rows table_rows map_of_index)
  qed
qed

text \<open>The relation between operating and centre channels, by the tables and by the arithmetic.\<close>

definition offsets :: "int list" where
  "offsets = [HAL_PRIME_CHNL_OFFSET_DONT_CARE, HAL_PRIME_CHNL_OFFSET_LOWER, HAL_PRIME_CHNL_OFFSET_UPPER]"

definition offset_fits :: "int \<Rightarrow> int \<Rightarrow> int \<Rightarrow> bool" where
  "offset_fits ch bw offset \<longleftrightarrow> rtw_get_offset_by_chbw ch bw offset = Some offset"

definition table_pairs :: "(int \<times> int list) list \<Rightarrow> (int \<times> int) list" where
  "table_pairs t = concat (map (\<lambda>(c, chs). map (\<lambda>ch. (ch, c)) chs) t)"

definition center_pairs :: "int \<Rightarrow> (int \<times> int) list" where
  "center_pairs bw = concat (map (\<lambda>ch. map (\<lambda>off. (ch, rtw_get_center_ch ch bw off)) (filter (offset_fits ch bw) offsets)) op_channels)"

lemma offset_fits_offsets: "offset_fits ch bw off \<Longrightarrow> off \<in> set offsets"
  by (auto simp: offset_fits_def rtw_get_offset_by_chbw_def offsets_def split: if_splits)

lemma center_pairs_iff:
  "(ch, cch) \<in> set (center_pairs bw) \<longleftrightarrow> ch \<in> set op_channels \<and> (\<exists>off. offset_fits ch bw off \<and> rtw_get_center_ch ch bw off = cch)"
  by (auto simp: center_pairs_def image_iff dest: offset_fits_offsets)

lemma table_pairs_iff:
  "distinct (map fst t) \<Longrightarrow> (ch, c) \<in> set (table_pairs t) \<longleftrightarrow> (\<exists>chs. map_of t c = Some chs \<and> ch \<in> set chs)"
  unfolding table_pairs_def by (auto dest: map_of_SomeD)

lemma op_table_distinct: "bw \<in> set bws \<Longrightarrow> distinct (map fst (op_table bw))"
proof -
  have "list_all (\<lambda>bw. distinct (map fst (op_table bw))) bws" by code_simp
  then show "bw \<in> set bws \<Longrightarrow> distinct (map fst (op_table bw))" by (simp add: list_all_iff)
qed

definition no_160 :: "int \<Rightarrow> int \<times> int \<Rightarrow> bool" where
  "no_160 bw x \<longleftrightarrow> bw = CHANNEL_WIDTH_160 \<and> 132 \<le> fst x \<and> fst x \<le> 144"

lemma pairs_20: "filter (\<lambda>x. \<not> no_160 CHANNEL_WIDTH_20 x) (center_pairs CHANNEL_WIDTH_20) = table_pairs (op_table CHANNEL_WIDTH_20)"
  by code_simp

lemma pairs_40: "set (filter (\<lambda>x. \<not> no_160 CHANNEL_WIDTH_40 x) (center_pairs CHANNEL_WIDTH_40)) = set (table_pairs (op_table CHANNEL_WIDTH_40))"
  by code_simp

lemma pairs_80: "filter (\<lambda>x. \<not> no_160 CHANNEL_WIDTH_80 x) (center_pairs CHANNEL_WIDTH_80) = table_pairs (op_table CHANNEL_WIDTH_80)"
  by code_simp

lemma pairs_160: "filter (\<lambda>x. \<not> no_160 CHANNEL_WIDTH_160 x) (center_pairs CHANNEL_WIDTH_160) = table_pairs (op_table CHANNEL_WIDTH_160)"
  by code_simp

lemma pairs_eq: "bw \<in> set bws \<Longrightarrow> set (filter (\<lambda>x. \<not> no_160 bw x) (center_pairs bw)) = set (table_pairs (op_table bw))"
proof -
  assume "bw \<in> set bws"
  then consider "bw = CHANNEL_WIDTH_20" | "bw = CHANNEL_WIDTH_40" | "bw = CHANNEL_WIDTH_80" | "bw = CHANNEL_WIDTH_160" by (auto simp: bws_def)
  then show ?thesis by cases (simp_all only: pairs_20 pairs_40 pairs_80 pairs_160)
qed

text \<open>C31. The arithmetic agrees with the tables: for the bandwidths 20, 40, 80 and 160 MHz, a channel is listed by
  \<open>rtw_get_op_chs_by_cch_bw\<close> below a centre channel exactly when \<open>rtw_get_center_ch\<close> computes that centre from the channel and the
  offset that \<open>rtw_get_offset_by_chbw\<close> accepts for it. The channels 132 to 144 have no 160 MHz centre: there
  \<open>rtw_get_center_ch\<close> returns the channel itself, which no table lists.\<close>

theorem rtw_get_center_ch_tables:
  assumes "bw \<in> set bws"
  shows "(\<exists>chs. rtw_get_op_chs_by_cch_bw cch bw = Some chs \<and> ch \<in> set chs) \<longleftrightarrow>
    ch \<in> set op_channels \<and> \<not> (bw = CHANNEL_WIDTH_160 \<and> 132 \<le> ch \<and> ch \<le> 144) \<and>
    (\<exists>offset. rtw_get_offset_by_chbw ch bw offset = Some offset \<and> rtw_get_center_ch ch bw offset = cch)"
proof -
  have "(\<exists>chs. rtw_get_op_chs_by_cch_bw cch bw = Some chs \<and> ch \<in> set chs) \<longleftrightarrow> (ch, cch) \<in> set (table_pairs (op_table bw))"
    using table_pairs_iff [OF op_table_distinct [OF assms]] op_chs_table [OF assms] by simp
  also have "\<dots> \<longleftrightarrow> (ch, cch) \<in> set (center_pairs bw) \<and> \<not> no_160 bw (ch, cch)" unfolding pairs_eq [OF assms, symmetric] by simp
  finally show ?thesis unfolding center_pairs_iff offset_fits_def no_160_def by auto
qed

theorem rtw_get_center_ch_tables_witness:
  "\<exists>chs. rtw_get_op_chs_by_cch_bw 155 CHANNEL_WIDTH_80 = Some chs \<and> 157 \<in> set chs"
proof -
  have "CHANNEL_WIDTH_80 \<in> set bws" "157 \<in> set op_channels" "\<not> (CHANNEL_WIDTH_80 = CHANNEL_WIDTH_160 \<and> (132 :: int) \<le> 157 \<and> (157 :: int) \<le> 144)"
    "rtw_get_offset_by_chbw 157 CHANNEL_WIDTH_80 1 = Some 1" "rtw_get_center_ch 157 CHANNEL_WIDTH_80 1 = 155" by code_simp+
  then show ?thesis using rtw_get_center_ch_tables [of CHANNEL_WIDTH_80 155 157] by blast
qed

subsection \<open>Frequencies and the descent to the primary channel\<close>

definition freq_covers :: "int \<Rightarrow> int \<Rightarrow> int \<Rightarrow> bool" where
  "freq_covers ch bw off \<longleftrightarrow> (case rtw_chbw_to_freq_range ch bw off of
     None \<Rightarrow> False
   | Some (hi, lo) \<Rightarrow> uint hi - uint lo = 20 * 2 ^ nat bw \<and> uint lo \<le> rtw_ch2freq ch - 10 \<and> rtw_ch2freq ch + 10 \<le> uint hi)"

definition descends :: "int \<Rightarrow> int \<Rightarrow> int \<Rightarrow> bool" where
  "descends ch bw cch \<longleftrightarrow> (case rtw_get_op_chs_by_cch_bw (rtw_get_scch_by_cch_opch cch bw ch) (bw - 1) of
     None \<Rightarrow> False | Some chs \<Rightarrow> List.member chs ch)"

definition check_bw :: "int \<Rightarrow> bool" where
  "check_bw bw \<longleftrightarrow> list_all (\<lambda>ch. list_all (\<lambda>off. let cch = rtw_get_center_ch ch bw off in
     (offset_fits ch bw off \<and> \<not> no_160 bw (ch, cch)) \<longrightarrow> freq_covers ch bw off \<and> (bw \<noteq> CHANNEL_WIDTH_20 \<longrightarrow> descends ch bw cch)) offsets) op_channels"

lemma check_bw_20: "check_bw CHANNEL_WIDTH_20" by code_simp
lemma check_bw_40: "check_bw CHANNEL_WIDTH_40" by code_simp
lemma check_bw_80: "check_bw CHANNEL_WIDTH_80" by code_simp
lemma check_bw_160: "check_bw CHANNEL_WIDTH_160" by code_simp

lemma check_bw_all: "bw \<in> set bws \<Longrightarrow> check_bw bw"
  using check_bw_20 check_bw_40 check_bw_80 check_bw_160 by (auto simp: bws_def)

text \<open>The band around a centre channel: for a channel, a bandwidth and a fitting offset (and not 160 MHz on the channels 132 to 144),
  the frequency range is as wide as the bandwidth and contains the 20 MHz of the channel; and the centre channel of half the bandwidth that
  \<open>rtw_get_scch_by_cch_opch\<close> selects for the channel is one whose table row lists it, so that halving the bandwidth leads down
  to the channel itself.\<close>

theorem rtw_chbw_descent:
  assumes "ch \<in> set op_channels" "bw \<in> set bws" "rtw_get_offset_by_chbw ch bw offset = Some offset"
    and "\<not> (bw = CHANNEL_WIDTH_160 \<and> 132 \<le> ch \<and> ch \<le> 144)" "cch = rtw_get_center_ch ch bw offset"
  shows "(\<exists>hi lo. rtw_chbw_to_freq_range ch bw offset = Some (hi, lo) \<and> uint hi - uint lo = 20 * 2 ^ nat bw
      \<and> uint lo \<le> rtw_ch2freq ch - 10 \<and> rtw_ch2freq ch + 10 \<le> uint hi)
    \<and> (if bw = CHANNEL_WIDTH_20 then cch = ch
       else \<exists>chs. rtw_get_op_chs_by_cch_bw (rtw_get_scch_by_cch_opch cch bw ch) (bw - 1) = Some chs \<and> ch \<in> set chs)"
proof -
  have f: "offset_fits ch bw offset" "offset \<in> set offsets" using assms(3) offset_fits_offsets by (auto simp: offset_fits_def)
  have n: "\<not> no_160 bw (ch, cch)" using assms(4) by (auto simp: no_160_def)
  have "check_bw bw" using check_bw_all assms(2) .
  then have c: "freq_covers ch bw offset \<and> (bw \<noteq> CHANNEL_WIDTH_20 \<longrightarrow> descends ch bw cch)"
    using assms(1,5) f n unfolding check_bw_def list_all_iff Let_def by blast
  have "bw = CHANNEL_WIDTH_20 \<Longrightarrow> cch = ch" using assms(5) by (simp add: rtw_get_center_ch_def rf_consts)
  then show ?thesis using c by (auto simp: freq_covers_def descends_def List.member_iff split: option.splits)
qed

theorem rtw_chbw_descent_witness:
  "\<exists>hi lo. rtw_chbw_to_freq_range 157 CHANNEL_WIDTH_80 1 = Some (hi, lo) \<and> uint hi - uint lo = 80"
proof -
  have h: "157 \<in> set op_channels" "CHANNEL_WIDTH_80 \<in> set bws" "rtw_get_offset_by_chbw 157 CHANNEL_WIDTH_80 1 = Some 1"
    "\<not> (CHANNEL_WIDTH_80 = CHANNEL_WIDTH_160 \<and> (132 :: int) \<le> 157 \<and> (157 :: int) \<le> 144)" "20 * 2 ^ nat CHANNEL_WIDTH_80 = (80 :: int)" by code_simp+
  show ?thesis using rtw_chbw_descent [OF h(1-4) refl] unfolding h(5) by blast
qed

text \<open>Channel numbers and frequencies.\<close>

lemma rtw_freq2ch_ch2freq:
  "1 \<le> ch \<and> ch \<le> 14 \<or> 36 \<le> ch \<and> ch \<le> 177 \<Longrightarrow> rtw_freq2ch (rtw_ch2freq ch) = ch"
  by (auto simp: rtw_ch2freq_def rtw_freq2ch_def c_div_def)

subsection \<open>Operating classes\<close>

lemma class_ids_distinct: "distinct (map class_id global_op_class)"
  by code_simp

lemma op_class_valid: "is_valid_global_op_class_ch c ch \<longleftrightarrow> ch \<in> set (ch_list c)"
  by (simp add: is_valid_global_op_class_ch_def ch_index_less)

lemma find_class:
  assumes "c \<in> set global_op_class"
  shows "List.find (\<lambda>d. class_id d = class_id c) global_op_class = Some c"
proof -
  have "distinct (map class_id xs) \<Longrightarrow> c \<in> set xs \<Longrightarrow> List.find (\<lambda>d. class_id d = class_id c) xs = Some c" for xs
    by (induction xs) auto
  then show ?thesis using class_ids_distinct assms by blast
qed

text \<open>The table of classes passes the driver's own self-test, and every channel of a class has a fitting offset.\<close>

definition class_offset :: "op_class_t \<Rightarrow> int \<Rightarrow> int \<Rightarrow> int" where
  "class_offset c ch o' = (if opc_width c = OPC_BW40PLUS then HAL_PRIME_CHNL_OFFSET_LOWER
     else if opc_width c = OPC_BW40MINUS then HAL_PRIME_CHNL_OFFSET_UPPER else o')"

definition class_ok :: "op_class_t \<Rightarrow> bool" where
  "class_ok c \<longleftrightarrow> list_all (\<lambda>ch. case rtw_get_offset_by_chbw ch (opc_bw_to_ch_width (opc_width c)) (class_offset c ch 0) of
       None \<Rightarrow> False
     | Some off \<Rightarrow> (opc_bw_to_ch_width (opc_width c) = CHANNEL_WIDTH_40 \<longrightarrow> off = class_offset c ch 0) \<and> List.member op_channels ch) (ch_list c)"

lemma classes_ok: "list_all class_ok global_op_class" by code_simp

lemma self_test: "list_all dbg_global_op_class_validate [0..<length global_op_class]" by code_simp

lemma sub_classes: "list_all (\<lambda>c. list_all (\<lambda>ch. get_sub_op_class (class_id c) ch \<noteq> -2) (ch_list c)) global_op_class" by code_simp

lemma offset_indep:
  assumes "bw = CHANNEL_WIDTH_20 \<or> bw \<ge> CHANNEL_WIDTH_80"
  shows "rtw_get_offset_by_chbw ch bw x = rtw_get_offset_by_chbw ch bw y"
proof (cases "bw = CHANNEL_WIDTH_20 \<or> ch \<le> 14")
  case True
  then show ?thesis using assms by (auto simp: rtw_get_offset_by_chbw_def)
next
  case False
  then have "\<not> ch \<le> 4" "\<not> ch \<le> 9" by auto
  then show ?thesis unfolding rtw_get_offset_by_chbw_def by simp
qed

text \<open>C30. Operating classes: the class that \<open>rtw_get_op_class_by_chbw\<close> finds for a channel, a bandwidth and an offset gives back, through
  \<open>rtw_get_bw_offset_by_op_class_ch\<close>, the same bandwidth and a fitting offset (for 40 MHz the same offset), whatever the old offset
  held; the class contains the channel and passes the self-test of the debug build; and halving the bandwidth of a class never ends
  in the \<open>logic error\<close> result of \<open>get_sub_op_class\<close>.\<close>

theorem rtw_op_class_roundtrip:
  assumes "rtw_get_op_class_by_chbw ch bw offset = gid" "gid \<noteq> 0"
  shows "\<exists>off c. rtw_get_bw_offset_by_op_class_ch gid ch o' = Some (bw, off) \<and> (bw = CHANNEL_WIDTH_40 \<longrightarrow> off = offset)
    \<and> get_global_op_class_by_id gid = Some c \<and> is_valid_global_op_class_ch c ch \<and> get_sub_op_class gid ch \<noteq> -2
    \<and> (\<exists>i < length global_op_class. global_op_class ! i = c \<and> dbg_global_op_class_validate i)"
proof -
  define band where "band = (if rtw_is_2g_ch ch then BAND_ON_2_4G else if rtw_is_5g_ch ch then BAND_ON_5G else BAND_MAX)"
  obtain c where f: "List.find (op_class_matches band ch bw offset) global_op_class = Some c" and g: "gid = class_id c"
    using assms unfolding rtw_get_op_class_by_chbw_def band_def [symmetric] by (auto simp: Let_def split: if_splits option.splits)
  then have c: "c \<in> set global_op_class" and m: "op_class_matches band ch bw offset c" by (auto simp: find_Some_iff)
  let ?w = "opc_bw_to_ch_width (opc_width c)"
  have w: "?w = bw" and v: "is_valid_global_op_class_ch c ch" using m by (auto simp: op_class_matches_def)
  have "class_ok c" using classes_ok c by (simp add: list_all_iff)
  then obtain off where off: "rtw_get_offset_by_chbw ch bw (class_offset c ch 0) = Some off" "bw = CHANNEL_WIDTH_40 \<longrightarrow> off = class_offset c ch 0"
    "ch \<in> set op_channels"
    using v w unfolding class_ok_def list_all_iff op_class_valid by (fastforce split: option.splits)
  have indep: "rtw_get_offset_by_chbw ch bw (class_offset c ch o') = rtw_get_offset_by_chbw ch bw (class_offset c ch 0)"
  proof (cases "bw = CHANNEL_WIDTH_40")
    case True
    then have "class_offset c ch o' = class_offset c ch 0" using w by (cases "opc_width c") (simp_all add: class_offset_def rf_consts)
    then show ?thesis by simp
  next
    case False
    then have "bw = CHANNEL_WIDTH_20 \<or> bw \<ge> CHANNEL_WIDTH_80" using w by (cases "opc_width c") (auto simp: rf_consts)
    then show ?thesis by (rule offset_indep)
  qed
  have o40: "bw = CHANNEL_WIDTH_40 \<longrightarrow> off = offset"
    using off(2) m w by (cases "opc_width c") (auto simp: op_class_matches_def class_offset_def rf_consts)
  have "get_global_op_class_by_id gid = Some c" "get_global_opc_bw_by_id gid = Some (opc_width c)"
    using find_class [OF c] g by (simp_all add: get_global_op_class_by_id_def get_global_opc_bw_by_id_def)
  moreover from this(2) have "rtw_get_bw_offset_by_op_class_ch gid ch o' = Some (bw, off)"
    using indep off(1) w by (simp add: rtw_get_bw_offset_by_op_class_ch_def Let_def class_offset_def)
  moreover have "get_sub_op_class gid ch \<noteq> -2" using sub_classes c v g by (simp add: list_all_iff op_class_valid)
  moreover obtain i where "i < length global_op_class" "global_op_class ! i = c" using c by (auto simp: in_set_conv_nth)
  ultimately show ?thesis using o40 v self_test by (auto simp: list_all_iff)
qed

theorem rtw_op_class_roundtrip_witness:
  "\<exists>off. rtw_get_bw_offset_by_op_class_ch 126 157 9 = Some (CHANNEL_WIDTH_40, off) \<and> off = HAL_PRIME_CHNL_OFFSET_LOWER"
proof -
  have h: "rtw_get_op_class_by_chbw 157 CHANNEL_WIDTH_40 HAL_PRIME_CHNL_OFFSET_LOWER = 126" by code_simp
  show ?thesis using rtw_op_class_roundtrip [OF h, of 9] by auto
qed

subsection \<open>Antenna paths\<close>

lemma path_cnt_filter: "path_cnt bmp = length (filter (bit bmp) [0..<RF_PATH_MAX])"
proof -
  have "fold (\<lambda>i n. if bit bmp i then n + 1 else n) xs n = n + length (filter (bit bmp) xs)" for xs n
    by (induction xs arbitrary: n) auto
  then show ?thesis by (simp add: path_cnt_def)
qed

lemma clear_bit: "bit (bmp AND NOT (2 ^ i)) k \<longleftrightarrow> bit bmp k \<and> k \<noteq> i" for bmp :: u8
  by (auto simp: bit_simps dest: bit_imp_le_length)

lemma limit_loop_subset: "bit (fst (limit_loop i bmp cnt lmt)) k \<Longrightarrow> bit bmp k"
  by (induction i bmp cnt lmt rule: limit_loop.induct) (auto simp: clear_bit split: if_splits)

lemma limit_loop_keeps: "i \<le> k \<Longrightarrow> bit (fst (limit_loop i bmp cnt lmt)) k \<longleftrightarrow> bit bmp k"
  by (induction i bmp cnt lmt rule: limit_loop.induct) (auto simp: clear_bit)

text \<open>The loop clears just as many paths as the count exceeds the limit, and afterwards the count is that of the bitmap again.\<close>

lemma limit_loop_count:
  assumes "cnt - lmt \<le> length (filter (bit bmp) [0..<i])"
  shows "snd (limit_loop i bmp cnt lmt) = min cnt lmt"
    "length (filter (bit (fst (limit_loop i bmp cnt lmt))) [0..<i]) = length (filter (bit bmp) [0..<i]) - (cnt - lmt)"
  using assms
proof (induction i bmp cnt lmt rule: limit_loop.induct)
  case (2 i bmp cnt lmt)
  have eq: "filter (bit (bmp AND NOT (2 ^ i))) [0..<i] = filter (bit bmp) [0..<i]"
    by (rule filter_cong) (auto simp: clear_bit)
  have eq': "filter (\<lambda>a. bit bmp a \<and> a \<noteq> i) [0..<i] = filter (bit bmp) [0..<i]" by (rule filter_cong) auto
  {
    case 1
    then show ?case using 2(1,3) eq by (auto simp: min_def)
  next
    case 2
    then show ?case using "2.IH"(2,4) eq' by (auto simp: limit_loop_keeps clear_bit)
  }
qed auto

lemma limit_from_higher:
  assumes "rtw_path_bmp_limit_from_higher bmp (path_cnt bmp) lmt = (bmp', cnt')"
  shows "cnt' = min (path_cnt bmp) lmt" "path_cnt bmp' = cnt'" "bit bmp' k \<Longrightarrow> bit bmp k"
  using assms limit_loop_count [of "path_cnt bmp" lmt bmp RF_PATH_MAX] limit_loop_subset [of RF_PATH_MAX bmp "path_cnt bmp" lmt k]
  by (auto simp: rtw_path_bmp_limit_from_higher_def path_cnt_filter)

lemma trx_tries_first:
  assumes "0 < tx" "tx \<le> RF_PATH_MAX" "0 < rx" "rx \<le> RF_PATH_MAX"
  shows "List.find (\<lambda>(i, j). trx_num_to_rf_type i j \<noteq> None) (trx_tries tx rx) = Some (tx, rx)"
proof -
  obtain t r where "tx = Suc t" "rx = Suc r" using assms(1,3) gr0_implies_Suc by blast
  then show ?thesis using assms by (simp add: trx_tries_def trx_num_to_rf_type_def)
qed

lemma path_cnt_le: "path_cnt bmp \<le> RF_PATH_MAX"
  using length_filter_le [of "bit bmp" "[0..<RF_PATH_MAX]"] by (simp add: path_cnt_filter)

declare nss_paths.simps [simp del]

text \<open>Only configured paths are used for any number of streams.\<close>

lemma nss_paths_sub:
  assumes "bit (nss_paths j lim txpath cnt acc) k" "\<not> bit acc k"
  shows "bit txpath k"
  using assms
proof (induction j lim txpath cnt acc rule: nss_paths.induct)
  case (1 j lim txpath cnt acc)
  then show ?case by (subst (asm) (3) nss_paths.simps) (auto simp: Let_def bit_simps split: if_splits)
qed

text \<open>A bitmap with a path in each direction keeps, under limits that are not zero, at most the limit of each direction and exactly as
  many as are there when the limit allows: the counts that are written are those of the two halves of the result.\<close>

lemma rtw_restrict_trx_path_bmp:
  assumes "0 < path_cnt (drop_bit 4 (b AND 0xF0))" "0 < path_cnt (b AND 0x0F)" "0 < tlmt" "0 < rlmt"
  obtains t r where "rtw_restrict_trx_path_bmp_by_trx_num_lmt b tlmt rlmt =
      (push_bit 4 t OR r, Some (min (path_cnt (drop_bit 4 (b AND 0xF0))) tlmt, min (path_cnt (b AND 0x0F)) rlmt))"
    "path_cnt t = min (path_cnt (drop_bit 4 (b AND 0xF0))) tlmt" "path_cnt r = min (path_cnt (b AND 0x0F)) rlmt"
    "\<And>k. bit t k \<Longrightarrow> bit (drop_bit 4 (b AND 0xF0)) k" "\<And>k. bit r k \<Longrightarrow> bit (b AND 0x0F) k"
proof -
  let ?T = "drop_bit 4 (b AND 0xF0)" and ?R = "b AND 0x0F"
  obtain t nt where t: "rtw_path_bmp_limit_from_higher ?T (path_cnt ?T) tlmt = (t, nt)" by (metis surj_pair)
  obtain r nr where r: "rtw_path_bmp_limit_from_higher ?R (path_cnt ?R) rlmt = (r, nr)" by (metis surj_pair)
  note T = limit_from_higher [OF t] and R = limit_from_higher [OF r]
  have nt: "nt = min (path_cnt ?T) tlmt" "path_cnt t = nt" and nr: "nr = min (path_cnt ?R) rlmt" "path_cnt r = nr" using T(1,2) R(1,2) by auto
  have stay: "rtw_path_bmp_limit_from_higher x n n = (x, n)" for x n by (simp add: rtw_path_bmp_limit_from_higher_def RF_PATH_MAX_def numeral_eq_Suc)
  have f: "List.find (\<lambda>(i, j). trx_num_to_rf_type i j \<noteq> None) (trx_tries nt nr) = Some (nt, nr)"
    using assms nt(1) nr(1) path_cnt_le [of ?T] path_cnt_le [of ?R] by (intro trx_tries_first) auto
  have "rtw_restrict_trx_path_bmp_by_trx_num_lmt b tlmt rlmt = (push_bit 4 t OR r, Some (nt, nr))"
    unfolding rtw_restrict_trx_path_bmp_by_trx_num_lmt_def using assms(3,4) t r f stay by (simp add: Let_def)
  then show thesis using that nt nr T(3) R(3) by metis
qed

end
