(* ===== verification/Hw_Cam.thy ===== *)
theory Hw_Cam
  imports Sta_Table
begin

text \<open>
  The key table of the chip (the security CAM) and the MAC ids, as \<^verbatim>\<open>core/rtw_wlan_util.c\<close> and \<^verbatim>\<open>hal/hal_com.c\<close> manage
  them: bitmaps of used entries, the cache of the CAM in the driver, allocation, search and exchange of entries, the CAM
  entry format; allocation and release of MAC ids, and the counters of connected ids per role.

  The chip's memory is the function \<open>hw_cam\<close> from word addresses to words; a read returns the word last written there (the
  polling of the command register is left out). An access outside \<open>cam_cache\<close> or behind a key buffer is \<open>None\<close>. The build
  has \<open>MACID_NUM_SW_LIMIT\<close> and \<open>SEC_CAM_ENT_NUM_SW_LIMIT\<close> 32, so that a bitmap is its word \<open>m0\<close>, and
  \<open>SEC_DEFAULT_KEY_SEARCH\<close> and \<open>CONFIG_MCC_MODE\<close> are off; \<open>rtw_warn_on\<close> is log output.
\<close>

definition SEC_CAM_ENT_NUM_SW_LIMIT :: nat where "SEC_CAM_ENT_NUM_SW_LIMIT = 32"
definition MACID_NUM_SW_LIMIT :: nat where "MACID_NUM_SW_LIMIT = 32"
definition INVALID_SEC_MAC_CAM_ID :: nat where "INVALID_SEC_MAC_CAM_ID = 0xFF"
definition RTW_DEFAULT_MGMT_MACID :: nat where "RTW_DEFAULT_MGMT_MACID = 1"
definition SEC_CAP_CHK_BMC :: u8 where "SEC_CAP_CHK_BMC = 1"
definition SEC_CAP_CHK_EXTRA_SEC :: u8 where "SEC_CAP_CHK_EXTRA_SEC = 2"
definition SEC_CAP_CHK_WRITE_CAM_NEW_RULE :: u8 where "SEC_CAP_CHK_WRITE_CAM_NEW_RULE = 4"

record sec_cam_ent =
  cam_ctrl :: u16
  cam_mac :: buf
  cam_key :: buf

record macid_ctl_t =
  macid_num :: nat
  macid_used :: u32
  macid_bmc :: u32
  if_g :: "u32 list"
  ch_g :: "u32 list"
  iface_bmc :: "nat list"
  h2c_msr :: "u8 list"
  macid_bw :: "u8 list"
  vht_en :: "u8 list"
  rate_bmp0 :: "u32 list"
  rate_bmp1 :: "u32 list"
  op_num :: "u8 list"
  macid_sta :: "nat option list"

record dvobj_priv =
  sec_cap :: u8
  cam_flags :: u32
  cam_num :: nat
  cam_used :: u32
  cam_cache :: "sec_cam_ent list"
  hw_cam :: "nat \<Rightarrow> u32"
  macid_ctl :: macid_ctl_t

subsection \<open>Bitmaps of 32 ids\<close>

definition rtw_sec_camid_is_set :: "u32 \<Rightarrow> nat \<Rightarrow> bool" where
  "rtw_sec_camid_is_set m i = (if i < 32 then bit m i else False)"

definition rtw_sec_cam_map_set :: "u32 \<Rightarrow> nat \<Rightarrow> u32" where
  "rtw_sec_cam_map_set m i = (if i < 32 then m OR push_bit i 1 else m)"

definition rtw_sec_cam_map_clr :: "u32 \<Rightarrow> nat \<Rightarrow> u32" where
  "rtw_sec_cam_map_clr m i = (if i < 32 then m AND NOT (push_bit i 1) else m)"

definition rtw_sec_cam_map_clr_all :: "u32 \<Rightarrow> u32" where
  "rtw_sec_cam_map_clr_all m = 0"

definition rtw_macid_is_set :: "u32 \<Rightarrow> nat \<Rightarrow> bool" where
  "rtw_macid_is_set m i = (if i < 32 then bit m i else False)"

definition rtw_macid_map_set :: "u32 \<Rightarrow> nat \<Rightarrow> u32" where
  "rtw_macid_map_set m i = (if i < 32 then m OR push_bit i 1 else m)"

definition rtw_macid_map_clr :: "u32 \<Rightarrow> nat \<Rightarrow> u32" where
  "rtw_macid_map_clr m i = (if i < 32 then m AND NOT (push_bit i 1) else m)"

subsection \<open>The memory of the chip\<close>

definition cam_le32 :: "u8 \<Rightarrow> u8 \<Rightarrow> u8 \<Rightarrow> u8 \<Rightarrow> u32" where
  "cam_le32 a b c d = ucast a OR push_bit 8 (ucast b) OR push_bit 16 (ucast c) OR push_bit 24 (ucast d)"

definition cam_le32_bytes :: "u32 \<Rightarrow> buf" where
  "cam_le32_bytes v = [ucast v, ucast (drop_bit 8 v), ucast (drop_bit 16 v), ucast (drop_bit 24 v)]"

definition rtw_sec_write_cam :: "nat \<Rightarrow> u32 \<Rightarrow> (nat \<Rightarrow> u32) \<Rightarrow> nat \<Rightarrow> u32" where
  "rtw_sec_write_cam addr wdata hw = hw(addr := wdata)"

definition rtw_sec_read_cam :: "(nat \<Rightarrow> u32) \<Rightarrow> nat \<Rightarrow> u32" where
  "rtw_sec_read_cam hw addr = hw addr"

definition cam_wdata :: "u16 \<Rightarrow> buf \<Rightarrow> buf \<Rightarrow> nat \<Rightarrow> u32" where
  "cam_wdata ctrl mac key j =
     (if j = 0 then ucast ctrl OR push_bit 16 (ucast (mac ! 0)) OR push_bit 24 (ucast (mac ! 1))
      else if j = 1 then cam_le32 (mac ! 2) (mac ! 3) (mac ! 4) (mac ! 5)
      else if j = 6 \<or> j = 7 then 0
      else let i = (j - 2) * 4 in cam_le32 (key ! i) (key ! (i + 1)) (key ! (i + 2)) (key ! (i + 3)))"

text \<open>The words are written from the last to the first, so that the valid bit comes last; \<open>addr\<close> is a byte.\<close>

definition rtw_sec_write_cam_ent :: "(nat \<Rightarrow> u32) \<Rightarrow> nat \<Rightarrow> u16 \<Rightarrow> buf \<Rightarrow> buf \<Rightarrow> (nat \<Rightarrow> u32) option" where
  "rtw_sec_write_cam_ent hw i ctrl mac key =
     (if length mac < 6 \<or> length key < 16 then None
      else Some (fold (\<lambda>j. rtw_sec_write_cam ((i * 8 + j) mod 256) (cam_wdata ctrl mac key j)) (rev [0..<8]) hw))"

definition rtw_sec_clr_cam_ent :: "(nat \<Rightarrow> u32) \<Rightarrow> nat \<Rightarrow> nat \<Rightarrow> u32" where
  "rtw_sec_clr_cam_ent hw i = rtw_sec_write_cam ((i * 8) mod 256) 0 hw"

text \<open>The three flags say which of the pointers \<open>ctrl\<close>, \<open>mac\<close> and \<open>key\<close> are not \<open>NULL\<close>; the results are the bytes copied to each.\<close>

definition read_cam_word :: "bool \<Rightarrow> bool \<Rightarrow> bool \<Rightarrow> nat \<Rightarrow> buf \<Rightarrow> buf \<times> buf \<times> buf \<Rightarrow> buf \<times> buf \<times> buf" where
  "read_cam_word wc wm wk i r = (\<lambda>(c, m, k).
     if i = 0 then (if wc then c @ take 2 r else c, if wm then m @ take 2 (drop 2 r) else m, k)
     else if i = 1 then (c, if wm then m @ r else m, k)
     else (c, m, if wk then k @ r else k))"

definition rtw_sec_read_cam_ent :: "(nat \<Rightarrow> u32) \<Rightarrow> nat \<Rightarrow> bool \<Rightarrow> bool \<Rightarrow> bool \<Rightarrow> buf \<times> buf \<times> buf" where
  "rtw_sec_read_cam_ent hw i wc wm wk =
     (if \<not> wc \<and> \<not> wm \<and> \<not> wk then ([], [], [])
      else let begin = (if \<not> wc \<and> \<not> wm then 2 else 0);
               end = (if \<not> wk \<and> \<not> wm then 0 else if \<not> wk then 2 else 5) in
        fold (\<lambda>j. read_cam_word wc wm wk j (cam_le32_bytes (rtw_sec_read_cam hw ((i * 8) mod 256 OR j)))) [begin..<end + 1] ([], [], []))"

definition rtw_sec_read_cam_is_gk :: "(nat \<Rightarrow> u32) \<Rightarrow> nat \<Rightarrow> bool" where
  "rtw_sec_read_cam_is_gk hw i = (let (c, _, _) = rtw_sec_read_cam_ent hw i True False False in bit (be16 (c ! 1) (c ! 0)) 6)"

subsection \<open>The cache of the key table\<close>

definition null_ent :: sec_cam_ent where
  "null_ent = \<lparr>cam_ctrl = 0, cam_mac = replicate 6 0, cam_key = replicate 16 0\<rparr>"

definition write_cam_cache :: "dvobj_priv \<Rightarrow> nat \<Rightarrow> u16 \<Rightarrow> buf \<Rightarrow> buf \<Rightarrow> dvobj_priv option" where
  "write_cam_cache d i ctrl mac key =
     (if i < length (cam_cache d) \<and> 6 \<le> length mac \<and> 16 \<le> length key
      then Some (d\<lparr>cam_cache := (cam_cache d)[i := \<lparr>cam_ctrl = ctrl, cam_mac = take 6 mac, cam_key = take 16 key\<rparr>]\<rparr>)
      else None)"

definition clear_cam_cache :: "dvobj_priv \<Rightarrow> nat \<Rightarrow> dvobj_priv option" where
  "clear_cam_cache d i = (if i < length (cam_cache d) then Some (d\<lparr>cam_cache := (cam_cache d)[i := null_ent]\<rparr>) else None)"

definition clear_cam_entry_hw :: "dvobj_priv \<Rightarrow> nat \<Rightarrow> dvobj_priv option" where
  "clear_cam_entry_hw d i =
     do { hw \<leftarrow> rtw_sec_write_cam_ent (hw_cam d) i 0 (replicate 6 0) (replicate 32 0); Some (d\<lparr>hw_cam := hw\<rparr>) }"

definition write_cam_ent :: "dvobj_priv \<Rightarrow> nat \<Rightarrow> u16 \<Rightarrow> buf \<Rightarrow> buf \<Rightarrow> dvobj_priv option" where
  "write_cam_ent d i ctrl mac key =
     do { hw \<leftarrow> rtw_sec_write_cam_ent (hw_cam d) i ctrl mac key; write_cam_cache (d\<lparr>hw_cam := hw\<rparr>) i ctrl mac key }"

text \<open>A key of 256 bits (bit 9) takes two entries.\<close>

definition write_cam :: "dvobj_priv \<Rightarrow> nat \<Rightarrow> u16 \<Rightarrow> buf \<Rightarrow> buf \<Rightarrow> dvobj_priv option" where
  "write_cam d i ctrl mac key =
     (if bit ctrl 9 then
        do { d \<leftarrow> write_cam_ent d i ctrl mac key;
             write_cam_ent d ((i + 1) mod 256) (ctrl OR push_bit 5 1) mac (drop 16 key) }
      else write_cam_ent d i ctrl mac key)"

definition clear_cam_entry :: "dvobj_priv \<Rightarrow> nat \<Rightarrow> dvobj_priv option" where
  "clear_cam_entry d i = do { d \<leftarrow> clear_cam_entry_hw d i; clear_cam_cache d i }"

definition write_cam_from_cache :: "dvobj_priv \<Rightarrow> nat \<Rightarrow> dvobj_priv option" where
  "write_cam_from_cache d i =
     (if i < length (cam_cache d) then
        let c = cam_cache d ! i in
        do { hw \<leftarrow> rtw_sec_write_cam_ent (hw_cam d) i (cam_ctrl c) (cam_mac c) (cam_key c); Some (d\<lparr>hw_cam := hw\<rparr>) }
      else None)"

definition rtw_camctl_chk_cap :: "dvobj_priv \<Rightarrow> u8 \<Rightarrow> bool" where
  "rtw_camctl_chk_cap d cap \<longleftrightarrow> sec_cap d AND cap \<noteq> 0"

definition rtw_camctl_set_flags :: "dvobj_priv \<Rightarrow> u32 \<Rightarrow> dvobj_priv" where
  "rtw_camctl_set_flags d flags = d\<lparr>cam_flags := cam_flags d OR flags\<rparr>"

definition rtw_camctl_clr_flags :: "dvobj_priv \<Rightarrow> u32 \<Rightarrow> dvobj_priv" where
  "rtw_camctl_clr_flags d flags = d\<lparr>cam_flags := cam_flags d AND NOT flags\<rparr>"

definition rtw_camctl_chk_flags :: "dvobj_priv \<Rightarrow> u32 \<Rightarrow> bool" where
  "rtw_camctl_chk_flags d flags \<longleftrightarrow> cam_flags d AND flags \<noteq> 0"

subsection \<open>Entries of the key table\<close>

definition rtw_sec_camid_is_drv_forbid :: "nat \<Rightarrow> bool" where
  "rtw_sec_camid_is_drv_forbid i = (if i < 32 then bit (0x00000ff0 :: u32) i else True)"

definition rtw_sec_camid_is_used :: "dvobj_priv \<Rightarrow> nat \<Rightarrow> bool" where
  "rtw_sec_camid_is_used d i = (if i \<ge> cam_num d then False else rtw_sec_camid_is_set (cam_used d) i)"

fun sec_camid_loop :: "dvobj_priv \<Rightarrow> nat \<Rightarrow> nat list \<Rightarrow> nat list \<Rightarrow> nat list" where
  "sec_camid_loop d max_bk_key_num [] acc = acc"
| "sec_camid_loop d max_bk_key_num (i # is) acc =
     (if rtw_sec_camid_is_used d i then
        let acc = acc @ [i] in if length acc = max_bk_key_num then acc else sec_camid_loop d max_bk_key_num is acc
      else sec_camid_loop d max_bk_key_num is acc)"

definition rtw_get_sec_camid :: "dvobj_priv \<Rightarrow> nat \<Rightarrow> nat list" where
  "rtw_get_sec_camid d max_bk_key_num = sec_camid_loop d max_bk_key_num [0..<cam_num d] []"

definition rtw_camid_is_gk :: "dvobj_priv \<Rightarrow> nat \<Rightarrow> bool" where
  "rtw_camid_is_gk d i =
     (if i \<ge> cam_num d then False else if \<not> rtw_sec_camid_is_used d i then False else bit (cam_ctrl (cam_cache d ! i)) 6)"

text \<open>An address \<open>None\<close> is \<open>NULL\<close>; a negative key id and a \<open>gk\<close> of \<open>-1\<close> match everything.\<close>

definition cam_cache_chk :: "dvobj_priv \<Rightarrow> nat \<Rightarrow> buf option \<Rightarrow> int \<Rightarrow> int \<Rightarrow> bool" where
  "cam_cache_chk d i addr kid gk =
     (if (case addr of None \<Rightarrow> False | Some a \<Rightarrow> cam_mac (cam_cache d ! i) \<noteq> a) then False
      else if kid \<ge> 0 \<and> kid \<noteq> uint (cam_ctrl (cam_cache d ! i) AND 3) then False
      else if gk \<noteq> -1 \<and> (gk \<noteq> 0) \<noteq> rtw_camid_is_gk d i then False
      else True)"

definition rtw_camid_search :: "dvobj_priv \<Rightarrow> buf option \<Rightarrow> int \<Rightarrow> int \<Rightarrow> nat option" where
  "rtw_camid_search d addr kid gk = List.find (\<lambda>i. cam_cache_chk d i addr kid gk) [0..<cam_num d]"

text \<open>\<open>start_id\<close> is 0 at every call.\<close>

definition rtw_get_camid :: "dvobj_priv \<Rightarrow> buf option \<Rightarrow> int \<Rightarrow> u8 \<Rightarrow> bool \<Rightarrow> nat option" where
  "rtw_get_camid d addr kid gk ext_sec =
     (if addr = None then None
      else case (if rtw_camctl_chk_cap d SEC_CAP_CHK_BMC then rtw_camid_search d addr kid (sint gk) else rtw_camid_search d addr kid (-1)) of
             Some i \<Rightarrow> Some i
           | None \<Rightarrow> List.find (\<lambda>i. \<not> rtw_sec_camid_is_used d i \<and>
                 (ext_sec \<longrightarrow> i + 1 < cam_num d \<and> \<not> rtw_sec_camid_is_used d (i + 1))) [0..<cam_num d])"

text \<open>What the key functions read of the adapter: its state (\<open>mlmext_info.state\<close>), its address, the BSSID, the number of the interface,
  whether the MLME state is station or null, and what the chip makes of its key memory when told to invalidate all of it.\<close>

record key_env =
  key_state :: u32
  key_mac :: buf
  key_bssid :: buf
  iface_id :: nat
  mlme_sta_or_null :: bool
  hw_invalidate :: "(nat \<Rightarrow> u32) \<Rightarrow> nat \<Rightarrow> u32"

definition WIFI_FW_STATION_STATE :: u32 where "WIFI_FW_STATION_STATE = 2"
definition WIFI_FW_AP_STATE :: u32 where "WIFI_FW_AP_STATE = 3"
definition WIFI_FW_ADHOC_STATE :: u32 where "WIFI_FW_ADHOC_STATE = 1"
definition WIFI_FW_ASSOC_SUCCESS :: u32 where "WIFI_FW_ASSOC_SUCCESS = 0x00004000"

definition ap_or_adhoc :: "key_env \<Rightarrow> bool" where
  "ap_or_adhoc e \<longleftrightarrow> key_state e AND 3 = WIFI_FW_AP_STATE \<or> key_state e AND 3 = WIFI_FW_ADHOC_STATE"

text \<open>\<open>sta\<close> is the address of the station, if one is given; the results are the entry, \<open>*used\<close> and the new state.\<close>

definition rtw_camid_alloc :: "key_env \<Rightarrow> dvobj_priv \<Rightarrow> buf option \<Rightarrow> u8 \<Rightarrow> u8 \<Rightarrow> bool \<Rightarrow> nat option \<times> bool \<times> dvobj_priv" where
  "rtw_camid_alloc e d sta kid gk ext_sec =
     (let cam_id = (if ap_or_adhoc e \<and> sta = None then rtw_get_camid d (Some (key_mac e)) (uint kid) gk ext_sec
                    else if sta = None then
                      if key_state e AND WIFI_FW_ASSOC_SUCCESS = 0 then None
                      else rtw_get_camid d (Some (key_bssid e)) (uint kid) gk ext_sec
                    else rtw_get_camid d sta (uint kid) gk ext_sec) in
      case cam_id of
        None \<Rightarrow> (None, False, d)
      | Some i \<Rightarrow>
          let used = rtw_sec_camid_is_used d i;
              m = rtw_sec_cam_map_set (cam_used d) i;
              m = (if ext_sec then rtw_sec_cam_map_set m (i + 1) else m) in
          (Some i, used, d\<lparr>cam_used := m\<rparr>))"

definition rtw_camid_set :: "dvobj_priv \<Rightarrow> nat \<Rightarrow> dvobj_priv" where
  "rtw_camid_set d i = (if i < cam_num d then d\<lparr>cam_used := rtw_sec_cam_map_set (cam_used d) i\<rparr> else d)"

definition rtw_camid_free :: "dvobj_priv \<Rightarrow> nat \<Rightarrow> dvobj_priv" where
  "rtw_camid_free d i = (if i < cam_num d then d\<lparr>cam_used := rtw_sec_cam_map_clr (cam_used d) i\<rparr> else d)"

text \<open>\<open>rtw_mi_update_ap_bmc_camid\<close> is empty without \<open>CONFIG_CONCURRENT_MODE\<close>.\<close>

definition rtw_sec_cam_swap :: "dvobj_priv \<Rightarrow> nat \<Rightarrow> nat \<Rightarrow> dvobj_priv option" where
  "rtw_sec_cam_swap d a b =
     (if a = b then Some d
      else let a_used = rtw_sec_camid_is_used d a; b_used = rtw_sec_camid_is_used d b;
               cache_a = cam_cache d ! a; cache_b = cam_cache d ! b in
        do { d \<leftarrow> (if a_used then clear_cam_entry (rtw_camid_free d a) a else Some d);
             d \<leftarrow> (if b_used then clear_cam_entry (rtw_camid_free d b) b else Some d);
             d \<leftarrow> (if a_used then map_option (\<lambda>d. rtw_camid_set d b) (write_cam d b (cam_ctrl cache_a) (cam_mac cache_a) (cam_key cache_a)) else Some d);
             if b_used then map_option (\<lambda>d. rtw_camid_set d a) (write_cam d a (cam_ctrl cache_b) (cam_mac cache_b) (cam_key cache_b)) else Some d })"

definition rtw_get_empty_cam_entry :: "dvobj_priv \<Rightarrow> nat \<Rightarrow> nat option" where
  "rtw_get_empty_cam_entry d start_camid = List.find (\<lambda>i. \<not> rtw_sec_camid_is_used d i) [start_camid..<cam_num d]"

fun clean_dk_loop :: "nat list \<Rightarrow> dvobj_priv \<Rightarrow> dvobj_priv option" where
  "clean_dk_loop [] d = Some d"
| "clean_dk_loop (i # is) d =
     (if rtw_sec_camid_is_used d i then
        case rtw_get_empty_cam_entry d 4 of
          Some j \<Rightarrow> do { d \<leftarrow> rtw_sec_cam_swap d i j; clean_dk_loop is d }
        | None \<Rightarrow> clean_dk_loop is d
      else clean_dk_loop is d)"

definition rtw_clean_dk_section :: "dvobj_priv \<Rightarrow> dvobj_priv option" where
  "rtw_clean_dk_section d = clean_dk_loop [0..<4] d"

definition clean_hw_dk :: "nat \<Rightarrow> dvobj_priv \<Rightarrow> dvobj_priv option" where
  "clean_hw_dk i d =
     (if rtw_camctl_chk_cap d SEC_CAP_CHK_WRITE_CAM_NEW_RULE then clear_cam_entry_hw d i
      else Some (d\<lparr>hw_cam := rtw_sec_clr_cam_ent (hw_cam d) i\<rparr>))"

definition rtw_clean_hw_dk_cam :: "dvobj_priv \<Rightarrow> dvobj_priv option" where
  "rtw_clean_hw_dk_cam d = fold (\<lambda>i r. do { d \<leftarrow> r; clean_hw_dk i d }) [0..<4] (Some d)"

subsection \<open>MAC ids\<close>

definition rtw_macid_is_used :: "macid_ctl_t \<Rightarrow> nat \<Rightarrow> bool" where
  "rtw_macid_is_used c i = rtw_macid_is_set (macid_used c) i"

definition rtw_macid_is_bmc :: "macid_ctl_t \<Rightarrow> nat \<Rightarrow> bool" where
  "rtw_macid_is_bmc c i = rtw_macid_is_set (macid_bmc c) i"

definition rtw_macid_get_iface_bmp :: "macid_ctl_t \<Rightarrow> nat \<Rightarrow> u8" where
  "rtw_macid_get_iface_bmp c i =
     fold (\<lambda>n bmp. if rtw_macid_is_set (if_g c ! n) i then bmp OR push_bit n 1 else bmp) [0..<length (if_g c)] 0"

fun iface_shared_loop :: "u32 list \<Rightarrow> nat \<Rightarrow> bool \<Rightarrow> bool" where
  "iface_shared_loop [] i found = False"
| "iface_shared_loop (g # gs) i found =
     (if rtw_macid_is_set g i then if found then True else iface_shared_loop gs i True else iface_shared_loop gs i found)"

definition rtw_macid_is_iface_shared :: "macid_ctl_t \<Rightarrow> nat \<Rightarrow> bool" where
  "rtw_macid_is_iface_shared c i = (if length (if_g c) \<ge> 2 then iface_shared_loop (if_g c) i False else False)"

fun iface_specific_loop :: "nat \<Rightarrow> u32 list \<Rightarrow> nat \<Rightarrow> nat \<Rightarrow> bool \<Rightarrow> bool" where
  "iface_specific_loop n [] i ifid found = found"
| "iface_specific_loop n (g # gs) i ifid found =
     (if rtw_macid_is_set g i then if found \<or> n \<noteq> ifid then False else iface_specific_loop (n + 1) gs i ifid True
      else iface_specific_loop (n + 1) gs i ifid found)"

definition rtw_macid_is_iface_specific :: "macid_ctl_t \<Rightarrow> nat \<Rightarrow> nat \<Rightarrow> bool" where
  "rtw_macid_is_iface_specific c i ifid = iface_specific_loop 0 (if_g c) i ifid False"

definition rtw_macid_get_ch_g :: "macid_ctl_t \<Rightarrow> nat \<Rightarrow> nat option" where
  "rtw_macid_get_ch_g c i = List.find (\<lambda>n. rtw_macid_is_set (ch_g c ! n) i) [0..<2]"

definition rtw_iface_bcmc_id_set :: "key_env \<Rightarrow> nat \<Rightarrow> macid_ctl_t \<Rightarrow> macid_ctl_t" where
  "rtw_iface_bcmc_id_set e i c = c\<lparr>iface_bmc := (iface_bmc c)[iface_id e := i]\<rparr>"

definition rtw_iface_bcmc_id_get :: "key_env \<Rightarrow> macid_ctl_t \<Rightarrow> nat" where
  "rtw_iface_bcmc_id_get e c = iface_bmc c ! iface_id e"

definition invalidate_cam_all :: "key_env \<Rightarrow> dvobj_priv \<Rightarrow> dvobj_priv" where
  "invalidate_cam_all e d =
     (let bmc_id = rtw_iface_bcmc_id_get e (macid_ctl d);
          m = rtw_sec_cam_map_clr_all (cam_used d);
          m = (if bmc_id \<noteq> INVALID_SEC_MAC_CAM_ID then
                 let m = rtw_sec_cam_map_set m bmc_id in
                 if rtw_camctl_chk_cap d SEC_CAP_CHK_EXTRA_SEC then rtw_sec_cam_map_set m (bmc_id + 1) else m
               else m) in
      d\<lparr>hw_cam := hw_invalidate e (hw_cam d), cam_used := m, cam_cache := replicate SEC_CAM_ENT_NUM_SW_LIMIT null_ent\<rparr>)"

text \<open>Without \<open>CONFIG_CONCURRENT_MODE\<close> the flush is the invalidation.\<close>

definition flush_all_cam_entry :: "key_env \<Rightarrow> dvobj_priv \<Rightarrow> dvobj_priv" where
  "flush_all_cam_entry e d = invalidate_cam_all e d"

text \<open>The loop over the ids (\<open>last_id\<close> is 0): entries of the key table that are in use are no candidates for the group station.\<close>

definition macid_candidate :: "dvobj_priv \<Rightarrow> bool \<Rightarrow> nat option" where
  "macid_candidate d is_bc_sta =
     List.find (\<lambda>i. \<not> (is_bc_sta \<and> rtw_sec_camid_is_used d i) \<and> \<not> rtw_macid_is_used (macid_ctl d) i) [0..<macid_num (macid_ctl d)]"

text \<open>\<open>addr\<close> and \<open>psta\<close> are address and index of the station; the first result is its new \<open>mac_id\<close>.\<close>

definition rtw_alloc_macid :: "key_env \<Rightarrow> dvobj_priv \<Rightarrow> buf \<Rightarrow> nat \<Rightarrow> nat \<times> dvobj_priv" where
  "rtw_alloc_macid e d addr psta =
     (if addr = key_mac e then (macid_num (macid_ctl d), d)
      else let is_bc_sta = (addr = bc_addr);
               d = (if is_bc_sta then d\<lparr>macid_ctl := rtw_iface_bcmc_id_set e INVALID_SEC_MAC_CAM_ID (macid_ctl d)\<rparr> else d) in
        if is_bc_sta \<and> mlme_sta_or_null e then (RTW_DEFAULT_MGMT_MACID, d)
        else case macid_candidate d is_bc_sta of
               None \<Rightarrow> (macid_num (macid_ctl d), d)
             | Some i \<Rightarrow>
                 let c = macid_ctl d; c = c\<lparr>macid_used := rtw_macid_map_set (macid_used c) i\<rparr>;
                     c = (if is_bc_sta then rtw_iface_bcmc_id_set e i (c\<lparr>macid_bmc := rtw_macid_map_set (macid_bmc c) i\<rparr>) else c);
                     m = (if is_bc_sta then
                            let m = rtw_sec_cam_map_set (cam_used d) i in
                            if rtw_camctl_chk_cap d SEC_CAP_CHK_EXTRA_SEC then rtw_sec_cam_map_set m (i + 1) else m
                          else cam_used d);
                     c = c\<lparr>if_g := (if_g c)[iface_id e := rtw_macid_map_set (if_g c ! iface_id e) i],
                           macid_sta := (macid_sta c)[i := Some psta]\<rparr> in
                 (i, d\<lparr>cam_used := m, macid_ctl := c\<rparr>))"

definition release_bmc_cam :: "key_env \<Rightarrow> dvobj_priv \<Rightarrow> dvobj_priv" where
  "release_bmc_cam e d =
     (let i = rtw_iface_bcmc_id_get e (macid_ctl d);
          m = (if i \<noteq> INVALID_SEC_MAC_CAM_ID \<and> i < cam_num d then
                 let m = rtw_sec_cam_map_clr (cam_used d) i in
                 if rtw_camctl_chk_cap d SEC_CAP_CHK_EXTRA_SEC then rtw_sec_cam_map_clr m (i + 1) else m
               else cam_used d) in
      d\<lparr>cam_used := m, macid_ctl := rtw_iface_bcmc_id_set e INVALID_SEC_MAC_CAM_ID (macid_ctl d)\<rparr>)"

definition release_id :: "key_env \<Rightarrow> nat \<Rightarrow> macid_ctl_t \<Rightarrow> macid_ctl_t" where
  "release_id e i c =
     (let ifbmp = rtw_macid_get_iface_bmp c i AND NOT (push_bit (iface_id e) 1);
          c = c\<lparr>if_g := (if_g c)[iface_id e := rtw_macid_map_clr (if_g c ! iface_id e) i]\<rparr> in
      if ifbmp = 0 then
        c\<lparr>macid_used := rtw_macid_map_clr (macid_used c) i, macid_bmc := rtw_macid_map_clr (macid_bmc c) i,
          ch_g := map (\<lambda>m. rtw_macid_map_clr m i) (ch_g c), macid_sta := (macid_sta c)[i := None]\<rparr>
      else c)"

definition rtw_release_macid :: "key_env \<Rightarrow> dvobj_priv \<Rightarrow> buf \<Rightarrow> nat \<Rightarrow> nat \<times> dvobj_priv" where
  "rtw_release_macid e d addr mac_id =
     (macid_num (macid_ctl d),
      if addr = key_mac e then d
      else if mac_id \<ge> macid_num (macid_ctl d) then d
      else if mac_id = RTW_DEFAULT_MGMT_MACID then d
      else if \<not> rtw_macid_is_used (macid_ctl d) mac_id then d
      else if \<not> bit (rtw_macid_get_iface_bmp (macid_ctl d) mac_id) (iface_id e) then d
      else let d = (if addr = bc_addr then release_bmc_cam e d else d) in
           d\<lparr>macid_ctl := release_id e mac_id (macid_ctl d)\<rparr>)"

definition rtw_search_max_mac_id :: "macid_ctl_t \<Rightarrow> nat" where
  "rtw_search_max_mac_id c =
     (if macid_num c = 0 then 255
      else case List.find (rtw_macid_is_used c) (rev [1..<macid_num c]) of Some i \<Rightarrow> i | None \<Rightarrow> 0)"

definition H2C_MSR_ROLE_MAX :: nat where "H2C_MSR_ROLE_MAX = 8"

definition msr_opmode :: "u8 \<Rightarrow> bool" where
  "msr_opmode v = bit v 0"

definition msr_role :: "u8 \<Rightarrow> nat" where
  "msr_role v = unat (drop_bit 4 v AND 0xF)"

text \<open>The result is the bitmap of the roles whose count changed.\<close>

definition rtw_macid_ctl_set_h2c_msr :: "macid_ctl_t \<Rightarrow> nat \<Rightarrow> u8 \<Rightarrow> u8 \<times> macid_ctl_t" where
  "rtw_macid_ctl_set_h2c_msr c i v =
     (if i \<ge> macid_num c then (0, c)
      else let old = h2c_msr c ! i;
               (bmp, n) = (if msr_opmode old \<and> \<not> msr_opmode v then
                             let role = msr_role old in
                             if role < H2C_MSR_ROLE_MAX then (push_bit role 1, (op_num c)[role := op_num c ! role - 1]) else (0, op_num c)
                           else if \<not> msr_opmode old \<and> msr_opmode v then
                             let role = msr_role v in
                             if role < H2C_MSR_ROLE_MAX then (push_bit role 1, (op_num c)[role := op_num c ! role + 1]) else (0, op_num c)
                           else (0, op_num c)) in
        (bmp, c\<lparr>op_num := n, h2c_msr := (h2c_msr c)[i := v]\<rparr>))"

definition rtw_macid_ctl_set_bw :: "macid_ctl_t \<Rightarrow> nat \<Rightarrow> u8 \<Rightarrow> macid_ctl_t" where
  "rtw_macid_ctl_set_bw c i v = (if i \<ge> macid_num c then c else c\<lparr>macid_bw := (macid_bw c)[i := v]\<rparr>)"

definition rtw_macid_ctl_set_vht_en :: "macid_ctl_t \<Rightarrow> nat \<Rightarrow> u8 \<Rightarrow> macid_ctl_t" where
  "rtw_macid_ctl_set_vht_en c i v = (if i \<ge> macid_num c then c else c\<lparr>vht_en := (vht_en c)[i := v]\<rparr>)"

definition rtw_macid_ctl_set_rate_bmp0 :: "macid_ctl_t \<Rightarrow> nat \<Rightarrow> u32 \<Rightarrow> macid_ctl_t" where
  "rtw_macid_ctl_set_rate_bmp0 c i v = (if i \<ge> macid_num c then c else c\<lparr>rate_bmp0 := (rate_bmp0 c)[i := v]\<rparr>)"

definition rtw_macid_ctl_set_rate_bmp1 :: "macid_ctl_t \<Rightarrow> nat \<Rightarrow> u32 \<Rightarrow> macid_ctl_t" where
  "rtw_macid_ctl_set_rate_bmp1 c i v = (if i \<ge> macid_num c then c else c\<lparr>rate_bmp1 := (rate_bmp1 c)[i := v]\<rparr>)"

text \<open>The device object is allocated zeroed; \<open>n\<close> is the number of MAC ids of the chip, \<open>ifs\<close> that of the interfaces.\<close>

definition rtw_macid_ctl_init :: "macid_ctl_t \<Rightarrow> macid_ctl_t" where
  "rtw_macid_ctl_init c =
     (let i = RTW_DEFAULT_MGMT_MACID in
      c\<lparr>macid_used := rtw_macid_map_set (macid_used c) i, macid_bmc := rtw_macid_map_set (macid_bmc c) i,
        if_g := map (\<lambda>m. rtw_macid_map_set m i) (if_g c), macid_sta := (macid_sta c)[i := None]\<rparr>)"

definition zero_macid_ctl :: "nat \<Rightarrow> nat \<Rightarrow> macid_ctl_t" where
  "zero_macid_ctl ifs n =
     \<lparr>macid_num = min n MACID_NUM_SW_LIMIT, macid_used = 0, macid_bmc = 0, if_g = replicate ifs 0, ch_g = [0, 0], iface_bmc = replicate ifs 0,
      h2c_msr = replicate MACID_NUM_SW_LIMIT 0, macid_bw = replicate MACID_NUM_SW_LIMIT 0, vht_en = replicate MACID_NUM_SW_LIMIT 0,
      rate_bmp0 = replicate MACID_NUM_SW_LIMIT 0, rate_bmp1 = replicate MACID_NUM_SW_LIMIT 0, op_num = replicate H2C_MSR_ROLE_MAX 0,
      macid_sta = replicate MACID_NUM_SW_LIMIT None\<rparr>"

subsection \<open>Sets of ids\<close>

text \<open>The two kinds of bitmaps obey the same laws: the maps of the key table and those of the MAC ids are sets of ids below 32.\<close>

locale id_map =
  fixes is_set :: "u32 \<Rightarrow> nat \<Rightarrow> bool" and set_id clr_id :: "u32 \<Rightarrow> nat \<Rightarrow> u32"
  assumes set_law: "is_set (set_id m i) j \<longleftrightarrow> is_set m j \<or> (j = i \<and> i < 32)"
    and clr_law: "is_set (clr_id m i) j \<longleftrightarrow> is_set m j \<and> j \<noteq> i"
    and bound: "is_set m j \<Longrightarrow> j < 32"
    and empty_law: "\<not> is_set 0 j"
begin

lemma clr_set: "\<not> is_set m i \<Longrightarrow> is_set (clr_id (set_id m i) i) j \<longleftrightarrow> is_set m j"
  by (auto simp: set_law clr_law)

lemma first_free:
  assumes "List.find (\<lambda>i. \<not> is_set m i) [0..<n] = Some i"
  shows "i < n \<and> \<not> is_set m i \<and> (\<forall>j<i. is_set m j)"
  using assms by (auto simp: find_Some_iff)

lemma no_free: "List.find (\<lambda>i. \<not> is_set m i) [0..<n] = None \<longleftrightarrow> (\<forall>i<n. is_set m i)"
  by (auto simp: find_None_iff)

end

lemma bit_map_set: "i < 32 \<Longrightarrow> bit (m OR push_bit i 1) j \<longleftrightarrow> bit m j \<or> j = i" for m :: u32
  by (auto simp: bit_simps bit_1_iff)

lemma bit_map_clr: "bit (m AND NOT (push_bit i 1)) j \<longleftrightarrow> bit m j \<and> j \<noteq> i" for m :: u32
  by (auto simp: bit_simps bit_1_iff dest: bit_imp_le_length)

interpretation cam: id_map rtw_sec_camid_is_set rtw_sec_cam_map_set rtw_sec_cam_map_clr
  by unfold_locales (auto simp: rtw_sec_camid_is_set_def rtw_sec_cam_map_set_def rtw_sec_cam_map_clr_def bit_map_set bit_map_clr simp del: push_bit_of_1 split: if_splits)

interpretation macid: id_map rtw_macid_is_set rtw_macid_map_set rtw_macid_map_clr
  by unfold_locales (auto simp: rtw_macid_is_set_def rtw_macid_map_set_def rtw_macid_map_clr_def bit_map_set bit_map_clr simp del: push_bit_of_1 split: if_splits)

lemmas id_laws = cam.set_law cam.clr_law cam.empty_law macid.set_law macid.clr_law macid.empty_law

subsection \<open>MAC ids of stations\<close>

lemma iface_bmp_bits:
  assumes "length (if_g c) \<le> 8"
  shows "bit (rtw_macid_get_iface_bmp c i) n \<longleftrightarrow> n < length (if_g c) \<and> rtw_macid_is_set (if_g c ! n) i"
proof -
  let ?f = "\<lambda>n bmp :: u8. if rtw_macid_is_set (if_g c ! n) i then bmp OR push_bit n 1 else bmp"
  have "k \<le> 8 \<Longrightarrow> bit (fold ?f [0..<k] 0) n \<longleftrightarrow> n < k \<and> rtw_macid_is_set (if_g c ! n) i" for k
  proof (induction k)
    case (Suc k)
    then have "bit (push_bit k 1 :: u8) n \<longleftrightarrow> n = k"
      by (cases "n = k") (auto simp: bit_push_bit_iff bit_1_iff simp del: push_bit_of_1)
    with Suc show ?case by (auto simp: bit_or_iff less_Suc_eq simp del: push_bit_of_1)
  qed simp
  then show ?thesis using assms by (simp add: rtw_macid_get_iface_bmp_def)
qed

lemma iface_bmp_others:
  assumes "length (if_g c) \<le> 8" "f < length (if_g c)"
  shows "rtw_macid_get_iface_bmp c i AND NOT (push_bit f 1) = 0 \<longleftrightarrow> (\<forall>n < length (if_g c). n \<noteq> f \<longrightarrow> \<not> rtw_macid_is_set (if_g c ! n) i)"
proof -
  have one: "bit (push_bit f 1 :: u8) n \<longleftrightarrow> n = f" for n
    using assms by (cases "n = f") (auto simp: bit_push_bit_iff bit_1_iff simp del: push_bit_of_1)
  have "bit (rtw_macid_get_iface_bmp c i AND NOT (push_bit f 1)) n \<longleftrightarrow> n < length (if_g c) \<and> rtw_macid_is_set (if_g c ! n) i \<and> n \<noteq> f" for n
    using assms(1) by (auto simp: bit_and_iff bit_not_iff one iface_bmp_bits dest: bit_imp_le_length simp del: push_bit_of_1)
  moreover have "w = 0 \<longleftrightarrow> (\<forall>n. \<not> bit w n)" for w :: u8 by (auto intro!: bit_eqI)
  ultimately show ?thesis by blast
qed

text \<open>
  A run of allocations and releases. The second component of a state maps each live station to its interface, its address and the
  MAC id it was given; \<open>macs\<close> gives the addresses of the interfaces, and everything else of the device may change in between.
\<close>

type_synonym live_stas = "nat \<rightharpoonup> nat \<times> buf \<times> nat"

inductive macid_run :: "nat \<Rightarrow> nat \<Rightarrow> (nat \<Rightarrow> buf) \<Rightarrow> dvobj_priv \<Rightarrow> live_stas \<Rightarrow> bool" for ifs n macs where
  init: "macid_ctl d = rtw_macid_ctl_init (zero_macid_ctl ifs n) \<Longrightarrow> macid_run ifs n macs d Map.empty"
| alloc: "macid_run ifs n macs d L \<Longrightarrow> L s = None \<Longrightarrow> iface_id e < ifs \<Longrightarrow> key_mac e = macs (iface_id e) \<Longrightarrow>
    rtw_alloc_macid e d addr s = (i, d') \<Longrightarrow> macid_run ifs n macs d' (L(s \<mapsto> (iface_id e, addr, i)))"
| release: "macid_run ifs n macs d L \<Longrightarrow> L s = Some (iface_id e, addr, i) \<Longrightarrow> key_mac e = macs (iface_id e) \<Longrightarrow>
    rtw_release_macid e d addr i = (i', d') \<Longrightarrow> macid_run ifs n macs d' (L(s := None))"
| msr: "macid_run ifs n macs d L \<Longrightarrow> rtw_macid_ctl_set_h2c_msr (macid_ctl d) i v = (b, c) \<Longrightarrow> macid_run ifs n macs (d\<lparr>macid_ctl := c\<rparr>) L"
| other: "macid_run ifs n macs d L \<Longrightarrow> macid_ctl d' = macid_ctl d \<Longrightarrow> macid_run ifs n macs d' L"

definition live_id :: "live_stas \<Rightarrow> nat \<Rightarrow> nat \<Rightarrow> nat \<Rightarrow> nat \<Rightarrow> bool" where
  "live_id L n s f i \<longleftrightarrow> (\<exists>a. L s = Some (f, a, i)) \<and> i < n \<and> i \<noteq> RTW_DEFAULT_MGMT_MACID"

definition macid_inv :: "nat \<Rightarrow> (nat \<Rightarrow> buf) \<Rightarrow> macid_ctl_t \<Rightarrow> live_stas \<Rightarrow> bool" where
  "macid_inv ifs macs c L \<longleftrightarrow>
     macid_num c \<le> 32 \<and> length (macid_sta c) = 32 \<and> length (if_g c) = ifs \<and> ifs \<le> 8 \<and> ifs \<noteq> 0 \<and>
     (\<forall>s f a i. L s = Some (f, a, i) \<longrightarrow> f < ifs \<and> (live_id L (macid_num c) s f i \<longrightarrow> a \<noteq> macs f)) \<and>
     (\<forall>i. rtw_macid_is_set (macid_used c) i \<longleftrightarrow> i = RTW_DEFAULT_MGMT_MACID \<or> (\<exists>s f. live_id L (macid_num c) s f i)) \<and>
     (\<forall>f<ifs. \<forall>i. rtw_macid_is_set (if_g c ! f) i \<longleftrightarrow> i = RTW_DEFAULT_MGMT_MACID \<or> (\<exists>s. live_id L (macid_num c) s f i)) \<and>
     (\<forall>i<32. \<forall>s. macid_sta c ! i = Some s \<longleftrightarrow> (\<exists>f. live_id L (macid_num c) s f i)) \<and>
     (\<forall>i. rtw_macid_is_set (macid_bmc c) i \<longrightarrow> rtw_macid_is_set (macid_used c) i)"

lemma macid_inv_used:
  "macid_inv ifs macs c L \<Longrightarrow> rtw_macid_is_set (macid_used c) i \<longleftrightarrow> i = RTW_DEFAULT_MGMT_MACID \<or> (\<exists>s f. live_id L (macid_num c) s f i)"
  by (simp add: macid_inv_def)

lemma macid_inv_sta:
  "macid_inv ifs macs c L \<Longrightarrow> i < 32 \<Longrightarrow> macid_sta c ! i = Some s \<longleftrightarrow> (\<exists>f. live_id L (macid_num c) s f i)"
  by (simp add: macid_inv_def)

lemma macid_inv_init: "0 < ifs \<Longrightarrow> ifs \<le> 8 \<Longrightarrow> macid_inv ifs macs (rtw_macid_ctl_init (zero_macid_ctl ifs n)) Map.empty"
  by (auto simp: macid_inv_def rtw_macid_ctl_init_def zero_macid_ctl_def Let_def live_id_def id_laws MACID_NUM_SW_LIMIT_def
      RTW_DEFAULT_MGMT_MACID_def nth_list_update)

text \<open>Giving a station an id outside the range, or the default id, or taking such an id back, leaves the invariant alone.\<close>

lemma live_id_add:
  assumes "L s = None" "\<not> (i < n \<and> i \<noteq> RTW_DEFAULT_MGMT_MACID)"
  shows "live_id (L(s \<mapsto> (f, a, i))) n t g j \<longleftrightarrow> live_id L n t g j"
  using assms by (auto simp: live_id_def)

lemma live_id_del:
  assumes "L s = Some (f, a, i)" "\<not> (i < n \<and> i \<noteq> RTW_DEFAULT_MGMT_MACID)"
  shows "live_id (L(s := None)) n t g j \<longleftrightarrow> live_id L n t g j"
  using assms by (auto simp: live_id_def)

lemma live_id_new:
  assumes "L s = None" "i < n" "i \<noteq> RTW_DEFAULT_MGMT_MACID"
  shows "live_id (L(s \<mapsto> (f, a, i))) n t g j \<longleftrightarrow> live_id L n t g j \<or> (t = s \<and> g = f \<and> j = i)"
  using assms by (auto simp: live_id_def)

lemma live_id_gone:
  assumes "L s = Some (f, a, i)" "i < n" "i \<noteq> RTW_DEFAULT_MGMT_MACID"
  shows "live_id (L(s := None)) n t g j \<longleftrightarrow> live_id L n t g j \<and> t \<noteq> s"
  using assms by (auto simp: live_id_def)

lemma macid_inv_ctl:
  assumes "macid_inv ifs macs c L" "macid_num c' = macid_num c" "macid_sta c' = macid_sta c" "if_g c' = if_g c"
    "macid_used c' = macid_used c" "macid_bmc c' = macid_bmc c"
  shows "macid_inv ifs macs c' L"
  using assms(1) unfolding macid_inv_def assms(2-6) .

lemma macid_inv_trivial:
  assumes "macid_inv ifs macs c L" "\<And>t g j. live_id L' (macid_num c) t g j \<longleftrightarrow> live_id L (macid_num c) t g j"
    and "\<And>t g a j. L' t = Some (g, a, j) \<Longrightarrow> g < ifs \<and> (live_id L (macid_num c) t g j \<longrightarrow> L t = Some (g, a, j))"
  shows "macid_inv ifs macs c L'"
proof -
  have "\<forall>s f a i. L' s = Some (f, a, i) \<longrightarrow> f < ifs \<and> (live_id L (macid_num c) s f i \<longrightarrow> a \<noteq> macs f)"
    using assms(1,3) unfolding macid_inv_def by blast
  then show ?thesis using assms(1) unfolding macid_inv_def assms(2) by - (elim conjE, intro conjI, assumption+)
qed


text \<open>A new id, and an id given back.\<close>

lemma macid_inv_new:
  assumes inv: "macid_inv ifs macs c L" and s: "L s = None" and f: "f < ifs" and a: "a \<noteq> macs f"
    and i: "i < macid_num c" "\<not> rtw_macid_is_used c i"
    and c': "macid_num c' = macid_num c" "macid_used c' = rtw_macid_map_set (macid_used c) i"
      "if_g c' = (if_g c)[f := rtw_macid_map_set (if_g c ! f) i]" "macid_sta c' = (macid_sta c)[i := Some s]"
      "macid_bmc c' = (if b then rtw_macid_map_set (macid_bmc c) i else macid_bmc c)"
  shows "macid_inv ifs macs c' (L(s \<mapsto> (f, a, i)))"
proof -
  note I = inv [unfolded macid_inv_def]
  have i32: "i < 32" using i(1) I by simp
  have ne: "i \<noteq> RTW_DEFAULT_MGMT_MACID" and free: "\<And>t g. \<not> live_id L (macid_num c) t g i" using i(2) I unfolding rtw_macid_is_used_def by auto
  note live = live_id_new [where L = L and s = s and f = f and a = a, OF s i(1) ne]
  have sta: "macid_sta c ! i = Some t \<longleftrightarrow> False" for t using free I i32 by auto
  have s0: "\<not> live_id L (macid_num c) s g j" for g j using s by (simp add: live_id_def)
  show ?thesis unfolding macid_inv_def c' live
  proof (intro conjI)
    show "\<forall>t g b j. (L(s \<mapsto> (f, a, i))) t = Some (g, b, j) \<longrightarrow> g < ifs \<and> (live_id L (macid_num c) t g j \<or> t = s \<and> g = f \<and> j = i \<longrightarrow> b \<noteq> macs g)"
      using I f a s0 by auto
    show "\<forall>j<32. \<forall>t. (macid_sta c)[i := Some s] ! j = Some t \<longleftrightarrow> (\<exists>g. live_id L (macid_num c) t g j \<or> t = s \<and> g = f \<and> j = i)"
      using I i32 free by (auto simp: nth_list_update)
    show "\<forall>g<ifs. \<forall>j. rtw_macid_is_set ((if_g c)[f := rtw_macid_map_set (if_g c ! f) i] ! g) j \<longleftrightarrow>
        j = RTW_DEFAULT_MGMT_MACID \<or> (\<exists>t. live_id L (macid_num c) t g j \<or> t = s \<and> g = f \<and> j = i)"
      using I f i32 by (auto simp: nth_list_update id_laws)
    show "\<forall>j. rtw_macid_is_set (rtw_macid_map_set (macid_used c) i) j \<longleftrightarrow>
        j = RTW_DEFAULT_MGMT_MACID \<or> (\<exists>t g. live_id L (macid_num c) t g j \<or> t = s \<and> g = f \<and> j = i)"
      using I i32 by (auto simp: id_laws)
    show "\<forall>j. rtw_macid_is_set (if b then rtw_macid_map_set (macid_bmc c) i else macid_bmc c) j \<longrightarrow> rtw_macid_is_set (rtw_macid_map_set (macid_used c) i) j"
      using I by (auto simp: id_laws)
  qed (use I in simp_all)
qed

lemma live_unique:
  assumes "macid_inv ifs macs c L" "live_id L (macid_num c) s f i" "live_id L (macid_num c) t g i"
  shows "t = s \<and> g = f"
proof -
  have "i < 32" using assms(1,2) by (auto simp: macid_inv_def live_id_def)
  then have "macid_sta c ! i = Some s" "macid_sta c ! i = Some t" using assms unfolding macid_inv_def by blast+
  then show ?thesis using assms(2,3) by (auto simp: live_id_def)
qed

lemma macid_inv_release:
  assumes inv: "macid_inv ifs macs c L" and s: "L s = Some (iface_id e, a, i)" and i: "i < macid_num c" "i \<noteq> RTW_DEFAULT_MGMT_MACID"
  shows "macid_inv ifs macs (release_id e i c) (L(s := None))"
proof -
  note I = inv [unfolded macid_inv_def]
  let ?f = "iface_id e"
  have li: "live_id L (macid_num c) s ?f i" using s i by (auto simp: live_id_def)
  have f: "?f < ifs" and i32: "i < 32" using I s i by auto
  have only: "live_id L (macid_num c) t g i \<Longrightarrow> t = s \<and> g = ?f" for t g using live_unique [OF inv li] by blast
  have mine: "live_id L (macid_num c) s g j \<longleftrightarrow> g = ?f \<and> j = i" for g j using s i by (auto simp: live_id_def)
  have z: "rtw_macid_get_iface_bmp c i AND NOT (push_bit ?f 1) = 0"
    using iface_bmp_others [of c ?f i] I f only i(2) by auto
  have r: "release_id e i c = c\<lparr>if_g := (if_g c)[?f := rtw_macid_map_clr (if_g c ! ?f) i],
      macid_used := rtw_macid_map_clr (macid_used c) i, macid_bmc := rtw_macid_map_clr (macid_bmc c) i,
      ch_g := map (\<lambda>m. rtw_macid_map_clr m i) (ch_g c), macid_sta := (macid_sta c)[i := None]\<rparr>"
    unfolding release_id_def Let_def using z by simp
  have c': "macid_num (release_id e i c) = macid_num c" "if_g (release_id e i c) = (if_g c)[?f := rtw_macid_map_clr (if_g c ! ?f) i]"
    "macid_used (release_id e i c) = rtw_macid_map_clr (macid_used c) i" "macid_bmc (release_id e i c) = rtw_macid_map_clr (macid_bmc c) i"
    "macid_sta (release_id e i c) = (macid_sta c)[i := None]"
    by (simp_all add: r)
  note live = live_id_gone [where L = L and s = s, OF s i]
  show ?thesis unfolding macid_inv_def c' live
  proof (intro conjI)
    show "\<forall>t g b j. (L(s := None)) t = Some (g, b, j) \<longrightarrow> g < ifs \<and> (live_id L (macid_num c) t g j \<and> t \<noteq> s \<longrightarrow> b \<noteq> macs g)"
      using I by auto
    show "\<forall>j<32. \<forall>t. (macid_sta c)[i := None] ! j = Some t \<longleftrightarrow> (\<exists>g. live_id L (macid_num c) t g j \<and> t \<noteq> s)"
      using I i32 only mine by (auto simp: nth_list_update)
    show "\<forall>g<ifs. \<forall>j. rtw_macid_is_set ((if_g c)[?f := rtw_macid_map_clr (if_g c ! ?f) i] ! g) j \<longleftrightarrow>
        j = RTW_DEFAULT_MGMT_MACID \<or> (\<exists>t. live_id L (macid_num c) t g j \<and> t \<noteq> s)"
      using I f i(2) only mine by (auto simp: nth_list_update id_laws)
    show "\<forall>j. rtw_macid_is_set (rtw_macid_map_clr (macid_used c) i) j \<longleftrightarrow>
        j = RTW_DEFAULT_MGMT_MACID \<or> (\<exists>t g. live_id L (macid_num c) t g j \<and> t \<noteq> s)"
      using I i(2) only mine by (auto simp: id_laws)
    show "\<forall>j. rtw_macid_is_set (rtw_macid_map_clr (macid_bmc c) i) j \<longrightarrow> rtw_macid_is_set (rtw_macid_map_clr (macid_used c) i) j"
      using I by (auto simp: id_laws)
  qed (use I in simp_all)
qed

lemma alloc_macid_inv:
  assumes inv: "macid_inv ifs macs (macid_ctl d) L" and "L s = None" "iface_id e < ifs" "key_mac e = macs (iface_id e)"
    and "rtw_alloc_macid e d addr s = (i, d')"
  shows "macid_inv ifs macs (macid_ctl d') (L(s \<mapsto> (iface_id e, addr, i)))"
proof -
  let ?num = "macid_num (macid_ctl d)"
  have same: "macid_inv ifs macs c (L(s \<mapsto> (iface_id e, addr, i)))"
    if "\<not> (i < ?num \<and> i \<noteq> RTW_DEFAULT_MGMT_MACID)" "macid_num c = ?num" "macid_sta c = macid_sta (macid_ctl d)"
      "if_g c = if_g (macid_ctl d)" "macid_used c = macid_used (macid_ctl d)" "macid_bmc c = macid_bmc (macid_ctl d)" for c
  proof (rule macid_inv_trivial [of ifs macs c L])
    show "macid_inv ifs macs c L" by (rule macid_inv_ctl [OF inv]) (use that in auto)
    show "live_id (L(s \<mapsto> (iface_id e, addr, i))) (macid_num c) t g j \<longleftrightarrow> live_id L (macid_num c) t g j" for t g j
      using live_id_add [of L s i ?num] that assms(2) by simp
    show "\<And>t g a j. (L(s \<mapsto> (iface_id e, addr, i))) t = Some (g, a, j) \<Longrightarrow> g < ifs \<and> (live_id L (macid_num c) t g j \<longrightarrow> L t = Some (g, a, j))"
      using inv assms(2,3) by (auto simp: macid_inv_def live_id_def split: if_splits)
  qed
  define bc where "bc = (addr = bc_addr)"
  define d1 where "d1 = (if bc then d\<lparr>macid_ctl := rtw_iface_bcmc_id_set e INVALID_SEC_MAC_CAM_ID (macid_ctl d)\<rparr> else d)"
  have c1: "macid_num (macid_ctl d1) = ?num" "macid_sta (macid_ctl d1) = macid_sta (macid_ctl d)" "if_g (macid_ctl d1) = if_g (macid_ctl d)"
    "macid_used (macid_ctl d1) = macid_used (macid_ctl d)" "macid_bmc (macid_ctl d1) = macid_bmc (macid_ctl d)"
    by (auto simp: d1_def rtw_iface_bcmc_id_set_def)
  have inv1: "macid_inv ifs macs (macid_ctl d1) L" by (rule macid_inv_ctl [OF inv]) (use c1 in auto)
  note eq = assms(5) [unfolded rtw_alloc_macid_def Let_def, folded bc_def, folded d1_def]
  show ?thesis
  proof (cases "addr = key_mac e \<or> bc \<and> mlme_sta_or_null e \<or> macid_candidate d1 bc = None")
    case True
    then have "\<not> (i < ?num \<and> i \<noteq> RTW_DEFAULT_MGMT_MACID)" "d' = d \<or> d' = d1" using eq c1(1) by (auto split: if_splits)
    then show ?thesis using same c1 by auto
  next
    case False
    then obtain j where j: "macid_candidate d1 bc = Some j" by auto
    then have jn: "j < ?num" and nu: "\<not> rtw_macid_is_used (macid_ctl d1) j" using c1(1) by (auto simp: macid_candidate_def find_Some_iff)
    have i: "i = j" and c: "macid_num (macid_ctl d') = macid_num (macid_ctl d1)"
      "macid_used (macid_ctl d') = rtw_macid_map_set (macid_used (macid_ctl d1)) j"
      "if_g (macid_ctl d') = (if_g (macid_ctl d1))[iface_id e := rtw_macid_map_set (if_g (macid_ctl d1) ! iface_id e) j]"
      "macid_sta (macid_ctl d') = (macid_sta (macid_ctl d1))[j := Some s]"
      "macid_bmc (macid_ctl d') = (if bc then rtw_macid_map_set (macid_bmc (macid_ctl d1)) j else macid_bmc (macid_ctl d1))"
      using eq j False by (auto simp: rtw_iface_bcmc_id_set_def split: if_splits)
    have "addr \<noteq> macs (iface_id e)" using False assms(4) by simp
    with c show ?thesis unfolding i using macid_inv_new [OF inv1 assms(2,3) _ _ nu c] jn c1(1) by simp
  qed
qed

lemma release_macid_inv:
  assumes inv: "macid_inv ifs macs (macid_ctl d) L" and s: "L s = Some (iface_id e, addr, i)" and k: "key_mac e = macs (iface_id e)"
    and "rtw_release_macid e d addr i = (i', d')"
  shows "macid_inv ifs macs (macid_ctl d') (L(s := None))"
proof (cases "i < macid_num (macid_ctl d) \<and> i \<noteq> RTW_DEFAULT_MGMT_MACID")
  case True
  note I = inv [unfolded macid_inv_def]
  have li: "live_id L (macid_num (macid_ctl d)) s (iface_id e) i" using True s by (auto simp: live_id_def)
  have f: "iface_id e < ifs" "addr \<noteq> key_mac e" using I s li k by auto
  have u: "rtw_macid_is_used (macid_ctl d) i" "bit (rtw_macid_get_iface_bmp (macid_ctl d) i) (iface_id e)"
    using I li f by (auto simp: rtw_macid_is_used_def iface_bmp_bits)
  define d1 where "d1 = (if addr = bc_addr then release_bmc_cam e d else d)"
  have c1: "macid_num (macid_ctl d1) = macid_num (macid_ctl d)" "macid_sta (macid_ctl d1) = macid_sta (macid_ctl d)" "if_g (macid_ctl d1) = if_g (macid_ctl d)"
    "macid_used (macid_ctl d1) = macid_used (macid_ctl d)" "macid_bmc (macid_ctl d1) = macid_bmc (macid_ctl d)"
    by (auto simp: d1_def rtw_iface_bcmc_id_set_def release_bmc_cam_def Let_def)
  have inv1: "macid_inv ifs macs (macid_ctl d1) L" by (rule macid_inv_ctl [OF inv]) (use c1 in auto)
  have "macid_ctl d' = release_id e i (macid_ctl d1)"
    using assms(4) True f(2) u by (auto simp: rtw_release_macid_def d1_def Let_def)
  then show ?thesis using macid_inv_release [OF inv1 s] True c1(1) by simp
next
  case False
  then have d: "d' = d" using assms(4) by (auto simp: rtw_release_macid_def split: if_splits)
  show ?thesis unfolding d
  proof (rule macid_inv_trivial [OF inv])
    show "live_id (L(s := None)) (macid_num (macid_ctl d)) t g j \<longleftrightarrow> live_id L (macid_num (macid_ctl d)) t g j" for t g j
      using live_id_del [where L = L and s = s, OF s False] .
  qed (use inv in \<open>auto simp: macid_inv_def split: if_splits\<close>)
qed

lemma macid_run_inv:
  assumes "macid_run ifs n macs d L" "0 < ifs" "ifs \<le> 8"
  shows "macid_inv ifs macs (macid_ctl d) L \<and> macid_num (macid_ctl d) = min n 32"
  using assms
proof (induction rule: macid_run.induct)
  case (init d)
  then show ?case by (simp add: macid_inv_init) (simp add: rtw_macid_ctl_init_def zero_macid_ctl_def Let_def MACID_NUM_SW_LIMIT_def)
next
  case (alloc d L s e addr i d')
  have "macid_num (macid_ctl d') = macid_num (macid_ctl d)"
    using alloc.hyps(5) by (auto simp: rtw_alloc_macid_def Let_def rtw_iface_bcmc_id_set_def split: if_splits option.splits)
  then show ?case using alloc_macid_inv [where L = L and macs = macs, OF _ alloc.hyps(2-5)] alloc.IH alloc.prems by metis
next
  case (release d L s e addr i i' d')
  have "macid_num (macid_ctl d') = macid_num (macid_ctl d)"
    using release.hyps(4) by (auto simp: rtw_release_macid_def Let_def release_id_def release_bmc_cam_def rtw_iface_bcmc_id_set_def split: if_splits)
  then show ?case using release_macid_inv [where L = L and macs = macs, OF _ release.hyps(2-4)] release.IH release.prems by metis
next
  case (msr d L i v b c)
  have "macid_num c = macid_num (macid_ctl d)" "macid_sta c = macid_sta (macid_ctl d)" "if_g c = if_g (macid_ctl d)"
    "macid_used c = macid_used (macid_ctl d)" "macid_bmc c = macid_bmc (macid_ctl d)"
    using msr.hyps(2) by (auto simp: rtw_macid_ctl_set_h2c_msr_def Let_def split: if_splits)
  then show ?case using macid_inv_ctl [of ifs macs "macid_ctl d" L c] msr.IH msr.prems by simp
next
  case (other d L d')
  then show ?case by simp
qed

text \<open>C7. MAC ids: after every sequence of allocations, releases and other changes, the ids in use are exactly the management id and those
  of the live stations (none leaks, none is freed early), no two live stations share an id other than the management id, the table \<open>macid_sta\<close> points from
  each other id to its station, and an allocation for an ordinary station gets the lowest free id, or none just when all are taken.\<close>

theorem macid_alloc_invariant:
  assumes run: "macid_run ifs n macs d L" and "0 < ifs" "ifs \<le> 8"
  defines "c \<equiv> macid_ctl d"
  shows "(\<forall>i. rtw_macid_is_used c i \<longleftrightarrow> i = RTW_DEFAULT_MGMT_MACID \<or> (\<exists>s f a. L s = Some (f, a, i) \<and> i < macid_num c))
    \<and> (\<forall>s t f g a b i. L s = Some (f, a, i) \<and> L t = Some (g, b, i) \<and> i < macid_num c \<and> i \<noteq> RTW_DEFAULT_MGMT_MACID \<longrightarrow> s = t)
    \<and> (\<forall>i<32. \<forall>s. macid_sta c ! i = Some s \<longleftrightarrow> i \<noteq> RTW_DEFAULT_MGMT_MACID \<and> (\<exists>f a. L s = Some (f, a, i) \<and> i < macid_num c))
    \<and> (\<forall>e addr s. addr \<noteq> key_mac e \<and> addr \<noteq> bc_addr \<longrightarrow>
         (let i = fst (rtw_alloc_macid e d addr s) in
          (if \<forall>j<macid_num c. rtw_macid_is_used c j then i = macid_num c
           else i < macid_num c \<and> \<not> rtw_macid_is_used c i \<and> (\<forall>j<i. rtw_macid_is_used c j))))"
proof (intro conjI)
  have inv: "macid_inv ifs macs c L" using macid_run_inv [OF assms(1-3)] by (simp add: c_def)
  note I = inv [unfolded macid_inv_def]
  show "\<forall>i. rtw_macid_is_used c i \<longleftrightarrow> i = RTW_DEFAULT_MGMT_MACID \<or> (\<exists>s f a. L s = Some (f, a, i) \<and> i < macid_num c)"
    unfolding rtw_macid_is_used_def macid_inv_used [OF inv] live_id_def by auto
  show "\<forall>s t f g a b i. L s = Some (f, a, i) \<and> L t = Some (g, b, i) \<and> i < macid_num c \<and> i \<noteq> RTW_DEFAULT_MGMT_MACID \<longrightarrow> s = t"
    using live_unique [OF inv] unfolding live_id_def by blast
  show "\<forall>i<32. \<forall>s. macid_sta c ! i = Some s \<longleftrightarrow> i \<noteq> RTW_DEFAULT_MGMT_MACID \<and> (\<exists>f a. L s = Some (f, a, i) \<and> i < macid_num c)"
    using macid_inv_sta [OF inv] unfolding live_id_def by auto
  show "\<forall>e addr s. addr \<noteq> key_mac e \<and> addr \<noteq> bc_addr \<longrightarrow>
         (let i = fst (rtw_alloc_macid e d addr s) in
          (if \<forall>j<macid_num c. rtw_macid_is_used c j then i = macid_num c
           else i < macid_num c \<and> \<not> rtw_macid_is_used c i \<and> (\<forall>j<i. rtw_macid_is_used c j)))"
  proof (intro allI impI)
    fix e :: key_env and addr s
    assume a: "addr \<noteq> key_mac e \<and> addr \<noteq> bc_addr"
    have m: "macid_candidate d False = List.find (\<lambda>i. \<not> rtw_macid_is_set (macid_used c) i) [0..<macid_num c]"
      by (simp add: macid_candidate_def rtw_macid_is_used_def c_def)
    show "let i = fst (rtw_alloc_macid e d addr s) in
          (if \<forall>j<macid_num c. rtw_macid_is_used c j then i = macid_num c
           else i < macid_num c \<and> \<not> rtw_macid_is_used c i \<and> (\<forall>j<i. rtw_macid_is_used c j))"
    proof (cases "macid_candidate d False")
      case None
      then have "\<forall>j<macid_num c. rtw_macid_is_used c j" using None [unfolded m macid.no_free] unfolding rtw_macid_is_used_def by blast
      moreover have "fst (rtw_alloc_macid e d addr s) = macid_num c" using a None by (simp add: rtw_alloc_macid_def Let_def c_def)
      ultimately show ?thesis by simp
    next
      case (Some i)
      have "i < macid_num c \<and> \<not> rtw_macid_is_used c i \<and> (\<forall>j<i. rtw_macid_is_used c j)"
        using macid.first_free [OF Some [unfolded m]] unfolding rtw_macid_is_used_def .
      then show ?thesis using a Some by (auto simp: rtw_alloc_macid_def Let_def)
    qed
  qed
qed

text \<open>The number of ids that are connected in a role, which \<open>op_num\<close> is documented to hold.\<close>

definition msr_count :: "u8 list \<Rightarrow> nat \<Rightarrow> nat" where
  "msr_count vs r = length (filter (\<lambda>v. msr_opmode v \<and> msr_role v = r) vs)"

definition op_num_ok :: "macid_ctl_t \<Rightarrow> bool" where
  "op_num_ok c \<longleftrightarrow> (\<forall>r < H2C_MSR_ROLE_MAX. op_num c ! r = of_nat (msr_count (h2c_msr c) r))"

lemma length_filter_update:
  assumes "i < length xs"
  shows "length (filter P (xs[i := v])) + (if P (xs ! i) then 1 else 0) = length (filter P xs) + (if P v then 1 else 0)"
proof -
  obtain ys zs where xs: "xs = ys @ xs ! i # zs" "length ys = i" using assms id_take_nth_drop [OF assms] by (metis length_take min.absorb4)
  then have "xs[i := v] = ys @ v # zs" by (metis list_update_length)
  moreover have "length (filter P xs) = length (filter P ys) + length (filter P (xs ! i # zs))"
    using arg_cong [OF xs(1), of "\<lambda>l. length (filter P l)"] by simp
  ultimately show ?thesis by simp
qed

lemma msr_count_update:
  assumes "i < length vs"
  shows "of_nat (msr_count (vs[i := v]) r) = (of_nat (msr_count vs r) + (if msr_opmode v \<and> msr_role v = r then 1 else 0)
     - (if msr_opmode (vs ! i) \<and> msr_role (vs ! i) = r then 1 else 0) :: u8)"
  using arg_cong [OF length_filter_update [OF assms, of "\<lambda>v. msr_opmode v \<and> msr_role v = r" v], of "of_nat :: nat \<Rightarrow> u8"]
  unfolding msr_count_def
  by (cases "msr_opmode v \<and> msr_role v = r"; cases "msr_opmode (vs ! i) \<and> msr_role (vs ! i) = r") (simp_all add: algebra_simps)

text \<open>The counters of connected ids: \<open>rtw_macid_ctl_set_h2c_msr\<close> keeps \<open>op_num\<close> equal to the numbers of connected ids per role,
  except when an id stays connected and changes its role: then, and only then, the counters differ from the numbers afterwards. The
  result is the bitmap of the roles whose counter changed.\<close>

theorem rtw_macid_ctl_set_h2c_msr_counts:
  assumes "op_num_ok c" "i < macid_num c" "i < length (h2c_msr c)" "length (op_num c) = H2C_MSR_ROLE_MAX"
    and "rtw_macid_ctl_set_h2c_msr c i v = (bmp, c')" and "msr_role v < H2C_MSR_ROLE_MAX" "msr_role (h2c_msr c ! i) < H2C_MSR_ROLE_MAX"
  defines "switch \<equiv> msr_opmode (h2c_msr c ! i) \<and> msr_opmode v \<and> msr_role (h2c_msr c ! i) \<noteq> msr_role v"
  shows "(op_num_ok c' \<longleftrightarrow> \<not> switch) \<and> (\<forall>r < H2C_MSR_ROLE_MAX. bit bmp r \<longleftrightarrow> op_num c' ! r \<noteq> op_num c ! r)"
proof -
  let ?o = "h2c_msr c ! i"
  have cnt: "of_nat (msr_count (h2c_msr c') r) = (op_num c ! r + (if msr_opmode v \<and> msr_role v = r then 1 else 0)
      - (if msr_opmode ?o \<and> msr_role ?o = r then 1 else 0))" if "r < H2C_MSR_ROLE_MAX" for r
  proof -
    have "h2c_msr c' = (h2c_msr c)[i := v]" using assms(2,5) by (auto simp: rtw_macid_ctl_set_h2c_msr_def Let_def split: if_splits)
    then show ?thesis using msr_count_update [OF assms(3), of v r] assms(1) that by (simp add: op_num_ok_def)
  qed
  have num: "op_num c' ! r = (op_num c ! r + (if msr_opmode v \<and> \<not> msr_opmode ?o \<and> msr_role v = r then 1 else 0)
      - (if msr_opmode ?o \<and> \<not> msr_opmode v \<and> msr_role ?o = r then 1 else 0))" if "r < H2C_MSR_ROLE_MAX" for r
    using that assms(2,4-7) by (auto simp: rtw_macid_ctl_set_h2c_msr_def Let_def nth_list_update split: if_splits)
  have bits: "bit bmp r \<longleftrightarrow> (msr_opmode v \<and> \<not> msr_opmode ?o \<and> msr_role v = r) \<or> (msr_opmode ?o \<and> \<not> msr_opmode v \<and> msr_role ?o = r)"
    if "r < H2C_MSR_ROLE_MAX" for r
    using that assms(2,5-7)
    by (auto simp: rtw_macid_ctl_set_h2c_msr_def Let_def bit_push_bit_iff bit_1_iff H2C_MSR_ROLE_MAX_def simp del: push_bit_of_1 split: if_splits)
  have "op_num_ok c' \<longleftrightarrow> \<not> switch"
  proof
    assume "op_num_ok c'"
    then have "op_num c' ! msr_role v = of_nat (msr_count (h2c_msr c') (msr_role v))" using assms(6) by (simp add: op_num_ok_def)
    then show "\<not> switch" using num [OF assms(6)] cnt [OF assms(6)] by (auto simp: switch_def split: if_splits)
  next
    assume "\<not> switch"
    then show "op_num_ok c'" unfolding op_num_ok_def using num cnt by (auto simp: switch_def)
  qed
  moreover have "\<forall>r < H2C_MSR_ROLE_MAX. bit bmp r \<longleftrightarrow> op_num c' ! r \<noteq> op_num c ! r" using bits num by auto
  ultimately show ?thesis by blast
qed

text \<open>Two interfaces, a broadcast station in AP mode and an ordinary one, then the first is released.\<close>

definition demo_env :: "nat \<Rightarrow> key_env" where
  "demo_env f = \<lparr>key_state = WIFI_FW_AP_STATE, key_mac = replicate 6 (of_nat f + 2), key_bssid = replicate 6 9, iface_id = f,
     mlme_sta_or_null = False, hw_invalidate = (\<lambda>_ _. 0)\<rparr>"

definition demo_dev :: dvobj_priv where
  "demo_dev = \<lparr>sec_cap = 3, cam_flags = 0, cam_num = 32, cam_used = 0, cam_cache = replicate 32 null_ent, hw_cam = (\<lambda>_. 0),
     macid_ctl = rtw_macid_ctl_init (zero_macid_ctl 2 128)\<rparr>"

theorem macid_alloc_invariant_witness:
  "\<exists>(d :: dvobj_priv) (L :: live_stas). macid_run 2 128 (\<lambda>f. replicate 6 (of_nat f + 2)) d L \<and> L 7 = Some (0, bc_addr, 0) \<and> L 8 = Some (1, replicate 6 5, 2) \<and> rtw_macid_is_used (macid_ctl d) 2 \<and> \<not> rtw_macid_is_used (macid_ctl d) 3"
proof -
  let ?m = "\<lambda>f. replicate 6 (of_nat f + 2)"
  let ?d1 = "snd (rtw_alloc_macid (demo_env 0) demo_dev bc_addr 7)"
  let ?d2 = "snd (rtw_alloc_macid (demo_env 1) ?d1 (replicate 6 5) 8)"
  let ?L1 = "Map.empty((7::nat) \<mapsto> (iface_id (demo_env 0), bc_addr, 0))"
  let ?L2 = "?L1(8 \<mapsto> (iface_id (demo_env 1), replicate 6 5, 2))"
  have "macid_run 2 128 ?m demo_dev Map.empty" by (rule macid_run.init) (simp add: demo_dev_def)
  then have "macid_run 2 128 ?m ?d1 ?L1"
    by (rule macid_run.alloc [where i = 0]) (simp, simp add: demo_env_def, simp add: demo_env_def, rule prod_eqI, simp, code_simp, simp)
  then have run: "macid_run 2 128 ?m ?d2 ?L2"
    by (rule macid_run.alloc [where i = 2]) (simp, simp add: demo_env_def, simp add: demo_env_def, rule prod_eqI, simp, code_simp, simp)
  have used: "rtw_macid_is_used (macid_ctl ?d2) i \<longleftrightarrow> i = RTW_DEFAULT_MGMT_MACID \<or> (\<exists>s f a. ?L2 s = Some (f, a, i) \<and> i < macid_num (macid_ctl ?d2))" for i
    by (rule macid_alloc_invariant [OF run, THEN conjunct1, THEN spec]) simp_all
  have "macid_num (macid_ctl ?d2) = 32" by code_simp
  then have "rtw_macid_is_used (macid_ctl ?d2) 2" "\<not> rtw_macid_is_used (macid_ctl ?d2) 3"
    unfolding used by (auto simp: RTW_DEFAULT_MGMT_MACID_def intro: exI [of _ 8] split: if_splits)
  then show ?thesis using run by (intro exI [of _ ?d2] exI [of _ ?L2]) (simp add: demo_env_def)
qed

theorem rtw_macid_ctl_set_h2c_msr_counts_witness:
  "\<exists>c'. op_num_ok (zero_macid_ctl 1 32) \<and> rtw_macid_ctl_set_h2c_msr (zero_macid_ctl 1 32) 5 0x11 = (2, c') \<and> op_num_ok c'"
proof -
  let ?c = "zero_macid_ctl 1 32"
  have ok: "op_num_ok ?c" by code_simp
  have "i < macid_num ?c" "i < length (h2c_msr ?c)" "length (op_num ?c) = H2C_MSR_ROLE_MAX" if "i < 32" for i
    using that by (simp_all add: zero_macid_ctl_def MACID_NUM_SW_LIMIT_def)
  note w = this [of 5]
  obtain c' where c': "rtw_macid_ctl_set_h2c_msr ?c 5 0x11 = (2, c')"
  proof
    show "rtw_macid_ctl_set_h2c_msr ?c 5 0x11 = (2, snd (rtw_macid_ctl_set_h2c_msr ?c 5 0x11))" by (rule prod_eqI) (simp, code_simp, simp)
  qed
  have "msr_role 0x11 < H2C_MSR_ROLE_MAX" "msr_role (h2c_msr ?c ! 5) < H2C_MSR_ROLE_MAX" "\<not> msr_opmode (h2c_msr ?c ! 5)" by code_simp+
  then show ?thesis using rtw_macid_ctl_set_h2c_msr_counts [OF ok w c'] c' ok by simp
qed

end
