(* ===== verification/Hw_Keys.thy ===== *)
theory Hw_Keys
  imports Hw_Cam
begin

text \<open>
  The command handlers that install and remove keys (\<^verbatim>\<open>core/rtw_mlme_ext.c\<close>, \<^verbatim>\<open>core/rtw_cmd.c\<close>), over the key table of
  \<open>Hw_Cam\<close> and the station table. Calls of \<open>rtw_hal_set_hwreg\<close> are a log; \<open>None\<close> is an access outside an array or a
  loop that does not end. \<open>CONFIG_LPS_PG\<close> (leaving power save before a key is written) is left out.
\<close>

definition H2C_SUCCESS :: nat where "H2C_SUCCESS = 0"
definition H2C_SUCCESS_RSP :: nat where "H2C_SUCCESS_RSP = 1"
definition H2C_REJECTED :: nat where "H2C_REJECTED = 5"
definition SEC_STATUS_STA_PK_GK_CONFLICT_DIS_BMC_SEARCH :: u32 where "SEC_STATUS_STA_PK_GK_CONFLICT_DIS_BMC_SEARCH = 1"

datatype key_call = HW_VAR_SEC_CFG | HW_VAR_ON_RCR_AM

record key_sys =
  dev :: dvobj_priv
  key_stas :: sta_priv
  enc_algo :: u8
  key_index :: u8
  dot11Def_camid :: "nat list"
  bmc_cam_id :: nat
  PrivacyAlgrthm :: u32
  PrivacyKeyIndex :: nat
  dot11DefKey :: "buf list"
  key_mask :: u8
  amsdu_mode_spp :: bool
  key_calls :: "key_call list"

record set_stakey_parm =
  sk_addr :: buf
  sk_algorithm :: u8
  sk_keyid :: u8
  sk_key :: buf
  sk_gk :: u8

record setkey_parm =
  gk_algorithm :: u8
  gk_keyid :: u8
  gk_set_tx :: bool
  gk_key :: buf

definition is_wep_enc :: "u32 \<Rightarrow> bool" where
  "is_wep_enc alg \<longleftrightarrow> alg = 1 \<or> alg = 5"

definition amsdu_spp_enable :: "key_sys \<Rightarrow> u8 \<Rightarrow> bool" where
  "amsdu_spp_enable s type \<longleftrightarrow> amsdu_mode_spp s \<and> (type = 4 \<or> type = 0x14 \<or> type = 7 \<or> type = 0x17)"

text \<open>The loop that clears the entries of an address, with the filter \<open>gk\<close> of the search.\<close>

definition clear_keys_step :: "buf \<Rightarrow> int \<Rightarrow> dvobj_priv \<Rightarrow> (dvobj_priv, dvobj_priv) iteration" where
  "clear_keys_step addr gk d =
     (case rtw_camid_search d (Some addr) (-1) gk of
        None \<Rightarrow> Ret d
      | Some i \<Rightarrow> (case clear_cam_entry d i of None \<Rightarrow> Fault | Some d \<Rightarrow> Next (rtw_camid_free d i)))"

definition clear_keys :: "buf \<Rightarrow> int \<Rightarrow> dvobj_priv \<Rightarrow> dvobj_priv option" where
  "clear_keys addr gk d = run_loop (clear_keys_step addr gk) d"

text \<open>\<open>rtw_clearstakey_cmd\<close> with \<open>enqueue\<close> false; otherwise it queues a command for \<open>set_stakey_hdl\<close> without a cipher.\<close>

definition rtw_clearstakey_cmd :: "key_sys \<Rightarrow> buf \<Rightarrow> key_sys option" where
  "rtw_clearstakey_cmd s addr = do { d \<leftarrow> clear_keys addr (-1) (dev s); Some (s\<lparr>dev := d\<rparr>) }"

definition key_ctrl :: "key_sys \<Rightarrow> u8 \<Rightarrow> u8 \<Rightarrow> bool \<Rightarrow> u16" where
  "key_ctrl s alg keyid gk =
     (let ctrl = push_bit 15 1 OR push_bit 2 (ucast (alg AND 7)) OR ucast keyid;
          ctrl = (if gk then ctrl OR push_bit 6 1 else ctrl);
          ctrl = (if bit alg 4 then ctrl OR push_bit 9 1 else ctrl) in
      if amsdu_spp_enable s alg then ctrl OR push_bit 7 1 else ctrl)"

definition pk_gk_conflict :: "key_sys \<Rightarrow> dvobj_priv \<Rightarrow> buf \<Rightarrow> key_sys option" where
  "pk_gk_conflict s d addr =
     do { d \<leftarrow> clear_keys addr 1 (rtw_camctl_set_flags d SEC_STATUS_STA_PK_GK_CONFLICT_DIS_BMC_SEARCH);
          Some (s\<lparr>dev := d, key_calls := key_calls s @ [HW_VAR_SEC_CFG]\<rparr>) }"

definition inc_keytrack :: "nat \<Rightarrow> sta_priv \<Rightarrow> sta_priv" where
  "inc_keytrack i st = st\<lparr>stainfo := (stainfo st)[i := (stainfo st ! i)\<lparr>sta_keytrack := sta_keytrack (stainfo st ! i) + 1\<rparr>]\<rparr>"

definition set_stakey_hdl :: "key_env \<Rightarrow> key_sys \<Rightarrow> set_stakey_parm \<Rightarrow> (nat \<times> key_sys) option" where
  "set_stakey_hdl e s p =
     (if sk_algorithm p = 0 then
        do { d \<leftarrow> clear_keys (sk_addr p) (-1) (dev s); Some (H2C_SUCCESS_RSP, s\<lparr>dev := d\<rparr>) }
      else case rtw_get_stainfo (key_stas s) (Some (sk_addr p)) of
             None \<Rightarrow> Some (H2C_REJECTED, s)
           | Some psta \<Rightarrow>
               let s = s\<lparr>enc_algo := sk_algorithm p\<rparr>;
                   (cam_id, used, d) = rtw_camid_alloc e (dev s) (Some (mac_addr (stainfo (key_stas s) ! psta))) (sk_keyid p) (sk_gk p) (bit (sk_algorithm p) 4) in
               case cam_id of
                 None \<Rightarrow> Some (H2C_SUCCESS, s\<lparr>dev := d\<rparr>)
               | Some i \<Rightarrow>
                   do { s \<leftarrow> (if sk_gk p = 0 \<and> used \<and> rtw_camid_is_gk d i then pk_gk_conflict s d (sk_addr p) else Some (s\<lparr>dev := d\<rparr>));
                        d \<leftarrow> write_cam (dev s) i (key_ctrl s (sk_algorithm p) (sk_keyid p) (sk_gk p \<noteq> 0)) (sk_addr p) (sk_key p);
                        let s = s\<lparr>dev := d\<rparr>;
                        Some (H2C_SUCCESS_RSP, if sk_gk p = 0 then s\<lparr>key_stas := inc_keytrack psta (key_stas s)\<rparr> else s) })"

definition enable_mc :: "key_sys \<Rightarrow> key_sys" where
  "enable_mc s = s\<lparr>key_calls := key_calls s @ [HW_VAR_ON_RCR_AM]\<rparr>"

text \<open>The bookkeeping of the forced group key entry in AP and ad-hoc mode; \<open>dot11Def_camid\<close> has six entries.\<close>

definition set_bmc_camid :: "setkey_parm \<Rightarrow> nat \<Rightarrow> key_sys \<Rightarrow> key_sys option" where
  "set_bmc_camid p cam_id s =
     (if is_wep_enc (ucast (gk_algorithm p)) then
        if unat (gk_keyid p) < length (dot11Def_camid s) \<and> PrivacyKeyIndex s < length (dot11Def_camid s) then
          let c = (dot11Def_camid s)[unat (gk_keyid p) := cam_id] in
          Some (s\<lparr>dot11Def_camid := c, bmc_cam_id := c ! PrivacyKeyIndex s\<rparr>)
        else None
      else Some (s\<lparr>bmc_cam_id := cam_id\<rparr>))"

text \<open>In station mode a WEP key is installed for unicast frames of the access point as well.\<close>

definition wep_sta_key :: "key_env \<Rightarrow> setkey_parm \<Rightarrow> key_sys \<Rightarrow> key_sys option" where
  "wep_sta_key e p s =
     (if is_wep_enc (ucast (gk_algorithm p)) \<and> key_state e AND 3 = WIFI_FW_STATION_STATE \<and> rtw_camctl_chk_cap (dev s) SEC_CAP_CHK_BMC
      then do { k \<leftarrow> rds (gk_key p) 0 16;
                (r, s) \<leftarrow> set_stakey_hdl e s \<lparr>sk_addr = key_bssid e, sk_algorithm = gk_algorithm p, sk_keyid = gk_keyid p,
                            sk_key = k @ replicate 16 0, sk_gk = 0\<rparr>;
                Some s }
      else Some s)"

definition setkey_hdl :: "key_env \<Rightarrow> key_sys \<Rightarrow> setkey_parm \<Rightarrow> (nat \<times> key_sys) option" where
  "setkey_hdl e s p =
     (let s = (if gk_set_tx p then s\<lparr>key_index := gk_keyid p\<rparr> else s);
          (cam_id, used, d) = (if ap_or_adhoc e then (Some (rtw_iface_bcmc_id_get e (macid_ctl (dev s))), False, dev s)
                               else rtw_camid_alloc e (dev s) None (gk_keyid p) 1 (bit (gk_algorithm p) 4));
          addr = (if ap_or_adhoc e then key_mac e else key_bssid e) in
      case cam_id of
        None \<Rightarrow> Some (H2C_SUCCESS, enable_mc (s\<lparr>dev := d\<rparr>))
      | Some i \<Rightarrow>
          if used \<and> \<not> rtw_camid_is_gk d i then
            do { s \<leftarrow> pk_gk_conflict s d addr; Some (H2C_SUCCESS, enable_mc s) }
          else
            do { d \<leftarrow> write_cam d i (key_ctrl s (gk_algorithm p) (gk_keyid p) True) addr (gk_key p);
                 s \<leftarrow> (if ap_or_adhoc e then set_bmc_camid p i (s\<lparr>dev := d\<rparr>) else Some (s\<lparr>dev := d\<rparr>));
                 s \<leftarrow> wep_sta_key e p s;
                 Some (H2C_SUCCESS, enable_mc s) })"

text \<open>The upper half of the key of \<open>sta_pparm\<close> is not initialised; a WEP key does not use it.\<close>

fun wep_pk_loop :: "nat list \<Rightarrow> key_env \<Rightarrow> key_sys \<Rightarrow> buf \<Rightarrow> key_sys option" where
  "wep_pk_loop [] e s addr = Some s"
| "wep_pk_loop (keyid # ks) e s addr =
     (if bit (key_mask s) keyid \<and> keyid = PrivacyKeyIndex s then
        do { k \<leftarrow> rds (dot11DefKey s ! keyid) 0 16;
             (r, s) \<leftarrow> set_stakey_hdl e s \<lparr>sk_addr = addr, sk_algorithm = ucast (PrivacyAlgrthm s), sk_keyid = of_nat keyid, sk_key = k, sk_gk = 0\<rparr>;
             wep_pk_loop ks e s addr }
      else wep_pk_loop ks e s addr)"

definition rtw_ap_wep_pk_setting :: "key_env \<Rightarrow> key_sys \<Rightarrow> buf \<Rightarrow> key_sys option" where
  "rtw_ap_wep_pk_setting e s addr = (if \<not> is_wep_enc (PrivacyAlgrthm s) then Some s else wep_pk_loop [0..<4] e s addr)"

subsection \<open>Entries of the chip's memory\<close>

definition hw_ent :: "(nat \<Rightarrow> u32) \<Rightarrow> nat \<Rightarrow> buf \<times> buf \<times> buf" where
  "hw_ent hw i = rtw_sec_read_cam_ent hw i True True True"

lemma fold_write_cam:
  "fold (\<lambda>j. rtw_sec_write_cam (b + j) (w j)) (rev [0..<n]) hw a = (if b \<le> a \<and> a < b + n then w (a - b) else hw a)"
  by (induction n arbitrary: hw) (auto simp: rtw_sec_write_cam_def)

lemma write_cam_ent_words:
  assumes "rtw_sec_write_cam_ent hw i ctrl mac key = Some hw'" "i < 32"
  shows "hw' a = (if i * 8 \<le> a \<and> a < i * 8 + 8 then cam_wdata ctrl mac key (a - i * 8) else hw a)"
proof -
  have "fold (\<lambda>j. rtw_sec_write_cam ((i * 8 + j) mod 256) (cam_wdata ctrl mac key j)) (rev [0..<8]) hw
      = fold (\<lambda>j. rtw_sec_write_cam (i * 8 + j) (cam_wdata ctrl mac key j)) (rev [0..<8]) hw"
    by (rule fold_cong) (use assms(2) in auto)
  then show ?thesis using assms(1) fold_write_cam [of "i * 8" "cam_wdata ctrl mac key" 8 hw a]
    by (auto simp: rtw_sec_write_cam_ent_def split: if_splits)
qed

lemma high_bits [simp]: "\<not> bit (a :: u8) (8 + n)" "\<not> bit a (16 + n)" "\<not> bit a (24 + n)" "\<not> bit (c :: u16) (16 + n)" "\<not> bit c (24 + n)"
  by (auto dest: bit_imp_le_length)

lemma cam_le32_bytes_le32: "cam_le32_bytes (cam_le32 a b c d) = [a, b, c, d]"
  unfolding cam_le32_bytes_def cam_le32_def by (auto intro!: bit_word_eqI simp: bit_simps)

lemma cam_le32_bytes_ctrl: "cam_le32_bytes (ucast (ctrl :: u16) OR push_bit 16 (ucast a) OR push_bit 24 (ucast b)) = le16_bytes ctrl @ [a, b]"
proof -
  have m: "(0xff :: u16) = mask 8" by (simp add: mask_eq_exp_minus_1)
  show ?thesis unfolding cam_le32_bytes_def le16_bytes_def m by (auto intro!: bit_word_eqI simp: bit_simps)
qed

lemma addr_or: "list_all (\<lambda>i. list_all (\<lambda>j. (i * 8) mod 256 OR j = i * 8 + j) [0..<6]) [0..<32]"
  by code_simp

lemma hw_ent_words:
  assumes "i < 32"
  shows "hw_ent hw i = (take 2 (cam_le32_bytes (hw (i * 8))), drop 2 (cam_le32_bytes (hw (i * 8))) @ cam_le32_bytes (hw (i * 8 + 1)),
     cam_le32_bytes (hw (i * 8 + 2)) @ cam_le32_bytes (hw (i * 8 + 3)) @ cam_le32_bytes (hw (i * 8 + 4)) @ cam_le32_bytes (hw (i * 8 + 5)))"
proof -
  have o: "(i * 8) mod 256 OR j = i * 8 + j" if "j < 6" for j using addr_or assms that by (simp add: list_all_iff)
  let ?f = "\<lambda>j. read_cam_word True True True j (cam_le32_bytes (rtw_sec_read_cam hw ((i * 8) mod 256 OR j)))"
  have u: "[0..<5 + 1] = [0, 1, 2, 3, 4, 5 :: nat]" by code_simp
  have fj: "?f j = read_cam_word True True True j (cam_le32_bytes (hw (i * 8 + j)))" if "j < 6" for j by (simp only: o [OF that] rtw_sec_read_cam_def)
  have "fold ?f [0, 1, 2, 3, 4, 5] ([], [], []) = fold (\<lambda>j. read_cam_word True True True j (cam_le32_bytes (hw (i * 8 + j)))) [0, 1, 2, 3, 4, 5] ([], [], [])"
    by (rule fold_cong [OF refl refl fj]) auto
  moreover have "hw_ent hw i = fold ?f [0, 1, 2, 3, 4, 5] ([], [], [])" unfolding hw_ent_def rtw_sec_read_cam_ent_def u [symmetric] Let_def by (simp del: upt_Suc)
  moreover have t: "take 2 (drop 2 (cam_le32_bytes v)) = drop 2 (cam_le32_bytes v)" for v by (simp add: cam_le32_bytes_def)
  ultimately show ?thesis by (simp add: read_cam_word_def)
qed

lemma list6: "length m = 6 \<Longrightarrow> [m ! 0, m ! 1, m ! 2, m ! 3, m ! 4, m ! 5] = m"
  by (rule nth_equalityI) (auto simp: less_Suc_eq numeral_eq_Suc)

lemma list16: "16 \<le> length m \<Longrightarrow> [m ! 0, m ! 1, m ! 2, m ! 3, m ! 4, m ! 5, m ! 6, m ! 7, m ! 8, m ! 9, m ! 10, m ! 11, m ! 12, m ! 13, m ! 14, m ! 15] = take 16 m"
  by (rule nth_equalityI) (auto simp: less_Suc_eq numeral_eq_Suc)

text \<open>What is written into an entry is read back, and the other entries are left alone.\<close>

lemma hw_ent_write:
  assumes "rtw_sec_write_cam_ent hw i ctrl mac key = Some hw'" "i < 32" "length mac = 6"
  shows "hw_ent hw' i = (le16_bytes ctrl, mac, take 16 key)"
proof -
  have k: "16 \<le> length key" using assms(1) by (auto simp: rtw_sec_write_cam_ent_def split: if_splits)
  have w: "hw' (i * 8 + j) = cam_wdata ctrl mac key j" if "j < 8" for j using write_cam_ent_words [OF assms(1,2), of "i * 8 + j"] that by simp
  have ws: "hw' (i * 8) = cam_wdata ctrl mac key 0" "hw' (i * 8 + 1) = cam_wdata ctrl mac key 1" "hw' (i * 8 + 2) = cam_wdata ctrl mac key 2"
    "hw' (i * 8 + 3) = cam_wdata ctrl mac key 3" "hw' (i * 8 + 4) = cam_wdata ctrl mac key 4" "hw' (i * 8 + 5) = cam_wdata ctrl mac key 5"
    using w [of 0] w [of 1] w [of 2] w [of 3] w [of 4] w [of 5] by simp_all
  have "hw_ent hw' i = (le16_bytes ctrl, [mac ! 0, mac ! 1, mac ! 2, mac ! 3, mac ! 4, mac ! 5],
      [key ! 0, key ! 1, key ! 2, key ! 3, key ! 4, key ! 5, key ! 6, key ! 7, key ! 8, key ! 9, key ! 10, key ! 11, key ! 12, key ! 13, key ! 14, key ! 15])"
    unfolding hw_ent_words [OF assms(2)] ws by (simp add: cam_wdata_def Let_def cam_le32_bytes_le32 cam_le32_bytes_ctrl numeral_2_eq_2)
  then show ?thesis unfolding list6 [OF assms(3)] list16 [OF k] .
qed

lemma hw_ent_other:
  assumes "rtw_sec_write_cam_ent hw i ctrl mac key = Some hw'" "i < 32" "j < 32" "j \<noteq> i"
  shows "hw_ent hw' j = hw_ent hw j"
proof -
  have "hw' (j * 8 + k) = hw (j * 8 + k)" if "k < 8" for k
    using write_cam_ent_words [OF assms(1,2), of "j * 8 + k"] that assms(4) by auto
  note ws = this [of 0, simplified] this [of 1, simplified] this [of 2, simplified] this [of 3, simplified] this [of 4, simplified] this [of 5, simplified]
  show ?thesis unfolding hw_ent_words [OF assms(3)] using ws by simp
qed

subsection \<open>Installing a key\<close>

definition cam_wf :: "dvobj_priv \<Rightarrow> bool" where
  "cam_wf d \<longleftrightarrow> cam_num d \<le> 32 \<and> length (cam_cache d) = 32"

definition ent_of :: "dvobj_priv \<Rightarrow> nat \<Rightarrow> sec_cam_ent \<times> (buf \<times> buf \<times> buf) \<times> bool" where
  "ent_of d i = (cam_cache d ! i, hw_ent (hw_cam d) i, rtw_sec_camid_is_set (cam_used d) i)"

lemma write_cam_ent_eq:
  assumes "cam_wf d" "i < 32" "length mac = 6" "16 \<le> length key"
  obtains hw where "rtw_sec_write_cam_ent (hw_cam d) i ctrl mac key = Some hw"
    "write_cam_ent d i ctrl mac key = Some (d\<lparr>hw_cam := hw, cam_cache := (cam_cache d)[i := \<lparr>cam_ctrl = ctrl, cam_mac = mac, cam_key = take 16 key\<rparr>]\<rparr>)"
  using assms by (auto simp: cam_wf_def write_cam_ent_def write_cam_cache_def rtw_sec_write_cam_ent_def)

lemma write_cam_ent_spec:
  assumes "cam_wf d" "i < 32" "length mac = 6" "16 \<le> length key"
  shows "\<exists>d'. write_cam_ent d i ctrl mac key = Some d' \<and> cam_wf d' \<and>
    ent_of d' i = (\<lparr>cam_ctrl = ctrl, cam_mac = mac, cam_key = take 16 key\<rparr>, (le16_bytes ctrl, mac, take 16 key), rtw_sec_camid_is_set (cam_used d) i) \<and>
    (\<forall>j<32. j \<noteq> i \<longrightarrow> ent_of d' j = ent_of d j) \<and> cam_num d' = cam_num d \<and> cam_used d' = cam_used d \<and> sec_cap d' = sec_cap d"
proof -
  obtain hw where hw: "rtw_sec_write_cam_ent (hw_cam d) i ctrl mac key = Some hw"
    and w: "write_cam_ent d i ctrl mac key = Some (d\<lparr>hw_cam := hw, cam_cache := (cam_cache d)[i := \<lparr>cam_ctrl = ctrl, cam_mac = mac, cam_key = take 16 key\<rparr>]\<rparr>)"
    using write_cam_ent_eq [OF assms] .
  show ?thesis using hw_ent_write [OF hw assms(2,3)] hw_ent_other [OF hw assms(2)] assms(1,2) unfolding w cam_wf_def ent_of_def by simp
qed

lemma search_Some_iff:
  "rtw_camid_search d a k g = Some i \<longleftrightarrow> i < cam_num d \<and> cam_cache_chk d i a k g \<and> (\<forall>j<i. \<not> cam_cache_chk d j a k g)"
  by (auto simp: rtw_camid_search_def find_Some_iff)

lemma search_None_iff: "rtw_camid_search d a k g = None \<longleftrightarrow> (\<forall>i<cam_num d. \<not> cam_cache_chk d i a k g)"
  by (auto simp: rtw_camid_search_def find_None_iff)

lemma chk_cong:
  assumes "cam_num d' = cam_num d" "ent_of d' i = ent_of d i"
  shows "cam_cache_chk d' i a k g = cam_cache_chk d i a k g"
proof -
  have e: "cam_cache d' ! i = cam_cache d ! i" "rtw_sec_camid_is_set (cam_used d') i = rtw_sec_camid_is_set (cam_used d) i"
    using assms(2) by (simp_all add: ent_of_def)
  show ?thesis unfolding cam_cache_chk_def rtw_camid_is_gk_def rtw_sec_camid_is_used_def assms(1) e by (rule refl)
qed

text \<open>The entry for a 128-bit key: that of the same address, key id and kind when there is one, otherwise the first that is free.\<close>

lemma rtw_get_camid_128:
  assumes "rtw_camctl_chk_cap d SEC_CAP_CHK_BMC" "rtw_get_camid d (Some a) kid gk False = r"
  shows "case r of
      None \<Rightarrow> rtw_camid_search d (Some a) kid (sint gk) = None \<and> (\<forall>i<cam_num d. rtw_sec_camid_is_used d i)
    | Some i \<Rightarrow> i < cam_num d \<and> (\<forall>j<i. \<not> cam_cache_chk d j (Some a) kid (sint gk)) \<and>
        (cam_cache_chk d i (Some a) kid (sint gk) \<or> (\<not> rtw_sec_camid_is_used d i \<and> rtw_camid_search d (Some a) kid (sint gk) = None))"
proof (cases "rtw_camid_search d (Some a) kid (sint gk)")
  case None
  then have "r = List.find (\<lambda>i. \<not> rtw_sec_camid_is_used d i) [0..<cam_num d]" using assms by (simp add: rtw_get_camid_def)
  then show ?thesis using None by (auto simp: find_None_iff find_Some_iff search_None_iff split: option.splits)
next
  case (Some i)
  moreover from Some have "r = Some i" using assms by (simp add: rtw_get_camid_def)
  ultimately show ?thesis by (simp add: search_Some_iff)
qed

lemma ctrl_bits:
  assumes "keyid < 4"
  shows "bit (key_ctrl s alg keyid gk) 9 = bit alg 4" "bit (key_ctrl s alg keyid gk) 6 = gk" "uint (key_ctrl s alg keyid gk AND 3) = uint keyid"
proof -
  have tb: "take_bit 2 keyid = keyid"
    using assms by (simp add: word_less_nat_alt unsigned_take_bit_eq take_bit_nat_eq_self word_unat_eq_iff)
  have hi: "\<not> bit keyid n" if "2 \<le> n" for n
    using that tb by (metis bit_take_bit_iff not_le)
  have m7: "(7 :: u8) = mask 3" and m3: "(3 :: u16) = mask 2" by (simp_all add: mask_eq_exp_minus_1)
  have hi7: "\<not> bit (alg AND 7) n" if "3 \<le> n" for n
    using that unfolding m7 by (auto simp: bit_simps)
  show "bit (key_ctrl s alg keyid gk) 9 = bit alg 4" "bit (key_ctrl s alg keyid gk) 6 = gk"
    unfolding key_ctrl_def Let_def using hi hi7 by (auto simp: bit_simps)
  have low: "bit (key_ctrl s alg keyid gk) n = bit keyid n" if "n < 2" for n
    using less_2_cases [OF that] unfolding key_ctrl_def Let_def by (elim disjE) (auto simp: bit_simps)
  have "bit (take_bit 2 (key_ctrl s alg keyid gk)) n = bit (ucast keyid :: u16) n" if "n < 16" for n
    using that low hi by (cases "n < 2") (auto simp: bit_simps)
  then have "key_ctrl s alg keyid gk AND 3 = ucast keyid" unfolding m3 take_bit_eq_mask [symmetric] by (intro bit_word_eqI) simp
  then show "uint (key_ctrl s alg keyid gk AND 3) = uint keyid"
    using uint_bounded [of keyid] by (simp add: unsigned_ucast_eq take_bit_int_eq_self_iff)
qed

text \<open>C6. Installing a 128-bit key for a station: \<open>set_stakey_hdl\<close> always returns. When there is an entry for it, the chip then holds the
  key under the address of the station, a search for address, key id and kind finds that entry, and it is marked used; every other
  entry of chip, cache and bitmap is unchanged, and the entry was free or held the key of the same station, key id and kind, so that no other
  key is lost. A new pairwise key advances the key counter of the station. Without room nothing changes.\<close>

theorem set_stakey_hdl_installs:
  assumes wf: "cam_wf (dev s)" and cap: "rtw_camctl_chk_cap (dev s) SEC_CAP_CHK_BMC"
    and sta: "rtw_get_stainfo (key_stas s) (Some (sk_addr p)) = Some psta" "psta < length (stainfo (key_stas s))"
      "mac_addr (stainfo (key_stas s) ! psta) = sk_addr p" "length (sk_addr p) = 6"
    and alg: "sk_algorithm p \<noteq> 0" "\<not> bit (sk_algorithm p) 4" and kid: "sk_keyid p < 4" and gk: "sk_gk p \<in> {0, 1}" and key: "16 \<le> length (sk_key p)"
  defines "gkf \<equiv> sint (sk_gk p)" and "d \<equiv> dev s"
  shows "\<exists>r s'. set_stakey_hdl e s p = Some (r, s') \<and>
    (case rtw_get_camid d (Some (sk_addr p)) (uint (sk_keyid p)) (sk_gk p) False of
       None \<Rightarrow> r = H2C_SUCCESS \<and> dev s' = d \<and> (\<forall>i < cam_num d. rtw_sec_camid_is_used d i)
     | Some i \<Rightarrow> r = H2C_SUCCESS_RSP \<and> i < cam_num d \<and> (\<not> rtw_sec_camid_is_used d i \<or>
             cam_mac (cam_cache d ! i) = sk_addr p \<and> uint (cam_ctrl (cam_cache d ! i) AND 3) = uint (sk_keyid p) \<and> rtw_camid_is_gk d i = (sk_gk p \<noteq> 0))
         \<and> hw_ent (hw_cam (dev s')) i = (le16_bytes (key_ctrl s (sk_algorithm p) (sk_keyid p) (sk_gk p \<noteq> 0)), sk_addr p, take 16 (sk_key p))
         \<and> rtw_camid_search (dev s') (Some (sk_addr p)) (uint (sk_keyid p)) gkf = Some i \<and> rtw_sec_camid_is_used (dev s') i
         \<and> (\<forall>j<32. j \<noteq> i \<longrightarrow> ent_of (dev s') j = ent_of d j)
         \<and> sta_keytrack (stainfo (key_stas s') ! psta) = sta_keytrack (stainfo (key_stas s) ! psta) + (if sk_gk p = 0 then 1 else 0))"
proof -
  let ?a = "sk_addr p" and ?k = "uint (sk_keyid p)" and ?c = "key_ctrl s (sk_algorithm p) (sk_keyid p) (sk_gk p \<noteq> 0)"
  let ?r = "rtw_get_camid d (Some ?a) ?k (sk_gk p) False"
  note R = rtw_get_camid_128 [OF cap [folded d_def] refl, of ?a ?k "sk_gk p", folded gkf_def]
  have gk2: "(gkf \<noteq> 0) = (sk_gk p \<noteq> 0)" "gkf \<noteq> -1" using gk by (auto simp: gkf_def)
  have ctrl: "key_ctrl (s\<lparr>enc_algo := x\<rparr>) = key_ctrl s" "key_ctrl (s\<lparr>enc_algo := x, dev := y\<rparr>) = key_ctrl s" for x y
    by (auto simp: key_ctrl_def amsdu_spp_enable_def fun_eq_iff)
  show ?thesis
  proof (cases ?r)
    case None
    then have "set_stakey_hdl e s p = Some (H2C_SUCCESS, s\<lparr>enc_algo := sk_algorithm p, dev := d\<rparr>)"
      using sta alg by (simp add: set_stakey_hdl_def rtw_camid_alloc_def Let_def d_def)
    then show ?thesis using R None by simp
  next
    case (Some i)
    then have i: "i < cam_num d" "\<forall>j<i. \<not> cam_cache_chk d j (Some ?a) ?k gkf"
      "cam_cache_chk d i (Some ?a) ?k gkf \<or> (\<not> rtw_sec_camid_is_used d i \<and> rtw_camid_search d (Some ?a) ?k gkf = None)" using R by simp_all
    have i32: "i < 32" using i(1) wf by (simp add: cam_wf_def d_def)
    define d1 where "d1 = d\<lparr>cam_used := rtw_sec_cam_map_set (cam_used d) i\<rparr>"
    have al: "rtw_camid_alloc e d (Some ?a) (sk_keyid p) (sk_gk p) False = (Some i, rtw_sec_camid_is_used d i, d1)"
      using Some by (simp add: rtw_camid_alloc_def Let_def d1_def)
    have nogk: "\<not> (sk_gk p = 0 \<and> rtw_sec_camid_is_used d i \<and> rtw_camid_is_gk d1 i)"
      using i(3) gk2 by (auto simp: cam_cache_chk_def rtw_camid_is_gk_def d1_def rtw_sec_camid_is_used_def split: if_splits)
    have wf1: "cam_wf d1" using wf by (simp add: cam_wf_def d1_def d_def)
    obtain d2 where w: "write_cam_ent d1 i ?c ?a (sk_key p) = Some d2" "cam_wf d2"
      "ent_of d2 i = (\<lparr>cam_ctrl = ?c, cam_mac = ?a, cam_key = take 16 (sk_key p)\<rparr>, (le16_bytes ?c, ?a, take 16 (sk_key p)), rtw_sec_camid_is_set (cam_used d1) i)"
      "\<forall>j<32. j \<noteq> i \<longrightarrow> ent_of d2 j = ent_of d1 j" "cam_num d2 = cam_num d1" "cam_used d2 = cam_used d1"
      using write_cam_ent_spec [OF wf1 i32 sta(4) key, of ?c] by blast
    have wc: "write_cam d1 i ?c ?a (sk_key p) = Some d2" using ctrl_bits(1) [OF kid] alg(2) w(1) by (simp add: write_cam_def)
    have e1: "ent_of d1 j = ent_of d j" if "j \<noteq> i" for j using that by (simp add: ent_of_def d1_def id_laws)
    have same: "ent_of d2 j = ent_of d j" if "j < 32" "j \<noteq> i" for j using w(4) e1 that by simp
    have used: "rtw_sec_camid_is_used d2 i" using i(1) i32 w(5,6) by (simp add: rtw_sec_camid_is_used_def d1_def id_laws)
    have ci: "cam_ctrl (cam_cache d2 ! i) = ?c" "cam_mac (cam_cache d2 ! i) = ?a" using w(3) by (simp_all add: ent_of_def)
    have "cam_cache_chk d2 i (Some ?a) ?k gkf"
      unfolding cam_cache_chk_def rtw_camid_is_gk_def ci using used i(1) w(5) ctrl_bits(2,3) [OF kid] gk2(1) by (simp add: d1_def)
    moreover have "\<not> cam_cache_chk d2 j (Some ?a) ?k gkf" if "j < i" for j
      using chk_cong [of d2 d j "Some ?a" ?k gkf] same [of j] i(2) that i32 w(5) by (simp add: d1_def)
    ultimately have se: "rtw_camid_search d2 (Some ?a) ?k gkf = Some i" using i(1) w(5) by (simp add: search_Some_iff d1_def)
    have own: "\<not> rtw_sec_camid_is_used d i \<or> cam_mac (cam_cache d ! i) = ?a \<and> uint (cam_ctrl (cam_cache d ! i) AND 3) = ?k \<and> rtw_camid_is_gk d i = (sk_gk p \<noteq> 0)"
      using i(3) gk2 by (simp add: cam_cache_chk_def split: if_splits)
    define s2 where "s2 = s\<lparr>enc_algo := sk_algorithm p, dev := d2\<rparr>"
    define s3 where "s3 = (if sk_gk p = 0 then s2\<lparr>key_stas := inc_keytrack psta (key_stas s2)\<rparr> else s2)"
    have "set_stakey_hdl e s p = Some (H2C_SUCCESS_RSP, s3)"
      unfolding set_stakey_hdl_def using sta(1,3) alg al nogk wc ctrl by (auto simp: Let_def d_def [symmetric] s2_def s3_def)
    moreover have "dev s3 = d2" by (simp add: s3_def s2_def)
    moreover have "sta_keytrack (stainfo (key_stas s3) ! psta) = sta_keytrack (stainfo (key_stas s) ! psta) + (if sk_gk p = 0 then 1 else 0)"
      using sta(2) by (simp add: s3_def s2_def inc_keytrack_def)
    ultimately show ?thesis using Some i(1) own w(3) se used same by (simp add: ent_of_def)
  qed
qed

subsection \<open>Clearing and exchanging entries\<close>

definition cleared :: "sec_cam_ent \<times> (buf \<times> buf \<times> buf) \<times> bool" where
  "cleared = (null_ent, (le16_bytes 0, replicate 6 0, replicate 16 0), False)"

lemma clear_entry_spec:
  assumes "cam_wf d" "i < cam_num d"
  shows "\<exists>d'. clear_cam_entry d i = Some d' \<and> cam_wf (rtw_camid_free d' i) \<and> cam_num (rtw_camid_free d' i) = cam_num d \<and>
    ent_of (rtw_camid_free d' i) i = cleared \<and> (\<forall>j<32. j \<noteq> i \<longrightarrow> ent_of (rtw_camid_free d' i) j = ent_of d j)"
proof -
  have i: "i < 32" "i < length (cam_cache d)" using assms by (auto simp: cam_wf_def)
  obtain hw where hw: "rtw_sec_write_cam_ent (hw_cam d) i 0 (replicate 6 0) (replicate 32 0) = Some hw"
    by (simp add: rtw_sec_write_cam_ent_def)
  have c: "clear_cam_entry d i = Some (d\<lparr>hw_cam := hw, cam_cache := (cam_cache d)[i := null_ent]\<rparr>)"
    using hw i by (simp add: clear_cam_entry_def clear_cam_entry_hw_def clear_cam_cache_def)
  have "hw_ent hw i = (le16_bytes 0, replicate 6 0, replicate 16 0)" using hw_ent_write [OF hw i(1)] by simp
  then show ?thesis unfolding c using assms i hw_ent_other [OF hw i(1)]
    by (simp add: rtw_camid_free_def cam_wf_def ent_of_def cleared_def id_laws)
qed

lemma chk_any: "cam_cache_chk d i (Some a) (-1) (-1) \<longleftrightarrow> cam_mac (cam_cache d ! i) = a"
  by (simp add: cam_cache_chk_def)

lemma clear_step_cases:
  assumes "cam_wf d"
  shows "clear_keys_step addr (-1) d = Ret d \<and> (\<forall>i<cam_num d. cam_mac (cam_cache d ! i) \<noteq> addr) \<or>
    (\<exists>i d'. clear_keys_step addr (-1) d = Next d' \<and> i < cam_num d \<and> cam_mac (cam_cache d ! i) = addr \<and> (\<forall>j<i. cam_mac (cam_cache d ! j) \<noteq> addr)
       \<and> (\<exists>d1. clear_cam_entry d i = Some d1 \<and> d' = rtw_camid_free d1 i)
       \<and> cam_wf d' \<and> cam_num d' = cam_num d \<and> ent_of d' i = cleared \<and> (\<forall>j<32. j \<noteq> i \<longrightarrow> ent_of d' j = ent_of d j))"
proof (cases "rtw_camid_search d (Some addr) (-1) (-1)")
  case None
  then have "\<forall>i<cam_num d. cam_mac (cam_cache d ! i) \<noteq> addr" unfolding search_None_iff chk_any .
  with None show ?thesis by (simp add: clear_keys_step_def)
next
  case (Some i)
  then have i: "i < cam_num d" "cam_mac (cam_cache d ! i) = addr" "\<forall>j<i. cam_mac (cam_cache d ! j) \<noteq> addr" unfolding search_Some_iff chk_any by auto
  obtain d1 where "clear_cam_entry d i = Some d1" "cam_wf (rtw_camid_free d1 i)" "cam_num (rtw_camid_free d1 i) = cam_num d"
    "ent_of (rtw_camid_free d1 i) i = cleared" "\<forall>j<32. j \<noteq> i \<longrightarrow> ent_of (rtw_camid_free d1 i) j = ent_of d j"
    using clear_entry_spec [OF assms i(1)] by blast
  then show ?thesis using Some i by (intro disjI2 exI [of _ i] exI [of _ "rtw_camid_free d1 i"]) (simp add: clear_keys_step_def)
qed

definition owned :: "dvobj_priv \<Rightarrow> buf \<Rightarrow> nat set" where
  "owned d addr = {i. i < cam_num d \<and> cam_mac (cam_cache d ! i) = addr}"

lemma clear_keys_total:
  assumes "cam_wf d" "addr \<noteq> replicate 6 0"
  shows "\<exists>d'. clear_keys addr (-1) d = Some d' \<and> cam_wf d' \<and> cam_num d' = cam_num d \<and> 
    (\<forall>j<32. ent_of d' j = (if j \<in> owned d addr then cleared else ent_of d j))"
proof -
  let ?I = "\<lambda>x. cam_wf x \<and> cam_num x = cam_num d \<and> (\<forall>j<32. ent_of x j = ent_of d j \<or> (j \<in> owned d addr \<and> ent_of x j = cleared))"
  have "\<exists>r. run_loop (clear_keys_step addr (-1)) d = Some r \<and> (?I r \<and> owned r addr = {})"
  proof (rule run_loop_total [where I = ?I and m = "\<lambda>x. card (owned x addr)"])
    show "?I d" using assms(1) by simp
    show "clear_keys_step addr (-1) x \<noteq> Fault" if "?I x" for x using clear_step_cases [of x addr] that by auto
    show "?I r \<and> owned r addr = {}" if "?I x" "clear_keys_step addr (-1) x = Ret r" for x r
      using clear_step_cases [of x addr] that by (auto simp: owned_def)
    show "?I y \<and> card (owned y addr) < card (owned x addr)" if I: "?I x" and st: "clear_keys_step addr (-1) x = Next y" for x y
    proof -
      obtain i where i: "i < cam_num x" "cam_mac (cam_cache x ! i) = addr" "cam_wf y" "cam_num y = cam_num x" "ent_of y i = cleared"
        "\<forall>j<32. j \<noteq> i \<longrightarrow> ent_of y j = ent_of x j" using clear_step_cases [of x addr] I st by auto
      have i32: "i < 32" using i(1) I by (auto simp: cam_wf_def)
      have mac: "cam_mac (fst (ent_of z j)) = cam_mac (cam_cache z ! j)" for z j by (simp add: ent_of_def)
      have clm: "cam_mac (fst cleared) = replicate 6 0" by (simp add: cleared_def null_ent_def)
      have "i \<in> owned d addr" using I i(1,2) i32 mac [of x i] mac [of d i] clm assms(2) by (auto simp: owned_def)
      then have "?I y" using I i i32 by metis
      moreover have "owned y addr = owned x addr - {i}"
      proof -
        have "j \<in> owned y addr \<longleftrightarrow> j \<in> owned x addr \<and> j \<noteq> i" if "j < 32" for j
          using i(4,5,6) that mac [of y j] mac [of x j] clm assms(2) by (cases "j = i") (auto simp: owned_def)
        moreover have "owned y addr \<subseteq> {..<32}" "owned x addr \<subseteq> {..<32}" using I i(4) by (auto simp: owned_def cam_wf_def)
        ultimately show ?thesis by auto
      qed
      moreover have "i \<in> owned x addr" "finite (owned x addr)" using i(1,2) by (auto simp: owned_def)
      ultimately show ?thesis by (metis card_Diff1_less)
    qed
  qed
  then obtain r where r: "clear_keys addr (-1) d = Some r" "?I r" "owned r addr = {}" by (auto simp: clear_keys_def)
  have "ent_of r j = (if j \<in> owned d addr then cleared else ent_of d j)" if j: "j < 32" for j
  proof (cases "j \<in> owned d addr")
    case True
    have "ent_of r j \<noteq> ent_of d j"
    proof
      assume "ent_of r j = ent_of d j"
      then have "cam_cache r ! j = cam_cache d ! j" by (simp add: ent_of_def)
      then show False using True r(2,3) by (auto simp: owned_def)
    qed
    then show ?thesis using True r(2) j by auto
  qed (use r(2) j in auto)
  then show ?thesis using r by blast
qed

lemma clear_entry_idem:
  assumes "clear_cam_entry d i = Some d1" "i < 32"
  shows "clear_cam_entry (rtw_camid_free d1 i) i = Some (rtw_camid_free d1 i) \<and> rtw_camid_free (rtw_camid_free d1 i) i = rtw_camid_free d1 i"
proof -
  obtain hw where hw: "rtw_sec_write_cam_ent (hw_cam d) i 0 (replicate 6 0) (replicate 32 0) = Some hw"
    by (simp add: rtw_sec_write_cam_ent_def)
  have d1: "d1 = d\<lparr>hw_cam := hw, cam_cache := (cam_cache d)[i := null_ent]\<rparr>" and l: "i < length (cam_cache d)"
    using assms(1) hw by (auto simp: clear_cam_entry_def clear_cam_entry_hw_def clear_cam_cache_def split: if_splits)
  obtain hw2 where hw2: "rtw_sec_write_cam_ent hw i 0 (replicate 6 0) (replicate 32 0) = Some hw2"
    by (simp add: rtw_sec_write_cam_ent_def)
  have "hw2 = hw" by (rule ext) (simp add: write_cam_ent_words [OF hw2 assms(2)] write_cam_ent_words [OF hw assms(2)])
  moreover have "rtw_sec_cam_map_clr (rtw_sec_cam_map_clr m i) i = rtw_sec_cam_map_clr m i" for m
    by (simp add: rtw_sec_cam_map_clr_def ac_simps)
  ultimately show ?thesis using hw2 l
    by (simp add: d1 clear_cam_entry_def clear_cam_entry_hw_def clear_cam_cache_def rtw_camid_free_def)
qed

lemma clear_keys_hangs:
  assumes "cam_wf d" "owned d (replicate 6 0) \<noteq> {}"
  shows "clear_keys (replicate 6 0) (-1) d = None"
proof -
  let ?z = "replicate 6 (0 :: u8)"
  obtain i d1 where st: "clear_keys_step ?z (-1) d = Next (rtw_camid_free d1 i)" and i: "i < cam_num d" "\<forall>j<i. cam_mac (cam_cache d ! j) \<noteq> ?z"
    and c: "clear_cam_entry d i = Some d1" and d': "cam_num (rtw_camid_free d1 i) = cam_num d" "ent_of (rtw_camid_free d1 i) i = cleared"
      "\<forall>j<32. j \<noteq> i \<longrightarrow> ent_of (rtw_camid_free d1 i) j = ent_of d j"
    using clear_step_cases [OF assms(1), of ?z] assms(2) by (auto simp: owned_def)
  let ?d = "rtw_camid_free d1 i"
  have i32: "i < 32" using i(1) assms(1) by (auto simp: cam_wf_def)
  have mac: "cam_mac (cam_cache ?d ! i) = ?z" using d'(2) by (simp add: ent_of_def cleared_def null_ent_def)
  have "cam_cache ?d ! j = cam_cache d ! j" if "j < i" for j using d'(3) that i32 by (simp add: ent_of_def)
  then have "rtw_camid_search ?d (Some ?z) (-1) (-1) = Some i" unfolding search_Some_iff chk_any using mac i d'(1) by simp
  then have "clear_keys_step ?z (-1) ?d = Next ?d" using clear_entry_idem [OF c i32] by (simp add: clear_keys_step_def)
  then show ?thesis unfolding clear_keys_def run_loop_Next [of "clear_keys_step ?z (-1)", OF st] by (rule run_loop_stuck)
qed

text \<open>C32. Removing the keys of a station: for every address but the zero address the clearing loop ends, after which exactly the entries of
  that address are cleared in chip and cache and free, and every other entry is as before. For the zero address, which
  cleared entries carry, it never ends as soon as one entry of the table is empty.\<close>

theorem clear_keys_terminates:
  assumes "cam_wf d"
  shows "if addr = replicate 6 0 then clear_keys addr (-1) d = None \<longleftrightarrow> (\<exists>i<cam_num d. cam_mac (cam_cache d ! i) = addr)
    else \<exists>d'. clear_keys addr (-1) d = Some d' \<and> 
      (\<forall>j<32. ent_of d' j = (if j < cam_num d \<and> cam_mac (cam_cache d ! j) = addr then cleared else ent_of d j))"
proof (cases "addr = replicate 6 0")
  case True
  have "clear_keys addr (-1) d = Some d" if "owned d addr = {}"
    unfolding clear_keys_def by (rule run_loop_Ret) (use clear_step_cases [OF assms, of addr] that in \<open>auto simp: owned_def\<close>)
  moreover have "owned d addr = {} \<longleftrightarrow> \<not> (\<exists>i<cam_num d. cam_mac (cam_cache d ! i) = addr)" by (auto simp: owned_def)
  ultimately show ?thesis using clear_keys_hangs [OF assms] True by (metis option.distinct(1))
next
  case False
  then show ?thesis using clear_keys_total [OF assms, of addr] by (auto simp: owned_def)
qed

lemma demo_wf: "cam_wf demo_dev"
  by (simp add: cam_wf_def demo_dev_def)

theorem clear_keys_terminates_witness:
  "clear_keys (replicate 6 0) (-1) demo_dev = None \<and> (\<exists>d'. clear_keys (replicate 6 5) (-1) demo_dev = Some d' \<and> ent_of d' 3 = ent_of demo_dev 3)"
proof -
  have m: "cam_mac (cam_cache demo_dev ! 3) = replicate 6 0" and n: "cam_num demo_dev = 32" by (simp_all add: demo_dev_def null_ent_def)
  have ne: "replicate 6 (0 :: u8) \<noteq> replicate 6 5" by simp
  have "clear_keys (replicate 6 0) (-1) demo_dev = None"
    using clear_keys_terminates [OF demo_wf, of "replicate 6 0"] m n by (auto intro: exI [of _ 3])
  moreover obtain d' where d': "clear_keys (replicate 6 5) (-1) demo_dev = Some d'"
    "\<forall>j<32. ent_of d' j = (if j < cam_num demo_dev \<and> cam_mac (cam_cache demo_dev ! j) = replicate 6 5 then cleared else ent_of demo_dev j)"
    using clear_keys_terminates [OF demo_wf, of "replicate 6 5"] by auto
  ultimately show ?thesis using m ne by simp
qed

text \<open>The group key of an access point: \<open>setkey_hdl\<close> takes the entry of the broadcast station without a check. While there is none
  (\<open>INVALID_SEC_MAC_CAM_ID\<close>), it writes behind the end of \<open>cam_cache\<close> for every key.\<close>

theorem setkey_hdl_no_bmc_id:
  assumes "cam_wf (dev s)" "ap_or_adhoc e" "rtw_iface_bcmc_id_get e (macid_ctl (dev s)) = INVALID_SEC_MAC_CAM_ID"
  shows "setkey_hdl e s p = None"
proof -
  have "write_cam_ent (dev s) 255 ctrl mac key = None" for ctrl mac key
    using assms(1) by (cases "rtw_sec_write_cam_ent (hw_cam (dev s)) 255 ctrl mac key") (auto simp: write_cam_ent_def write_cam_cache_def cam_wf_def)
  then have "write_cam (dev s) INVALID_SEC_MAC_CAM_ID ctrl mac key = None" for ctrl mac key by (simp add: write_cam_def INVALID_SEC_MAC_CAM_ID_def)
  then show ?thesis using assms(2,3) by (simp add: setkey_hdl_def Let_def)
qed

definition demo_keys :: "dvobj_priv \<Rightarrow> key_sys" where
  "demo_keys d = \<lparr>dev = d, key_stas = snd (rtw_alloc_stainfo (rtw_init_sta_priv 32) [2, 0, 0, 0, 0, 1]), enc_algo = 0, key_index = 0,
     dot11Def_camid = replicate 6 0, bmc_cam_id = 0, PrivacyAlgrthm = 0, PrivacyKeyIndex = 0, dot11DefKey = replicate 6 (replicate 32 0),
     key_mask = 0, amsdu_mode_spp = False, key_calls = []\<rparr>"

definition demo_parm :: "u8 \<Rightarrow> set_stakey_parm" where
  "demo_parm alg = \<lparr>sk_addr = [2, 0, 0, 0, 0, 1], sk_algorithm = alg, sk_keyid = 0, sk_key = map of_nat [1..<33], sk_gk = 0\<rparr>"

lemma demo_keys_sta:
  "rtw_get_stainfo (key_stas (demo_keys d)) (Some (sk_addr (demo_parm a))) = Some 0" "0 < length (stainfo (key_stas (demo_keys d)))"
  "mac_addr (stainfo (key_stas (demo_keys d)) ! 0) = sk_addr (demo_parm a)"
  by code_simp+

lemma set_stakey_hdl_demo: "rtw_get_camid demo_dev (Some [2, 0, 0, 0, 0, 1]) 0 0 False = Some 0"
  by code_simp

theorem set_stakey_hdl_installs_witness:
  "\<exists>s'. set_stakey_hdl (demo_env 0) (demo_keys demo_dev) (demo_parm 4) = Some (H2C_SUCCESS_RSP, s') \<and>
    rtw_camid_search (dev s') (Some [2, 0, 0, 0, 0, 1]) 0 0 = Some 0"
proof -
  have "rtw_camctl_chk_cap (dev (demo_keys demo_dev)) SEC_CAP_CHK_BMC" "cam_wf (dev (demo_keys demo_dev))"
    using demo_wf by (simp_all add: demo_keys_def demo_dev_def rtw_camctl_chk_cap_def SEC_CAP_CHK_BMC_def)
  moreover have "length (sk_addr (demo_parm 4)) = 6" "sk_algorithm (demo_parm 4) \<noteq> 0" "\<not> bit (sk_algorithm (demo_parm 4)) 4" "sk_keyid (demo_parm 4) < 4"
    "sk_gk (demo_parm 4) \<in> {0, 1}" "16 \<le> length (sk_key (demo_parm 4))" by (simp_all add: demo_parm_def)
  ultimately show ?thesis
    using set_stakey_hdl_installs [where s = "demo_keys demo_dev" and p = "demo_parm 4" and psta = 0 and e = "demo_env 0"] demo_keys_sta(1) [of demo_dev 4] demo_keys_sta(2) [of demo_dev] demo_keys_sta(3) [of demo_dev 4] set_stakey_hdl_demo
    by (auto simp: demo_parm_def demo_keys_def)
qed

theorem setkey_hdl_no_bmc_id_witness:
  "\<exists>d. setkey_hdl (demo_env 0) (demo_keys d) \<lparr>gk_algorithm = 4, gk_keyid = 1, gk_set_tx = False, gk_key = replicate 32 7\<rparr> = None"
proof -
  define d where "d = demo_dev\<lparr>macid_ctl := rtw_iface_bcmc_id_set (demo_env 0) INVALID_SEC_MAC_CAM_ID (macid_ctl demo_dev)\<rparr>"
  have "cam_wf (dev (demo_keys d))" using demo_wf by (simp add: d_def demo_keys_def cam_wf_def)
  moreover have "ap_or_adhoc (demo_env 0)" by (simp add: ap_or_adhoc_def demo_env_def WIFI_FW_AP_STATE_def)
  moreover have "0 < length (iface_bmc (macid_ctl demo_dev))" by code_simp
  then have "rtw_iface_bcmc_id_get (demo_env 0) (macid_ctl (dev (demo_keys d))) = INVALID_SEC_MAC_CAM_ID"
    by (simp add: d_def demo_keys_def rtw_iface_bcmc_id_get_def rtw_iface_bcmc_id_set_def demo_env_def)
  ultimately have "setkey_hdl (demo_env 0) (demo_keys d) p = None" for p by (rule setkey_hdl_no_bmc_id)
  then show ?thesis by blast
qed

text \<open>C33. Installing a 256-bit key over a key of the same id: the second half goes to the next entry without a look at it. Whoever owned
  that entry, chip and cache then hold the second half of the new key there; and when the first half is in the last entry, the write
  leaves the cache.\<close>

theorem set_stakey_hdl_256_overwrites:
  assumes wf: "cam_wf (dev s)" and cap: "rtw_camctl_chk_cap (dev s) SEC_CAP_CHK_BMC"
    and sta: "rtw_get_stainfo (key_stas s) (Some (sk_addr p)) = Some psta" "mac_addr (stainfo (key_stas s) ! psta) = sk_addr p" "length (sk_addr p) = 6"
    and alg: "bit (sk_algorithm p) 4" and kid: "sk_keyid p < 4" and gk: "sk_gk p \<in> {0, 1}" and key: "length (sk_key p) = 32"
    and found: "rtw_camid_search (dev s) (Some (sk_addr p)) (uint (sk_keyid p)) (sint (sk_gk p)) = Some i"
  shows "if i + 1 < 32
    then \<exists>s' c. set_stakey_hdl e s p = Some (H2C_SUCCESS_RSP, s') \<and> hw_ent (hw_cam (dev s')) (i + 1) = (c, sk_addr p, drop 16 (sk_key p))
           \<and> cam_mac (cam_cache (dev s') ! (i + 1)) = sk_addr p
    else set_stakey_hdl e s p = None"
proof -
  let ?a = "sk_addr p" and ?c = "key_ctrl s (sk_algorithm p) (sk_keyid p) (sk_gk p \<noteq> 0)"
  define d where "d = dev s"
  define d1 where "d1 = d\<lparr>cam_used := rtw_sec_cam_map_set (rtw_sec_cam_map_set (cam_used d) i) (i + 1)\<rparr>"
  have ctrl: "key_ctrl (s\<lparr>enc_algo := x\<rparr>) = key_ctrl s" "key_ctrl (s\<lparr>enc_algo := x, dev := y\<rparr>) = key_ctrl s" for x y
    by (auto simp: key_ctrl_def amsdu_spp_enable_def fun_eq_iff)
  have nz: "sk_algorithm p \<noteq> 0" using alg by auto
  have gk2: "(sint (sk_gk p) \<noteq> 0) = (sk_gk p \<noteq> 0)" "sint (sk_gk p) \<noteq> -1" using gk by auto
  have i: "i < cam_num d" "i < 32" and ch: "cam_cache_chk d i (Some ?a) (uint (sk_keyid p)) (sint (sk_gk p))"
    using found wf by (auto simp: search_Some_iff d_def cam_wf_def)
  have al: "rtw_camid_alloc e d (Some ?a) (sk_keyid p) (sk_gk p) True = (Some i, rtw_sec_camid_is_used d i, d1)"
    using found cap by (simp add: rtw_camid_alloc_def rtw_get_camid_def Let_def d1_def d_def)
  have nogk: "\<not> (sk_gk p = 0 \<and> rtw_sec_camid_is_used d i \<and> rtw_camid_is_gk d1 i)"
    using ch gk2 by (auto simp: cam_cache_chk_def rtw_camid_is_gk_def d1_def rtw_sec_camid_is_used_def split: if_splits)
  have wf1: "cam_wf d1" using wf by (simp add: cam_wf_def d1_def d_def)
  obtain d2 where w: "write_cam_ent d1 i ?c ?a (sk_key p) = Some d2" "cam_wf d2"
    using write_cam_ent_spec [OF wf1 i(2) sta(3), of "sk_key p" ?c] key by auto
  have hdl: "set_stakey_hdl e s p = do { d' \<leftarrow> write_cam_ent d2 (i + 1) (?c OR push_bit 5 1) ?a (drop 16 (sk_key p));
       Some (H2C_SUCCESS_RSP, if sk_gk p = 0 then s\<lparr>enc_algo := sk_algorithm p, dev := d', key_stas := inc_keytrack psta (key_stas s)\<rparr>
                              else s\<lparr>enc_algo := sk_algorithm p, dev := d'\<rparr>) }"
    unfolding set_stakey_hdl_def write_cam_def using sta(1,2) nz alg al nogk w(1) ctrl ctrl_bits(1) [OF kid] i(2)
    by (cases "write_cam_ent d2 (i + 1) (?c OR push_bit 5 1) ?a (drop 16 (sk_key p))") (auto simp: Let_def d_def [symmetric])
  show ?thesis
  proof (cases "i + 1 < 32")
    case True
    have k16: "16 \<le> length (drop 16 (sk_key p))" using key by simp
    obtain d3 where "write_cam_ent d2 (i + 1) (?c OR push_bit 5 1) ?a (drop 16 (sk_key p)) = Some d3"
      "cam_mac (cam_cache d3 ! (i + 1)) = ?a" "hw_ent (hw_cam d3) (i + 1) = (le16_bytes (?c OR push_bit 5 1), ?a, take 16 (drop 16 (sk_key p)))"
      using write_cam_ent_spec [OF w(2) True sta(3) k16, of "?c OR push_bit 5 1"] by (auto simp: ent_of_def)
    then show ?thesis unfolding hdl using True key by simp
  next
    case False
    then have "write_cam_ent d2 (i + 1) x y z = None" for x y z
      using w(2) by (cases "rtw_sec_write_cam_ent (hw_cam d2) (i + 1) x y z") (auto simp: write_cam_ent_def write_cam_cache_def cam_wf_def)
    then show ?thesis unfolding hdl using False by simp
  qed
qed


theorem set_stakey_hdl_256_overwrites_witness:
  "\<exists>d s' c. cam_mac (cam_cache d ! 1) = replicate 6 9 \<and> rtw_sec_camid_is_used d 1 \<and>
     set_stakey_hdl (demo_env 0) (demo_keys d) (demo_parm 0x14) = Some (H2C_SUCCESS_RSP, s') \<and> hw_ent (hw_cam (dev s')) 1 = (c, [2, 0, 0, 0, 0, 1], map of_nat [17..<33])"
proof -
  define d where "d = demo_dev\<lparr>cam_used := 3, cam_cache := (cam_cache demo_dev)[0 := \<lparr>cam_ctrl = 0x8010, cam_mac = [2, 0, 0, 0, 0, 1], cam_key = replicate 16 1\<rparr>,
      1 := \<lparr>cam_ctrl = 0x8010, cam_mac = replicate 6 9, cam_key = replicate 16 2\<rparr>]\<rparr>"
  let ?s = "demo_keys d" and ?p = "demo_parm 0x14"
  have dv: "dev ?s = d" by (simp add: demo_keys_def)
  have wf: "cam_wf (dev ?s)" "rtw_camctl_chk_cap (dev ?s) SEC_CAP_CHK_BMC"
    using demo_wf unfolding dv by (simp_all add: d_def cam_wf_def demo_dev_def rtw_camctl_chk_cap_def SEC_CAP_CHK_BMC_def)
  have p: "length (sk_addr ?p) = 6" "bit (sk_algorithm ?p) 4" "sk_keyid ?p < 4" "sk_gk ?p \<in> {0, 1}" "length (sk_key ?p) = 32"
    by (simp_all add: demo_parm_def)
  have f: "rtw_camid_search (dev ?s) (Some (sk_addr ?p)) (uint (sk_keyid ?p)) (sint (sk_gk ?p)) = Some 0" unfolding dv d_def by code_simp
  have b: "cam_mac (cam_cache d ! 1) = replicate 6 9" "rtw_sec_camid_is_used d 1" unfolding d_def by code_simp+
  have k: "drop 16 (sk_key ?p) = map of_nat [17..<33]" by code_simp
  show ?thesis using set_stakey_hdl_256_overwrites [OF wf demo_keys_sta(1) demo_keys_sta(3) p f, of "demo_env 0"] b k
    by (auto simp: demo_parm_def)
qed

text \<open>The entry that an exchange writes.\<close>

definition encoded :: "sec_cam_ent \<Rightarrow> sec_cam_ent \<times> (buf \<times> buf \<times> buf) \<times> bool" where
  "encoded c = (c, (le16_bytes (cam_ctrl c), cam_mac c, cam_key c), True)"

definition ent_wf :: "sec_cam_ent \<Rightarrow> bool" where
  "ent_wf c \<longleftrightarrow> length (cam_mac c) = 6 \<and> length (cam_key c) = 16"

lemma write_set_spec:
  assumes "cam_wf d" "i < cam_num d" "ent_wf c" "\<not> bit (cam_ctrl c) 9"
  shows "\<exists>d'. map_option (\<lambda>d. rtw_camid_set d i) (write_cam d i (cam_ctrl c) (cam_mac c) (cam_key c)) = Some d' \<and> cam_wf d' \<and> cam_num d' = cam_num d \<and>
    ent_of d' i = encoded c \<and> (\<forall>j<32. j \<noteq> i \<longrightarrow> ent_of d' j = ent_of d j)"
proof -
  have i: "i < 32" using assms by (auto simp: cam_wf_def)
  obtain d1 where w: "write_cam_ent d i (cam_ctrl c) (cam_mac c) (cam_key c) = Some d1" "cam_wf d1"
    "ent_of d1 i = (\<lparr>cam_ctrl = cam_ctrl c, cam_mac = cam_mac c, cam_key = take 16 (cam_key c)\<rparr>, (le16_bytes (cam_ctrl c), cam_mac c, take 16 (cam_key c)), rtw_sec_camid_is_set (cam_used d) i)"
    "\<forall>j<32. j \<noteq> i \<longrightarrow> ent_of d1 j = ent_of d j" "cam_num d1 = cam_num d"
    using write_cam_ent_spec [OF assms(1) i, of "cam_mac c" "cam_key c" "cam_ctrl c"] assms(3) by (auto simp: ent_wf_def)
  have s: "ent_of (rtw_camid_set d1 i) j = (if j = i then (fst (ent_of d1 i), fst (snd (ent_of d1 i)), True) else ent_of d1 j)" for j
    using i assms(2) w(5) by (simp add: rtw_camid_set_def ent_of_def id_laws)
  have "cam_wf (rtw_camid_set d1 i)" "cam_num (rtw_camid_set d1 i) = cam_num d" using w(2,5) by (simp_all add: rtw_camid_set_def cam_wf_def)
  then show ?thesis using w(1,3,4) assms(3,4) by (simp add: write_cam_def s encoded_def ent_wf_def)
qed

lemma write_cam_256_short:
  assumes "bit ctrl 9" "length key = 16"
  shows "write_cam d i ctrl mac key = None"
proof -
  have "write_cam_ent x j c m [] = None" for x j c m by (simp add: write_cam_ent_def rtw_sec_write_cam_ent_def)
  then show ?thesis using assms by (cases "write_cam_ent d i ctrl mac key") (simp_all add: write_cam_def)
qed

lemma free_clear_spec:
  assumes "cam_wf d" "i < cam_num d"
  shows "\<exists>d'. clear_cam_entry (rtw_camid_free d i) i = Some d' \<and> cam_wf d' \<and> cam_num d' = cam_num d \<and> ent_of d' i = cleared
    \<and> (\<forall>j<32. j \<noteq> i \<longrightarrow> ent_of d' j = ent_of d j)"
proof -
  obtain d1 where d1: "clear_cam_entry d i = Some d1" "cam_wf (rtw_camid_free d1 i)" "cam_num (rtw_camid_free d1 i) = cam_num d"
    "ent_of (rtw_camid_free d1 i) i = cleared" "\<forall>j<32. j \<noteq> i \<longrightarrow> ent_of (rtw_camid_free d1 i) j = ent_of d j"
    using clear_entry_spec [OF assms] by blast
  have "clear_cam_entry (rtw_camid_free d i) i = Some (rtw_camid_free d1 i)"
    using d1(1) assms(2)
    by (auto simp: clear_cam_entry_def clear_cam_entry_hw_def clear_cam_cache_def rtw_camid_free_def bind_eq_Some_conv split: if_splits)
  then show ?thesis using d1 by blast
qed

text \<open>Exchanging two entries of the key table: when neither holds one half of a 256-bit key, chip, cache and bitmap afterwards hold each
  of the two where the other was, and every other entry is as before. When one of them is the first half of a 256-bit key, the
  exchange reads 16 bytes behind the copy of the entry on its stack.\<close>

theorem rtw_sec_cam_swap_exchanges:
  assumes "cam_wf d" "a < cam_num d" "b < cam_num d" "a \<noteq> b" "ent_wf (cam_cache d ! a)" "ent_wf (cam_cache d ! b)"
  defines "ua \<equiv> rtw_sec_camid_is_used d a" and "ub \<equiv> rtw_sec_camid_is_used d b"
  shows "if ua \<and> bit (cam_ctrl (cam_cache d ! a)) 9 \<or> ub \<and> bit (cam_ctrl (cam_cache d ! b)) 9 then rtw_sec_cam_swap d a b = None
    else \<exists>d'. rtw_sec_cam_swap d a b = Some d' \<and> (\<forall>j<32. j \<noteq> a \<and> j \<noteq> b \<longrightarrow> ent_of d' j = ent_of d j)
      \<and> ent_of d' a = (if ub then encoded (cam_cache d ! b) else if ua then cleared else ent_of d a)
      \<and> ent_of d' b = (if ua then encoded (cam_cache d ! a) else if ub then cleared else ent_of d b)"
proof -
  let ?ca = "cam_cache d ! a" and ?cb = "cam_cache d ! b"
  have a32: "a < 32" "b < 32" using assms(1-3) by (auto simp: cam_wf_def)
  obtain d1 where d1: "(if ua then clear_cam_entry (rtw_camid_free d a) a else Some d) = Some d1" "cam_wf d1" "cam_num d1 = cam_num d"
    "ent_of d1 a = (if ua then cleared else ent_of d a)" "\<forall>j<32. j \<noteq> a \<longrightarrow> ent_of d1 j = ent_of d j"
    using free_clear_spec [OF assms(1,2)] assms(1) by (cases ua) auto
  have b1: "b < cam_num d1" using d1(3) assms(3) by simp
  obtain d2 where d2: "(if ub then clear_cam_entry (rtw_camid_free d1 b) b else Some d1) = Some d2" "cam_wf d2" "cam_num d2 = cam_num d"
    "ent_of d2 b = (if ub then cleared else ent_of d b)" "\<forall>j<32. j \<noteq> b \<longrightarrow> ent_of d2 j = ent_of d1 j"
    using free_clear_spec [OF d1(2) b1] d1 assms(4) a32 by (cases ub) auto
  have n2: "a < cam_num d2" "b < cam_num d2" using d2(3) assms(2,3) by simp_all
  let ?wa = "if ua then map_option (\<lambda>d. rtw_camid_set d b) (write_cam d2 b (cam_ctrl ?ca) (cam_mac ?ca) (cam_key ?ca)) else Some d2"
  let ?wb = "\<lambda>x. if ub then map_option (\<lambda>d. rtw_camid_set d a) (write_cam x a (cam_ctrl ?cb) (cam_mac ?cb) (cam_key ?cb)) else Some x"
  have eq: "rtw_sec_cam_swap d a b = ?wa \<bind> ?wb"
    unfolding rtw_sec_cam_swap_def Let_def ua_def [symmetric] ub_def [symmetric] using assms(4) d1(1) d2(1) by simp
  show ?thesis
  proof (cases "ua \<and> bit (cam_ctrl ?ca) 9")
    case True
    then show ?thesis unfolding eq using write_cam_256_short [of "cam_ctrl ?ca" "cam_key ?ca"] assms(5) by (simp add: ent_wf_def)
  next
    case na: False
    obtain d3 where d3: "?wa = Some d3" "cam_wf d3" "cam_num d3 = cam_num d" "ent_of d3 b = (if ua then encoded ?ca else ent_of d2 b)"
      "\<forall>j<32. j \<noteq> b \<longrightarrow> ent_of d3 j = ent_of d2 j"
      using write_set_spec [OF d2(2) n2(2) assms(5)] na d2 by (cases ua) auto
    show ?thesis
    proof (cases "ub \<and> bit (cam_ctrl ?cb) 9")
      case True
      then show ?thesis unfolding eq d3(1) using write_cam_256_short [of "cam_ctrl ?cb" "cam_key ?cb"] assms(6) by (simp add: ent_wf_def)
    next
      case nb: False
      have a3: "a < cam_num d3" using d3(3) assms(2) by simp
      obtain d4 where d4: "?wb d3 = Some d4" "ent_of d4 a = (if ub then encoded ?cb else ent_of d3 a)" "\<forall>j<32. j \<noteq> a \<longrightarrow> ent_of d4 j = ent_of d3 j"
        using write_set_spec [OF d3(2) a3 assms(6)] nb by (cases ub) auto
      have "rtw_sec_cam_swap d a b = Some d4" unfolding eq d3(1) using d4(1) by simp
      moreover have "ent_of d4 a = (if ub then encoded ?cb else if ua then cleared else ent_of d a)"
        using d4(2) d3(5) d2(5) d1(4) a32 assms(4) by simp
      moreover have "ent_of d4 b = (if ua then encoded ?ca else if ub then cleared else ent_of d b)"
        using d4(3) d3(4) d2(4) a32 assms(4) by simp
      moreover have "\<forall>j<32. j \<noteq> a \<and> j \<noteq> b \<longrightarrow> ent_of d4 j = ent_of d j" using d4(3) d3(5) d2(5) d1(5) by simp
      ultimately show ?thesis using na nb by simp
    qed
  qed
qed

theorem rtw_sec_cam_swap_exchanges_witness:
  "\<exists>d'. rtw_sec_cam_swap (demo_dev\<lparr>cam_used := 1\<rparr>) 0 5 = Some d' \<and> ent_of d' 0 = cleared \<and> ent_of d' 5 = encoded null_ent"
proof -
  define d where "d = demo_dev\<lparr>cam_used := 1\<rparr>"
  have c: "cam_cache d ! 0 = null_ent" "cam_cache d ! 5 = null_ent" "cam_num d = 32" by (simp_all add: d_def demo_dev_def)
  have "cam_wf d" using demo_wf by (simp add: d_def cam_wf_def)
  moreover have u: "rtw_sec_camid_is_used d 0" "\<not> rtw_sec_camid_is_used d 5" unfolding d_def by code_simp+
  moreover have "ent_wf null_ent" "\<not> bit (cam_ctrl null_ent) 9" by (simp_all add: ent_wf_def null_ent_def)
  ultimately show ?thesis using rtw_sec_cam_swap_exchanges [of d 0 5] c unfolding d_def [symmetric] by auto
qed

end
