(* ===== verification/Xmit_Attrib.thy ===== *)
theory Xmit_Attrib
  imports Recv_Msdu Sec_Tkip
begin

text \<open>
  The attributes of a packet to be sent (\<^verbatim>\<open>update_attrib\<close> of \<^verbatim>\<open>core/rtw_xmit.c\<close> and what it calls): addresses and
  station, kind of the packet (DHCP, ICMP, EAPOL message), cipher, packet number and initialisation vector, priority, rate control and
  protection. Packets are read through the \<open>pkt_file\<close> of \<^verbatim>\<open>os_dep/linux/xmit_linux.c\<close>. WDS, TDLS and mesh are
  not compiled. Local arrays that the code does not initialise hold \<open>junk\<close>.
\<close>

unbundle bit_operations_syntax

subsection \<open>State\<close>

text \<open>
  The further fields of \<open>struct pkt_attrib\<close>; \<open>xa_psta\<close> is the index of a station, \<open>xa_mickey\<close> is \<open>dot11tkiptxmickey\<close>.
\<close>

record tx_attrib = pkt_attrib +
  xa_subtype :: u8
  xa_bswenc :: bool
  xa_dhcp_pkt :: bool
  xa_icmp_pkt :: bool
  xa_hipriority_pkt :: bool
  xa_ether_type :: u16
  xa_seqnum :: u16
  xa_hw_ssn_sel :: u8
  xa_pkt_hdrlen :: u16
  xa_pktlen :: u32
  xa_bmc_camid :: u8
  xa_iv :: buf
  xa_icv :: buf
  xa_priority :: u8
  xa_ack_policy :: u8
  xa_mac_id :: u8
  xa_vcs_mode :: u8
  xa_dst :: buf
  xa_src :: buf
  xa_key_idx :: u8
  xa_qos_en :: bool
  xa_ht_en :: bool
  xa_raid :: u8
  xa_bwmode :: u8
  xa_ch_offset :: u8
  xa_sgi :: u8
  xa_ampdu_en :: bool
  xa_ampdu_spacing :: u8
  xa_amsdu :: u8
  xa_amsdu_ampdu_en :: bool
  xa_mdata :: bool
  xa_pctrl :: bool
  xa_triggered :: bool
  xa_eosp :: u8
  xa_rate :: u8
  xa_retry_ctrl :: bool
  xa_ldpc :: u8
  xa_stbc :: u8
  xa_trigger_frame :: bool
  xa_psta :: "nat option"
  xa_rtsen :: bool
  xa_cts2self :: bool
  xa_mickey :: buf
  xa_txbf_p_aid :: u16
  xa_txbf_g_id :: u16

text \<open>The fields of a station that only transmission uses, kept in a list beside the station table.\<close>

record tx_sta =
  txseq_tid :: "u16 list"
  BA_starting_seqctrl :: "u16 list"
  dot11txpn :: u64
  dot11tkiptxmickey :: buf
  resp_nonenc_eapol_key_starttime :: u64
  ts_mac_id :: u8
  ts_rtsen :: bool
  ts_cts2self :: bool
  ts_rate_id :: u8
  ts_bw_mode :: u8
  ts_ldpc_en :: u8
  ts_stbc_en :: u8
  ts_qos_option :: bool
  ts_init_rate :: u8
  ts_g_id :: u16
  ts_p_aid :: u16
  ht_option :: bool
  ht_ch_offset :: u8
  ht_sgi_20m :: u8
  ht_sgi_40m :: u8
  rx_ampdu_min_spacing :: u8
  ampdu_enable :: bool
  agg_enable_bitmap :: u8
  tx_amsdu_enable :: bool
  vht_option :: bool
  vht_sgi_80m :: u8
  st_reg :: st_register

text \<open>
  What the functions read of the adapter. \<open>tx_ht\<close> says that 802.11n is enabled and supported, \<open>tx_atheros\<close> that the access point is one
  of \<open>HT_IOT_PEER_ATHEROS\<close>, \<open>tx_wpapsk\<close> that \<open>ndisauthtype\<close> is \<open>Ndis802_11AuthModeWPAPSK\<close>,
  \<open>tx_pk_gk_conflict\<close> is the flag \<open>SEC_STATUS_STA_PK_GK_CONFLICT_DIS_BMC_SEARCH\<close>. The AES ciphers, which rest on the vendored AES
  library, are parameters that rewrite the buffer of a frame.
\<close>

record tx_env =
  tx_rx :: rx_env
  tx_sec :: rx_security
  tx_qos_option :: bool
  tx_acm_mask :: u8
  tx_up_rule :: u8
  tx_pwr_mode :: u8
  tx_uapsd_ap_supported :: bool
  tx_uapsd_tid :: u16
  tx_frag_len :: u32
  tx_sw_encrypt :: bool
  tx_bmc_cam_id :: u8
  tx_pk_gk_conflict :: bool
  tx_wpapsk :: bool
  GrpTxMicKey :: "buf list"
  tx_vrtl_carrier_sense :: u8
  tx_vcs_type :: u8
  tx_rts_thresh :: u16
  tx_wifi_spec :: bool
  tx_wireless_mode :: u8
  tx_atheros :: bool
  tx_HT_protection :: u8
  tx_cur_bwmode :: u8
  tx_cur_channel :: u8
  tx_bw_2g :: u8
  tx_bw_5g :: u8
  tx_ht :: bool
  tx_driver_ampdu_spacing :: u8
  tx_driver_vcs_en :: u8
  tx_driver_vcs_type :: u8
  tx_hw_ssn :: u8
  rtw_aes_encrypt :: "tx_attrib \<Rightarrow> xmit_frame \<Rightarrow> xmit_frame option"
  rtw_gcmp_encrypt :: "tx_attrib \<Rightarrow> xmit_frame \<Rightarrow> xmit_frame option"

text \<open>Calls into other parts, in their order.\<close>

datatype tx_call = SetScanDeny nat | ScanAbort | LpsCtrl nat | SessionAdd nat buf buf buf buf | SessionDel nat buf buf buf buf

record tx_state =
  tx_stapriv :: sta_priv
  tx_stas :: "tx_sta list"
  tx_calls :: "tx_call list"

subsection \<open>Reading a packet\<close>

record pkt_file =
  pf_pkt :: buf
  pf_cur :: nat
  pf_buf_len :: u32
  pf_pkt_len :: u32

definition rtw_remainder_len :: "pkt_file \<Rightarrow> u32" where
  "rtw_remainder_len p = pf_buf_len p - of_nat (pf_cur p)"

definition rtw_open_pktfile :: "buf \<Rightarrow> pkt_file" where
  "rtw_open_pktfile pkt = \<lparr>pf_pkt = pkt, pf_cur = 0, pf_buf_len = of_nat (length pkt), pf_pkt_len = of_nat (length pkt)\<rparr>"

text \<open>The bytes read, which the caller stores at \<open>rmem\<close> unless it is \<open>NULL\<close>, and the file behind them.\<close>

definition rtw_pktfile_read :: "pkt_file \<Rightarrow> u32 \<Rightarrow> (buf \<times> pkt_file) option" where
  "rtw_pktfile_read p n =
     (let len = rtw_remainder_len p; len = (if n > len then len else n) in
      do { d \<leftarrow> rds (pf_pkt p) (unat (pf_buf_len p - pf_pkt_len p)) (unat len);
           Some (d, p\<lparr>pf_cur := pf_cur p + unat len, pf_pkt_len := pf_pkt_len p - len\<rparr>) })"

definition rtw_endofpktfile :: "pkt_file \<Rightarrow> bool" where
  "rtw_endofpktfile p \<longleftrightarrow> pf_pkt_len p = 0"

text \<open>A local array of \<open>n\<close> bytes after a read of \<open>d\<close> into it.\<close>

definition local_array :: "(nat \<Rightarrow> u8) \<Rightarrow> nat \<Rightarrow> buf \<Rightarrow> buf" where
  "local_array junk n d = take n d @ map junk [length d..<n]"

subsection \<open>Priorities\<close>

definition qos_acm :: "u8 \<Rightarrow> u8 \<Rightarrow> u8" where
  "qos_acm acm_mask pri =
     (if pri = 0 \<or> pri = 3 then (if bit acm_mask 1 then 1 else pri)
      else if pri = 1 \<or> pri = 2 then pri
      else if pri = 4 \<or> pri = 5 then (if bit acm_mask 2 then 0 else pri)
      else if pri = 6 \<or> pri = 7 then (if bit acm_mask 3 then 5 else pri)
      else pri)"

text \<open>\<open>mode\<close> is \<open>CONFIG_RTW_UP_MAPPING_RULE\<close>: 0 for the precedence bits, else the DSCP table.\<close>

definition tos_to_up :: "u8 \<Rightarrow> u8 \<Rightarrow> u8" where
  "tos_to_up mode tos =
     (if mode = 0 then drop_bit 5 tos
      else let dscp = drop_bit 2 tos in
        if dscp = 0 then 0
        else if dscp \<ge> 1 \<and> dscp \<le> 9 then 1
        else if dscp \<ge> 10 \<and> dscp \<le> 16 then 2
        else if dscp \<ge> 17 \<and> dscp \<le> 23 then 3
        else if dscp \<ge> 24 \<and> dscp \<le> 31 then 4
        else if dscp \<ge> 33 \<and> dscp \<le> 40 then 5
        else if dscp \<ge> 41 \<and> dscp \<le> 47 \<or> dscp = 32 then 6
        else if dscp \<ge> 48 \<and> dscp \<le> 63 then 7
        else 0)"

definition set_qos :: "tx_env \<Rightarrow> (nat \<Rightarrow> u8) \<Rightarrow> buf option \<Rightarrow> tx_attrib \<Rightarrow> tx_attrib option" where
  "set_qos e junk pkt a =
     do { up \<leftarrow> (case pkt of None \<Rightarrow> Some 0
                 | Some pk \<Rightarrow>
                     if xa_ether_type a = 0x0800 then
                       do { (eth, p) \<leftarrow> rtw_pktfile_read (rtw_open_pktfile pk) 14;
                            (ip, p) \<leftarrow> rtw_pktfile_read p 20;
                            Some (tos_to_up (tx_up_rule e) (local_array junk 20 ip ! 1)) }
                     else Some 0);
          Some (a\<lparr>xa_priority := up, ta_hdrlen := 26, xa_subtype := 0x88\<rparr>) }"

subsection \<open>Protection, rates and power save\<close>

definition NONE_VCS :: u8 where "NONE_VCS = 0"
definition RTS_CTS :: u8 where "RTS_CTS = 1"
definition CTS_TO_SELF :: u8 where "CTS_TO_SELF = 2"

definition validate_vcs :: "tx_env \<Rightarrow> u8 \<Rightarrow> u8" where
  "validate_vcs e mode =
     (if tx_vrtl_carrier_sense e = 0 then NONE_VCS
      else if tx_vrtl_carrier_sense e = 1 then tx_vcs_type e
      else if tx_vrtl_carrier_sense e = 2 then mode
      else NONE_VCS)"

definition update_attrib_vcs_info :: "tx_env \<Rightarrow> tx_attrib \<Rightarrow> tx_attrib" where
  "update_attrib_vcs_info e a =
     (let sz = (if ta_nr_frags a \<noteq> 1 then tx_frag_len e else ta_last_txcmdsz a);
          mode =
            (if tx_wireless_mode e < 8 \<or> tx_wifi_spec e then
               (if sz > ucast (tx_rts_thresh e) then RTS_CTS
                else if xa_rtsen a then RTS_CTS else if xa_cts2self a then CTS_TO_SELF else NONE_VCS)
             else if tx_atheros e \<and> xa_ampdu_en a \<and> dot11PrivacyAlgrthm (tx_sec e) = ucast SEC_AES then CTS_TO_SELF
             else if xa_rtsen a then RTS_CTS
             else if xa_cts2self a then CTS_TO_SELF
             else if xa_ht_en a \<and> (tx_cur_bwmode e \<noteq> 0 \<and> (tx_HT_protection e = 2 \<or> tx_HT_protection e = 3)
                 \<or> tx_cur_bwmode e = 0 \<and> tx_HT_protection e = 3) then RTS_CTS
             else if sz > ucast (tx_rts_thresh e) then RTS_CTS
             else if xa_ampdu_en a then RTS_CTS
             else NONE_VCS) in
      a\<lparr>xa_vcs_mode := (if tx_driver_vcs_en e = 1 then tx_driver_vcs_type e else validate_vcs e mode)\<rparr>)"

definition update_attrib_trigger_frame_info :: "tx_env \<Rightarrow> tx_attrib \<Rightarrow> tx_attrib" where
  "update_attrib_trigger_frame_info e a =
     a\<lparr>xa_trigger_frame := check_fwstate (tx_rx e) WIFI_STATION_STATE \<and> (tx_pwr_mode e = 1 \<or> tx_pwr_mode e = 2)
         \<and> tx_uapsd_ap_supported e \<and> (ucast (tx_uapsd_tid e) AND push_bit (unat (xa_priority a)) 1 :: u32) = 1\<rparr>"

definition rtw_get_tx_bw_mode :: "tx_env \<Rightarrow> tx_sta \<Rightarrow> u8" where
  "rtw_get_tx_bw_mode e s =
     (if fw_state (tx_rx e) AND WIFI_ASOC_STATE \<noteq> 0 then
        (if tx_cur_channel e \<le> 14 then min (ts_bw_mode s) (tx_bw_2g e) else min (ts_bw_mode s) (tx_bw_5g e))
      else ts_bw_mode s)"

definition query_ra_short_GI :: "tx_sta \<Rightarrow> u8 \<Rightarrow> u8" where
  "query_ra_short_GI s bw =
     (if bw = 2 then (if vht_option s then vht_sgi_80m s else 0)
      else if bw = 1 then ht_sgi_40m s
      else ht_sgi_20m s)"

definition update_attrib_phy_info :: "tx_env \<Rightarrow> tx_sta \<Rightarrow> tx_attrib \<Rightarrow> tx_attrib" where
  "update_attrib_phy_info e s a =
     (let bw = min (rtw_get_tx_bw_mode e s) (tx_cur_bwmode e);
          a = a\<lparr>xa_rtsen := ts_rtsen s, xa_cts2self := ts_cts2self s, xa_mdata := False, xa_eosp := 0, xa_triggered := False,
                xa_ampdu_spacing := 0, xa_raid := ts_rate_id s, xa_bwmode := bw, xa_sgi := query_ra_short_GI s bw,
                xa_ldpc := ts_ldpc_en s, xa_stbc := ts_stbc_en s\<rparr>;
          a = (if tx_ht e then
                 let a = a\<lparr>xa_ht_en := ht_option s, xa_ch_offset := ht_ch_offset s, xa_ampdu_en := False,
                           xa_ampdu_spacing := (if tx_driver_ampdu_spacing e \<noteq> 0xFF then tx_driver_ampdu_spacing e else rx_ampdu_min_spacing s)\<rparr> in
                 if xa_ht_en a \<and> ampdu_enable s \<and> bit (agg_enable_bitmap s) (unat (xa_priority a))
                 then a\<lparr>xa_ampdu_en := True, xa_amsdu_ampdu_en := tx_amsdu_enable s\<rparr> else a
               else a) in
      a\<lparr>xa_retry_ctrl := False\<rparr>)"

definition update_attrib_txbf_info :: "tx_sta \<Rightarrow> tx_attrib \<Rightarrow> tx_attrib" where
  "update_attrib_txbf_info s a = a\<lparr>xa_txbf_g_id := ts_g_id s, xa_txbf_p_aid := ts_p_aid s\<rparr>"

subsection \<open>Packet numbers\<close>

definition tsc :: "u64 \<Rightarrow> nat \<Rightarrow> u8" where
  "tsc pn k = ucast (drop_bit (8 * k) pn)"

definition key_bits :: "u8 \<Rightarrow> u8" where
  "key_bits keyidx = push_bit 6 (keyidx AND 0x3)"

text \<open>The macros \<open>WEP_IV\<close>, \<open>TKIP_IV\<close> and \<open>AES_IV\<close>: the next packet number and the bytes stored in \<open>iv\<close>.\<close>

definition WEP_IV :: "u64 \<Rightarrow> u8 \<Rightarrow> u64 \<times> buf" where
  "WEP_IV pn keyidx = (let pn = (if pn = 0xffffff then 0 else pn + 1) in (pn, [tsc pn 0, tsc pn 1, tsc pn 2, key_bits keyidx]))"

definition pn48_next :: "u64 \<Rightarrow> u64" where
  "pn48_next pn = (if pn = 0xffffffffffff then 0 else pn + 1)"

definition TKIP_IV :: "u64 \<Rightarrow> u8 \<Rightarrow> u64 \<times> buf" where
  "TKIP_IV pn keyidx = (let pn = pn48_next pn in
     (pn, [tsc pn 1, (tsc pn 1 OR 0x20) AND 0x7f, tsc pn 0, 0x20 OR key_bits keyidx, tsc pn 2, tsc pn 3, tsc pn 4, tsc pn 5]))"

definition AES_IV :: "u64 \<Rightarrow> u8 \<Rightarrow> u64 \<times> buf" where
  "AES_IV pn keyidx = (let pn = pn48_next pn in
     (pn, [tsc pn 0, tsc pn 1, 0, 0x20 OR key_bits keyidx, tsc pn 2, tsc pn 3, tsc pn 4, tsc pn 5]))"

definition set_iv :: "u64 \<times> buf \<Rightarrow> u8 \<Rightarrow> u8 \<Rightarrow> tx_attrib \<Rightarrow> tx_sta \<Rightarrow> tx_attrib \<times> tx_sta" where
  "set_iv r ivl icvl a s = (a\<lparr>ta_iv_len := ivl, ta_icv_len := icvl, xa_iv := snd r @ drop (length (snd r)) (xa_iv a)\<rparr>, s\<lparr>dot11txpn := fst r\<rparr>)"

subsection \<open>Security\<close>

definition tx_key_idx :: "rx_security \<Rightarrow> bool \<Rightarrow> u8" where
  "tx_key_idx sec bmcst =
     (if dot11AuthAlgrthm sec = 0 \<or> dot11AuthAlgrthm sec = 1 \<or> dot11AuthAlgrthm sec = 3 then ucast (dot11PrivacyKeyIndex sec)
      else if dot11AuthAlgrthm sec = 2 then (if bmcst then ucast (dot118021XGrpKeyid sec) else 0)
      else 0)"

text \<open>The first half: the cipher of the packet, or \<open>False\<close> when a port that is not authorised drops it.\<close>

definition attrib_cipher :: "tx_env \<Rightarrow> sta_info \<Rightarrow> tx_sta \<Rightarrow> eap_type \<Rightarrow> bool \<Rightarrow> tx_attrib \<Rightarrow> bool \<times> tx_attrib" where
  "attrib_cipher e sta s eapol bmcast a =
     (if ieee8021x_blocked sta
         \<or> (eapol = EAPOL_2_4 \<or> eapol = EAPOL_4_4) \<and> sint (ucast (passing_ms (tx_rx e) (resp_nonenc_eapol_key_starttime s)) :: u32) \<le> 100 then
        (xa_ether_type a = 0x888e \<or> check_fwstate (tx_rx e) WIFI_MP_STATE, a\<lparr>ta_encrypt := 0\<rparr>)
      else
        let a = a\<lparr>ta_encrypt := GET_ENCRY_ALGO (tx_sec e) sta (ta_encrypt a) bmcast, xa_key_idx := tx_key_idx (tx_sec e) bmcast\<rparr> in
        (True, if (ta_encrypt a = SEC_WEP40 \<or> ta_encrypt a = SEC_WEP104) \<and> xa_ether_type a = 0x888e then a\<lparr>ta_encrypt := 0\<rparr> else a))"

text \<open>The second half: packet number, initialisation vector and keys; \<open>False\<close> when TKIP has no key yet.\<close>

definition attrib_iv :: "tx_env \<Rightarrow> tx_sta \<Rightarrow> bool \<Rightarrow> tx_attrib \<Rightarrow> bool \<times> tx_attrib \<times> tx_sta" where
  "attrib_iv e s bmcast a =
     (let kid = (if bmcast then xa_key_idx a else 0) in
      if ta_encrypt a = SEC_WEP40 \<or> ta_encrypt a = SEC_WEP104 then (True, set_iv (WEP_IV (dot11txpn s) (xa_key_idx a)) 4 4 a s)
      else if ta_encrypt a = SEC_TKIP then
        (if \<not> busetkipkey (tx_sec e) then (False, a\<lparr>ta_iv_len := 8, ta_icv_len := 4\<rparr>, s)
         else let (a, s) = set_iv (TKIP_IV (dot11txpn s) kid) 8 4 a s in
           (True, a\<lparr>xa_mickey := take 16 (dot11tkiptxmickey s) @ drop 16 (xa_mickey a)\<rparr>, s))
      else if ta_encrypt a = SEC_AES then (True, set_iv (AES_IV (dot11txpn s) kid) 8 8 a s)
      else if ta_encrypt a = SEC_GCMP \<or> ta_encrypt a = SEC_GCMP_256 \<or> ta_encrypt a = SEC_CCMP_256
        then (True, set_iv (AES_IV (dot11txpn s) kid) 8 16 a s)
      else (True, a\<lparr>ta_iv_len := 0, ta_icv_len := 0\<rparr>, s))"

definition update_attrib_sec_info ::
  "tx_env \<Rightarrow> sta_info \<Rightarrow> tx_sta \<Rightarrow> eap_type \<Rightarrow> tx_attrib \<Rightarrow> (bool \<times> tx_attrib \<times> tx_sta) option" where
  "update_attrib_sec_info e sta s eapol a =
     do { bmcast \<leftarrow> IS_MCAST (ta_ra a);
          let a = a\<lparr>ta_UncstKey := replicate 16 0 @ drop 16 (ta_UncstKey a), xa_mickey := replicate 16 0 @ drop 16 (xa_mickey a),
                    xa_mac_id := ts_mac_id s\<rparr>;
          let (ok, a) = attrib_cipher e sta s eapol bmcast a;
          if \<not> ok then Some (False, a, s)
          else do {
            let (ok, a, s) = attrib_iv e s bmcast a;
            if \<not> ok then Some (False, a, s)
            else do {
              let n = (if ta_encrypt a AND 0x10 \<noteq> 0 then 32 else 16);
              let a = (if ta_encrypt a > 0 then a\<lparr>ta_UncstKey := take n (UncstKey sta) @ drop n (ta_UncstKey a)\<rparr> else a);
              let enc = ta_encrypt a \<noteq> 0;
              let a = a\<lparr>xa_bswenc := enc \<and> (tx_sw_encrypt e \<or> \<not> hw_decrypted (tx_sec e)), xa_bmc_camid := tx_bmc_cam_id e\<rparr>;
              let a = (if enc \<and> bmcast \<and> tx_pk_gk_conflict e then a\<lparr>xa_bswenc := True\<rparr> else a);
              let a = (if enc \<and> eapol = EAPOL_4_4 then a\<lparr>xa_bswenc := True\<rparr> else a);
              Some (True, a, s) } } }"

subsection \<open>The attributes of a packet\<close>

definition WIFI_MESH_STATE :: u32 where "WIFI_MESH_STATE = 0x00000200"
definition WIFI_UNDER_KEY_HANDSHAKE :: u32 where "WIFI_UNDER_KEY_HANDSHAKE = 0x01000000"

text \<open>Addresses in station and ad-hoc mode; in AP mode they are resolved before.\<close>

definition attrib_addr :: "tx_env \<Rightarrow> buf \<Rightarrow> tx_attrib \<Rightarrow> tx_attrib" where
  "attrib_addr e eth a =
     (if fw_state (tx_rx e) AND (WIFI_AP_STATE OR WIFI_MESH_STATE) \<noteq> 0 then a
      else let a = a\<lparr>xa_dst := take 6 eth, xa_src := take 6 (drop 6 eth), ta_ta := my_mac (tx_rx e)\<rparr> in
        if check_fwstate (tx_rx e) WIFI_ADHOC_STATE \<or> check_fwstate (tx_rx e) WIFI_ADHOC_MASTER_STATE then a\<lparr>ta_ra := xa_dst a\<rparr>
        else if check_fwstate (tx_rx e) WIFI_STATION_STATE then a\<lparr>ta_ra := my_bssid (tx_rx e)\<rparr>
        else a)"

text \<open>The kind of an IP packet, with the reads behind the Ethernet header.\<close>

definition attrib_udp :: "buf \<Rightarrow> tx_attrib \<Rightarrow> tx_attrib" where
  "attrib_udp udp a =
     (let src = be16 (udp ! 0) (udp ! 1); dst = be16 (udp ! 2) (udp ! 3);
          a = (if (src = 68 \<and> dst = 67 \<or> src = 67 \<and> dst = 68) \<and> xa_pktlen a > 282 then a\<lparr>xa_dhcp_pkt := True\<rparr> else a) in
      if (udp ! 8 = 0xcc \<or> udp ! 8 = 0xdd) \<and> udp ! 23 = 0xe2 then a\<lparr>xa_hipriority_pkt := True\<rparr> else a)"

definition session_calls :: "nat \<Rightarrow> tx_sta \<Rightarrow> buf \<Rightarrow> buf \<Rightarrow> tx_call list" where
  "session_calls k s ip tcp =
     (let src = take 4 (drop 12 ip); dst = take 4 (drop 16 ip); sport = take 2 tcp; dport = take 2 (drop 2 tcp) in
      if rtw_st_ctl_chk_reg_rule (st_reg s) src sport dst dport then
        (if bit (tcp ! 13) 1 \<and> bit (tcp ! 13) 4 then [SessionAdd k src sport src dport] else [])
        @ (if bit (tcp ! 13) 0 then [SessionDel k src sport src dport] else [])
      else [])"

definition attrib_proto :: "(nat \<Rightarrow> u8) \<Rightarrow> nat \<Rightarrow> tx_sta \<Rightarrow> buf \<Rightarrow> pkt_file \<Rightarrow> tx_attrib \<Rightarrow> (tx_attrib \<times> tx_call list) option" where
  "attrib_proto junk k s ip pf a =
     (if ip ! 9 = 0x01 then Some (a\<lparr>xa_icmp_pkt := True\<rparr>, [])
      else if ip ! 9 = 0x11 then do { (d, pf) \<leftarrow> rtw_pktfile_read pf 24; Some (attrib_udp (local_array junk 24 d) a, []) }
      else if ip ! 9 = 0x06 \<and> rtw_st_ctl_chk_reg_s_proto (st_reg s) 0x06
        then do { (d, pf) \<leftarrow> rtw_pktfile_read pf 20; Some (a, session_calls k s ip (local_array junk 20 d)) }
      else Some (a, []))"

definition attrib_ip :: "(nat \<Rightarrow> u8) \<Rightarrow> nat \<Rightarrow> tx_sta \<Rightarrow> pkt_file \<Rightarrow> tx_attrib \<Rightarrow> (tx_attrib \<times> tx_call list) option" where
  "attrib_ip junk k s pf a =
     do { (d, pf) \<leftarrow> rtw_pktfile_read pf 20;
          let ip = local_array junk 20 d;
          let ihl = ip ! 0 AND 0x0f;
          pf \<leftarrow> (if unat ihl * 4 > 20 then map_option snd (rtw_pktfile_read pf (ucast ihl - 20)) else Some pf);
          attrib_proto junk k s ip pf (a\<lparr>xa_icmp_pkt := False, xa_dhcp_pkt := False, xa_hipriority_pkt := False\<rparr>) }"

definition rtw_lps_chk_packet_type :: "tx_attrib \<Rightarrow> tx_call list" where
  "rtw_lps_chk_packet_type a = (if xa_icmp_pkt a then [LpsCtrl 5] else if xa_dhcp_pkt a then [LpsCtrl 4] else [])"

definition scan_calls :: "tx_env \<Rightarrow> tx_attrib \<Rightarrow> tx_call list option" where
  "scan_calls e a =
     do { mc \<leftarrow> (if check_fwstate (tx_rx e) WIFI_STATION_STATE \<and> xa_ether_type a = 0x0806 then IS_MCAST (xa_dst a) else Some True);
          Some ((if xa_ether_type a = 0x888e \<or> xa_dhcp_pkt a then [SetScanDeny 3000] else [])
            @ (if \<not> mc then [SetScanDeny 1000, ScanAbort] else [])) }"

definition attrib_qos :: "tx_env \<Rightarrow> (nat \<Rightarrow> u8) \<Rightarrow> buf \<Rightarrow> tx_sta \<Rightarrow> tx_attrib \<Rightarrow> tx_attrib option" where
  "attrib_qos e junk pkt s a =
     (let a = a\<lparr>xa_pkt_hdrlen := 14, ta_hdrlen := 24, xa_subtype := 0x08, xa_qos_en := ts_qos_option s, xa_priority := 0\<rparr> in
      if check_fwstate (tx_rx e) (WIFI_AP_STATE OR WIFI_MESH_STATE OR WIFI_ADHOC_STATE OR WIFI_ADHOC_MASTER_STATE) then
        (if xa_qos_en a then set_qos e junk (Some pkt) a else Some a)
      else if tx_qos_option e then
        do { a \<leftarrow> set_qos e junk (Some pkt) a;
             Some (if tx_acm_mask e \<noteq> 0 then a\<lparr>xa_priority := qos_acm (tx_acm_mask e) (xa_priority a)\<rparr> else a) }
      else Some a)"

definition add_calls :: "tx_call list \<Rightarrow> tx_state \<Rightarrow> tx_state" where
  "add_calls cs st = st\<lparr>tx_calls := tx_calls st @ cs\<rparr>"

definition clear_handshake :: "nat \<Rightarrow> tx_state \<Rightarrow> tx_state" where
  "clear_handshake k st = st\<lparr>tx_stapriv := (tx_stapriv st)\<lparr>stainfo := (stainfo (tx_stapriv st))
     [k := (stainfo (tx_stapriv st) ! k)\<lparr>sta_state := sta_state (stainfo (tx_stapriv st) ! k) AND NOT WIFI_UNDER_KEY_HANDSHAKE\<rparr>]\<rparr>\<rparr>"

definition update_attrib :: "tx_env \<Rightarrow> (nat \<Rightarrow> u8) \<Rightarrow> buf \<Rightarrow> tx_attrib \<Rightarrow> tx_state \<Rightarrow> (bool \<times> tx_attrib \<times> tx_state) option" where
  "update_attrib e junk pkt a st =
     do { (d, pf) \<leftarrow> rtw_pktfile_read (rtw_open_pktfile pkt) 14;
          let eth = local_array junk 14 d;
          let a = attrib_addr e eth (a\<lparr>xa_ether_type := be16 (eth ! 12) (eth ! 13)\<rparr>);
          bmcast \<leftarrow> IS_MCAST (ta_ra a);
          case (if bmcast then rtw_get_bcmc_stainfo (tx_stapriv st) else rtw_get_stainfo (tx_stapriv st) (Some (ta_ra a))) of
            None \<Rightarrow> Some (False, a, st)
          | Some k \<Rightarrow>
              do { sta \<leftarrow> idx (stainfo (tx_stapriv st)) k;
                   s \<leftarrow> idx (tx_stas st) k;
                   if sta_state sta AND WIFI_ASOC_STATE = 0 then Some (False, a, st)
                   else do {
                     let a = a\<lparr>xa_pktlen := pf_pkt_len pf\<rparr>;
                     (a, cs) \<leftarrow> (if xa_ether_type a = 0x0800 then attrib_ip junk k s pf a else Some (a, []));
                     (eapol, done) \<leftarrow> (if xa_ether_type a = 0x888e then parsing_eapol_packet (tx_wpapsk e) pkt (pf_cur pf) else Some (NON_EAPOL, False));
                     let st = (if done then clear_handshake k st else st);
                     sc \<leftarrow> scan_calls e a;
                     let st = add_calls (cs @ sc @ rtw_lps_chk_packet_type a) st;
                     let a = update_attrib_txbf_info s a;
                     (ok, a, s) \<leftarrow> update_attrib_sec_info e sta s eapol a;
                     let st = st\<lparr>tx_stas := (tx_stas st)[k := s]\<rparr>;
                     if \<not> ok then Some (False, a, st)
                     else do {
                       a \<leftarrow> attrib_qos e junk pkt s a;
                       let a = (update_attrib_phy_info e s a)\<lparr>xa_psta := Some k, xa_pctrl := False, xa_ack_policy := 0\<rparr>;
                       let a = (if bmcast then a\<lparr>xa_rate := ts_init_rate s\<rparr> else a);
                       Some (True, (update_attrib_trigger_frame_info e a)\<lparr>xa_hw_ssn_sel := tx_hw_ssn e\<rparr>, st) } } } }"

subsection \<open>The initialisation vector carries the packet number\<close>

text \<open>
  The packet number of a frame as its receiver reads it: \<open>GET_TKIP_PN\<close> of the decryption and \<open>CCMPH_2_PN\<close> of the replay check.
\<close>

definition iv_pn :: "tx_attrib \<Rightarrow> nat" where
  "iv_pn a =
     (if ta_encrypt a = SEC_WEP40 \<or> ta_encrypt a = SEC_WEP104
      then unat (xa_iv a ! 0) + 2 ^ 8 * unat (xa_iv a ! 1) + 2 ^ 16 * unat (xa_iv a ! 2)
      else if ta_encrypt a = SEC_TKIP then (case GET_TKIP_PN (xa_iv a) 0 of None \<Rightarrow> 0 | Some (pnl, pnh) \<Rightarrow> unat pnl + 2 ^ 16 * unat pnh)
      else unat (CCMPH_2_PN (le64 (take 8 (xa_iv a)))))"

definition ciphers :: "u8 set" where
  "ciphers = {SEC_WEP40, SEC_WEP104, SEC_TKIP, SEC_AES, SEC_GCMP, SEC_CCMP_256, SEC_GCMP_256}"

lemma bind_eq_SomeE: "Option.bind x f = Some y \<Longrightarrow> (\<And>z. x = Some z \<Longrightarrow> f z = Some y \<Longrightarrow> R) \<Longrightarrow> R"
  by (auto simp: Option.bind_eq_Some_conv)

lemma pn48_next_eq: "unat pn + 1 < 2 ^ 48 \<Longrightarrow> unat (pn48_next pn) = unat pn + 1"
  by (auto simp: pn48_next_def unat_word_ariths)

lemma pn48_hi: "unat (pn :: u64) < 2 ^ 48 \<Longrightarrow> 48 \<le> n \<Longrightarrow> \<not> bit pn n"
proof -
  assume "unat pn < 2 ^ 48" "48 \<le> n"
  then have "take_bit 48 pn = pn" by (simp add: word_unat_eq_iff unsigned_take_bit_eq take_bit_nat_eq_self)
  then show ?thesis using \<open>48 \<le> n\<close> by (metis bit_take_bit_iff not_le)
qed

lemma bit_le64: "length b \<le> 8 \<Longrightarrow> bit (le64 b) n \<longleftrightarrow> n div 8 < length b \<and> bit (b ! (n div 8)) (n mod 8)"
proof (induction b arbitrary: n)
  case (Cons x b)
  have "bit (le64 (x # b)) n \<longleftrightarrow> (8 \<le> n \<and> n < 64 \<and> bit (le64 b) (n - 8)) \<or> (n < 8 \<and> bit x n)"
    by (auto simp: le64_def bit_simps dest: bit_imp_le_length)
  also have "\<dots> \<longleftrightarrow> n div 8 < length (x # b) \<and> bit ((x # b) ! (n div 8)) (n mod 8)"
  proof (cases "n < 8")
    case False
    then obtain m where m: "n = m + 8" by (metis add.commute le_Suc_ex not_less)
    moreover from m have "n div 8 = Suc (m div 8)" by simp
    ultimately show ?thesis using Cons.IH [of m] Cons.prems by auto
  qed simp
  finally show ?case .
qed (simp add: le64_def)

lemma bit_CCMPH: "bit (CCMPH_2_PN ch) n \<longleftrightarrow> n < 16 \<and> bit ch n \<or> 16 \<le> n \<and> n < 48 \<and> bit ch (n + 16)"
proof -
  have m: "(0xffff :: u64) = mask 16" "(0xffffffff00000000 :: u64) = NOT (mask 32)" by (simp_all add: mask_eq_exp_minus_1)
  show ?thesis unfolding CCMPH_2_PN_def m by (auto simp: bit_simps add.commute)
qed

lemma bit_tsc: "bit (tsc pn k) n \<longleftrightarrow> n < 8 \<and> bit pn (8 * k + n)"
  by (auto simp: tsc_def bit_simps)

lemma AES_IV_pn:
  assumes "unat pn < 2 ^ 48" "b = [tsc pn 0, tsc pn 1, 0, k, tsc pn 2, tsc pn 3, tsc pn 4, tsc pn 5]"
  shows "CCMPH_2_PN (le64 b) = pn"
proof (rule bit_word_eqI)
  fix n assume "n < LENGTH(64)"
  have l: "length b = 8" using assms(2) by simp
  have d: "8 * (n div 8) + n mod 8 = n" "(n + 16) mod 8 = n mod 8" by (simp, presburger)
  consider "n div 8 = 0" | "n div 8 = 1" | "n div 8 = 2" | "n div 8 = 3" | "n div 8 = 4" | "n div 8 = 5" | "48 \<le> n" by linarith
  then show "bit (CCMPH_2_PN (le64 b)) n = bit pn n"
  proof cases
    case 7 then show ?thesis using pn48_hi [OF assms(1)] by (simp add: bit_CCMPH)
  qed (use d l in \<open>auto simp: bit_CCMPH bit_le64 assms(2) bit_tsc\<close>)
qed

lemma unat_drop_bit: "unat (drop_bit k w) = unat w div 2 ^ k" for w :: u64
  using unsigned_less [of w, where 'a = nat] by (simp add: unsigned_drop_bit_eq take_bit_nat_eq_self flip: drop_bit_eq_div)

lemma TKIP_IV_pn:
  assumes "unat pn < 2 ^ 48"
  shows "\<exists>pnl pnh. GET_TKIP_PN ([tsc pn 1, x, tsc pn 0, y, tsc pn 2, tsc pn 3, tsc pn 4, tsc pn 5] @ r) 0 = Some (pnl, pnh)
    \<and> unat pnl + 2 ^ 16 * unat pnh = unat pn"
proof -
  have l: "be16 (tsc pn 1) (tsc pn 0) = ucast pn"
    by (rule bit_word_eqI) (auto simp: be16_def bit_simps bit_tsc)
  have h: "le32 (tsc pn 2) (tsc pn 3) (tsc pn 4) (tsc pn 5) = ucast (drop_bit 16 pn)"
  proof (rule bit_word_eqI)
    fix n assume "n < LENGTH(32)"
    then consider "n < 8" | "8 \<le> n" "n < 16" | "16 \<le> n" "n < 24" | "24 \<le> n" "n < 32" by fastforce
    then show "bit (le32 (tsc pn 2) (tsc pn 3) (tsc pn 4) (tsc pn 5)) n = bit (ucast (drop_bit 16 pn) :: u32) n"
      by cases (auto simp: le32_def bit_simps bit_tsc add.commute)
  qed
  have "unat (ucast pn :: u16) = unat pn mod 2 ^ 16" "unat (ucast (drop_bit 16 pn) :: u32) = unat pn div 2 ^ 16"
    using assms by (simp_all add: unsigned_ucast_eq unat_drop_bit take_bit_eq_mod)
  then have "unat (ucast pn :: u16) + 2 ^ 16 * unat (ucast (drop_bit 16 pn) :: u32) = unat pn" by simp
  then show ?thesis by (simp add: GET_TKIP_PN_def rd_def l [simplified] h)
qed

lemma WEP_IV_pn:
  assumes "unat pn < 2 ^ 24"
  shows "unat (tsc pn 0) + 2 ^ 8 * unat (tsc pn 1) + 2 ^ 16 * unat (tsc pn 2) = unat pn"
proof -
  have "unat (tsc pn k) = unat pn div 2 ^ (8 * k) mod 2 ^ 8" for k
    by (simp add: tsc_def unsigned_ucast_eq unat_drop_bit take_bit_eq_mod)
  moreover have "unat pn mod 256 + 256 * (unat pn div 256 mod 256) + 65536 * (unat pn div 65536) = unat pn"
    using mod_mult2_eq [of "unat pn" 256 256] mult_div_mod_eq [of 65536 "unat pn"] by simp
  ultimately show ?thesis using assms by simp
qed

definition pn_limit :: "u8 \<Rightarrow> nat" where
  "pn_limit alg = (if alg = SEC_WEP40 \<or> alg = SEC_WEP104 then 2 ^ 24 else 2 ^ 48)"

lemmas sec_consts = SEC_WEP40_def SEC_WEP104_def SEC_TKIP_def SEC_AES_def SEC_GCMP_def SEC_GCMP_256_def SEC_CCMP_256_def

text \<open>A new packet number: the next one, and the receiver reads it from the initialisation vector.\<close>

definition pn_taken :: "tx_attrib \<Rightarrow> tx_sta \<Rightarrow> tx_sta \<Rightarrow> bool" where
  "pn_taken a s s' \<longleftrightarrow> (if ta_encrypt a \<in> ciphers
     then unat (dot11txpn s) + 1 < pn_limit (ta_encrypt a) \<longrightarrow> unat (dot11txpn s') = unat (dot11txpn s) + 1 \<and> iv_pn a = unat (dot11txpn s')
     else dot11txpn s' = dot11txpn s)"

lemma set_iv_AES:
  assumes "ta_encrypt a \<in> {SEC_AES, SEC_GCMP, SEC_CCMP_256, SEC_GCMP_256}" "set_iv (AES_IV (dot11txpn s) k) n m a s = (a', s')"
  shows "pn_taken a' s s'"
proof -
  have eq: "ta_encrypt a' = ta_encrypt a" "dot11txpn s' = pn48_next (dot11txpn s)"
    "take 8 (xa_iv a') = (let pn = pn48_next (dot11txpn s) in [tsc pn 0, tsc pn 1, 0, 0x20 OR key_bits k, tsc pn 2, tsc pn 3, tsc pn 4, tsc pn 5])"
    using assms(2) by (auto simp: set_iv_def AES_IV_def Let_def)
  show ?thesis
  proof (cases "unat (dot11txpn s) + 1 < 2 ^ 48")
    case True
    then have n: "unat (pn48_next (dot11txpn s)) = unat (dot11txpn s) + 1" by (rule pn48_next_eq)
    have "CCMPH_2_PN (le64 (take 8 (xa_iv a'))) = pn48_next (dot11txpn s)" using AES_IV_pn [OF _ eq(3) [unfolded Let_def]] True n by simp
    then have "iv_pn a' = unat (dot11txpn s) + 1" using assms(1) n unfolding iv_pn_def eq by (auto simp: sec_consts)
    then show ?thesis using n assms(1) by (auto simp: pn_taken_def eq ciphers_def)
  qed (use assms(1) in \<open>auto simp: pn_taken_def eq ciphers_def pn_limit_def sec_consts\<close>)
qed

lemma set_iv_TKIP:
  assumes "ta_encrypt a = SEC_TKIP" "set_iv (TKIP_IV (dot11txpn s) k) n m a s = (a', s')"
  shows "pn_taken a' s s'"
proof -
  define pn where "pn = pn48_next (dot11txpn s)"
  have eq: "ta_encrypt a' = ta_encrypt a" "dot11txpn s' = pn"
    "xa_iv a' = [tsc pn 1, (tsc pn 1 OR 0x20) AND 0x7f, tsc pn 0, 0x20 OR key_bits k, tsc pn 2, tsc pn 3, tsc pn 4, tsc pn 5] @ drop 8 (xa_iv a)"
    using assms(2) by (auto simp: set_iv_def TKIP_IV_def Let_def pn_def eval_nat_numeral)
  show ?thesis
  proof (cases "unat (dot11txpn s) + 1 < 2 ^ 48")
    case True
    then have n: "unat pn = unat (dot11txpn s) + 1" unfolding pn_def by (rule pn48_next_eq)
    then have "iv_pn a' = unat pn" using TKIP_IV_pn [of pn "(tsc pn 1 OR 0x20) AND 0x7f" "0x20 OR key_bits k" "drop 8 (xa_iv a)"] True
      unfolding iv_pn_def eq assms(1) by (auto simp: sec_consts)
    then show ?thesis using n assms(1) by (auto simp: pn_taken_def eq ciphers_def)
  qed (use assms(1) in \<open>auto simp: pn_taken_def eq ciphers_def pn_limit_def sec_consts\<close>)
qed

lemma set_iv_WEP:
  assumes "ta_encrypt a \<in> {SEC_WEP40, SEC_WEP104}" "set_iv (WEP_IV (dot11txpn s) k) n m a s = (a', s')"
  shows "pn_taken a' s s'"
proof -
  define pn where "pn = (if dot11txpn s = 0xffffff then 0 else dot11txpn s + 1)"
  have eq: "ta_encrypt a' = ta_encrypt a" "dot11txpn s' = pn"
    "xa_iv a' = [tsc pn 0, tsc pn 1, tsc pn 2, key_bits k] @ drop 4 (xa_iv a)"
    using assms(2) by (auto simp: set_iv_def WEP_IV_def Let_def pn_def eval_nat_numeral)
  show ?thesis
  proof (cases "unat (dot11txpn s) + 1 < 2 ^ 24")
    case True
    then have n: "unat pn = unat (dot11txpn s) + 1" unfolding pn_def by (auto simp: unat_word_ariths)
    then have "iv_pn a' = unat pn" using WEP_IV_pn [of pn] True assms(1) unfolding iv_pn_def eq by auto
    then show ?thesis using n assms(1) by (auto simp: pn_taken_def eq ciphers_def)
  qed (use assms(1) in \<open>auto simp: pn_taken_def eq ciphers_def pn_limit_def\<close>)
qed

lemma attrib_iv_pn:
  assumes "attrib_iv e s bm a = (ok, a', s')"
  shows "ta_encrypt a' = ta_encrypt a" "if ok then pn_taken a' s s' else s' = s"
proof -
  show "ta_encrypt a' = ta_encrypt a" using assms by (auto simp: attrib_iv_def set_iv_def Let_def split: if_splits)
  let ?k = "if bm then xa_key_idx a else 0"
  consider "ta_encrypt a \<in> {SEC_WEP40, SEC_WEP104}" | "ta_encrypt a = SEC_TKIP" | "ta_encrypt a = SEC_AES"
    | "ta_encrypt a \<in> {SEC_GCMP, SEC_GCMP_256, SEC_CCMP_256}" | "ta_encrypt a \<notin> ciphers" by (auto simp: ciphers_def)
  then show "if ok then pn_taken a' s s' else s' = s"
  proof cases
    case 1
    then have "ok" "set_iv (WEP_IV (dot11txpn s) (xa_key_idx a)) 4 4 a s = (a', s')" using assms by (auto simp: attrib_iv_def)
    then show ?thesis using set_iv_WEP [OF 1] by simp
  next
    case 2
    show ?thesis
    proof (cases "busetkipkey (tx_sec e)")
      case True
      obtain b t where bt: "set_iv (TKIP_IV (dot11txpn s) ?k) 8 4 a s = (b, t)" by fastforce
      then have "ok" "a' = b\<lparr>xa_mickey := take 16 (dot11tkiptxmickey t) @ drop 16 (xa_mickey b)\<rparr>" "s' = t"
        using assms 2 True by (auto simp: attrib_iv_def Let_def sec_consts)
      moreover have "iv_pn (b\<lparr>xa_mickey := x\<rparr>) = iv_pn b" for x by (simp add: iv_pn_def)
      ultimately show ?thesis using set_iv_TKIP [OF 2 bt] by (simp add: pn_taken_def)
    qed (use assms 2 in \<open>auto simp: attrib_iv_def Let_def sec_consts\<close>)
  next
    case 3
    then have "ok" "set_iv (AES_IV (dot11txpn s) ?k) 8 8 a s = (a', s')" using assms by (auto simp: attrib_iv_def Let_def sec_consts)
    then show ?thesis using set_iv_AES [of a s ?k 8 8 a' s'] 3 by simp
  next
    case 4
    then have "ok" "set_iv (AES_IV (dot11txpn s) ?k) 8 16 a s = (a', s')" using assms by (auto simp: attrib_iv_def Let_def sec_consts)
    then show ?thesis using set_iv_AES [of a s ?k 8 16 a' s'] 4 by auto
  next
    case 5
    then show ?thesis using assms by (auto simp: attrib_iv_def Let_def ciphers_def pn_taken_def)
  qed
qed

lemma pn_taken_cong: "ta_encrypt a = ta_encrypt b \<Longrightarrow> xa_iv a = xa_iv b \<Longrightarrow> pn_taken a = pn_taken b"
  by (simp add: pn_taken_def iv_pn_def fun_eq_iff)

text \<open>What the cipher of a packet is that is not dropped.\<close>

lemma sec_info_spec:
  assumes "update_attrib_sec_info e sta s eapol a = Some (ok, a', s')" "IS_MCAST (ta_ra a) = Some bm"
  shows "if ok then pn_taken a' s s' else s' = s" "xa_ether_type a' = xa_ether_type a \<and> ta_ra a' = ta_ra a"
    and "ok \<Longrightarrow> xa_ether_type a \<noteq> 0x888e \<Longrightarrow> \<not> check_fwstate (tx_rx e) WIFI_MP_STATE
      \<Longrightarrow> \<not> ieee8021x_blocked sta \<and> (ta_encrypt a' = GET_ENCRY_ALGO (tx_sec e) sta (ta_encrypt a) bm \<or> eapol \<in> {EAPOL_2_4, EAPOL_4_4})"
proof -
  define a0 where "a0 = a\<lparr>ta_UncstKey := replicate 16 0 @ drop 16 (ta_UncstKey a), xa_mickey := replicate 16 0 @ drop 16 (xa_mickey a), xa_mac_id := ts_mac_id s\<rparr>"
  obtain ok1 a1 where c: "attrib_cipher e sta s eapol bm a0 = (ok1, a1)" by fastforce
  obtain ok2 a2 s2 where i: "attrib_iv e s bm a1 = (ok2, a2, s2)" by (cases "attrib_iv e s bm a1")
  have c1: "xa_ether_type a1 = xa_ether_type a \<and> ta_ra a1 = ta_ra a" using c by (auto simp: attrib_cipher_def a0_def Let_def split: if_splits)
  have i1: "xa_ether_type a2 = xa_ether_type a1 \<and> ta_ra a2 = ta_ra a1" using i by (auto simp: attrib_iv_def set_iv_def Let_def split: if_splits)
  have e1: "\<not> ieee8021x_blocked sta \<and> (ta_encrypt a1 = GET_ENCRY_ALGO (tx_sec e) sta (ta_encrypt a) bm \<or> eapol \<in> {EAPOL_2_4, EAPOL_4_4})"
    if "ok1" "xa_ether_type a \<noteq> 0x888e" "\<not> check_fwstate (tx_rx e) WIFI_MP_STATE"
    using c that by (auto simp: attrib_cipher_def a0_def Let_def split: if_splits)
  have r: "if \<not> ok1 then ok = False \<and> a' = a1 \<and> s' = s else if \<not> ok2 then ok = False \<and> a' = a2 \<and> s' = s2
     else ok \<and> s' = s2 \<and> ta_encrypt a' = ta_encrypt a2 \<and> xa_iv a' = xa_iv a2 \<and> xa_ether_type a' = xa_ether_type a2 \<and> ta_ra a' = ta_ra a2"
    using assms c i by (auto simp: update_attrib_sec_info_def Let_def a0_def split: if_splits)
  show "if ok then pn_taken a' s s' else s' = s"
    using r attrib_iv_pn(2) [OF i] pn_taken_cong [of a' a2] by (auto split: if_splits)
  show "xa_ether_type a' = xa_ether_type a \<and> ta_ra a' = ta_ra a" using r c1 i1 by (auto split: if_splits)
  show "\<not> ieee8021x_blocked sta \<and> (ta_encrypt a' = GET_ENCRY_ALGO (tx_sec e) sta (ta_encrypt a) bm \<or> eapol \<in> {EAPOL_2_4, EAPOL_4_4})"
    if "ok" "xa_ether_type a \<noteq> 0x888e" "\<not> check_fwstate (tx_rx e) WIFI_MP_STATE"
    using r that e1 attrib_iv_pn(1) [OF i] by (auto split: if_splits)
qed

lemma attrib_addr_keep [simp]: "ta_encrypt (attrib_addr e eth a) = ta_encrypt a" "xa_ether_type (attrib_addr e eth a) = xa_ether_type a"
  by (simp_all add: attrib_addr_def Let_def)

definition same_cipher :: "tx_attrib \<Rightarrow> tx_attrib \<Rightarrow> bool" where
  "same_cipher a b \<longleftrightarrow> ta_encrypt a = ta_encrypt b \<and> xa_iv a = xa_iv b \<and> xa_ether_type a = xa_ether_type b \<and> ta_ra a = ta_ra b"

lemma attrib_udp_keep: "same_cipher (attrib_udp udp a) a"
  by (simp add: attrib_udp_def Let_def same_cipher_def)

lemma attrib_proto_keep: "attrib_proto junk k s ip pf a = Some (a', cs) \<Longrightarrow> same_cipher a' a"
  using attrib_udp_keep by (auto simp: attrib_proto_def Option.bind_eq_Some_conv same_cipher_def split: if_splits)

lemma attrib_ip_keep: "attrib_ip junk k s pf a = Some (a', cs) \<Longrightarrow> same_cipher a' a"
  using attrib_proto_keep [of junk k s _ _ "a\<lparr>xa_icmp_pkt := False, xa_dhcp_pkt := False, xa_hipriority_pkt := False\<rparr>" a' cs]
  unfolding attrib_ip_def Let_def by (fastforce simp: Option.bind_eq_Some_conv same_cipher_def)

lemma set_qos_keep: "set_qos e junk pkt a = Some a' \<Longrightarrow> same_cipher a' a"
  unfolding set_qos_def by (elim bind_eq_SomeE) (auto simp: same_cipher_def)

lemma attrib_qos_keep: "attrib_qos e junk pkt s a = Some a' \<Longrightarrow> same_cipher a' a"
  unfolding attrib_qos_def Let_def
  by (split if_split_asm; split if_split_asm; auto simp: Option.bind_eq_Some_conv same_cipher_def dest!: set_qos_keep)

lemma phy_info_keep [simp]: "ta_encrypt (update_attrib_phy_info e s a) = ta_encrypt a" "xa_iv (update_attrib_phy_info e s a) = xa_iv a"
  "xa_ether_type (update_attrib_phy_info e s a) = xa_ether_type a" "ta_ra (update_attrib_phy_info e s a) = ta_ra a"
  by (simp_all add: update_attrib_phy_info_def Let_def)

text \<open>The station of a packet that is sent, its packet number and its cipher.\<close>

definition sent_to :: "tx_env \<Rightarrow> tx_attrib \<Rightarrow> tx_state \<Rightarrow> tx_attrib \<Rightarrow> nat \<Rightarrow> tx_sta \<Rightarrow> bool" where
  "sent_to e a st a' k s' \<longleftrightarrow> xa_psta a' = Some k \<and> k < length (tx_stas st) \<and> k < length (stainfo (tx_stapriv st))
     \<and> sta_state (stainfo (tx_stapriv st) ! k) AND WIFI_ASOC_STATE \<noteq> 0 \<and> pn_taken a' (tx_stas st ! k) s'
     \<and> (xa_ether_type a' \<noteq> 0x888e \<longrightarrow> \<not> check_fwstate (tx_rx e) WIFI_MP_STATE \<longrightarrow> \<not> ieee8021x_blocked (stainfo (tx_stapriv st) ! k)
         \<and> (\<exists>bm. IS_MCAST (ta_ra a') = Some bm \<and> ta_encrypt a' = GET_ENCRY_ALGO (tx_sec e) (stainfo (tx_stapriv st) ! k) (ta_encrypt a) bm))"

lemma update_attrib_spec:
  assumes "update_attrib e junk pkt a st = Some (ok, a', st')"
  shows "if ok then \<exists>k s'. tx_stas st' = (tx_stas st)[k := s'] \<and> sent_to e a st a' k s' else tx_stas st' = tx_stas st"
proof -
  obtain d pf where d: "rtw_pktfile_read (rtw_open_pktfile pkt) 14 = Some (d, pf)"
    using assms by (auto simp: update_attrib_def Option.bind_eq_Some_conv)
  define a1 where "a1 = attrib_addr e (local_array junk 14 d) (a\<lparr>xa_ether_type := be16 (local_array junk 14 d ! 12) (local_array junk 14 d ! 13)\<rparr>)"
  obtain bm where bm: "IS_MCAST (ta_ra a1) = Some bm"
    using assms d by (auto simp: update_attrib_def Option.bind_eq_Some_conv Let_def a1_def)
  let ?p = "if bm then rtw_get_bcmc_stainfo (tx_stapriv st) else rtw_get_stainfo (tx_stapriv st) (Some (ta_ra a1))"
  note A = assms [unfolded update_attrib_def, simplified d bind.bind_lunit prod.case Let_def, folded a1_def, simplified bm bind.bind_lunit]
  show ?thesis
  proof (cases ?p)
    case None then show ?thesis using A by simp
  next
    case (Some k)
    obtain sta s where k: "idx (stainfo (tx_stapriv st)) k = Some sta" "idx (tx_stas st) k = Some s"
      using A Some by (auto simp: Option.bind_eq_Some_conv)
    show ?thesis
    proof (cases "sta_state sta AND WIFI_ASOC_STATE = 0")
      case True then show ?thesis using A Some k by simp
    next
      case False
      obtain a2 cs eapol dn sc a3 ok3 s3 where
        p: "(if xa_ether_type a1 = 0x0800 then attrib_ip junk k s pf (a1\<lparr>xa_pktlen := pf_pkt_len pf\<rparr>) else Some (a1\<lparr>xa_pktlen := pf_pkt_len pf\<rparr>, [])) = Some (a2, cs)"
          "(if xa_ether_type a2 = 0x888e then parsing_eapol_packet (tx_wpapsk e) pkt (pf_cur pf) else Some (NON_EAPOL, False)) = Some (eapol, dn)"
          "scan_calls e a2 = Some sc" "update_attrib_sec_info e sta s eapol (update_attrib_txbf_info s a2) = Some (ok3, a3, s3)"
        using A Some k False by (auto simp: Option.bind_eq_Some_conv)
      have keep: "ta_encrypt a2 = ta_encrypt a" "xa_ether_type a2 = xa_ether_type a1" "ta_ra a2 = ta_ra a1"
        using p(1) attrib_ip_keep [of junk k s pf "a1\<lparr>xa_pktlen := pf_pkt_len pf\<rparr>" a2 cs] by (auto simp: a1_def same_cipher_def split: if_splits)
      have bm2: "IS_MCAST (ta_ra (update_attrib_txbf_info s a2)) = Some bm" using bm keep by (simp add: update_attrib_txbf_info_def)
      note S = sec_info_spec [OF p(4) bm2]
      show ?thesis
      proof (cases ok3)
        case False
        have "ok = False" "tx_stas st' = (tx_stas st)[k := s3]"
          using A Some k \<open>\<not> sta_state sta AND WIFI_ASOC_STATE = 0\<close> p False by (auto simp: clear_handshake_def add_calls_def)
        moreover have "s3 = s" "(tx_stas st)[k := s] = tx_stas st" using S(1) False k(2) by (auto simp: idx_def split: if_splits)
        ultimately show ?thesis by simp
      next
        case True
        obtain a4 where a4: "attrib_qos e junk pkt s3 a3 = Some a4"
          using A Some k \<open>\<not> sta_state sta AND WIFI_ASOC_STATE = 0\<close> p True by (auto simp: Option.bind_eq_Some_conv)
        have r: "ok" "tx_stas st' = (tx_stas st)[k := s3]" "xa_psta a' = Some k" "ta_encrypt a' = ta_encrypt a4" "xa_iv a' = xa_iv a4" "xa_ether_type a' = xa_ether_type a4" "ta_ra a' = ta_ra a4"
          using A Some k \<open>\<not> sta_state sta AND WIFI_ASOC_STATE = 0\<close> p True a4
          by (auto simp: clear_handshake_def add_calls_def update_attrib_trigger_frame_info_def)
        have q: "ta_encrypt a4 = ta_encrypt a3" "xa_iv a4 = xa_iv a3" "xa_ether_type a4 = xa_ether_type a3" "ta_ra a4 = ta_ra a3" using attrib_qos_keep [OF a4] by (simp_all add: same_cipher_def)
        have "eapol \<notin> {EAPOL_2_4, EAPOL_4_4}" if "xa_ether_type a2 \<noteq> 0x888e" using p(2) that by auto
        then have "sent_to e a st a' k s3"
          using r q S True k \<open>\<not> sta_state sta AND WIFI_ASOC_STATE = 0\<close> pn_taken_cong [of a' a3] keep bm
          by (auto simp: sent_to_def idx_def update_attrib_txbf_info_def split: if_splits)
        then show ?thesis using r by auto
      qed
    qed
  qed
qed

text \<open>C10. Outside test mode, a packet that \<open>update_attrib\<close> does not drop goes to an associated station; unless it is an EAPOL packet, the
  port of that station is authorised and the packet is marked for the cipher that the security settings name for its receiver.
\<close>

theorem update_attrib_protects:
  assumes "update_attrib e junk pkt a st = Some (True, a', st')" "\<not> check_fwstate (tx_rx e) WIFI_MP_STATE"
  shows "\<exists>k. xa_psta a' = Some k \<and> k < length (stainfo (tx_stapriv st)) \<and> sta_state (stainfo (tx_stapriv st) ! k) AND WIFI_ASOC_STATE \<noteq> 0 \<and>
    (xa_ether_type a' \<noteq> 0x888e \<longrightarrow> \<not> ieee8021x_blocked (stainfo (tx_stapriv st) ! k) \<and>
      (\<exists>bm. IS_MCAST (ta_ra a') = Some bm \<and> ta_encrypt a' = GET_ENCRY_ALGO (tx_sec e) (stainfo (tx_stapriv st) ! k) (ta_encrypt a) bm))"
  using update_attrib_spec [OF assms(1)] assms(2) unfolding sent_to_def by auto

subsection \<open>Packet numbers of a sequence of packets\<close>

text \<open>The attributes of the packets that are not dropped, in their order.\<close>

fun sends :: "tx_env \<Rightarrow> ((nat \<Rightarrow> u8) \<times> buf \<times> tx_attrib) list \<Rightarrow> tx_state \<Rightarrow> (tx_attrib list \<times> tx_state) option" where
  "sends e [] st = Some ([], st)"
| "sends e ((junk, pkt, a) # ps) st =
     do { (ok, a', st) \<leftarrow> update_attrib e junk pkt a st;
          (as, st) \<leftarrow> sends e ps st;
          Some (if ok then a' # as else as, st) }"

abbreviation pn_frames :: "nat \<Rightarrow> tx_attrib list \<Rightarrow> nat list" where
  "pn_frames k as \<equiv> map iv_pn (filter (\<lambda>a. xa_psta a = Some k \<and> ta_encrypt a \<in> ciphers) as)"

lemma sends_pn:
  assumes "sends e ps st = Some (as, st')"
    and "\<forall>a\<in>set as. xa_psta a = Some k \<longrightarrow> unat (dot11txpn (tx_stas st ! k)) + length ps < pn_limit (ta_encrypt a)"
  shows "sorted_wrt (<) (unat (dot11txpn (tx_stas st ! k)) # pn_frames k as)"
  using assms
proof (induction ps arbitrary: st as)
  case (Cons p ps)
  obtain junk pkt a where p: "p = (junk, pkt, a)" by (cases p)
  obtain ok a' st1 as1 where s: "update_attrib e junk pkt a st = Some (ok, a', st1)" "sends e ps st1 = Some (as1, st')"
    "as = (if ok then a' # as1 else as1)"
    using Cons.prems(1) unfolding p sends.simps by (auto elim!: bind_eq_SomeE)
  let ?n = "unat (dot11txpn (tx_stas st ! k))" and ?m = "unat (dot11txpn (tx_stas st1 ! k))"
  have ih: "sorted_wrt (<) (?m # pn_frames k as1)" if "?m \<le> ?n + 1"
    using Cons.IH [OF s(2)] Cons.prems(2) that s(3) by (fastforce split: if_splits)
  show ?case
  proof (cases "ok \<and> xa_psta a' = Some k \<and> ta_encrypt a' \<in> ciphers")
    case True
    then obtain s' where "tx_stas st1 = (tx_stas st)[k := s']" "k < length (tx_stas st)" "pn_taken a' (tx_stas st ! k) s'"
      using update_attrib_spec [OF s(1)] by (auto simp: sent_to_def)
    moreover have "?n + 1 < pn_limit (ta_encrypt a')" using Cons.prems(2) True s(3) by simp
    ultimately have "?m = ?n + 1" "iv_pn a' = ?n + 1" using True by (auto simp: pn_taken_def)
    then show ?thesis using ih True s(3) by auto
  next
    case False
    have "?m = ?n"
    proof (cases ok)
      case True
      then obtain k' s' where k': "tx_stas st1 = (tx_stas st)[k' := s']" "sent_to e a st a' k' s'" using update_attrib_spec [OF s(1)] by auto
      then show ?thesis using True False by (cases "k' = k") (auto simp: sent_to_def pn_taken_def)
    qed (use update_attrib_spec [OF s(1)] in simp)
    then show ?thesis using ih False s(3) by (auto split: if_splits)
  qed
qed simp

text \<open>C9. In any sequence of packets, the packet numbers that the receivers read from the initialisation vectors of the encrypted packets of
  one station strictly increase, above the number the station starts with, as long as the numbers do not wrap around.
\<close>

theorem packet_numbers_increase:
  assumes "sends e ps st = Some (as, st')"
    and "\<forall>a\<in>set as. xa_psta a = Some k \<longrightarrow> unat (dot11txpn (tx_stas st ! k)) + length ps < pn_limit (ta_encrypt a)"
  shows "sorted_wrt (<) (unat (dot11txpn (tx_stas st ! k)) # map iv_pn (filter (\<lambda>a. xa_psta a = Some k \<and> ta_encrypt a \<in> ciphers) as))"
  using assms by (rule sends_pn)

text \<open>The mask of a priority is compared with \<open>_TRUE\<close>, which is 1: in U-APSD mode only packets of priority 0 are marked as trigger frames,
  whatever the other bits of \<open>uapsd_tid\<close> say.
\<close>

theorem trigger_frames_tid_0:
  "xa_trigger_frame (update_attrib_trigger_frame_info e a) \<longleftrightarrow>
     check_fwstate (tx_rx e) WIFI_STATION_STATE \<and> (tx_pwr_mode e = 1 \<or> tx_pwr_mode e = 2) \<and> tx_uapsd_ap_supported e
     \<and> bit (tx_uapsd_tid e) 0 \<and> xa_priority a = 0"
proof -
  define w :: u32 where "w = ucast (tx_uapsd_tid e)"
  have "w AND push_bit n 1 = 1 \<longleftrightarrow> n = 0 \<and> bit w 0" for n
  proof
    assume "w AND push_bit n 1 = 1"
    then have "bit (w AND push_bit n 1) 0" by simp
    then show "n = 0 \<and> bit w 0" by (auto simp: bit_simps)
  next
    assume "n = 0 \<and> bit w 0"
    then show "w AND push_bit n 1 = 1" by (auto intro!: bit_word_eqI simp: bit_simps simp del: push_bit_of_1)
  qed
  moreover have "bit w 0 = bit (tx_uapsd_tid e) 0" by (simp add: w_def bit_simps)
  moreover have "unat (xa_priority a) = 0 \<longleftrightarrow> xa_priority a = 0" by (simp add: unat_eq_zero)
  ultimately show ?thesis unfolding update_attrib_trigger_frame_info_def by (auto simp flip: w_def)
qed

subsection \<open>Reading a packet is taking a prefix\<close>

definition pf_ok :: "pkt_file \<Rightarrow> bool" where
  "pf_ok p \<longleftrightarrow> length (pf_pkt p) < 2 ^ 32 \<and> pf_cur p \<le> length (pf_pkt p) \<and> pf_buf_len p = of_nat (length (pf_pkt p))
     \<and> pf_pkt_len p = of_nat (length (pf_pkt p) - pf_cur p)"

definition pf_rest :: "pkt_file \<Rightarrow> buf" where
  "pf_rest p = drop (pf_cur p) (pf_pkt p)"

lemma pf_ok_open: "length pkt < 2 ^ 32 \<Longrightarrow> pf_ok (rtw_open_pktfile pkt) \<and> pf_rest (rtw_open_pktfile pkt) = pkt"
  by (simp add: pf_ok_def pf_rest_def rtw_open_pktfile_def)

lemma of_nat_diff_u32: "m \<le> n \<Longrightarrow> (of_nat n :: u32) - of_nat m = of_nat (n - m)"
  by (simp add: of_nat_diff)

lemma pf_read:
  assumes "pf_ok p"
  shows "\<exists>p'. rtw_pktfile_read p n = Some (take (unat n) (pf_rest p), p') \<and> pf_ok p' \<and> pf_rest p' = drop (unat n) (pf_rest p)
    \<and> pf_cur p' = pf_cur p + length (take (unat n) (pf_rest p)) \<and> pf_pkt p' = pf_pkt p"
proof -
  let ?L = "length (pf_pkt p)" and ?c = "pf_cur p"
  have c: "?c \<le> ?L" "?L < 2 ^ 32" "pf_buf_len p = of_nat ?L" "pf_pkt_len p = of_nat (?L - ?c)" using assms by (simp_all add: pf_ok_def)
  have rem: "rtw_remainder_len p = of_nat (?L - ?c)" using c(1,3) of_nat_diff_u32 [OF c(1)] by (simp only: rtw_remainder_len_def)
  have "pf_buf_len p - pf_pkt_len p = of_nat ?c" using c of_nat_diff_u32 [of "?L - ?c" ?L] by simp
  then have at: "unat (pf_buf_len p - pf_pkt_len p) = ?c" using c unat_of_nat_u32 [of ?c] by simp
  define l :: u32 where "l = (if n > of_nat (?L - ?c) then of_nat (?L - ?c) else n)"
  have l: "unat l = min (unat n) (?L - ?c)"
    using c unat_of_nat_u32 [of "?L - ?c"] by (auto simp: l_def word_less_nat_alt)
  have "rtw_pktfile_read p n = Some (take (unat l) (pf_rest p), p\<lparr>pf_cur := ?c + unat l, pf_pkt_len := pf_pkt_len p - l\<rparr>)"
    unfolding rtw_pktfile_read_def rem Let_def l_def [symmetric] at using l c by (auto simp: rds_def pf_rest_def)
  moreover have "pf_pkt_len p - l = of_nat (?L - (?c + unat l))"
  proof -
    have "(of_nat (unat l) :: u32) = l" by simp
    moreover have "unat l \<le> ?L - ?c" using l by simp
    ultimately show ?thesis using of_nat_diff_u32 [of "unat l" "?L - ?c"] c(4) by (simp only: diff_diff_left)
  qed
  moreover have "take (unat l) (pf_rest p) = take (unat n) (pf_rest p)" "drop (unat l) (pf_rest p) = drop (unat n) (pf_rest p)"
    using l by (auto simp: pf_rest_def min_def)
  ultimately show ?thesis using l c by (auto simp: pf_ok_def pf_rest_def add.commute min_def)
qed

lemma pf_end: "pf_ok p \<Longrightarrow> rtw_endofpktfile p \<longleftrightarrow> pf_rest p = []"
  using unat_of_nat_u32 [of "length (pf_pkt p) - pf_cur p"]
  by (auto simp: rtw_endofpktfile_def pf_ok_def pf_rest_def word_unat_eq_iff)

text \<open>C37. The options of an IP header are skipped by \<open>IHL - 20\<close> bytes, not \<open>4 * IHL - 20\<close>: the unsigned difference skips the whole packet,
  and the ports, and with them DHCP and high priority, are read from the uninitialised local array.
\<close>

theorem ip_options_hide_ports:
  assumes "34 \<le> length pkt" "length pkt < 2 ^ 31" "5 < pkt ! 14 AND 0x0f" "pkt ! 23 = 0x11"
    and "rtw_pktfile_read (rtw_open_pktfile pkt) 14 = Some (eth, pf)"
  shows "attrib_ip junk k s pf a
    = Some (attrib_udp (map junk [0..<24]) (a\<lparr>xa_icmp_pkt := False, xa_dhcp_pkt := False, xa_hipriority_pkt := False\<rparr>), [])"
proof -
  obtain pf' where "rtw_pktfile_read (rtw_open_pktfile pkt) 14 = Some (take 14 pkt, pf')" "pf_ok pf'" "pf_rest pf' = drop 14 pkt"
    using pf_read [of "rtw_open_pktfile pkt" 14] pf_ok_open [of pkt] assms(2) by auto
  then have pf: "pf_ok pf" "pf_rest pf = drop 14 pkt" using assms(5) by simp_all
  obtain p1 where p1: "rtw_pktfile_read pf 20 = Some (take 20 (drop 14 pkt), p1)" "pf_ok p1" "pf_rest p1 = drop 34 pkt"
    using pf_read [OF pf(1), of 20] pf(2) by auto
  have ip: "local_array junk 20 (take 20 (drop 14 pkt)) = take 20 (drop 14 pkt)" using assms(1) by (simp add: local_array_def)
  have n: "take 20 (drop 14 pkt) ! 0 = pkt ! 14" "take 20 (drop 14 pkt) ! 9 = pkt ! 23" using assms(1) by simp_all
  define ihl where "ihl = pkt ! 14 AND 0x0f"
  have "ihl \<le> 0x0f" unfolding ihl_def by (rule word_and_le1)
  then have ihl: "5 < unat ihl" "unat ihl \<le> 15" using assms(3) by (simp_all add: ihl_def word_less_nat_alt word_le_nat_alt)
  have big: "length (pf_rest p1) \<le> unat (ucast ihl - 20 :: u32)"
  proof -
    have u: "unat (ucast ihl :: u32) = unat ihl" using ihl(2) by (simp add: unsigned_ucast_eq take_bit_nat_eq_self)
    have "unat (ucast ihl - 20 :: u32) = unat ihl + 2 ^ 32 - 20"
      using ihl u by (simp add: unat_sub_if_size word_size)
    then show ?thesis using assms(2) p1(3) ihl by simp
  qed
  then obtain p2 where p2: "rtw_pktfile_read p1 (ucast ihl - 20) = Some (pf_rest p1, p2)" "pf_ok p2" "pf_rest p2 = []"
    using pf_read [OF p1(2), of "ucast ihl - 20"] by auto
  obtain p3 where p3: "rtw_pktfile_read p2 24 = Some ([], p3)" using pf_read [OF p2(2), of 24] p2(3) by auto
  have "local_array junk 24 [] = map junk [0..<24]" by (simp add: local_array_def)
  then show ?thesis
    unfolding attrib_ip_def p1(1) using ihl p2(1) p3 assms(4) by (simp add: Let_def ip n ihl_def [symmetric] attrib_proto_def)
qed

subsection \<open>An example\<close>

text \<open>A station associated with the access point 02:00:00:00:00:01 under AES, and a UDP packet to 02:00:00:00:00:07.\<close>

definition example_tx_env :: tx_env where
  "example_tx_env = \<lparr>tx_rx = example_env, tx_sec = example_sec, tx_qos_option = True, tx_acm_mask = 0, tx_up_rule = 0, tx_pwr_mode = 0,
     tx_uapsd_ap_supported = False, tx_uapsd_tid = 0, tx_frag_len = 2346, tx_sw_encrypt = False, tx_bmc_cam_id = 0, tx_pk_gk_conflict = False,
     tx_wpapsk = False, GrpTxMicKey = [], tx_vrtl_carrier_sense = 2, tx_vcs_type = 1, tx_rts_thresh = 2347, tx_wifi_spec = False,
     tx_wireless_mode = 0x0b, tx_atheros = False, tx_HT_protection = 0, tx_cur_bwmode = 0, tx_cur_channel = 6, tx_bw_2g = 0, tx_bw_5g = 0,
     tx_ht = True, tx_driver_ampdu_spacing = 0xFF, tx_driver_vcs_en = 0, tx_driver_vcs_type = 0, tx_hw_ssn = 0,
     rtw_aes_encrypt = (\<lambda>a xf. Some xf), rtw_gcmp_encrypt = (\<lambda>a xf. Some xf)\<rparr>"

definition example_tx_sta :: tx_sta where
  "example_tx_sta = \<lparr>txseq_tid = replicate 16 0, BA_starting_seqctrl = replicate 16 0, dot11txpn = 0, dot11tkiptxmickey = replicate 16 1,
     resp_nonenc_eapol_key_starttime = 0, ts_mac_id = 0, ts_rtsen = False, ts_cts2self = False, ts_rate_id = 0, ts_bw_mode = 0, ts_ldpc_en = 0,
     ts_stbc_en = 0, ts_qos_option = True, ts_init_rate = 0, ts_g_id = 0, ts_p_aid = 0, ht_option = True, ht_ch_offset = 0, ht_sgi_20m = 0,
     ht_sgi_40m = 0, rx_ampdu_min_spacing = 0, ampdu_enable = False, agg_enable_bitmap = 0, tx_amsdu_enable = False, vht_option = False,
     vht_sgi_80m = 0, st_reg = \<lparr>s_proto = 0, st_rule = None\<rparr>\<rparr>"

definition example_attrib :: tx_attrib where
  "example_attrib = \<lparr>ta_encrypt = 0, ta_hdrlen = 0, ta_iv_len = 0, ta_icv_len = 0, ta_nr_frags = 0, ta_last_txcmdsz = 0, ta_ra = replicate 6 0,
     ta_ta = replicate 6 0, ta_UncstKey = replicate 32 0, xa_subtype = 0, xa_bswenc = False, xa_dhcp_pkt = False, xa_icmp_pkt = False,
     xa_hipriority_pkt = False, xa_ether_type = 0, xa_seqnum = 0, xa_hw_ssn_sel = 0, xa_pkt_hdrlen = 0, xa_pktlen = 0, xa_bmc_camid = 0,
     xa_iv = replicate 18 0, xa_icv = replicate 16 0, xa_priority = 0, xa_ack_policy = 0, xa_mac_id = 0, xa_vcs_mode = 0, xa_dst = replicate 6 0,
     xa_src = replicate 6 0, xa_key_idx = 0, xa_qos_en = False, xa_ht_en = False, xa_raid = 0, xa_bwmode = 0, xa_ch_offset = 0, xa_sgi = 0,
     xa_ampdu_en = False, xa_ampdu_spacing = 0, xa_amsdu = 0, xa_amsdu_ampdu_en = False, xa_mdata = False, xa_pctrl = False, xa_triggered = False,
     xa_eosp = 0, xa_rate = 0, xa_retry_ctrl = False, xa_ldpc = 0, xa_stbc = 0, xa_trigger_frame = False, xa_psta = None, xa_rtsen = False,
     xa_cts2self = False, xa_mickey = replicate 32 0, xa_txbf_p_aid = 0, xa_txbf_g_id = 0\<rparr>"

definition example_tx_state :: tx_state where
  "example_tx_state = (let st = snd (rtw_alloc_stainfo (rtw_init_sta_priv 32) [2, 0, 0, 0, 0, 1]) in
     \<lparr>tx_stapriv = st\<lparr>stainfo := (stainfo st)[0 := (stainfo st ! 0)\<lparr>sta_state := 1, dot118021XPrivacy := 4\<rparr>]\<rparr>,
      tx_stas = replicate 32 example_tx_sta, tx_calls = []\<rparr>)"

definition example_packet :: buf where
  "example_packet = [2, 0, 0, 0, 0, 7] @ [2, 0, 0, 0, 0, 9] @ [0x08, 0x00] @ [0x45, 0xc0] @ replicate 7 0 @ [0x11] @ replicate 30 5"

lemma example_update_attrib:
  "case update_attrib example_tx_env (\<lambda>_. 0) example_packet example_attrib example_tx_state of
     Some (ok, a', st') \<Rightarrow> ok \<and> xa_psta a' = Some 0 \<and> xa_ether_type a' = 0x800 \<and> ta_encrypt a' = 4 | None \<Rightarrow> False"
  by code_simp

theorem update_attrib_protects_witness:
  "\<exists>a' st'. update_attrib example_tx_env (\<lambda>_. 0) example_packet example_attrib example_tx_state = Some (True, a', st')
     \<and> xa_psta a' = Some 0 \<and> (\<exists>bm. ta_encrypt a' = GET_ENCRY_ALGO example_sec (stainfo (tx_stapriv example_tx_state) ! 0) 0 bm)"
proof -
  obtain a' st' where u: "update_attrib example_tx_env (\<lambda>_. 0) example_packet example_attrib example_tx_state = Some (True, a', st')"
    "xa_psta a' = Some 0" "xa_ether_type a' = 0x800" using example_update_attrib by (auto split: option.splits)
  have "\<not> check_fwstate (tx_rx example_tx_env) WIFI_MP_STATE" by code_simp
  from update_attrib_protects [OF u(1) this] u(2,3) show ?thesis using u(1) by (auto simp: example_tx_env_def example_attrib_def)
qed

theorem packet_numbers_increase_witness:
  "\<exists>a st'. sends example_tx_env [(\<lambda>_. 0, example_packet, example_attrib)] example_tx_state = Some ([a], st')
     \<and> xa_psta a = Some 0 \<and> ta_encrypt a = SEC_AES \<and> 0 < iv_pn a"
proof -
  obtain a st' where u: "update_attrib example_tx_env (\<lambda>_. 0) example_packet example_attrib example_tx_state = Some (True, a, st')"
    "xa_psta a = Some 0" "ta_encrypt a = 4" using example_update_attrib by (auto split: option.splits)
  then have s: "sends example_tx_env [(\<lambda>_. 0, example_packet, example_attrib)] example_tx_state = Some ([a], st')" by simp
  have pn: "unat (dot11txpn (tx_stas example_tx_state ! 0)) = 0" by (simp add: example_tx_state_def example_tx_sta_def Let_def)
  have "\<forall>a\<in>set [a]. xa_psta a = Some 0 \<longrightarrow>
      unat (dot11txpn (tx_stas example_tx_state ! 0)) + length [(\<lambda>_. 0 :: u8, example_packet, example_attrib)] < pn_limit (ta_encrypt a)"
    by (simp add: pn pn_limit_def sec_consts u(3))
  from packet_numbers_increase [OF s this] show ?thesis using s u by (simp add: pn ciphers_def sec_consts)
qed

theorem ip_options_hide_ports_witness:
  "\<exists>eth pf. rtw_pktfile_read (rtw_open_pktfile (replicate 14 0 @ 0x46 # replicate 8 0 @ 0x11 # replicate 40 0)) 14 = Some (eth, pf)
     \<and> attrib_ip (\<lambda>_. 7) 0 example_tx_sta pf example_attrib = Some (attrib_udp (replicate 24 7) example_attrib, [])"
proof -
  let ?pkt = "replicate 14 0 @ 0x46 # replicate 8 0 @ 0x11 # replicate 40 (0 :: u8)"
  obtain eth pf where r: "rtw_pktfile_read (rtw_open_pktfile ?pkt) 14 = Some (eth, pf)"
    using pf_read [of "rtw_open_pktfile ?pkt" 14] pf_ok_open [of ?pkt] by auto
  have "34 \<le> length ?pkt" "length ?pkt < 2 ^ 31" "5 < ?pkt ! 14 AND 0x0f" "?pkt ! 23 = 0x11" by (simp_all add: nth_append nth_Cons')
  from ip_options_hide_ports [OF this r, of "\<lambda>_. 7" 0 example_tx_sta example_attrib] r show ?thesis
    by (simp add: example_attrib_def map_replicate_const)
qed

end
