(* ===== verification/Xmit_Frame.thy ===== *)
theory Xmit_Frame
  imports Xmit_Attrib
begin

text \<open>
  Building a data frame for transmission (\<^verbatim>\<open>core/rtw_xmit.c\<close>, \<^verbatim>\<open>os_dep/linux/xmit_linux.c\<close>): the 802.11 header with its
  sequence number (\<open>rtw_make_wlanhdr\<close>), the LLC header (\<open>rtw_put_snap\<close>), the cutting of a packet into fragments
  (\<open>rtw_xmitframe_coalesce\<close>), the TKIP integrity code (\<open>xmitframe_addmic\<close>) and the choice of the software cipher
  (\<open>xmitframe_swencrypt\<close>). A transmit buffer is a byte list with its address, as in \<open>Sec_Wep\<close>.
\<close>

unbundle bit_operations_syntax

subsection \<open>The headers\<close>

definition P802_1H_OUI :: buf where "P802_1H_OUI = [0x00, 0x00, 0xf8]"
definition RFC1042_OUI :: buf where "RFC1042_OUI = [0x00, 0x00, 0x00]"

definition rtw_put_snap :: "buf \<Rightarrow> nat \<Rightarrow> u16 \<Rightarrow> (nat \<times> buf) option" where
  "rtw_put_snap b data h_proto =
     do { let oui = (if h_proto = 0x8137 \<or> h_proto = 0x80f3 then P802_1H_OUI else RFC1042_OUI);
          b \<leftarrow> wrs b data ([0xaa, 0xaa, 0x03] @ oui);
          b \<leftarrow> wrs b (data + SNAP_SIZE) (be16_bytes h_proto);
          Some (SNAP_SIZE + 2, b) }"

definition upd16 :: "buf \<Rightarrow> nat \<Rightarrow> (u16 \<Rightarrow> u16) \<Rightarrow> buf option" where
  "upd16 b i f = do { w \<leftarrow> RTW_GET_LE16 b i; RTW_PUT_LE16 b i (f w) }"

definition SET_BITS_TO_LE_2BYTE :: "buf \<Rightarrow> nat \<Rightarrow> nat \<Rightarrow> nat \<Rightarrow> u8 \<Rightarrow> buf option" where
  "SET_BITS_TO_LE_2BYTE b i off len v = upd16 b i (\<lambda>w. w AND NOT (push_bit off (mask len)) OR push_bit off (ucast v AND mask len))"

definition TO_DS :: u16 where "TO_DS = 0x0100"
definition FROM_DS :: u16 where "FROM_DS = 0x0200"
definition MORE_FRAG :: u16 where "MORE_FRAG = 0x0400"
definition MORE_DATA :: u16 where "MORE_DATA = 0x2000"
definition PRIVACY :: u16 where "PRIVACY = 0x4000"
definition WIFI_DATA_TYPE :: u8 where "WIFI_DATA_TYPE = 0x08"
definition WLANHDR_OFFSET :: nat where "WLANHDR_OFFSET = 64"

definition set_frame_sub_type :: "buf \<Rightarrow> nat \<Rightarrow> u8 \<Rightarrow> buf option" where
  "set_frame_sub_type b i type = upd16 b i (\<lambda>w. w AND NOT 0xfc OR ucast type)"

definition SetMFrag :: "buf \<Rightarrow> nat \<Rightarrow> buf option" where
  "SetMFrag b i = upd16 b i (\<lambda>w. w OR MORE_FRAG)"

definition ClearMFrag :: "buf \<Rightarrow> nat \<Rightarrow> buf option" where
  "ClearMFrag b i = upd16 b i (\<lambda>w. w AND NOT MORE_FRAG)"

definition SetSeqNum :: "buf \<Rightarrow> nat \<Rightarrow> u16 \<Rightarrow> buf option" where
  "SetSeqNum b i num = upd16 b (i + 22) (\<lambda>w. w AND 0xf OR (0xfff0 AND push_bit 4 num))"

text \<open>The direction bits and the addresses; \<open>None\<close> within is the mode that cannot send data.\<close>

definition hdr_dirs :: "tx_env \<Rightarrow> tx_attrib \<Rightarrow> (u16 \<times> buf \<times> buf \<times> buf \<times> bool) option" where
  "hdr_dirs e a =
     (if check_fwstate (tx_rx e) WIFI_STATION_STATE then Some (TO_DS, my_bssid (tx_rx e), ta_ta a, xa_dst a, tx_qos_option e)
      else if check_fwstate (tx_rx e) WIFI_AP_STATE then Some (FROM_DS, xa_dst a, my_bssid (tx_rx e), xa_src a, xa_qos_en a)
      else if check_fwstate (tx_rx e) WIFI_ADHOC_STATE \<or> check_fwstate (tx_rx e) WIFI_ADHOC_MASTER_STATE
        then Some (0, xa_dst a, ta_ta a, my_bssid (tx_rx e), xa_qos_en a)
      else None)"

definition hdr_qos :: "buf \<Rightarrow> nat \<Rightarrow> tx_attrib \<Rightarrow> buf option" where
  "hdr_qos b qc a =
     do { b \<leftarrow> (if xa_priority a \<noteq> 0 then SET_BITS_TO_LE_2BYTE b qc 0 4 (xa_priority a) else Some b);
          b \<leftarrow> SET_BITS_TO_LE_2BYTE b qc 4 1 (xa_eosp a);
          b \<leftarrow> SET_BITS_TO_LE_2BYTE b qc 5 2 (xa_ack_policy a);
          if xa_amsdu a \<noteq> 0 then SET_BITS_TO_LE_2BYTE b qc 7 1 (xa_amsdu a) else Some b }"

text \<open>
  The sequence number of the next frame and, for a frame of an A-MPDU session, the check against the start of the session; the index
  is the priority for the one array and its low four bits for the other.
\<close>

definition next_seqnum :: "tx_sta \<Rightarrow> tx_attrib \<Rightarrow> (tx_sta \<times> tx_attrib) option" where
  "next_seqnum s a =
     do { let tid = unat (xa_priority a);
          q \<leftarrow> idx (txseq_tid s) tid;
          let q = (q + 1) AND 0xFFF;
          let s = s\<lparr>txseq_tid := (txseq_tid s)[tid := q]\<rparr>;
          let a = a\<lparr>xa_seqnum := q\<rparr>;
          if xa_ampdu_en a then do {
            let t = unat (xa_priority a AND 0x0f);
            tx_seq \<leftarrow> idx (BA_starting_seqctrl s) t;
            if SN_LESS q tx_seq then Some (s, a\<lparr>xa_ampdu_en := False\<rparr>)
            else if q = tx_seq then Some (s\<lparr>BA_starting_seqctrl := (BA_starting_seqctrl s)[t := (tx_seq + 1) AND 0xfff]\<rparr>, a)
            else Some (s\<lparr>BA_starting_seqctrl := (BA_starting_seqctrl s)[t := (q + 1) AND 0xfff]\<rparr>, a)
          } else Some (s, a) }"

text \<open>
  \<open>rtw_make_wlanhdr\<close> with the header at offset \<open>i\<close> of the buffer; \<open>True\<close> is \<open>_SUCCESS\<close>. \<open>tx\<close> holds the transmit state of
  the stations by their index.
\<close>

definition rtw_make_wlanhdr ::
  "tx_env \<Rightarrow> sta_priv \<Rightarrow> tx_sta list \<Rightarrow> buf \<Rightarrow> nat \<Rightarrow> tx_attrib \<Rightarrow> (bool \<times> buf \<times> tx_attrib \<times> tx_sta list) option" where
  "rtw_make_wlanhdr e st tx b i a =
     do { b \<leftarrow> rtw_memset b i 0 WLANHDR_OFFSET;
          b \<leftarrow> set_frame_sub_type b i (xa_subtype a);
          if xa_subtype a AND WIFI_DATA_TYPE = 0 then Some (True, b, a, tx)
          else case hdr_dirs e a of
            None \<Rightarrow> Some (False, b, a, tx)
          | Some (ds, a1, a2, a3, qos_option) \<Rightarrow>
              do { b \<leftarrow> upd16 b i (\<lambda>w. w OR ds);
                   b \<leftarrow> wrs b (i + 4) (take 6 a1);
                   b \<leftarrow> wrs b (i + 10) (take 6 a2);
                   b \<leftarrow> wrs b (i + 16) (take 6 a3);
                   b \<leftarrow> (if xa_mdata a then upd16 b i (\<lambda>w. w OR MORE_DATA) else Some b);
                   b \<leftarrow> (if ta_encrypt a \<noteq> 0 then upd16 b i (\<lambda>w. w OR PRIVACY) else Some b);
                   b \<leftarrow> (if qos_option then (if i + unat (ta_hdrlen a) < 2 then None else hdr_qos b (i + unat (ta_hdrlen a) - 2) a) else Some b);
                   let psta = rtw_get_stainfo st (Some (ta_ra a));
                   if xa_psta a \<noteq> psta then Some (False, b, a, tx)
                   else case psta of
                     None \<Rightarrow> Some (False, b, a, tx)
                   | Some k \<Rightarrow>
                       do { sta \<leftarrow> idx (stainfo st) k;
                            if sta_state sta AND WIFI_ASOC_STATE = 0 then Some (False, b, a, tx)
                            else do {
                              s \<leftarrow> idx tx k;
                              (s, a) \<leftarrow> next_seqnum s a;
                              b \<leftarrow> SetSeqNum b i (xa_seqnum a);
                              Some (True, b, a, tx[k := s]) } } } }"

subsection \<open>Fragments\<close>

definition rtw_calculate_wlan_pkt_size_by_attribue :: "tx_attrib \<Rightarrow> u32" where
  "rtw_calculate_wlan_pkt_size_by_attribue a =
     ucast (ta_hdrlen a) + ucast (ta_iv_len a) + 8 + xa_pktlen a + (if ta_encrypt a = SEC_TKIP then 8 else 0)
       + (if xa_bswenc a then ucast (ta_icv_len a) else 0)"

text \<open>
  One iteration of the loop of \<open>rtw_xmitframe_coalesce\<close>: \<open>mem_start\<close>, \<open>frg_inx\<close>, the packet and the buffer. The C type of
  \<open>mpdu_len\<close> is \<open>s32\<close>, but it is only passed as the unsigned argument of \<open>_rtw_pktfile_read\<close>. The loop returns \<open>nr_frags\<close>,
  \<open>last_txcmdsz\<close> and the buffer.
\<close>

definition add_icv :: "tx_attrib \<Rightarrow> bool" where
  "add_icv a \<longleftrightarrow> ta_icv_len a > 0 \<and> xa_bswenc a"

definition put_iv :: "tx_attrib \<Rightarrow> buf \<Rightarrow> nat \<Rightarrow> (buf \<times> nat) option" where
  "put_iv a b p =
     (if ta_iv_len a \<noteq> 0 then
        do { v \<leftarrow> rds (xa_iv a) 0 (unat (ta_iv_len a));
             b \<leftarrow> wrs b p v;
             Some (b, p + unat (ta_iv_len a)) }
      else Some (b, p))"

definition put_icv :: "tx_attrib \<Rightarrow> buf \<Rightarrow> nat \<Rightarrow> (buf \<times> nat) option" where
  "put_icv a b p =
     (if add_icv a then
        do { v \<leftarrow> rds (xa_icv a) 0 (unat (ta_icv_len a));
             b \<leftarrow> wrs b p v;
             Some (b, p + unat (ta_icv_len a)) }
      else Some (b, p))"

definition coalesce_step ::
  "u32 \<Rightarrow> tx_attrib \<Rightarrow> bool \<Rightarrow> nat \<Rightarrow> nat \<Rightarrow> nat \<times> nat \<times> pkt_file \<times> buf \<Rightarrow> (nat \<times> nat \<times> pkt_file \<times> buf, u8 \<times> u32 \<times> buf) iteration" where
  "coalesce_step frag_len a bmcst base hoff = (\<lambda>(mem_start, frg_inx, pf, b). iter_of (
     do { b \<leftarrow> SetMFrag b mem_start;
          (b, p) \<leftarrow> put_iv a b (mem_start + unat (ta_hdrlen a));
          (llc_sz, b) \<leftarrow> (if frg_inx = 0 then rtw_put_snap b p (xa_ether_type a) else Some (0, b));
          let mpdu_len = frag_len - 4 - ucast (ta_hdrlen a) - ucast (ta_iv_len a) - of_nat llc_sz
            - (if add_icv a then ucast (ta_icv_len a) else 0);
          (d, pf) \<leftarrow> rtw_pktfile_read pf (if bmcst then xa_pktlen a else mpdu_len);
          b \<leftarrow> wrs b (p + llc_sz) d;
          (b, p) \<leftarrow> put_icv a b (p + llc_sz + length d);
          let frg_inx = frg_inx + 1;
          if bmcst \<or> rtw_endofpktfile pf then
            do { let nr_frags = of_nat frg_inx;
                 let last_txcmdsz = ucast (ta_hdrlen a) + ucast (ta_iv_len a) + (if nr_frags = 1 then of_nat llc_sz else 0)
                   + (if xa_bswenc a then ucast (ta_icv_len a) else 0) + of_nat (length d);
                 b \<leftarrow> ClearMFrag b mem_start;
                 Some (Ret (nr_frags, last_txcmdsz, b)) }
          else
            do { let mem_start = RND4 (base + p) - base + hoff;
                 h \<leftarrow> rds b hoff (unat (ta_hdrlen a));
                 b \<leftarrow> wrs b mem_start h;
                 Some (Next (mem_start, frg_inx, pf, b)) } }))"

subsection \<open>Integrity code and cipher\<close>

text \<open>The loop of \<open>xmitframe_addmic\<close> over the \<open>n\<close> fragments still to come; it returns the place of the code.\<close>

fun addmic_loop :: "u32 \<Rightarrow> tx_attrib \<Rightarrow> nat \<Rightarrow> buf \<Rightarrow> nat \<Rightarrow> nat \<Rightarrow> mic_data \<Rightarrow> (nat \<times> mic_data) option" where
  "addmic_loop frag_len a base b 0 payload m = Some (payload, m)"
| "addmic_loop frag_len a base b (Suc n) payload m =
     (let payload = RND4 (base + payload) - base + unat (ta_hdrlen a) + unat (ta_iv_len a);
          len = sint ((if n = 0 then ta_last_txcmdsz a else frag_len) - ucast (ta_hdrlen a) - ucast (ta_iv_len a)
                  - (if xa_bswenc a then ucast (ta_icv_len a) else 0)) in
      if len < 0 then None
      else do { d \<leftarrow> rds b payload (nat len);
                addmic_loop frag_len a base b n (payload + nat len + (if n = 0 then 0 else unat (ta_icv_len a))) (rtw_secmicappend m d) })"

definition addmic_key :: "tx_env \<Rightarrow> tx_attrib \<Rightarrow> buf option" where
  "addmic_key e a =
     do { bmcst \<leftarrow> IS_MCAST (ta_ra a);
          if bmcst then idx (GrpTxMicKey e) (unat (dot118021XGrpKeyid (tx_sec e))) else Some (xa_mickey a) }"

definition xmitframe_addmic ::
  "tx_env \<Rightarrow> mic_data \<Rightarrow> tx_attrib \<Rightarrow> xmit_frame \<Rightarrow> (bool \<times> tx_attrib \<times> xmit_frame) option" where
  "xmitframe_addmic e m a xf =
     (if ta_encrypt a = SEC_TKIP then
        do { (base, b) \<leftarrow> buf_addr xf;
             let pframe = unat (hw_hdr_offset xf);
             key \<leftarrow> addmic_key e a;
             k \<leftarrow> rds key 0 16;
             if k = replicate 16 0 then Some (False, a, xf)
             else do {
               m \<leftarrow> rtw_secmicsetkey m key;
               fc1 \<leftarrow> rd b (pframe + 1);
               da \<leftarrow> rds b (pframe + (if fc1 AND 1 \<noteq> 0 then 16 else 4)) 6;
               sa \<leftarrow> rds b (pframe + (if fc1 AND 1 \<noteq> 0 then (if fc1 AND 2 \<noteq> 0 then 24 else 10) else (if fc1 AND 2 \<noteq> 0 then 16 else 10))) 6;
               let m = rtw_secmicappend (rtw_secmicappend m da) sa;
               let m = rtw_secmicappend m [if xa_qos_en a then xa_priority a else 0, 0, 0, 0];
               (payload, m) \<leftarrow> addmic_loop (tx_frag_len e) a base b (unat (ta_nr_frags a)) pframe m;
               (mic, m) \<leftarrow> rtw_secgetmic m;
               b \<leftarrow> wrs b payload mic;
               Some (True, a\<lparr>ta_last_txcmdsz := ta_last_txcmdsz a + 8\<rparr>, xf\<lparr>buf_addr := Some (base, b)\<rparr>) } }
      else Some (True, a, xf))"

definition xmitframe_swencrypt :: "tx_env \<Rightarrow> tx_attrib \<Rightarrow> xmit_frame \<Rightarrow> crc32_globals \<Rightarrow> (xmit_frame \<times> crc32_globals) option" where
  "xmitframe_swencrypt e a xf g =
     (if \<not> xa_bswenc a then Some (xf, g)
      else if ta_encrypt a = SEC_WEP40 \<or> ta_encrypt a = SEC_WEP104 then rtw_wep_encrypt (security_priv.truncate (tx_sec e)) (tx_frag_len e) (pkt_attrib.truncate a) xf g
      else if ta_encrypt a = SEC_TKIP then map_option snd (rtw_tkip_encrypt (security_priv.truncate (tx_sec e)) (tx_frag_len e) (pkt_attrib.truncate a) xf g)
      else if ta_encrypt a = SEC_AES \<or> ta_encrypt a = SEC_CCMP_256 then map_option (\<lambda>x. (x, g)) (rtw_aes_encrypt e a xf)
      else if ta_encrypt a = SEC_GCMP \<or> ta_encrypt a = SEC_GCMP_256 then map_option (\<lambda>x. (x, g)) (rtw_gcmp_encrypt e a xf)
      else Some (xf, g))"

text \<open>
  The whole of \<open>rtw_xmitframe_coalesce\<close>; the result says whether it was \<open>_SUCCESS\<close>. \<open>m\<close> is the uninitialised \<open>micdata\<close>.
\<close>

definition rtw_xmitframe_coalesce ::
  "tx_env \<Rightarrow> sta_priv \<Rightarrow> tx_sta list \<Rightarrow> mic_data \<Rightarrow> crc32_globals \<Rightarrow> buf \<Rightarrow> tx_attrib \<Rightarrow> xmit_frame
   \<Rightarrow> (bool \<times> tx_attrib \<times> xmit_frame \<times> tx_sta list \<times> crc32_globals) option" where
  "rtw_xmitframe_coalesce e st tx m g pkt a xf =
     (case buf_addr xf of
        None \<Rightarrow> Some (False, a, xf, tx, g)
      | Some (base, b) \<Rightarrow>
          do { let hoff = unat (hw_hdr_offset xf);
               bmcst \<leftarrow> IS_MCAST (ta_ra a);
               (ok, b, a, tx) \<leftarrow> rtw_make_wlanhdr e st tx b hoff a;
               if \<not> ok then Some (False, a, xf\<lparr>buf_addr := Some (base, b)\<rparr>, tx, g)
               else do {
                 (eth, pf) \<leftarrow> rtw_pktfile_read (rtw_open_pktfile pkt) (ucast (xa_pkt_hdrlen a));
                 (nr_frags, last_txcmdsz, b) \<leftarrow> run_loop (coalesce_step (tx_frag_len e) a bmcst base hoff) (hoff, 0, pf, b);
                 let a = a\<lparr>ta_nr_frags := nr_frags, ta_last_txcmdsz := last_txcmdsz\<rparr>;
                 (ok, a, xf) \<leftarrow> xmitframe_addmic e m a (xf\<lparr>buf_addr := Some (base, b)\<rparr>);
                 if \<not> ok then Some (False, a, xf, tx, g)
                 else do {
                   (xf, g) \<leftarrow> xmitframe_swencrypt e a xf g;
                   let a = (if bmcst then a\<lparr>xa_vcs_mode := NONE_VCS\<rparr> else update_attrib_vcs_info e a);
                   Some (True, a, xf, tx, g) } } })"

subsection \<open>Writing into a buffer from a position on\<close>

definition upd_hd :: "(u16 \<Rightarrow> u16) \<Rightarrow> buf \<Rightarrow> buf" where
  "upd_hd f h = le16_bytes (f (be16 (h ! 1) (h ! 0))) @ drop 2 h"

lemma length_upd_hd [simp]: "2 \<le> length h \<Longrightarrow> length (upd_hd f h) = length h"
  by (simp add: upd_hd_def)

lemma upd16_here: "2 \<le> length h \<Longrightarrow> i = length pre \<Longrightarrow> upd16 (pre @ h @ post) i f = Some (pre @ upd_hd f h @ post)"
  by (cases h; cases "tl h") (auto simp: upd16_def RTW_GET_LE16_def RTW_PUT_LE16_def rd_def nth_append wrs_def upd_hd_def)

lemma upd_hd_upd_hd: "2 \<le> length h \<Longrightarrow> upd_hd g (upd_hd f h) = upd_hd (g \<circ> f) h"
  by (simp add: upd_hd_def le16_bytes_def be16_split)

lemma wrs_area: "i = length p \<Longrightarrow> length xs \<le> length area \<Longrightarrow> wrs (p @ area) i xs = Some (p @ xs @ drop (length xs) area)"
  by (simp add: wrs_def)

definition snap_hdr :: "u16 \<Rightarrow> buf" where
  "snap_hdr proto = [0xaa, 0xaa, 0x03] @ (if proto = 0x8137 \<or> proto = 0x80f3 then P802_1H_OUI else RFC1042_OUI) @ be16_bytes proto"

lemma length_snap_hdr [simp]: "length (snap_hdr proto) = 8"
  by (simp add: snap_hdr_def P802_1H_OUI_def RFC1042_OUI_def)

lemma put_snap_area:
  assumes "i = length p" "8 \<le> length area"
  shows "rtw_put_snap (p @ area) i proto = Some (8, (p @ snap_hdr proto) @ drop 8 area)"
proof -
  let ?o = "[0xaa, 0xaa, 0x03] @ (if proto = 0x8137 \<or> proto = 0x80f3 then P802_1H_OUI else RFC1042_OUI)"
  have l: "length ?o = 6" by (simp add: P802_1H_OUI_def RFC1042_OUI_def)
  have "wrs (p @ area) i ?o = Some ((p @ ?o) @ drop 6 area)" using wrs_area [OF assms(1), of ?o area] assms(2) l by simp
  moreover have "wrs ((p @ ?o) @ drop 6 area) (i + 6) (be16_bytes proto) = Some ((p @ ?o) @ be16_bytes proto @ drop 2 (drop 6 area))"
    using assms l wrs_area [of "i + 6" "p @ ?o" "be16_bytes proto" "drop 6 area"] by simp
  ultimately show ?thesis by (simp add: rtw_put_snap_def SNAP_SIZE_def snap_hdr_def)
qed

subsection \<open>The loop cuts a packet into fragments\<close>

definition iv_bytes :: "tx_attrib \<Rightarrow> buf" where
  "iv_bytes a = take (unat (ta_iv_len a)) (xa_iv a)"

definition icv_bytes :: "tx_attrib \<Rightarrow> buf" where
  "icv_bytes a = (if add_icv a then take (unat (ta_icv_len a)) (xa_icv a) else [])"

text \<open>What follows the header of a fragment with the data \<open>d\<close>.\<close>

definition frag_tail :: "tx_attrib \<Rightarrow> bool \<Rightarrow> buf \<Rightarrow> buf" where
  "frag_tail a first d = iv_bytes a @ (if first then snap_hdr (xa_ether_type a) else []) @ d @ icv_bytes a"

definition attrib_ok :: "tx_attrib \<Rightarrow> bool" where
  "attrib_ok a \<longleftrightarrow> unat (ta_iv_len a) \<le> length (xa_iv a) \<and> unat (ta_icv_len a) \<le> length (xa_icv a) \<and> 24 \<le> unat (ta_hdrlen a) \<and> unat (ta_hdrlen a) \<le> 64"

definition first_room :: "u32 \<Rightarrow> tx_attrib \<Rightarrow> bool \<Rightarrow> u32" where
  "first_room frag_len a first = frag_len - 4 - ucast (ta_hdrlen a) - ucast (ta_iv_len a) - (if first then 8 else 0)
     - (if add_icv a then ucast (ta_icv_len a) else 0)"

definition next_mem :: "nat \<Rightarrow> nat \<Rightarrow> nat \<Rightarrow> nat" where
  "next_mem base hoff p = RND4 (base + p) - base + hoff"

lemma next_mem_ge: "p + hoff \<le> next_mem base hoff p"
  using RND4_ge [of "base + p"] by (simp add: next_mem_def)

abbreviation mfrag_hd :: "buf \<Rightarrow> buf" where "mfrag_hd \<equiv> upd_hd (\<lambda>w. w OR MORE_FRAG)"
abbreviation last_hd :: "buf \<Rightarrow> buf" where "last_hd \<equiv> upd_hd (\<lambda>w. w AND NOT MORE_FRAG)"

lemma hd_flags:
  assumes "2 \<le> length h"
  shows "last_hd (mfrag_hd h) = last_hd h" "mfrag_hd (mfrag_hd h) = mfrag_hd h"
  unfolding upd_hd_upd_hd [OF assms]
  by (rule arg_cong2 [of _ _ _ _ upd_hd], auto simp: fun_eq_iff intro!: bit_word_eqI simp: bit_simps)+

lemma iv_icv_length:
  assumes "attrib_ok a"
  shows "length (iv_bytes a) = unat (ta_iv_len a)" "length (icv_bytes a) = (if add_icv a then unat (ta_icv_len a) else 0)"
  using assms by (auto simp: attrib_ok_def iv_bytes_def icv_bytes_def)

lemma put_iv_area:
  assumes "attrib_ok a" "i = length p" "length (iv_bytes a) \<le> length area"
  shows "put_iv a (p @ area) i = Some ((p @ iv_bytes a) @ drop (length (iv_bytes a)) area, length (p @ iv_bytes a))"
  using assms wrs_area [OF assms(2,3)] by (auto simp: put_iv_def rds_def attrib_ok_def iv_bytes_def unat_eq_zero)

lemma put_icv_area:
  assumes "attrib_ok a" "i = length p" "length (icv_bytes a) \<le> length area"
  shows "put_icv a (p @ area) i = Some ((p @ icv_bytes a) @ drop (length (icv_bytes a)) area, length (p @ icv_bytes a))"
  using assms wrs_area [OF assms(2,3)] by (auto simp: put_icv_def rds_def attrib_ok_def icv_bytes_def)

text \<open>One iteration, on a buffer with the header \<open>h\<close> at \<open>mem_start\<close>.\<close>

lemma coalesce_step_eq:
  assumes a: "attrib_ok a" and pf: "pf_ok pf" and h: "length h = unat (ta_hdrlen a)" and m: "m = length pre"
    and read: "n = unat (if bmcst then xa_pktlen a else first_room frag_len a (i = 0))" and d: "d = take n (pf_rest pf)"
    and x: "x = frag_tail a (i = 0) d" and room: "length x \<le> length area"
  shows "\<exists>pf'. pf_ok pf' \<and> pf_rest pf' = drop n (pf_rest pf) \<and>
    coalesce_step frag_len a bmcst base hoff (m, i, pf, pre @ h @ area) =
      (if bmcst \<or> drop n (pf_rest pf) = [] then
         Ret (of_nat (i + 1), ucast (ta_hdrlen a) + ucast (ta_iv_len a) + (if (of_nat (i + 1) :: u8) = 1 then of_nat (if i = 0 then 8 else 0) else 0)
            + (if xa_bswenc a then ucast (ta_icv_len a) else 0) + of_nat (length d), pre @ last_hd h @ x @ drop (length x) area)
       else iter_of (do {
              hd \<leftarrow> rds (pre @ mfrag_hd h @ x @ drop (length x) area) hoff (unat (ta_hdrlen a));
              b \<leftarrow> wrs (pre @ mfrag_hd h @ x @ drop (length x) area) (next_mem base hoff (m + length h + length x)) hd;
              Some (Next (next_mem base hoff (m + length h + length x), i + 1, pf', b)) }))"
proof -
  have h2: "2 \<le> length h" using a h by (simp add: attrib_ok_def)
  define s where "s = (if i = 0 then snap_hdr (xa_ether_type a) else [])"
  define r1 where "r1 = drop (length (iv_bytes a)) area"
  define r2 where "r2 = drop (length s) r1"
  define r3 where "r3 = drop (length d) r2"
  have lx: "length x = length (iv_bytes a) + length s + length d + length (icv_bytes a)" by (simp add: x frag_tail_def s_def)
  have fit: "length (iv_bytes a) \<le> length area" "length s \<le> length r1" "length d \<le> length r2" "length (icv_bytes a) \<le> length r3"
    using room lx by (auto simp: r1_def r2_def r3_def)
  define p1 where "p1 = pre @ mfrag_hd h"
  have lp: "length p1 = m + unat (ta_hdrlen a)" using h h2 m by (simp add: p1_def)
  have s1: "SetMFrag (pre @ h @ area) m = Some (p1 @ area)" using upd16_here [OF h2 m] by (simp add: SetMFrag_def p1_def)
  have s2: "put_iv a (p1 @ area) (m + unat (ta_hdrlen a)) = Some ((p1 @ iv_bytes a) @ r1, length (p1 @ iv_bytes a))"
    using put_iv_area [OF a lp [symmetric] fit(1)] by (simp only: r1_def)
  have s3: "(if i = 0 then rtw_put_snap ((p1 @ iv_bytes a) @ r1) (length (p1 @ iv_bytes a)) (xa_ether_type a) else Some (0, (p1 @ iv_bytes a) @ r1))
    = Some (length s, (p1 @ iv_bytes a @ s) @ r2)"
    using fit(2) put_snap_area [OF refl, of r1 "p1 @ iv_bytes a" "xa_ether_type a"] by (cases "i = 0") (simp_all add: r2_def s_def)
  have mp: "frag_len - 4 - ucast (ta_hdrlen a) - ucast (ta_iv_len a) - of_nat (if i = 0 then 8 else 0)
      - (if add_icv a then ucast (ta_icv_len a) else 0) = first_room frag_len a (i = 0)" by (simp add: first_room_def)
  obtain pf' where pf': "rtw_pktfile_read pf (if bmcst then xa_pktlen a else first_room frag_len a (i = 0)) = Some (d, pf')" "pf_ok pf'" "pf_rest pf' = drop n (pf_rest pf)"
    using pf_read [OF pf] unfolding d read by blast
  have s4: "wrs ((p1 @ iv_bytes a @ s) @ r2) (length (p1 @ iv_bytes a) + length s) d = Some ((p1 @ iv_bytes a @ s @ d) @ r3)"
    using wrs_area [of _ "p1 @ iv_bytes a @ s", OF _ fit(3)] by (simp add: r3_def add.assoc)
  have s5: "put_icv a ((p1 @ iv_bytes a @ s @ d) @ r3) (length (p1 @ iv_bytes a) + length s + length d)
    = Some (pre @ mfrag_hd h @ x @ drop (length x) area, m + length h + length x)"
    using put_icv_area [of a _ "p1 @ iv_bytes a @ s @ d", OF a _ fit(4)] lx lp h
    by (simp add: p1_def x frag_tail_def s_def r3_def r2_def r1_def ac_simps)
  have s6: "ClearMFrag (pre @ mfrag_hd h @ x @ drop (length x) area) m = Some (pre @ last_hd h @ x @ drop (length x) area)"
    using upd16_here [of "mfrag_hd h" m pre] h2 m hd_flags(1) [OF h2] by (simp add: ClearMFrag_def)
  have s0: "of_nat (length s) = (of_nat (if i = 0 then 8 else 0) :: u32)" by (simp add: s_def)
  have "coalesce_step frag_len a bmcst base hoff (m, i, pf, pre @ h @ area) =
      (if bmcst \<or> drop n (pf_rest pf) = [] then
         Ret (of_nat (i + 1), ucast (ta_hdrlen a) + ucast (ta_iv_len a) + (if (of_nat (i + 1) :: u8) = 1 then of_nat (if i = 0 then 8 else 0) else 0)
            + (if xa_bswenc a then ucast (ta_icv_len a) else 0) + of_nat (length d), pre @ last_hd h @ x @ drop (length x) area)
       else iter_of (do {
              hd \<leftarrow> rds (pre @ mfrag_hd h @ x @ drop (length x) area) hoff (unat (ta_hdrlen a));
              b \<leftarrow> wrs (pre @ mfrag_hd h @ x @ drop (length x) area) (next_mem base hoff (m + length h + length x)) hd;
              Some (Next (next_mem base hoff (m + length h + length x), i + 1, pf', b)) }))"
    unfolding coalesce_step_def prod.case s1 bind.bind_lunit s2 s3 Let_def mp pf'(1) s4 s5 s6 pf_end [OF pf'(2)] pf'(3) next_mem_def s0
    by (cases "bmcst \<or> drop n (pf_rest pf) = []") (simp_all only: if_True if_False simp_thms iter_of_simps)
  then show ?thesis using pf' by blast
qed

text \<open>The data of the fragments: \<open>room first\<close> bytes at a time. A room of 0 after the first fragment does not occur.\<close>

function cut :: "(bool \<Rightarrow> nat) \<Rightarrow> bool \<Rightarrow> buf \<Rightarrow> buf list" where
  "cut room first R = (if length R \<le> room first \<or> \<not> first \<and> room first = 0 then [R]
     else take (room first) R # cut room False (drop (room first) R))"
  by auto

termination
  by (relation "measures [\<lambda>(room, first, R). length R, \<lambda>(room, first, R). if first then 1 else 0]") auto

declare cut.simps [simp del]

lemma concat_cut: "concat (cut room first R) = R"
  by (induction room first R rule: cut.induct) (subst cut.simps, auto)

lemma cut_Cons: "\<exists>d ds. cut room first R = d # ds"
  by (subst cut.simps) auto

lemma cut_unfold:
  assumes "first \<or> room False \<noteq> 0"
  shows "\<exists>ds. cut room first R = take (room first) R # ds \<and> (ds = [] \<longleftrightarrow> length R \<le> room first)"
proof (cases "length R \<le> room first")
  case True
  then show ?thesis by (subst cut.simps) simp
next
  case False
  moreover have "\<not> (\<not> first \<and> room first = 0)" using assms by (cases first) auto
  ultimately have "cut room first R = take (room first) R # cut room False (drop (room first) R)" by (subst cut.simps) auto
  then show ?thesis using cut_Cons [of room False "drop (room first) R"] False by auto
qed

definition rooms :: "u32 \<Rightarrow> tx_attrib \<Rightarrow> bool \<Rightarrow> nat" where
  "rooms frag_len a first = unat (first_room frag_len a first)"

lemma rooms_zero: "rooms frag_len a False = 0 \<Longrightarrow> rooms frag_len a True = 2 ^ 32 - 8"
proof -
  assume "rooms frag_len a False = 0"
  then have "first_room frag_len a False = 0" by (simp add: rooms_def unat_eq_zero)
  moreover have "first_room frag_len a True = first_room frag_len a False - 8" by (simp add: first_room_def)
  ultimately have "first_room frag_len a True = - 8" by simp
  then show ?thesis by (simp add: rooms_def)
qed

text \<open>The fragments: header, initialisation vector, LLC header in the first one, data, and the place of the ICV.\<close>

fun mk_frags :: "tx_attrib \<Rightarrow> buf \<Rightarrow> bool \<Rightarrow> buf list \<Rightarrow> buf list" where
  "mk_frags a H first [] = []"
| "mk_frags a H first [d] = [last_hd H @ frag_tail a first d]"
| "mk_frags a H first (d # d' # ds) = (H @ frag_tail a first d) # mk_frags a H False (d' # ds)"

text \<open>Where the loop puts them, and where the last one ends.\<close>

fun lay :: "nat \<Rightarrow> nat \<Rightarrow> nat \<Rightarrow> buf list \<Rightarrow> (nat \<times> buf) list" where
  "lay base hoff m [] = []"
| "lay base hoff m (f # fs) = (m, f) # lay base hoff (next_mem base hoff (m + length f)) fs"

fun lay_end :: "nat \<Rightarrow> nat \<Rightarrow> nat \<Rightarrow> buf list \<Rightarrow> nat" where
  "lay_end base hoff m [] = m"
| "lay_end base hoff m [f] = m + length f"
| "lay_end base hoff m (f # g # fs) = lay_end base hoff (next_mem base hoff (m + length f)) (g # fs)"

lemma lay_end_ge: "m + length f \<le> lay_end base hoff m (f # fs)"
proof (induction fs arbitrary: m f)
  case (Cons g fs)
  have "m + length f \<le> next_mem base hoff (m + length f)" using next_mem_ge [of "m + length f" hoff base] by simp
  also have "\<dots> \<le> lay_end base hoff \<dots> (g # fs)" using Cons.IH [of "next_mem base hoff (m + length f)" g] by simp
  finally show ?case by simp
qed simp

lemma last_size:
  assumes "attrib_ok a" "length h = unat (ta_hdrlen a)"
  shows "ucast (ta_hdrlen a) + ucast (ta_iv_len a) + (if (of_nat (i + 1) :: u8) = 1 then of_nat (if i = 0 then 8 else 0) else 0)
     + (if xa_bswenc a then ucast (ta_icv_len a) else 0) + of_nat (length d) = (of_nat (length (last_hd h @ frag_tail a (i = 0) d)) :: u32)"
proof -
  have "2 \<le> length h" using assms by (simp add: attrib_ok_def)
  moreover have "(if xa_bswenc a then ucast (ta_icv_len a) else 0) = (of_nat (length (icv_bytes a)) :: u32)"
    by (auto simp: iv_icv_length [OF assms(1)] add_icv_def word_gt_0)
  ultimately show ?thesis using assms(2) by (cases "i = 0") (simp_all add: frag_tail_def iv_icv_length [OF assms(1)])
qed

text \<open>The header is copied from the first fragment, and what lies before the copy stays.\<close>

lemma copy_header:
  assumes "b = pre @ H @ x @ rest" "take n (drop hoff (pre @ H)) = H" "hoff \<le> length pre" "length H = n"
    and "length pre + n \<le> m'" "m' + n \<le> length b"
  shows "rds b hoff n = Some H" "wrs b m' H = Some (take m' b @ H @ drop (m' + n) b)" "take n (drop hoff (take m' b @ H)) = H"
proof -
  have t: "take n (drop hoff b) = H" using assms(1-4) by simp
  then show "rds b hoff n = Some H" using assms(3,5,6) by (simp add: rds_def)
  show "wrs b m' H = Some (take m' b @ H @ drop (m' + n) b)" using assms(4,6) by (simp add: wrs_def)
  show "take n (drop hoff (take m' b @ H)) = H" using t assms(3,5,6) by (simp add: drop_take)
qed

lemma kept_before:
  assumes "take m' b' = take m' b" "b = pre @ y @ z" "length (pre @ y) \<le> m'"
  shows "take (length pre) b' = pre" "take (length y) (drop (length pre) b') = y"
proof -
  have "take (length (pre @ y)) b' = take (length (pre @ y)) b"
    using assms(1,3) by (metis min.absorb1 take_take)
  then have t: "take (length pre + length y) b' = pre @ y" by (simp add: assms(2))
  then show "take (length pre) b' = pre" by (metis append_eq_conv_conj le_add1 min.absorb1 take_take)
  show "take (length y) (drop (length pre) b') = y" using t by (metis append_eq_conv_conj drop_take add_diff_cancel_left')
qed

lemma coalesce_loop:
  assumes a: "attrib_ok a" and pf: "pf_ok pf" and R: "pf_rest pf = R" "length R < 2 ^ 31" and h: "length h = unat (ta_hdrlen a)" "mfrag_hd h = H"
    and m: "m = length pre" "hoff \<le> m" "take (unat (ta_hdrlen a)) (drop hoff (pre @ H)) = H"
    and z: "i \<noteq> 0 \<longrightarrow> rooms frag_len a False \<noteq> 0"
    and fs: "fs = mk_frags a H (i = 0) (cut (rooms frag_len a) (i = 0) R)" and fit: "lay_end base hoff m fs \<le> length (pre @ h @ area)"
  shows "\<exists>b'. run_loop (coalesce_step frag_len a False base hoff) (m, i, pf, pre @ h @ area) = Some (of_nat (i + length fs), of_nat (length (last fs)), b')
    \<and> length b' = length (pre @ h @ area) \<and> take m b' = pre \<and> (\<forall>(p, f) \<in> set (lay base hoff m fs). take (length f) (drop p b') = f)"
  using assms
proof (induction "(2 * length R + (if i = 0 then 1 else 0) :: nat)" arbitrary: R pf i m pre h area fs rule: less_induct)
  case less
  let ?n = "rooms frag_len a (i = 0)"
  note a = less(2) and pf = less(3) and R = less(4,5) and h = less(6,7) and m = less(8,9,10) and z = less(11) and fs = less(12) and fit = less(13)
  have h2: "2 \<le> length h" using a h by (simp add: attrib_ok_def)
  have lH: "length H = unat (ta_hdrlen a)" using h h2 by auto
  have lastH: "last_hd h = last_hd H" and H': "mfrag_hd H = H" using hd_flags [OF h2] h(2) by simp_all
  define x where "x = frag_tail a (i = 0) (take ?n R)"
  obtain ds where ds: "cut (rooms frag_len a) (i = 0) R = take ?n R # ds" "ds = [] \<longleftrightarrow> length R \<le> ?n"
    using cut_unfold [of "i = 0" "rooms frag_len a" R] z by auto
  have hf: "length (hd fs) = length h + length x" and fsn: "fs \<noteq> []"
    using fs ds(1) lH h h2 by (cases ds; auto simp: x_def)+
  have room: "length x \<le> length area" using lay_end_ge [of m "hd fs" base hoff "tl fs"] fit fsn hf m(1) by simp
  obtain pf' where st: "pf_ok pf'" "pf_rest pf' = drop ?n R"
    "coalesce_step frag_len a False base hoff (m, i, pf, pre @ h @ area) =
      (if False \<or> drop ?n R = [] then
         Ret (of_nat (i + 1), of_nat (length (last_hd h @ x)), pre @ last_hd h @ x @ drop (length x) area)
       else iter_of (do {
              hd \<leftarrow> rds (pre @ H @ x @ drop (length x) area) hoff (unat (ta_hdrlen a));
              b \<leftarrow> wrs (pre @ H @ x @ drop (length x) area) (next_mem base hoff (m + length h + length x)) hd;
              Some (Next (next_mem base hoff (m + length h + length x), i + 1, pf', b)) }))"
    using coalesce_step_eq [OF a pf h(1) m(1) refl refl refl, where bmcst = False and frag_len = frag_len and i = i and area = area and base = base and hoff = hoff] room R(1)
    unfolding last_size [OF a h(1)] h(2) by (auto simp: rooms_def x_def)
  show ?case
  proof (cases "length R \<le> ?n")
    case True
    then have "ds = []" using ds(2) by simp
    then have f: "fs = [last_hd H @ x]" using fs ds(1) by (simp add: x_def)
    then show ?thesis using True st(3) m(1) h2 room lastH h(1) lH by (auto simp: run_loop_Ret)
  next
    case False
    then obtain e es where es: "ds = e # es" using ds(2) by (cases ds) auto
    define fs' where "fs' = mk_frags a H False ds"
    have f: "fs = (H @ x) # fs'" using fs ds(1) es by (simp add: x_def fs'_def)
    obtain g gs where g: "fs' = g # gs" "length H \<le> length g" using es h2 lH h(1) by (cases es) (auto simp: fs'_def)
    define b1 where "b1 = pre @ H @ x @ drop (length x) area"
    define m' where "m' = next_mem base hoff (m + length h + length x)"
    have lb1: "length b1 = length (pre @ h @ area)" using room lH h(1) by (simp add: b1_def)
    have m'_ge: "m + length h + length x + hoff \<le> m'" unfolding m'_def by (rule next_mem_ge)
    have fit': "lay_end base hoff m' fs' \<le> length b1" using fit f g lH h(1) lb1 by (simp add: m'_def add.assoc)
    have room': "m' + length H \<le> length b1" using lay_end_ge [of m' g base hoff gs] fit' g by simp
    have n: "length pre + unat (ta_hdrlen a) \<le> m'" "m' + unat (ta_hdrlen a) \<le> length b1" using m'_ge m(1) h(1) room' lH by simp_all
    note rd = copy_header [OF b1_def m(3) m(2) [unfolded m(1)] lH n]
    have nx: "run_loop (coalesce_step frag_len a False base hoff) (m, i, pf, pre @ h @ area)
      = run_loop (coalesce_step frag_len a False base hoff) (m', i + 1, pf', take m' b1 @ H @ drop (m' + length H) b1)"
      using st(3) False rd(1,2) lH by (intro run_loop_Next) (simp add: b1_def [symmetric] m'_def [symmetric])
    have n0: "rooms frag_len a False \<noteq> 0"
    proof (cases "i = 0")
      case True
      then show ?thesis using False R(2) rooms_zero [of frag_len a] by fastforce
    qed (use z in simp)
    have dsc: "ds = cut (rooms frag_len a) False (drop ?n R)"
      using ds(1) False n0 by (subst (asm) cut.simps) (cases "i = 0"; simp)
    have lm: "m' = length (take m' b1)" using room' by simp
    have dec: "2 * length (drop ?n R) + (if i + 1 = 0 then 1 else 0) < 2 * length R + (if i = 0 then 1 else 0)"
      using n0 False by (cases "i = 0") auto
    have lb: "length (take m' b1 @ H @ drop (m' + length H) b1) = length b1" using room' by simp
    have args: "length (drop ?n R) < 2 ^ 31" "hoff \<le> m'" "i + 1 \<noteq> 0 \<longrightarrow> rooms frag_len a False \<noteq> 0"
      "fs' = mk_frags a H (i + 1 = 0) (cut (rooms frag_len a) (i + 1 = 0) (drop ?n R))"
      "lay_end base hoff m' fs' \<le> length (take m' b1 @ H @ drop (m' + length H) b1)"
      using R(2) m'_ge n0 fit' lb by (auto simp: fs'_def dsc)
    from less(1) [OF dec a st(1,2) args(1) lH H' lm args(2) rd(3) args(3,4,5)]
    obtain b' where b': "run_loop (coalesce_step frag_len a False base hoff) (m', i + 1, pf', take m' b1 @ H @ drop (m' + length H) b1)
        = Some (of_nat (i + 1 + length fs'), of_nat (length (last fs')), b')" "length b' = length b1" "take m' b' = take m' b1"
        "\<forall>(p, f) \<in> set (lay base hoff m' fs'). take (length f) (drop p b') = f"
      unfolding lb by blast
    have "length (pre @ H @ x) \<le> m'" using m'_ge lH h(1) m(1) by simp
    then have "take m b' = pre" "take (length (H @ x)) (drop m b') = H @ x"
      using kept_before [OF b'(3), of pre "H @ x" "drop (length x) area"] m(1) by (simp_all add: b1_def)
    moreover have "lay base hoff m fs = (m, H @ x) # lay base hoff m' fs'" using lH h(1) by (simp add: f m'_def add.assoc)
    ultimately show ?thesis using b' nx lb1 g by (simp add: f add.assoc)
  qed
qed

subsection \<open>The 802.11 header\<close>

definition fc_of :: "tx_attrib \<Rightarrow> u16 \<Rightarrow> u16" where
  "fc_of a ds = ucast (xa_subtype a) OR ds OR (if xa_mdata a then MORE_DATA else 0) OR (if ta_encrypt a \<noteq> 0 then PRIVACY else 0)"

definition qos_ctl :: "tx_attrib \<Rightarrow> u16" where
  "qos_ctl a = (ucast (xa_priority a) AND mask 4) OR push_bit 4 (ucast (xa_eosp a) AND mask 1) OR push_bit 5 (ucast (xa_ack_policy a) AND mask 2)
     OR push_bit 7 (ucast (xa_amsdu a) AND mask 1)"

definition wlan_hdr :: "u16 \<Rightarrow> buf \<Rightarrow> buf \<Rightarrow> buf \<Rightarrow> u16 \<Rightarrow> buf \<Rightarrow> buf" where
  "wlan_hdr fc a1 a2 a3 seqctl qc = le16_bytes fc @ [0, 0] @ a1 @ a2 @ a3 @ le16_bytes seqctl @ qc"

lemma wrs_in:
  assumes "j = length pre + k" "k + length xs \<le> length h"
  shows "wrs (pre @ h @ post) j xs = Some (pre @ (take k h @ xs @ drop (k + length xs) h) @ post)"
  using assms by (simp add: wrs_def)

lemma upd16_in:
  assumes "j = length pre + k" "k + 2 \<le> length h"
  shows "upd16 (pre @ h @ post) j f = Some (pre @ (take k h @ upd_hd f (drop k h)) @ post)"
proof -
  have "pre @ h @ post = (pre @ take k h) @ drop k h @ post" by simp
  moreover have "2 \<le> length (drop k h)" "j = length (pre @ take k h)" using assms by simp_all
  ultimately show ?thesis using upd16_here [of "drop k h" j "pre @ take k h" post f] by (simp only: append.assoc)
qed

lemma field_free: "(\<And>n. off \<le> n \<Longrightarrow> \<not> bit w n) \<Longrightarrow> w AND NOT (push_bit off (mask len)) = w" for w :: u16
  by (rule bit_word_eqI) (auto simp: bit_simps)

lemma upd_hd_le16 [simp]: "upd_hd f (le16_bytes w @ r) = le16_bytes (f w) @ r"
  by (simp add: upd_hd_def le16_bytes_def be16_split)

lemma set_bits_in:
  assumes "j = length pre"
  shows "SET_BITS_TO_LE_2BYTE (pre @ le16_bytes w @ post) j off len v
    = Some (pre @ le16_bytes (w AND NOT (push_bit off (mask len)) OR push_bit off (ucast v AND mask len)) @ post)"
  using upd16_here [of "le16_bytes w" j pre post] assms upd_hd_le16 [of _ w "[]"] by (simp add: SET_BITS_TO_LE_2BYTE_def)

lemma hdr_qos_in:
  assumes "j = length pre"
  shows "hdr_qos (pre @ le16_bytes 0 @ post) j a = Some (pre @ le16_bytes (qos_ctl a) @ post)"
proof -
  have b16: "bit (16 :: int) n \<longleftrightarrow> n = 4" for n using bit_exp_iff [of 4 n, where 'a = int] by auto
  let ?w1 = "ucast (xa_priority a) AND mask 4 :: u16"
  let ?w2 = "?w1 OR push_bit 4 (ucast (xa_eosp a) AND mask 1)"
  let ?w3 = "?w2 OR push_bit 5 (ucast (xa_ack_policy a) AND mask 2)"
  have e1: "(0 :: u16) AND NOT (push_bit 0 (mask 4)) OR push_bit 0 (ucast (xa_priority a) AND mask 4) = ?w1" by simp
  have e2: "?w1 AND NOT (push_bit 4 (mask 1)) OR push_bit 4 (ucast (xa_eosp a) AND mask 1) = ?w2" by (subst field_free) (auto simp: bit_simps)
  have e3: "?w2 AND NOT (push_bit 5 (mask 2)) OR push_bit 5 (ucast (xa_ack_policy a) AND mask 2) = ?w3" by (subst field_free) (auto simp: bit_simps b16)
  have e4: "?w3 AND NOT (push_bit 7 (mask 1)) OR push_bit 7 (ucast (xa_amsdu a) AND mask 1) = qos_ctl a"
    unfolding qos_ctl_def or.assoc [symmetric] by (subst field_free) (auto simp: bit_simps b16)
  have z: "xa_priority a = 0 \<Longrightarrow> ?w1 = 0" "xa_amsdu a = 0 \<Longrightarrow> ?w3 = qos_ctl a" by (simp_all add: qos_ctl_def or.assoc)
  have s1: "(if xa_priority a \<noteq> 0 then SET_BITS_TO_LE_2BYTE (pre @ le16_bytes 0 @ post) j 0 4 (xa_priority a) else Some (pre @ le16_bytes 0 @ post))
    = Some (pre @ le16_bytes ?w1 @ post)" using set_bits_in [OF assms, of 0 post 0 4 "xa_priority a"] z(1) by (simp only: e1) auto
  have s4: "(if xa_amsdu a \<noteq> 0 then SET_BITS_TO_LE_2BYTE (pre @ le16_bytes ?w3 @ post) j 7 1 (xa_amsdu a) else Some (pre @ le16_bytes ?w3 @ post))
    = Some (pre @ le16_bytes (qos_ctl a) @ post)" using set_bits_in [OF assms, of ?w3 post 7 1 "xa_amsdu a"] z(2) by (simp only: e4) auto
  show ?thesis unfolding hdr_qos_def s1 unfolding bind.bind_lunit set_bits_in [OF assms, of ?w1] e2 set_bits_in [OF assms, of ?w2] e3 s4 ..
qed

lemma le16_zero: "le16_bytes 0 = [0, 0]"
  by (simp add: le16_bytes_def)

lemma replicate_64: "replicate 64 (0 :: u8) = le16_bytes 0 @ [0, 0] @ replicate 6 0 @ replicate 6 0 @ replicate 6 0 @ le16_bytes 0 @ le16_bytes 0 @ replicate 38 0"
  by (simp add: le16_zero numeral_eq_Suc)

lemma seq_field: "0xfff0 AND push_bit 4 q = push_bit 4 (q :: u16)"
proof -
  have m: "(0xfff0 :: u16) = NOT (mask 4)" by (simp add: mask_eq_exp_minus_1)
  show ?thesis unfolding m by (rule bit_word_eqI) (auto simp: bit_simps)
qed

lemma fc_steps:
  "(((0 AND NOT 0xfc OR ucast (xa_subtype a)) OR ds) OR (if xa_mdata a then MORE_DATA else 0)) OR (if ta_encrypt a \<noteq> 0 then PRIVACY else 0) = fc_of a ds"
  by (simp add: fc_of_def or.assoc)

lemma rtw_make_wlanhdr_spec:
  assumes i: "i = length pre" "64 \<le> length area" and d: "xa_subtype a AND WIFI_DATA_TYPE \<noteq> 0"
    and dirs: "hdr_dirs e a = Some (ds, a1, a2, a3, q)" "length a1 = 6" "length a2 = 6" "length a3 = 6" and q: "q \<longrightarrow> ta_hdrlen a = 26"
    and sta: "rtw_get_stainfo st (Some (ta_ra a)) = Some k" "xa_psta a = Some k" "k < length (stainfo st)" "k < length tx"
      "sta_state (stainfo st ! k) AND WIFI_ASOC_STATE \<noteq> 0" and seq: "next_seqnum (tx ! k) a = Some (s', a')"
  shows "rtw_make_wlanhdr e st tx (pre @ area) i a = Some (True,
    pre @ wlan_hdr (fc_of a ds) a1 a2 a3 (push_bit 4 (xa_seqnum a')) (if q then le16_bytes (qos_ctl a) else [0, 0]) @ replicate 38 0 @ drop 64 area,
    a', tx[k := s'])"
proof -
  let ?z = "replicate 6 (0 :: u8)" and ?r = "replicate 38 (0 :: u8) @ drop 64 area"
  have s1: "rtw_memset (pre @ area) i 0 WLANHDR_OFFSET
    = Some (pre @ le16_bytes 0 @ [0, 0] @ ?z @ ?z @ ?z @ le16_bytes 0 @ le16_bytes 0 @ ?r)"
    using i by (simp add: rtw_memset_def WLANHDR_OFFSET_def wrs_def replicate_64)
  have up: "upd16 (pre @ le16_bytes w @ r) i f = Some (pre @ le16_bytes (f w) @ r)" for w r f
    using upd16_here [of "le16_bytes w" i pre r f] i(1) upd_hd_le16 [of f w "[]"] by simp
  have s2: "wrs (pre @ le16_bytes w @ [0, 0] @ ?z @ r) (i + 4) a1 = Some (pre @ le16_bytes w @ [0, 0] @ a1 @ r)" for w r
    using wrs_area [of "i + 4" "pre @ le16_bytes w @ [0, 0]" a1 "?z @ r"] i(1) dirs(2) by simp
  have s3: "wrs (pre @ le16_bytes w @ [0, 0] @ a1 @ ?z @ r) (i + 10) a2 = Some (pre @ le16_bytes w @ [0, 0] @ a1 @ a2 @ r)" for w r
    using wrs_area [of "i + 10" "pre @ le16_bytes w @ [0, 0] @ a1" a2 "?z @ r"] i(1) dirs(2,3) by simp
  have s4: "wrs (pre @ le16_bytes w @ [0, 0] @ a1 @ a2 @ ?z @ r) (i + 16) a3 = Some (pre @ le16_bytes w @ [0, 0] @ a1 @ a2 @ a3 @ r)" for w r
    using wrs_area [of "i + 16" "pre @ le16_bytes w @ [0, 0] @ a1 @ a2" a3 "?z @ r"] i(1) dirs(2,3,4) by simp
  define qc where "qc = (if q then qos_ctl a else 0)"
  have s5: "(if q then (if i + unat (ta_hdrlen a) < 2 then None else hdr_qos (pre @ le16_bytes w @ [0, 0] @ a1 @ a2 @ a3 @ le16_bytes 0 @ le16_bytes 0 @ ?r) (i + unat (ta_hdrlen a) - 2) a)
      else Some (pre @ le16_bytes w @ [0, 0] @ a1 @ a2 @ a3 @ le16_bytes 0 @ le16_bytes 0 @ ?r))
    = Some (pre @ le16_bytes w @ [0, 0] @ a1 @ a2 @ a3 @ le16_bytes 0 @ le16_bytes qc @ ?r)" for w
    using hdr_qos_in [of "24 + i" "pre @ le16_bytes w @ [0, 0] @ a1 @ a2 @ a3 @ le16_bytes 0" ?r a] i(1) dirs(2,3,4) q by (auto simp: qc_def)
  have s6: "SetSeqNum (pre @ le16_bytes w @ [0, 0] @ a1 @ a2 @ a3 @ le16_bytes 0 @ r) i n = Some (pre @ le16_bytes w @ [0, 0] @ a1 @ a2 @ a3 @ le16_bytes (push_bit 4 n) @ r)" for w r n
    using upd16_here [of "le16_bytes 0" "i + 22" "pre @ le16_bytes w @ [0, 0] @ a1 @ a2 @ a3" r] i(1) dirs(2,3,4) upd_hd_le16 [of _ 0 "[]"]
    unfolding SetSeqNum_def by (simp add: seq_field)
  have up': "(if c then Some (pre @ le16_bytes (w OR v) @ r) else Some (pre @ le16_bytes w @ r)) = Some (pre @ le16_bytes (w OR (if c then v else 0)) @ r)" for w r v c
    by simp
  have t: "take 6 a1 = a1" "take 6 a2 = a2" "take 6 a3 = a3" using dirs by simp_all
  have k: "idx (stainfo st) k = Some (stainfo st ! k)" "idx tx k = Some (tx ! k)" using sta by (simp_all add: idx_def)
  have qc: "le16_bytes qc = (if q then le16_bytes (qos_ctl a) else [0, 0])" by (simp add: qc_def le16_zero)
  show ?thesis
    unfolding rtw_make_wlanhdr_def s1 bind.bind_lunit set_frame_sub_type_def up if_not_P [OF d] dirs(1) option.case prod.case s2 t s3 s4 up' s5 Let_def
      sta(1,2) k seq
    using sta(5) by (simp only: simp_thms if_False s6 bind.bind_lunit fc_steps wlan_hdr_def qc append.assoc option.case prod.case)
qed

subsection \<open>A packet and its fragments\<close>

lemma next_seqnum_spec:
  assumes "unat (xa_priority a) < length (txseq_tid s)" "16 \<le> length (BA_starting_seqctrl s)"
  shows "\<exists>s' en. next_seqnum s a = Some (s', a\<lparr>xa_seqnum := (txseq_tid s ! unat (xa_priority a) + 1) AND 0xFFF, xa_ampdu_en := en\<rparr>)
    \<and> txseq_tid s' = (txseq_tid s)[unat (xa_priority a) := (txseq_tid s ! unat (xa_priority a) + 1) AND 0xFFF]"
proof -
  have "unat (xa_priority a AND 0x0f) < 16"
    using word_and_le1 [of "xa_priority a" "0x0f"] by (simp add: word_le_nat_alt)
  then have "unat (xa_priority a AND 0x0f) < length (BA_starting_seqctrl s)" using assms(2) by simp
  moreover have "\<exists>en. a\<lparr>xa_seqnum := x\<rparr> = a\<lparr>xa_seqnum := x, xa_ampdu_en := en\<rparr>" for x
    by (rule exI [of _ "xa_ampdu_en a"]) simp
  ultimately show ?thesis using assms(1) unfolding next_seqnum_def by (auto simp: idx_def Let_def)
qed

lemma frag_tail_seq: "frag_tail (a\<lparr>xa_seqnum := x, xa_ampdu_en := y\<rparr>) = frag_tail a"
  by (simp add: fun_eq_iff frag_tail_def iv_bytes_def icv_bytes_def add_icv_def)

lemma mk_frags_seq: "mk_frags (a\<lparr>xa_seqnum := x, xa_ampdu_en := y\<rparr>) H first ds = mk_frags a H first ds"
  by (induction a H first ds rule: mk_frags.induct) (simp_all add: frag_tail_seq)

lemma rooms_seq: "rooms fl (a\<lparr>xa_seqnum := x, xa_ampdu_en := y\<rparr>) = rooms fl a"
  by (simp add: fun_eq_iff rooms_def first_room_def add_icv_def)

text \<open>
  A packet is ready to be sent to station \<open>k\<close>: its attributes name an associated station, and the header length agrees with the QoS
  field. \<open>hdr_dirs\<close> gives the addresses.
\<close>

definition sendable :: "tx_env \<Rightarrow> sta_priv \<Rightarrow> tx_sta list \<Rightarrow> tx_attrib \<Rightarrow> nat \<Rightarrow> bool" where
  "sendable e st tx a k \<longleftrightarrow> attrib_ok a \<and> xa_subtype a AND WIFI_DATA_TYPE \<noteq> 0 \<and> unat (xa_priority a) < 16 \<and> xa_pkt_hdrlen a = 14
     \<and> (case hdr_dirs e a of None \<Rightarrow> False
        | Some (ds, a1, a2, a3, q) \<Rightarrow> length a1 = 6 \<and> length a2 = 6 \<and> length a3 = 6 \<and> ta_hdrlen a = (if q then 26 else 24))
     \<and> rtw_get_stainfo st (Some (ta_ra a)) = Some k \<and> xa_psta a = Some k \<and> k < length (stainfo st) \<and> k < length tx
     \<and> sta_state (stainfo st ! k) AND WIFI_ASOC_STATE \<noteq> 0 \<and> length (txseq_tid (tx ! k)) = 16 \<and> length (BA_starting_seqctrl (tx ! k)) = 16"

text \<open>The header of its first fragment, with the next sequence number of its priority.\<close>

definition next_seq :: "tx_sta \<Rightarrow> tx_attrib \<Rightarrow> u16" where
  "next_seq s a = (txseq_tid s ! unat (xa_priority a) + 1) AND 0xFFF"

definition tx_hdr :: "tx_env \<Rightarrow> tx_sta \<Rightarrow> tx_attrib \<Rightarrow> buf" where
  "tx_hdr e s a = (case hdr_dirs e a of None \<Rightarrow> []
     | Some (ds, a1, a2, a3, q) \<Rightarrow> wlan_hdr (fc_of a ds) a1 a2 a3 (push_bit 4 (next_seq s a)) (if q then le16_bytes (qos_ctl a) else []))"

definition tx_frags :: "tx_env \<Rightarrow> tx_sta \<Rightarrow> tx_attrib \<Rightarrow> buf \<Rightarrow> buf list" where
  "tx_frags e s a payload = mk_frags a (mfrag_hd (tx_hdr e s a)) True (cut (rooms (tx_frag_len e) a) True payload)"

lemma length_tx_hdr: "sendable e st tx a k \<Longrightarrow> length (tx_hdr e s a) = unat (ta_hdrlen a)"
  by (auto simp: sendable_def tx_hdr_def wlan_hdr_def split: option.splits if_splits)

lemma sendable_hdr:
  assumes "sendable e st tx a k" "i = length pre" "64 \<le> length area"
  shows "\<exists>s' en area'. rtw_make_wlanhdr e st tx (pre @ area) i a
     = Some (True, pre @ tx_hdr e (tx ! k) a @ area', a\<lparr>xa_seqnum := next_seq (tx ! k) a, xa_ampdu_en := en\<rparr>, tx[k := s'])
    \<and> length (tx_hdr e (tx ! k) a @ area') = length area
    \<and> txseq_tid s' = (txseq_tid (tx ! k))[unat (xa_priority a) := next_seq (tx ! k) a]"
proof -
  obtain ds a1 a2 a3 q where d: "hdr_dirs e a = Some (ds, a1, a2, a3, q)" "length a1 = 6" "length a2 = 6" "length a3 = 6"
    "ta_hdrlen a = (if q then 26 else 24)" using assms(1) by (auto simp: sendable_def split: option.splits)
  obtain s' en where s: "next_seqnum (tx ! k) a = Some (s', a\<lparr>xa_seqnum := next_seq (tx ! k) a, xa_ampdu_en := en\<rparr>)"
    "txseq_tid s' = (txseq_tid (tx ! k))[unat (xa_priority a) := next_seq (tx ! k) a]"
    using next_seqnum_spec [of a "tx ! k"] assms(1) by (auto simp: sendable_def next_seq_def)
  let ?qc = "if q then le16_bytes (qos_ctl a) else [0, 0]"
  have "rtw_make_wlanhdr e st tx (pre @ area) i a = Some (True,
      pre @ wlan_hdr (fc_of a ds) a1 a2 a3 (push_bit 4 (next_seq (tx ! k) a)) ?qc @ replicate 38 0 @ drop 64 area,
      a\<lparr>xa_seqnum := next_seq (tx ! k) a, xa_ampdu_en := en\<rparr>, tx[k := s'])"
    using rtw_make_wlanhdr_spec [OF assms(2,3) _ d(1-4) _ _ _ _ _ _ s(1), of st] assms(1) d(5) by (simp add: sendable_def)
  moreover have "wlan_hdr (fc_of a ds) a1 a2 a3 (push_bit 4 (next_seq (tx ! k) a)) ?qc @ replicate 38 0 @ drop 64 area
      = tx_hdr e (tx ! k) a @ (if q then [] else [0, 0]) @ replicate 38 0 @ drop 64 area"
    by (simp add: tx_hdr_def d(1) wlan_hdr_def)
  moreover have "length (tx_hdr e (tx ! k) a @ (if q then [] else [0, 0]) @ replicate 38 0 @ drop 64 area) = length area"
    using assms(3) d by (simp add: tx_hdr_def wlan_hdr_def)
  ultimately show ?thesis using s(2) by auto
qed

text \<open>The loop of \<open>rtw_xmitframe_coalesce\<close> on a unicast packet.\<close>

lemma coalesce_frags:
  assumes "sendable e st tx a k" "length pre = hoff" "length payload < 2 ^ 31" "pf_ok pf" "pf_rest pf = payload"
    and "a' = a\<lparr>xa_seqnum := x, xa_ampdu_en := en\<rparr>" "fs = tx_frags e (tx ! k) a payload"
    and "lay_end base hoff hoff fs \<le> length (pre @ tx_hdr e (tx ! k) a @ area)"
  shows "\<exists>b'. run_loop (coalesce_step (tx_frag_len e) a' False base hoff) (hoff, 0, pf, pre @ tx_hdr e (tx ! k) a @ area)
      = Some (of_nat (length fs), of_nat (length (last fs)), b') \<and> length b' = length (pre @ tx_hdr e (tx ! k) a @ area)
      \<and> (\<forall>(p, f) \<in> set (lay base hoff hoff fs). take (length f) (drop p b') = f)"
proof -
  let ?h = "tx_hdr e (tx ! k) a"
  have a': "attrib_ok a'" "ta_hdrlen a' = ta_hdrlen a" using assms(1,6) by (auto simp: sendable_def attrib_ok_def)
  have h: "length ?h = unat (ta_hdrlen a')" "2 \<le> length ?h"
    using length_tx_hdr [OF assms(1)] a' by (auto simp: attrib_ok_def)
  have fsq: "fs = mk_frags a' (mfrag_hd ?h) (0 = (0 :: nat)) (cut (rooms (tx_frag_len e) a') (0 = (0 :: nat)) payload)"
    by (simp add: assms(6,7) tx_frags_def mk_frags_seq rooms_seq)
  have hh: "take (unat (ta_hdrlen a')) (drop hoff (pre @ mfrag_hd ?h)) = mfrag_hd ?h" using assms(2) h by simp
  have z: "(0 :: nat) \<noteq> 0 \<longrightarrow> rooms (tx_frag_len e) a' False \<noteq> 0" by simp
  from coalesce_loop [OF a'(1) assms(4,5,3) h(1) refl assms(2) [symmetric] le_refl hh z fsq assms(8)] show ?thesis by auto
qed

text \<open>The part of the packet that a fragment carries.\<close>

definition tx_body :: "tx_attrib \<Rightarrow> buf \<Rightarrow> buf" where
  "tx_body a f = take (length f - (unat (ta_hdrlen a) + unat (ta_iv_len a)) - length (icv_bytes a)) (drop (unat (ta_hdrlen a) + unat (ta_iv_len a)) f)"

lemma tx_body_frag:
  assumes "attrib_ok a" "length H = unat (ta_hdrlen a)"
  shows "tx_body a (H @ frag_tail a first d) = (if first then snap_hdr (xa_ether_type a) else []) @ d"
  using assms by (simp add: tx_body_def frag_tail_def iv_icv_length)

lemma concat_bodies:
  assumes "attrib_ok a" "length H = unat (ta_hdrlen a)" "ds \<noteq> []"
  shows "concat (map (tx_body a) (mk_frags a H first ds)) = (if first then snap_hdr (xa_ether_type a) else []) @ concat ds"
proof -
  have "2 \<le> length H" using assms by (simp add: attrib_ok_def)
  then have "length (last_hd H) = unat (ta_hdrlen a)" using assms(2) by simp
  then show ?thesis using assms by (induction a H first ds rule: mk_frags.induct) (simp_all add: tx_body_frag)
qed

lemma be16_bytes_be16: "be16_bytes (be16 x y) = [x, y]"
proof -
  have m: "(0xff :: u16) = mask 8" by (simp add: mask_eq_exp_minus_1)
  have hi: "\<not> bit y (8 + n)" for n using bit_imp_le_length [of y "8 + n"] by auto
  show ?thesis unfolding be16_bytes_def be16_def m
    by (auto intro!: bit_word_eqI simp: bit_simps hi)
qed

lemma eth_snap:
  assumes "14 \<le> length pkt"
  shows "eth_of (take 6 pkt) (take 6 (drop 6 pkt)) (snap_hdr (be16 (pkt ! 12) (pkt ! 13)) @ drop 14 pkt) = pkt"
proof -
  let ?p = "be16 (pkt ! 12) (pkt ! 13)"
  have b: "be16_bytes ?p = take 2 (drop 12 pkt)"
  proof -
    have "be16_bytes ?p = [pkt ! 12, pkt ! 13]"
      by (rule be16_bytes_be16)
    moreover have "take 2 (drop 12 pkt) = [pkt ! 12, pkt ! 13]"
      using assms by (simp add: numeral_2_eq_2 take_Suc_conv_app_nth)
    ultimately show ?thesis by simp
  qed
  have s: "take 6 (snap_hdr ?p) = (if ?p = 0x8137 \<or> ?p = 0x80f3 then rtw_bridge_tunnel_header else rtw_rfc1042_header)"
    "drop 6 (snap_hdr ?p) = be16_bytes ?p" "be16 (snap_hdr ?p ! 6) (snap_hdr ?p ! 7) = ?p"
    by (simp_all add: snap_hdr_def P802_1H_OUI_def RFC1042_OUI_def rtw_bridge_tunnel_header_def rtw_rfc1042_header_def be16_bytes_def be16_split)
  have "llc_removed (snap_hdr ?p @ drop 14 pkt)"
    using s by (auto simp: llc_removed_def nth_append rtw_bridge_tunnel_header_def rtw_rfc1042_header_def)
  then have "eth_of (take 6 pkt) (take 6 (drop 6 pkt)) (snap_hdr ?p @ drop 14 pkt) = take 6 pkt @ take 6 (drop 6 pkt) @ take 2 (drop 12 pkt) @ drop 14 pkt"
    using s(2) b by (simp add: eth_of_def)
  also have "\<dots> = pkt" using append_take_drop_id [of 6 pkt] append_take_drop_id [of 6 "drop 6 pkt"] append_take_drop_id [of 2 "drop 12 pkt"] by simp
  finally show ?thesis .
qed

text \<open>Up to the integrity code, \<open>rtw_xmitframe_coalesce\<close> has laid out the fragments of the packet.\<close>

lemma coalesce_lays:
  assumes s: "sendable e st tx a k" and u: "IS_MCAST (ta_ra a) = Some False"
    and b: "buf_addr xf = Some (base, b)" "hoff = unat (hw_hdr_offset xf)" "hoff + 64 \<le> length b"
    and p: "length pkt < 2 ^ 31" and fs: "fs = tx_frags e (tx ! k) a (drop 14 pkt)" "lay_end base hoff hoff fs \<le> length b"
  shows "\<exists>en s' b' a'. rtw_xmitframe_coalesce e st tx m g pkt a xf =
      do { (ok, a, xf) \<leftarrow> xmitframe_addmic e m a' (xf\<lparr>buf_addr := Some (base, b')\<rparr>);
           if \<not> ok then Some (False, a, xf, tx[k := s'], g)
           else do { (xf, g) \<leftarrow> xmitframe_swencrypt e a xf g; Some (True, update_attrib_vcs_info e a, xf, tx[k := s'], g) } }
    \<and> a' = a\<lparr>xa_seqnum := next_seq (tx ! k) a, xa_ampdu_en := en, ta_nr_frags := of_nat (length fs), ta_last_txcmdsz := of_nat (length (last fs))\<rparr>
    \<and> length b' = length b \<and> txseq_tid s' = (txseq_tid (tx ! k))[unat (xa_priority a) := next_seq (tx ! k) a]
    \<and> (\<forall>(q, f) \<in> set (lay base hoff hoff fs). take (length f) (drop q b') = f)"
proof -
  have ok: "xa_pkt_hdrlen a = 14" using s by (simp add: sendable_def)
  define pre where "pre = take hoff b"
  have pre: "b = pre @ drop hoff b" "hoff = length pre" "64 \<le> length (drop hoff b)" using b(3) by (auto simp: pre_def)
  obtain s' en area where h: "rtw_make_wlanhdr e st tx b hoff a
      = Some (True, pre @ tx_hdr e (tx ! k) a @ area, a\<lparr>xa_seqnum := next_seq (tx ! k) a, xa_ampdu_en := en\<rparr>, tx[k := s'])"
    "length (tx_hdr e (tx ! k) a @ area) = length (drop hoff b)"
    "txseq_tid s' = (txseq_tid (tx ! k))[unat (xa_priority a) := next_seq (tx ! k) a]"
    using sendable_hdr [OF s pre(2,3)] pre(1) by auto
  let ?a = "a\<lparr>xa_seqnum := next_seq (tx ! k) a, xa_ampdu_en := en\<rparr>" and ?b = "pre @ tx_hdr e (tx ! k) a @ area"
  have lb: "length ?b = length b" using h(2) pre by (metis length_append)
  obtain pf where pf: "rtw_pktfile_read (rtw_open_pktfile pkt) (ucast (xa_pkt_hdrlen a)) = Some (take 14 pkt, pf)" "pf_ok pf" "pf_rest pf = drop 14 pkt"
    using pf_read [of "rtw_open_pktfile pkt" 14] pf_ok_open [of pkt] p ok by auto
  have "length (drop 14 pkt) < 2 ^ 31" using p by simp
  from coalesce_frags [OF s pre(2) [symmetric] this pf(2,3) refl fs(1), of base area en "next_seq (tx ! k) a"] fs(2) lb
  obtain b' where l: "run_loop (coalesce_step (tx_frag_len e) ?a False base hoff) (hoff, 0, pf, ?b) = Some (of_nat (length fs), of_nat (length (last fs)), b')"
    "length b' = length b" "\<forall>(p, f) \<in> set (lay base hoff hoff fs). take (length f) (drop p b') = f" by auto
  have "rtw_xmitframe_coalesce e st tx m g pkt a xf =
      do { (ok, a, xf) \<leftarrow> xmitframe_addmic e m (?a\<lparr>ta_nr_frags := of_nat (length fs), ta_last_txcmdsz := of_nat (length (last fs))\<rparr>) (xf\<lparr>buf_addr := Some (base, b')\<rparr>);
           if \<not> ok then Some (False, a, xf, tx[k := s'], g)
           else do { (xf, g) \<leftarrow> xmitframe_swencrypt e a xf g; Some (True, update_attrib_vcs_info e a, xf, tx[k := s'], g) } }"
    using b(1) u h(1) pf(1) l(1) unfolding rtw_xmitframe_coalesce_def b(2) [symmetric]
    by simp (unfold Let_def if_False, rule refl)
  then show ?thesis using l(2,3) h(3) by blast
qed

text \<open>C8. Sending a unicast packet that the software does not encrypt: \<open>rtw_xmitframe_coalesce\<close> returns and succeeds. The buffer holds the
  fragments at their places, each with header, initialisation vector and data, \<open>nr_frags\<close> and \<open>last_txcmdsz\<close> are their number and the
  length of the last one, and the sequence number is the next of the priority. What the fragments carry is the LLC header and the payload,
  and the receiver's conversion turns it into the packet that was sent, byte for byte.
\<close>

theorem rtw_xmitframe_coalesce_carries:
  assumes s: "sendable e st tx a k" and u: "IS_MCAST (ta_ra a) = Some False" and c: "ta_encrypt a \<noteq> SEC_TKIP" "\<not> xa_bswenc a"
    and b: "buf_addr xf = Some (base, b)" "hoff = unat (hw_hdr_offset xf)" "hoff + 64 \<le> length b"
    and p: "14 \<le> length pkt" "length pkt < 2 ^ 31" "xa_ether_type a = be16 (pkt ! 12) (pkt ! 13)"
    and fs: "fs = tx_frags e (tx ! k) a (drop 14 pkt)" "lay_end base hoff hoff fs \<le> length b"
  shows "\<exists>a' b' tx'. rtw_xmitframe_coalesce e st tx m g pkt a xf = Some (True, a', xf\<lparr>buf_addr := Some (base, b')\<rparr>, tx', g)
    \<and> ta_nr_frags a' = of_nat (length fs) \<and> ta_last_txcmdsz a' = of_nat (length (last fs)) \<and> xa_seqnum a' = next_seq (tx ! k) a
    \<and> txseq_tid (tx' ! k) = (txseq_tid (tx ! k))[unat (xa_priority a) := next_seq (tx ! k) a]
    \<and> (\<forall>(q, f) \<in> set (lay base hoff hoff fs). take (length f) (drop q b') = f)
    \<and> eth_of (take 6 pkt) (take 6 (drop 6 pkt)) (concat (map (tx_body a) fs)) = pkt"
proof -
  have ok: "attrib_ok a" "k < length tx" using s by (simp_all add: sendable_def)
  obtain en s' b' a' where l: "rtw_xmitframe_coalesce e st tx m g pkt a xf =
      do { (ok, a, xf) \<leftarrow> xmitframe_addmic e m a' (xf\<lparr>buf_addr := Some (base, b')\<rparr>);
           if \<not> ok then Some (False, a, xf, tx[k := s'], g)
           else do { (xf, g) \<leftarrow> xmitframe_swencrypt e a xf g; Some (True, update_attrib_vcs_info e a, xf, tx[k := s'], g) } }"
    "a' = a\<lparr>xa_seqnum := next_seq (tx ! k) a, xa_ampdu_en := en, ta_nr_frags := of_nat (length fs), ta_last_txcmdsz := of_nat (length (last fs))\<rparr>"
    "txseq_tid s' = (txseq_tid (tx ! k))[unat (xa_priority a) := next_seq (tx ! k) a]"
    "\<forall>(q, f) \<in> set (lay base hoff hoff fs). take (length f) (drop q b') = f"
    using coalesce_lays [OF s u b p(2) fs] by blast
  have r: "\<exists>a''. rtw_xmitframe_coalesce e st tx m g pkt a xf = Some (True, a'', xf\<lparr>buf_addr := Some (base, b')\<rparr>, tx[k := s'], g)
      \<and> ta_nr_frags a'' = of_nat (length fs) \<and> ta_last_txcmdsz a'' = of_nat (length (last fs)) \<and> xa_seqnum a'' = next_seq (tx ! k) a"
    using c unfolding l(1,2) by (simp add: xmitframe_addmic_def xmitframe_swencrypt_def update_attrib_vcs_info_def Let_def)
  have "length (mfrag_hd (tx_hdr e (tx ! k) a)) = unat (ta_hdrlen a)" using length_tx_hdr [OF s] ok(1) by (simp add: attrib_ok_def)
  then have "concat (map (tx_body a) fs) = snap_hdr (xa_ether_type a) @ drop 14 pkt"
    using concat_bodies [OF ok(1), of "mfrag_hd (tx_hdr e (tx ! k) a)" "cut (rooms (tx_frag_len e) a) True (drop 14 pkt)" True]
      cut_Cons [of "rooms (tx_frag_len e) a" True "drop 14 pkt"] by (auto simp: fs(1) tx_frags_def concat_cut)
  then have "eth_of (take 6 pkt) (take 6 (drop 6 pkt)) (concat (map (tx_body a) fs)) = pkt" using eth_snap [OF p(1)] p(3) by simp
  then show ?thesis using r l(3,4) ok(2) by auto
qed

subsection \<open>TKIP in software\<close>

lemma RND4_aligned: "x mod 4 = 0 \<Longrightarrow> RND4 x = x"
proof -
  assume "x mod 4 = 0"
  then have "x AND 3 = 0" using take_bit_eq_mask [of 2 x] by (simp add: mask_eq_exp_minus_1 take_bit_eq_mod)
  then show ?thesis using \<open>x mod 4 = 0\<close> by (simp add: RND4_def push_bit_eq_mult drop_bit_eq_div) presburger
qed

lemma rds_drop: "hoff \<le> length b \<Longrightarrow> rds b (hoff + k) n = rds (drop hoff b) k n"
  by (auto simp: rds_def add.commute)

lemma addmic_mic:
  assumes "rtw_seccalctkipmic m key hdr d (length d) pri = Some mic"
  shows "\<exists>m1 fc1 da sa m3. rtw_secmicsetkey m key = Some m1 \<and> rd hdr 1 = Some fc1 \<and> rds hdr (if fc1 AND 1 \<noteq> 0 then 16 else 4) 6 = Some da
    \<and> rds hdr (if fc1 AND 1 \<noteq> 0 then (if fc1 AND 2 \<noteq> 0 then 24 else 10) else (if fc1 AND 2 \<noteq> 0 then 16 else 10)) 6 = Some sa
    \<and> rtw_secgetmic (rtw_secmicappend (rtw_secmicappend (rtw_secmicappend (rtw_secmicappend m1 da) sa) [pri, 0, 0, 0]) d) = Some (mic, m3)"
  using assms unfolding rtw_seccalctkipmic_def Let_def by (elim bind_eq_SomeE) (auto simp: rds_def)

text \<open>The code is appended to the data of a frame that is one fragment.\<close>

lemma xmitframe_addmic_single:
  assumes x: "buf_addr xf = Some (base, pre @ F @ rest)" "length pre = unat (hw_hdr_offset xf)" "(base + length pre) mod 4 = 0"
    and F: "F = h @ v @ d @ c" "length h = unat (ta_hdrlen a)" "length v = unat (ta_iv_len a)" "length c = unat (ta_icv_len a)"
    and a: "ta_encrypt a = SEC_TKIP" "xa_bswenc a" "ta_nr_frags a = 1" "ta_last_txcmdsz a = of_nat (length F)" "length F < 2 ^ 31" "24 \<le> length h"
    and k: "addmic_key e a = Some key" "16 \<le> length key" "take 16 key \<noteq> replicate 16 0"
    and r: "8 \<le> length (c @ rest)" "6 \<le> length (v @ d)"
  defines "msg \<equiv> hdr_addr (F @ rest) (hdr_da (bit (h ! 1) 0) (bit (h ! 1) 1)) @ hdr_addr (F @ rest) (hdr_sa (bit (h ! 1) 0) (bit (h ! 1) 1))
    @ [if xa_qos_en a then xa_priority a else 0, 0, 0, 0] @ d"
  shows "xmitframe_addmic e m a xf = Some (True, a\<lparr>ta_last_txcmdsz := of_nat (length F + 8)\<rparr>,
    xf\<lparr>buf_addr := Some (base, pre @ h @ v @ d @ michael key msg @ drop 8 (c @ rest))\<rparr>)"
proof -
  let ?b = "pre @ F @ rest" and ?pri = "if xa_qos_en a then xa_priority a else 0"
  have "h ! 1 = (F @ rest) ! 1" using a(6) by (simp add: F(1) nth_append)
  then have "rtw_seccalctkipmic m key (F @ rest) d (length d) ?pri = Some (michael key msg)"
    using rtw_seccalctkipmic_spec [of key "F @ rest" "length d" d m ?pri] k(2) a(6) r(2) F(1) by (simp add: msg_def)
  from addmic_mic [OF this] obtain m1 fc1 da sa m3 where M: "rtw_secmicsetkey m key = Some m1" "rd (F @ rest) 1 = Some fc1"
    "rds (F @ rest) (if fc1 AND 1 \<noteq> 0 then 16 else 4) 6 = Some da"
    "rds (F @ rest) (if fc1 AND 1 \<noteq> 0 then (if fc1 AND 2 \<noteq> 0 then 24 else 10) else (if fc1 AND 2 \<noteq> 0 then 16 else 10)) 6 = Some sa"
    "rtw_secgetmic (rtw_secmicappend (rtw_secmicappend (rtw_secmicappend (rtw_secmicappend m1 da) sa) [?pri, 0, 0, 0]) d) = Some (michael key msg, m3)"
    by blast
  have off: "rds ?b (length pre + j) n = rds (F @ rest) j n" "rd ?b (length pre + 1) = rd (F @ rest) 1" for j n
    by (simp_all add: rds_def rd_def nth_append)
  define p where "p = length (pre @ h @ v)"
  have len: "sint (ta_last_txcmdsz a - ucast (ta_hdrlen a) - ucast (ta_iv_len a) - ucast (ta_icv_len a)) = int (length d)"
  proof -
    have "ta_last_txcmdsz a - ucast (ta_hdrlen a) - ucast (ta_iv_len a) - ucast (ta_icv_len a) = of_nat (length d)"
      using F a(4) by simp
    then show ?thesis using sint_of_nat_u32 [of "length d"] a(5) F(1) by simp
  qed
  have mic8: "length (michael key msg) = 8" by (simp add: michael_def le32_bytes_def split: prod.splits)
  have loop: "addmic_loop (tx_frag_len e) a base ?b (unat (ta_nr_frags a)) (length pre) q = Some (p + length d, rtw_secmicappend q d)" for q
    using len a(2,3) F x(3) by (simp add: RND4_aligned p_def rds_def)
  have w: "wrs ?b (p + length d) (michael key msg) = Some (pre @ h @ v @ d @ michael key msg @ drop 8 (c @ rest))"
    using wrs_area [of "p + length d" "pre @ h @ v @ d" "michael key msg" "c @ rest"] r(1) mic8 by (simp add: F(1) p_def)
  have k16: "rds key 0 16 = Some (take 16 key)" using k(2) by (simp add: rds_def)
  show ?thesis
    unfolding xmitframe_addmic_def using a(1,4) x(1,2) k(1,3) M loop w k16 off
    by (simp add: Let_def)
qed

text \<open>The addresses that the code covers are those of the packet, whatever the direction bits say.\<close>

definition mic_sa :: "tx_env \<Rightarrow> tx_attrib \<Rightarrow> buf" where
  "mic_sa e a = (if \<not> check_fwstate (tx_rx e) WIFI_STATION_STATE \<and> check_fwstate (tx_rx e) WIFI_AP_STATE then xa_src a else ta_ta a)"

lemma fc_of_bits:
  assumes "ds = TO_DS \<or> ds = FROM_DS \<or> ds = 0"
  shows "bit (drop_bit 8 (fc_of a ds)) 0 \<longleftrightarrow> ds = TO_DS" "bit (drop_bit 8 (fc_of a ds)) (Suc 0) \<longleftrightarrow> ds = FROM_DS" "\<not> bit (fc_of a ds) 10"
proof -
  have s: "\<not> bit (xa_subtype a) n" if "8 \<le> n" for n using bit_imp_le_length [of "xa_subtype a" n] that by auto
  have m: "(MORE_DATA :: u16) = 2 ^ 13" "(PRIVACY :: u16) = 2 ^ 14" "(TO_DS :: u16) = 2 ^ 8" "(FROM_DS :: u16) = 2 ^ 9"
    by (simp_all add: MORE_DATA_def PRIVACY_def TO_DS_def FROM_DS_def)
  have b: "bit MORE_DATA n \<longleftrightarrow> n = 13" "bit PRIVACY n \<longleftrightarrow> n = 14" "bit TO_DS n \<longleftrightarrow> n = 8" "bit FROM_DS n \<longleftrightarrow> n = 9" for n
    unfolding m bit_exp_iff by (auto simp: possible_bit_def)
  have ne: "TO_DS \<noteq> FROM_DS" "TO_DS \<noteq> 0" "FROM_DS \<noteq> 0" by (simp_all add: TO_DS_def FROM_DS_def)
  show "bit (drop_bit 8 (fc_of a ds)) 0 \<longleftrightarrow> ds = TO_DS" "bit (drop_bit 8 (fc_of a ds)) (Suc 0) \<longleftrightarrow> ds = FROM_DS" "\<not> bit (fc_of a ds) 10"
    using assms ne by (auto simp: fc_of_def bit_or_iff bit_drop_bit_eq bit_ucast_iff b s)
qed

lemma bit_MORE_FRAG: "bit MORE_FRAG n \<longleftrightarrow> n = 10"
proof -
  have m: "(MORE_FRAG :: u16) = 2 ^ 10" by (simp add: MORE_FRAG_def)
  show ?thesis unfolding m bit_exp_iff by (auto simp: possible_bit_def)
qed

lemma hdr_dirs_ds: "hdr_dirs e a = Some (ds, r) \<Longrightarrow> ds = TO_DS \<or> ds = FROM_DS \<or> ds = 0"
  by (auto simp: hdr_dirs_def split: if_splits)

lemma tx_hdr_addrs:
  assumes "sendable e st tx a k" "h = tx_hdr e s a"
  shows "hdr_addr (h @ r) (hdr_da (bit (h ! 1) 0) (bit (h ! 1) 1)) = xa_dst a"
    "hdr_addr (h @ r) (hdr_sa (bit (h ! 1) 0) (bit (h ! 1) 1)) = mic_sa e a" "last_hd h = h"
proof -
  obtain ds a1 a2 a3 q where d: "hdr_dirs e a = Some (ds, a1, a2, a3, q)" "length a1 = 6" "length a2 = 6" "length a3 = 6"
    using assms(1) by (auto simp: sendable_def split: option.splits)
  note ds = hdr_dirs_ds [OF d(1)]
  have h: "h = wlan_hdr (fc_of a ds) a1 a2 a3 (push_bit 4 (next_seq s a)) (if q then le16_bytes (qos_ctl a) else [])"
    by (simp add: assms(2) tx_hdr_def d(1))
  have h1: "bit (h ! 1) 0 \<longleftrightarrow> ds = TO_DS" "bit (h ! 1) 1 \<longleftrightarrow> ds = FROM_DS"
    using fc_of_bits [OF ds, of a] by (simp_all add: h wlan_hdr_def le16_bytes_def bit_ucast_iff)
  have ne: "TO_DS \<noteq> FROM_DS" "TO_DS \<noteq> 0" "FROM_DS \<noteq> 0" by (simp_all add: TO_DS_def FROM_DS_def)
  have ad: "hdr_addr (h @ r) 1 = a1" "hdr_addr (h @ r) 2 = a2" "hdr_addr (h @ r) 3 = a3"
    using d(2-4) by (simp_all add: hdr_addr_def h wlan_hdr_def le16_bytes_def)
  show "hdr_addr (h @ r) (hdr_da (bit (h ! 1) 0) (bit (h ! 1) 1)) = xa_dst a"
    "hdr_addr (h @ r) (hdr_sa (bit (h ! 1) 0) (bit (h ! 1) 1)) = mic_sa e a"
    using d(1) ne ad unfolding h1 by (auto simp: hdr_dirs_def mic_sa_def split: if_splits)
  have "fc_of a ds AND NOT MORE_FRAG = fc_of a ds"
    using fc_of_bits(3) [OF ds, of a] by (auto intro!: bit_word_eqI simp: bit_and_iff bit_not_iff bit_MORE_FRAG)
  then show "last_hd h = h" by (simp add: h wlan_hdr_def)
qed

lemma tx_frags_single:
  assumes "sendable e st tx a k" "length d \<le> rooms (tx_frag_len e) a True"
  shows "tx_frags e s a d = [tx_hdr e s a @ frag_tail a True d]"
proof -
  have h2: "2 \<le> length (tx_hdr e s a)" using length_tx_hdr [OF assms(1)] assms(1) by (simp add: sendable_def attrib_ok_def)
  have "cut (rooms (tx_frag_len e) a) True d = [d]" using assms(2) by (subst cut.simps) simp
  then show ?thesis using hd_flags(1) [OF h2] tx_hdr_addrs(3) [OF assms(1) refl, of s] by (simp add: tx_frags_def)
qed

text \<open>Sealing the one fragment of a frame.\<close>

lemma tkip_single:
  assumes "buf_addr xf = Some (base, b)" "IS_MCAST (ta_ra a) = Some False" "ta_encrypt a = SEC_TKIP" "ta_nr_frags a = 1"
    and "crc_ok g" "tkip_key_ok (ta_UncstKey a) (ta_ta a)" "ta_iv_len a = 8" "ta_icv_len a = 4"
    and "ta_last_txcmdsz a = of_nat (length (h @ d) + 4)" "length h = unat (ta_hdrlen a) + 8" "length b < 2 ^ 31"
    and "b = pre @ h @ d @ rest" "length pre = unat (hw_hdr_offset xf)" "4 \<le> length rest"
  shows "\<exists>b' g'. rtw_tkip_encrypt sec frag_len a xf g = Some (True, xf\<lparr>buf_addr := Some (base, b')\<rparr>, g') \<and> crc_ok g'
    \<and> length b' = length b \<and> tkip.opens (ta_UncstKey a) (ta_ta a) a (take (length (h @ d) + 4) (drop (length pre) b')) (h @ d @ icv d)"
proof -
  let ?off = "length pre"
  have fit: "?off + unat (ta_hdrlen a) + unat (ta_iv_len a) + length d + 4 \<le> length b" using assms(7,10,12,14) by simp
  have iv: "8 \<le> unat (ta_iv_len a)" using assms(7) by simp
  obtain key kl b' g' where s: "tkip_key (ta_UncstKey a) (ta_ta a) b (?off + unat (ta_hdrlen a)) = Some (key, kl)"
    "rc4_seal g key kl b (?off + unat (ta_iv_len a) + unat (ta_hdrlen a)) (int (length d)) = Some (b', g')" "crc_ok g'" "length b' = length b"
    "tkip.opens (ta_UncstKey a) (ta_ta a) a (take (unat (ta_hdrlen a) + unat (ta_iv_len a) + length d + 4) (drop ?off b'))
        (take (unat (ta_hdrlen a) + unat (ta_iv_len a) + length d) (drop ?off b)
         @ icv (take (length d) (drop (?off + unat (ta_hdrlen a) + unat (ta_iv_len a)) b)))"
    using tkip.seal_opens [OF assms(5,6) iv fit] by blast
  have "take (unat (ta_hdrlen a) + 8 + length d) (drop ?off b) = h @ d" "take (length d) (drop (?off + unat (ta_hdrlen a) + 8) b) = d"
    using assms(10) by (simp_all add: assms(12) flip: assms(10))
  then have "tkip.opens (ta_UncstKey a) (ta_ta a) a (take (length (h @ d) + 4) (drop (length pre) b')) (h @ d @ icv d)"
    using s(5) assms(7,10) by simp
  moreover have "last_length a = int (length d)"
  proof -
    have "ta_last_txcmdsz a - ucast (ta_hdrlen a) - ucast (ta_iv_len a) - ucast (ta_icv_len a) = of_nat (length d)"
      using assms(7-10) by simp
    then show ?thesis using sint_of_nat_u32 [of "length d"] assms(11,12) by (simp add: last_length_def)
  qed
  ultimately show ?thesis using assms(1-4) s(1-4) assms(13) by (intro exI [of _ b'] exI [of _ g']) (simp add: rtw_tkip_encrypt_def)
qed

lemma tkip_single_decrypts:
  assumes "buf_addr xf = Some (base, b)" "IS_MCAST (ta_ra a) = Some False" "ta_encrypt a = SEC_TKIP" "ta_nr_frags a = 1"
    and "crc_ok g" "tkip_key_ok (ta_UncstKey a) (ta_ta a)" "ta_iv_len a = 8" "ta_icv_len a = 4"
    and "n = length (h @ d) + 4" "ta_last_txcmdsz a = of_nat n" "length h = unat (ta_hdrlen a) + 8" "length b < 2 ^ 31"
    and "b = pre @ h @ d @ rest" "length pre = unat (hw_hdr_offset xf)" "4 \<le> length rest"
    and r: "ra_encrypt r = SEC_TKIP" "ra_ra r = ta_ra a" "ra_ta r = ta_ta a" "get_stainfo (ta_ta a) = Some (ta_UncstKey a)"
      "unat (ra_hdrlen r) = unat (ta_hdrlen a)" "ra_iv_len r = 8"
  shows "\<exists>b' g' g''. rtw_tkip_encrypt sec frag_len a xf g = Some (True, xf\<lparr>buf_addr := Some (base, b')\<rparr>, g')
    \<and> rtw_tkip_decrypt sec' get_stainfo r (of_nat n) (take n (drop (length pre) b')) g' = Some (True, h @ d @ icv d, g'')"
proof -
  obtain b' g' where E: "rtw_tkip_encrypt sec frag_len a xf g = Some (True, xf\<lparr>buf_addr := Some (base, b')\<rparr>, g')" "crc_ok g'" "length b' = length b"
    "tkip.opens (ta_UncstKey a) (ra_ta r) a (take n (drop (length pre) b')) (h @ d @ icv d)"
    using tkip_single [OF assms(1-8) assms(10) [unfolded assms(9)] assms(11-15)] unfolding r(3) assms(9) by blast
  have n: "length (take n (drop (length pre) b')) = n" "n < 2 ^ 31" using assms(9,12,13,15) E(3) by simp_all
  have "\<exists>g''. rtw_tkip_decrypt sec' get_stainfo r (of_nat (length (take n (drop (length pre) b')))) (take n (drop (length pre) b')) g'
      = Some (True, h @ d @ icv d, g'')"
    by (rule tkip_opens_decrypt [OF E(4,2) r(1), of get_stainfo "ta_UncstKey a" False]) (use assms n in simp_all)
  then show ?thesis using E(1) unfolding n(1) by blast
qed

text \<open>C11. Sending a packet under TKIP, the software doing the work, to a station that holds the same key: \<open>rtw_xmitframe_coalesce\<close> returns
  and succeeds with one fragment, and \<open>rtw_tkip_decrypt\<close> accepts the \<open>last_txcmdsz\<close> bytes of it and finds the header, the
  initialisation vector, LLC header and payload, and the Michael code of the packet's own destination, source and priority and of the data.
\<close>

theorem rtw_xmitframe_coalesce_tkip:
  assumes s: "sendable e st tx a k" and u: "IS_MCAST (ta_ra a) = Some False" and c: "ta_encrypt a = SEC_TKIP" "xa_bswenc a" "ta_iv_len a = 8" "ta_icv_len a = 4"
    and b: "buf_addr xf = Some (base, b)" "hoff = unat (hw_hdr_offset xf)" "hoff + 64 \<le> length b" "(base + hoff) mod 4 = 0" "length b < 2 ^ 31"
    and p: "length pkt < 2 ^ 31" "length (drop 14 pkt) \<le> rooms (tx_frag_len e) a True" "hoff + unat (ta_hdrlen a) + 28 + length (drop 14 pkt) \<le> length b"
    and k: "16 \<le> length (xa_mickey a)" "take 16 (xa_mickey a) \<noteq> replicate 16 0" "tkip_key_ok (ta_UncstKey a) (ta_ta a)" "crc_ok g"
    and r: "ra_encrypt r = SEC_TKIP" "ra_ra r = ta_ra a" "ra_ta r = ta_ta a" "get_stainfo (ta_ta a) = Some (ta_UncstKey a)"
      "unat (ra_hdrlen r) = unat (ta_hdrlen a)" "ra_iv_len r = 8"
  defines "data \<equiv> snap_hdr (xa_ether_type a) @ drop 14 pkt"
  defines "mic \<equiv> michael (xa_mickey a) (xa_dst a @ mic_sa e a @ [if xa_qos_en a then xa_priority a else 0, 0, 0, 0] @ data)"
  shows "\<exists>a' b' tx' g' g''. rtw_xmitframe_coalesce e st tx m g pkt a xf = Some (True, a', xf\<lparr>buf_addr := Some (base, b')\<rparr>, tx', g')
    \<and> ta_nr_frags a' = 1 \<and> rtw_tkip_decrypt sec get_stainfo r (ta_last_txcmdsz a') (take (unat (ta_last_txcmdsz a')) (drop hoff b')) g'
      = Some (True, tx_hdr e (tx ! k) a @ take 8 (xa_iv a) @ data @ mic @ icv (data @ mic), g'')"
proof -
  have ok: "attrib_ok a" using s by (simp add: sendable_def)
  let ?h = "tx_hdr e (tx ! k) a" and ?v = "take 8 (xa_iv a)" and ?c = "take 4 (xa_icv a)"
  define F where "F = ?h @ ?v @ data @ ?c"
  have l: "length ?h = unat (ta_hdrlen a)" "length ?v = 8" "length ?c = 4" "24 \<le> length ?h" "length mic = 8"
    using length_tx_hdr [OF s, of "tx ! k"] ok c(3,4) by (simp_all add: attrib_ok_def mic_def michael_def le32_bytes_def split: prod.splits)
  have fs: "tx_frags e (tx ! k) a (drop 14 pkt) = [F]"
    using tx_frags_single [OF s p(2)] c by (simp add: F_def frag_tail_def iv_bytes_def icv_bytes_def add_icv_def data_def)
  have lF: "length F = unat (ta_hdrlen a) + 20 + length (drop 14 pkt)" using l by (simp add: F_def data_def)
  have "lay_end base hoff hoff [F] \<le> length b" using p(3) lF by simp
  from coalesce_lays [OF s u b(1-3) p(1) fs [symmetric] this, of m g]
  obtain en s' b1 a1 where L: "rtw_xmitframe_coalesce e st tx m g pkt a xf =
      do { (ok, a, xf) \<leftarrow> xmitframe_addmic e m a1 (xf\<lparr>buf_addr := Some (base, b1)\<rparr>);
           if \<not> ok then Some (False, a, xf, tx[k := s'], g)
           else do { (xf, g) \<leftarrow> xmitframe_swencrypt e a xf g; Some (True, update_attrib_vcs_info e a, xf, tx[k := s'], g) } }"
    "a1 = a\<lparr>xa_seqnum := next_seq (tx ! k) a, xa_ampdu_en := en, ta_nr_frags := 1, ta_last_txcmdsz := of_nat (length F)\<rparr>"
    "length b1 = length b" "take (length F) (drop hoff b1) = F" by auto
  define pre rest where "pre = take hoff b1" and "rest = drop (length F) (drop hoff b1)"
  have b1: "b1 = pre @ F @ rest" using L(4) by (metis append_take_drop_id pre_def rest_def)
  have lp: "length pre = hoff" and lr: "8 \<le> length rest" using p(3) lF L(3) by (simp_all add: pre_def rest_def)
  let ?xf = "xf\<lparr>buf_addr := Some (base, b1)\<rparr>" and ?rest = "drop 8 (?c @ rest)"
  have hw: "hw_hdr_offset (xf\<lparr>buf_addr := x\<rparr>) = hw_hdr_offset xf" for x by (simp add: hw_hdr_offset_def)
  define b2 where "b2 = pre @ (?h @ ?v) @ (data @ mic) @ ?rest"
  define a2 where "a2 = a1\<lparr>ta_last_txcmdsz := of_nat (length F + 8)\<rparr>"
  have mic: "mic = michael (xa_mickey a) (hdr_addr (F @ rest) (hdr_da (bit (?h ! 1) 0) (bit (?h ! 1) 1))
      @ hdr_addr (F @ rest) (hdr_sa (bit (?h ! 1) 0) (bit (?h ! 1) 1)) @ [if xa_qos_en a1 then xa_priority a1 else 0, 0, 0, 0] @ data)"
    using tx_hdr_addrs(1,2) [OF s refl, of "tx ! k" "?v @ data @ ?c @ rest"] by (simp add: mic_def F_def L(2))
  have "xmitframe_addmic e m a1 ?xf = Some (True, a2, ?xf\<lparr>buf_addr := Some (base, pre @ ?h @ ?v @ data @ mic @ ?rest)\<rparr>)"
    unfolding a2_def mic
  proof (rule xmitframe_addmic_single [OF _ _ _ F_def])
    show "addmic_key e a1 = Some (xa_mickey a)" using u by (simp add: addmic_key_def L(2))
  qed (use lp b l lr c k lF p(3) in \<open>simp_all add: L(2) b1 hw data_def\<close>)
  then have A: "xmitframe_addmic e m a1 ?xf = Some (True, a2, xf\<lparr>buf_addr := Some (base, b2)\<rparr>)" by (simp add: b2_def)
  let ?t = "pkt_attrib.truncate a2"
  have t: "ta_encrypt ?t = SEC_TKIP" "ta_ra ?t = ta_ra a" "ta_ta ?t = ta_ta a" "ta_nr_frags ?t = 1" "ta_UncstKey ?t = ta_UncstKey a" "ta_iv_len ?t = 8" "ta_icv_len ?t = 4"
    "ta_hdrlen ?t = ta_hdrlen a" "ta_last_txcmdsz ?t = of_nat (length F + 8)" using c by (simp_all add: pkt_attrib.truncate_def a2_def L(2))
  have lb2: "length b2 = length b" using L(3) l lr by (simp add: b2_def b1 F_def)
  have n: "length ((?h @ ?v) @ data @ mic) + 4 = length F + 8" using l by (simp add: F_def)
  have lF': "length F + 8 < 2 ^ 31" using b(5) p(3) lF by simp
  have "\<exists>b' g' g''. rtw_tkip_encrypt (security_priv.truncate (tx_sec e)) (tx_frag_len e) ?t (xf\<lparr>buf_addr := Some (base, b2)\<rparr>) g
        = Some (True, xf\<lparr>buf_addr := Some (base, b2)\<rparr>\<lparr>buf_addr := Some (base, b')\<rparr>, g')
      \<and> rtw_tkip_decrypt sec get_stainfo r (of_nat (length F + 8)) (take (length F + 8) (drop (length pre) b')) g'
        = Some (True, (?h @ ?v) @ (data @ mic) @ icv (data @ mic), g'')"
    by (rule tkip_single_decrypts [OF _ _ t(1,4) k(4) _ t(6,7) n [symmetric] t(9) _ _ b2_def _ _ r(1)])
      (use t u k(3) l lb2 b(2,5) lp lr r in \<open>simp_all add: hw\<close>)
  then obtain b3 g' g'' where E: "rtw_tkip_encrypt (security_priv.truncate (tx_sec e)) (tx_frag_len e) ?t (xf\<lparr>buf_addr := Some (base, b2)\<rparr>) g
      = Some (True, xf\<lparr>buf_addr := Some (base, b3)\<rparr>, g')"
    and D: "rtw_tkip_decrypt sec get_stainfo r (of_nat (length F + 8)) (take (length F + 8) (drop hoff b3)) g'
      = Some (True, (?h @ ?v) @ (data @ mic) @ icv (data @ mic), g'')" unfolding lp by auto
  have un: "unat (of_nat (length F + 8) :: u32) = length F + 8" using lF' by (simp only: unat_of_nat) simp
  have "rtw_xmitframe_coalesce e st tx m g pkt a xf = Some (True, update_attrib_vcs_info e a2, xf\<lparr>buf_addr := Some (base, b3)\<rparr>, tx[k := s'], g')"
    using E c unfolding L(1) A by (simp add: xmitframe_swencrypt_def a2_def L(2) SEC_TKIP_def SEC_WEP40_def SEC_WEP104_def)
  moreover have u1: "ta_nr_frags (update_attrib_vcs_info e a2) = 1" "ta_last_txcmdsz (update_attrib_vcs_info e a2) = of_nat (length F + 8)"
    by (simp_all add: update_attrib_vcs_info_def Let_def a2_def L(2))
  moreover have "rtw_tkip_decrypt sec get_stainfo r (ta_last_txcmdsz (update_attrib_vcs_info e a2))
      (take (unat (ta_last_txcmdsz (update_attrib_vcs_info e a2))) (drop hoff b3)) g' = Some (True, ?h @ ?v @ data @ mic @ icv (data @ mic), g'')"
    using D unfolding u1(2) un by simp
  ultimately show ?thesis by blast
qed

subsection \<open>What becomes of fragments\<close>

lemma RND4_add4: "RND4 (x + 4) = RND4 x + 4"
proof -
  have "y AND 3 = y mod 4" for y :: nat using take_bit_eq_mask [of 2 y] by (simp add: mask_eq_exp_minus_1 take_bit_eq_mod)
  then have "(x + 4) AND 3 = x AND 3" by simp
  then show ?thesis by (simp add: RND4_def push_bit_eq_mult drop_bit_eq_div) presburger
qed

lemma hw_hdr_offset_mod8: "unat (hw_hdr_offset xf) mod 8 = 0"
proof -
  have "hw_hdr_offset xf = (6 + pkt_offset xf) * 8" by (simp add: hw_hdr_offset_def algebra_simps)
  then have "unat (hw_hdr_offset xf) = unat (6 + pkt_offset xf) * 8 mod 256" by (simp only: unat_word_ariths) simp
  then show ?thesis by presburger
qed

lemma rooms_plain:
  assumes "unat (ta_hdrlen a) + unat (ta_iv_len a) + (if add_icv a then unat (ta_icv_len a) else 0) + 12 \<le> unat fl"
  shows "rooms fl a True = unat fl - 12 - unat (ta_hdrlen a) - unat (ta_iv_len a) - (if add_icv a then unat (ta_icv_len a) else 0)"
proof -
  let ?n = "unat fl - 12 - unat (ta_hdrlen a) - unat (ta_iv_len a) - (if add_icv a then unat (ta_icv_len a) else 0)"
  have "first_room fl a True = of_nat ?n"
    using assms by (cases "add_icv a") (simp_all add: first_room_def of_nat_diff)
  moreover have "unat fl < 2 ^ 32" by (rule order.strict_trans2 [OF unsigned_less]) simp
  then have "?n < 2 ^ 32" by linarith
  ultimately show ?thesis by (simp only: rooms_def unat_of_nat) simp
qed

text \<open>Two fragments under WEP: what lies behind the place where the cipher looks for the second one is left as it was.\<close>

lemma wep_two:
  assumes "crc_ok g" "wep_key_ok sec i" "unat (ta_iv_len a) = 4" "frag_length fl a = int m1" "last_length a = int m2"
    and "off + unat (ta_hdrlen a) + 4 + m1 + 4 \<le> length b" "c = RND4 (base + off + unat fl) - base"
    and "c + unat (ta_hdrlen a) + 4 + m2 + 4 \<le> length b" "off + m1 \<le> c + m2"
  shows "\<exists>b' g'. frag_loop (wep_key sec i) a fl base 2 off b g = Some (b', g') \<and> length b' = length b
    \<and> drop (c + unat (ta_hdrlen a) + 4 + m2 + 4) b' = drop (c + unat (ta_hdrlen a) + 4 + m2 + 4) b"
proof -
  let ?h = "unat (ta_hdrlen a)"
  have iv: "3 \<le> unat (ta_iv_len a)" using assms(3) by simp
  obtain key kl b1 g1 where 1: "wep_key sec i b (off + ?h) = Some (key, kl)" "rc4_seal g key kl b (off + unat (ta_iv_len a) + ?h) (int m1) = Some (b1, g1)"
    "crc_ok g1" "length b1 = length b" "drop (off + ?h + 4 + m1 + 4) b1 = drop (off + ?h + 4 + m1 + 4) b"
    using wep.seal_opens [OF assms(1,2) iv, of off m1 b] assms(3,6) by auto
  obtain key' kl' b2 g2 where 2: "wep_key sec i b1 (c + ?h) = Some (key', kl')" "rc4_seal g1 key' kl' b1 (c + unat (ta_iv_len a) + ?h) (int m2) = Some (b2, g2)"
    "length b2 = length b1" "drop (c + ?h + 4 + m2 + 4) b2 = drop (c + ?h + 4 + m2 + 4) b1"
    using wep.seal_opens [OF 1(3) assms(2) iv, of c m2 b1] assms(3,8) 1(4) by auto
  have "drop (c + ?h + 4 + m2 + 4) b1 = drop (c + m2 - (off + m1)) (drop (off + ?h + 4 + m1 + 4) b1)"
    using assms(9) unfolding drop_drop by (intro arg_cong2 [where f = drop]) auto
  also have "\<dots> = drop (c + ?h + 4 + m2 + 4) b"
    unfolding 1(5) drop_drop using assms(9) by (intro arg_cong2 [where f = drop]) auto
  finally have "drop (c + ?h + 4 + m2 + 4) b2 = drop (c + ?h + 4 + m2 + 4) b" using 2(4) by simp
  moreover have "frag_loop (wep_key sec i) a fl base 2 off b g = Some (b2, g2)"
    using 1(1,2) 2(1,2) assms(4,5,7) by (simp add: numeral_2_eq_2)
  ultimately show ?thesis using 1(4) 2(3) by (intro exI [of _ b2] exI [of _ g2]) simp
qed

lemma two_fragments:
  assumes "sendable e st tx a k" "tx_frags e s a payload = [f1, f2]"
    and "unat (ta_hdrlen a) + unat (ta_iv_len a) + (if add_icv a then unat (ta_icv_len a) else 0) + 12 \<le> unat (tx_frag_len e)"
  shows "unat (tx_frag_len e) = length f1 + 4" "unat (ta_hdrlen a) + length (iv_bytes a) + length (icv_bytes a) \<le> length f2"
proof -
  let ?n = "rooms (tx_frag_len e) a True" and ?h = "tx_hdr e s a"
  have ok: "attrib_ok a" using assms(1) by (simp add: sendable_def)
  have h: "length ?h = unat (ta_hdrlen a)" "2 \<le> length ?h" using length_tx_hdr [OF assms(1), of s] ok by (simp_all add: attrib_ok_def)
  have l: "\<not> length payload \<le> ?n" using tx_frags_single [OF assms(1), of payload s] assms(2) by auto
  obtain d ds where ds: "cut (rooms (tx_frag_len e) a) False (drop ?n payload) = d # ds" using cut_Cons by blast
  have "cut (rooms (tx_frag_len e) a) True payload = take ?n payload # d # ds" using l ds by (subst cut.simps) simp
  then have f: "f1 = mfrag_hd ?h @ frag_tail a True (take ?n payload)" "f2 = last_hd (mfrag_hd ?h) @ frag_tail a False d"
    using assms(2) by (cases ds; cases "tl ds"; simp add: tx_frags_def)+
  show "unat (tx_frag_len e) = length f1 + 4"
    using rooms_plain [OF assms(3)] assms(3) l h ok by (auto simp: f(1) frag_tail_def iv_icv_length)
  show "unat (ta_hdrlen a) + length (iv_bytes a) + length (icv_bytes a) \<le> length f2" using h by (simp add: f(2) frag_tail_def)
qed

text \<open>C34. Error: under WEP in software, a packet of two fragments goes out partly in clear. \<open>rtw_xmitframe_coalesce\<close> returns and succeeds, but it
  puts the second fragment \<open>hoff - 4\<close> bytes behind the place where \<open>rtw_wep_encrypt\<close> looks for it (the one rounds up the end of the first fragment
  and leaves room for a descriptor, the other rounds up \<open>frag_len\<close> bytes from its start), so that the last \<open>hoff - 4\<close> bytes of
  the second fragment, at the place where it has been put, are still the plaintext; all of it when it is shorter than that.
\<close>

theorem fragments_misplaced:
  assumes s: "sendable e st tx a k" and u: "IS_MCAST (ta_ra a) = Some False"
    and c: "ta_encrypt a = SEC_WEP40 \<or> ta_encrypt a = SEC_WEP104" "xa_bswenc a" "ta_iv_len a = 4" "ta_icv_len a = 4"
    and b: "buf_addr xf = Some (base, b)" "hoff = unat (hw_hdr_offset xf)" "hoff + 64 \<le> length b" "4 \<le> hoff" "length b < 2 ^ 31"
    and p: "length pkt < 2 ^ 31" and fs: "tx_frags e (tx ! k) a (drop 14 pkt) = [f1, f2]" "lay_end base hoff hoff [f1, f2] \<le> length b"
    and fl: "unat (ta_hdrlen a) + 20 \<le> unat (tx_frag_len e)"
    and k: "wep_key_ok (security_priv.truncate (tx_sec e)) (unat (dot11PrivacyKeyIndex (tx_sec e)))" "crc_ok g"
  shows "\<exists>a' b' tx' g'. rtw_xmitframe_coalesce e st tx m g pkt a xf = Some (True, a', xf\<lparr>buf_addr := Some (base, b')\<rparr>, tx', g')
    \<and> ta_nr_frags a' = 2 \<and> length b' = length b
    \<and> (let start = RND4 (base + hoff + length f1) - base + hoff in
       drop (length f2 - (hoff - 4)) (take (length f2) (drop start b')) = drop (length f2 - (hoff - 4)) f2)"
proof -
  have ok: "attrib_ok a" using s by (simp add: sendable_def)
  have add: "add_icv a" using c by (simp add: add_icv_def)
  have len: "unat (tx_frag_len e) = length f1 + 4" "unat (ta_hdrlen a) + 8 \<le> length f2"
    using two_fragments [OF s fs(1)] fl c add by (simp_all add: iv_icv_length [OF ok])
  define start where "start = RND4 (base + hoff + length f1) - base + hoff"
  have nx: "next_mem base hoff (hoff + length f1) = start" by (simp add: start_def next_mem_def add.assoc)
  obtain en s' b1 a1 where L: "rtw_xmitframe_coalesce e st tx m g pkt a xf =
      do { (ok, a, xf) \<leftarrow> xmitframe_addmic e m a1 (xf\<lparr>buf_addr := Some (base, b1)\<rparr>);
           if \<not> ok then Some (False, a, xf, tx[k := s'], g)
           else do { (xf, g) \<leftarrow> xmitframe_swencrypt e a xf g; Some (True, update_attrib_vcs_info e a, xf, tx[k := s'], g) } }"
    "a1 = a\<lparr>xa_seqnum := next_seq (tx ! k) a, xa_ampdu_en := en, ta_nr_frags := 2, ta_last_txcmdsz := of_nat (length f2)\<rparr>"
    "length b1 = length b" "take (length f2) (drop start b1) = f2"
    using coalesce_lays [OF s u b(1-3) p fs(1) [symmetric] fs(2), of m g] by (auto simp: nx)
  define c2 where "c2 = RND4 (base + hoff + unat (tx_frag_len e)) - base"
  have r: "base + hoff + length f1 \<le> RND4 (base + hoff + length f1)" by (rule RND4_ge)
  have c2: "start = c2 + (hoff - 4)" "hoff + length f1 + 4 \<le> c2"
    using RND4_add4 [of "base + hoff + length f1"] r b(4) by (simp_all add: c2_def start_def len(1) add.assoc)
  have e: "start + length f2 \<le> length b" using fs(2) by (simp add: nx)
  let ?t = "pkt_attrib.truncate a1" and ?sec = "security_priv.truncate (tx_sec e)" and ?xf = "xf\<lparr>buf_addr := Some (base, b1)\<rparr>"
  let ?m1 = "length f1 - unat (ta_hdrlen a) - 4" and ?m2 = "length f2 - unat (ta_hdrlen a) - 8"
  have t: "ta_encrypt ?t = ta_encrypt a" "unat (ta_iv_len ?t) = 4" "ta_hdrlen ?t = ta_hdrlen a" "ta_nr_frags ?t = 2" "ta_iv_len ?t = 4" "ta_icv_len ?t = 4"
    "ta_last_txcmdsz ?t = of_nat (length f2)" using c by (simp_all add: pkt_attrib.truncate_def L(2))
  have sz: "(of_nat n :: u32) - ucast (ta_hdrlen ?t) - ucast (ta_iv_len ?t) - ucast (ta_icv_len ?t) = of_nat (n - unat (ta_hdrlen a) - 8)"
    if "unat (ta_hdrlen a) + 8 \<le> n" for n using that t(3,5,6) by (simp add: of_nat_diff)
  have fw: "tx_frag_len e = of_nat (length f1 + 4)" unfolding len(1) [symmetric] by simp
  have lb: "unat (ta_hdrlen a) + 8 \<le> length f1 + 4" "?m1 < 2 ^ 31" "?m2 < 2 ^ 31" "length f1 + 4 - unat (ta_hdrlen a) - 8 = ?m1" using len fl c2 e b(5) by linarith+
  have t': "frag_length (tx_frag_len e) ?t = int ?m1" "last_length ?t = int ?m2"
    unfolding frag_length_def last_length_def t(7) fw sz [OF lb(1)] sz [OF len(2)] lb(4) using sint_of_nat_u32 lb(2,3) by blast+
  have ki: "dot11PrivacyKeyIndex ?sec = dot11PrivacyKeyIndex (tx_sec e)" by (simp add: security_priv.truncate_def)
  have q: "hoff + unat (ta_hdrlen ?t) + 4 + ?m1 + 4 \<le> length b1" "c2 + unat (ta_hdrlen ?t) + 4 + ?m2 + 4 = c2 + length f2"
    "c2 + length f2 \<le> length b1" "hoff + ?m1 \<le> c2 + ?m2" unfolding t(3) L(3) using len c2 e lb(1) by linarith+
  obtain b2 g2 where W: "frag_loop (wep_key ?sec (unat (dot11PrivacyKeyIndex ?sec))) ?t (tx_frag_len e) base 2 hoff b1 g = Some (b2, g2)"
    "length b2 = length b" "drop (c2 + length f2) b2 = drop (c2 + length f2) b1"
    using wep_two [OF k(2,1) t(2) t' q(1) c2_def _ q(4), unfolded q(2), OF q(3)] L(3) ki by auto
  have "rtw_wep_encrypt ?sec (tx_frag_len e) ?t ?xf g = Some (xf\<lparr>buf_addr := Some (base, b2)\<rparr>, g2)"
    using W(1) t(1,4) c(1) b(2) by (simp add: rtw_wep_encrypt_def hw_hdr_offset_def)
  then have R: "rtw_xmitframe_coalesce e st tx m g pkt a xf = Some (True, update_attrib_vcs_info e a1, xf\<lparr>buf_addr := Some (base, b2)\<rparr>, tx[k := s'], g2)"
    using c unfolding L(1) by (auto simp: xmitframe_addmic_def xmitframe_swencrypt_def L(2) SEC_TKIP_def SEC_WEP40_def SEC_WEP104_def)
  let ?n = "length f2 - (hoff - 4)"
  have "drop ?n (take (length f2) (drop start b2)) = take (length f2 - ?n) (drop (start + ?n) b2)" by (simp add: drop_take add.commute)
  also have "drop (start + ?n) b2 = drop (start + ?n) b1"
  proof -
    have "start + ?n = (hoff - 4 + ?n - length f2) + (c2 + length f2)" using c2(1) by simp
    then show ?thesis using W(3) by (metis drop_drop)
  qed
  also have "take (length f2 - ?n) (drop (start + ?n) b1) = drop ?n (take (length f2) (drop start b1))" by (simp add: drop_take add.commute)
  finally have "drop ?n (take (length f2) (drop start b2)) = drop ?n f2" unfolding L(4) .
  moreover have "ta_nr_frags (update_attrib_vcs_info e a1) = 2" by (simp add: update_attrib_vcs_info_def Let_def L(2))
  ultimately show ?thesis using R W(2) by (simp add: start_def) blast
qed

lemma mk_frags_mem: "f \<in> set (mk_frags a H first ds) \<Longrightarrow> \<exists>h fr d. f = h @ frag_tail a fr d \<and> (h = H \<or> h = last_hd H)"
  by (induction a H first ds rule: mk_frags.induct) auto

lemma frag_length_ge:
  assumes "sendable e st tx a k" "f \<in> set (tx_frags e s a payload)"
  shows "unat (ta_hdrlen a) + unat (ta_iv_len a) \<le> length f"
proof -
  have ok: "attrib_ok a" "2 \<le> length (tx_hdr e s a)" using assms(1) length_tx_hdr [OF assms(1)] by (simp_all add: sendable_def attrib_ok_def)
  obtain h fr d where f: "f = h @ frag_tail a fr d" "h = mfrag_hd (tx_hdr e s a) \<or> h = last_hd (mfrag_hd (tx_hdr e s a))"
    using mk_frags_mem [OF assms(2) [unfolded tx_frags_def]] by auto
  then have "length h = unat (ta_hdrlen a)" using length_tx_hdr [OF assms(1)] ok by auto
  then show ?thesis by (simp add: f(1) frag_tail_def iv_icv_length [OF ok(1)])
qed

text \<open>Each of the fragments has the sequence control and the initialisation vector of the packet.\<close>

lemma frag_numbers:
  assumes "sendable e st tx a k" "f \<in> set (tx_frags e s a payload)"
  shows "take 2 (drop 22 f) = le16_bytes (push_bit 4 (next_seq s a))
    \<and> take (unat (ta_iv_len a)) (drop (unat (ta_hdrlen a)) f) = take (unat (ta_iv_len a)) (xa_iv a)"
proof -
  let ?H = "mfrag_hd (tx_hdr e s a)"
  have ok: "attrib_ok a" using assms(1) by (simp add: sendable_def)
  have h2: "2 \<le> length (tx_hdr e s a)" using length_tx_hdr [OF assms(1)] ok by (simp add: attrib_ok_def)
  have lH: "length ?H = unat (ta_hdrlen a)" "2 \<le> length ?H" using length_tx_hdr [OF assms(1)] h2 by simp_all
  obtain h fr d where f: "f = h @ frag_tail a fr d" "h = ?H \<or> h = last_hd ?H"
    using mk_frags_mem [OF assms(2) [unfolded tx_frags_def]] by auto
  obtain ds a1 a2 a3 q where dd: "hdr_dirs e a = Some (ds, a1, a2, a3, q)" "length a1 = 6" "length a2 = 6" "length a3 = 6"
    using assms(1) by (auto simp: sendable_def split: option.splits)
  have "take 2 (drop 22 f) = le16_bytes (push_bit 4 (next_seq s a))"
    using dd f by (auto simp: tx_hdr_def wlan_hdr_def)
  moreover have "drop (unat (ta_hdrlen a)) f = frag_tail a fr d" using lH f by auto
  ultimately show ?thesis using ok by (simp add: frag_tail_def iv_bytes_def attrib_ok_def)
qed

lemma lay_mem: "(q, f) \<in> set (lay base hoff m fs) \<Longrightarrow> f \<in> set fs"
  by (induction fs arbitrary: m) auto

lemma field_at:
  assumes "take (length f) (drop q b) = f" "i + n \<le> length f"
  shows "take n (drop (q + i) b) = take n (drop i f)"
proof -
  have "take n (drop i (take (length f) (drop q b))) = take n (drop (q + i) b)" using assms(2) by (simp add: drop_take min_def add.commute)
  then show ?thesis unfolding assms(1) by simp
qed

lemma seq_ctrl_frag0: "push_bit 4 w AND 0xf = 0" for w :: u16
proof -
  have m: "(0xf :: u16) = mask 4" by (simp add: mask_eq_exp_minus_1)
  show ?thesis unfolding m by (rule bit_word_eqI) (simp add: bit_simps)
qed


subsection \<open>An example\<close>

text \<open>The packet of \<open>example_packet\<close> to the one associated station, with fragments of 64 bytes.\<close>

definition example_frag_env :: tx_env where
  "example_frag_env = example_tx_env\<lparr>tx_frag_len := 64\<rparr>"

definition example_tx_attrib :: tx_attrib where
  "example_tx_attrib = example_attrib\<lparr>xa_subtype := 0x88, ta_hdrlen := 26, ta_ra := [2, 0, 0, 0, 0, 1], ta_ta := [2, 0, 0, 0, 0, 2],
     xa_dst := [2, 0, 0, 0, 0, 7], xa_src := [2, 0, 0, 0, 0, 9], xa_pkt_hdrlen := 14, xa_psta := Some 0, xa_ether_type := 0x800,
     xa_qos_en := True, xa_priority := 3\<rparr>"

definition example_tkip_attrib :: tx_attrib where
  "example_tkip_attrib = example_tx_attrib\<lparr>ta_encrypt := SEC_TKIP, xa_bswenc := True, ta_iv_len := 8, ta_icv_len := 4,
     xa_mickey := replicate 32 1, ta_UncstKey := replicate 32 3\<rparr>"

definition example_tkip_rx :: rx_pkt_attrib where
  "example_tkip_rx = \<lparr>ra_encrypt = SEC_TKIP, ra_hdrlen = 26, ra_iv_len = 8, ra_key_index = 0,
     ra_ra = [2, 0, 0, 0, 0, 1], ra_ta = [2, 0, 0, 0, 0, 2]\<rparr>"

definition example_xmit_frame :: xmit_frame where
  "example_xmit_frame = \<lparr>buf_addr = Some (0, replicate 200 0), pkt_offset = 0\<rparr>"

abbreviation example_tx_st :: sta_priv where "example_tx_st \<equiv> tx_stapriv example_tx_state"
abbreviation example_tx_stas :: "tx_sta list" where "example_tx_stas \<equiv> tx_stas example_tx_state"

lemma example_sendable: "sendable example_frag_env example_tx_st example_tx_stas example_tx_attrib 0"
  by code_simp

lemma example_tkip_sendable: "sendable example_tx_env example_tx_st example_tx_stas example_tkip_attrib 0"
  by code_simp

lemma example_frags:
  "IS_MCAST (ta_ra example_tx_attrib) = Some False" "ta_encrypt example_tx_attrib \<noteq> SEC_TKIP" "\<not> xa_bswenc example_tx_attrib"
  "buf_addr example_xmit_frame = Some (0, replicate 200 0)" "unat (hw_hdr_offset example_xmit_frame) = 48"
  "xa_ether_type example_tx_attrib = be16 (example_packet ! 12) (example_packet ! 13)" "length example_packet = 54"
  "lay_end 0 48 48 (tx_frags example_frag_env (example_tx_stas ! 0) example_tx_attrib (drop 14 example_packet)) \<le> 200"
  "length (tx_frags example_frag_env (example_tx_stas ! 0) example_tx_attrib (drop 14 example_packet)) = 2"
  by code_simp+

theorem rtw_xmitframe_coalesce_carries_witness:
  "\<exists>a' b' tx'. rtw_xmitframe_coalesce example_frag_env example_tx_st example_tx_stas
       \<lparr>mic_K0 = 0, mic_K1 = 0, mic_L = 0, mic_R = 0, mic_M = 0, nBytesInM = 0\<rparr> crc32_globals_init example_packet example_tx_attrib example_xmit_frame
     = Some (True, a', example_xmit_frame\<lparr>buf_addr := Some (0, b')\<rparr>, tx', crc32_globals_init) \<and> ta_nr_frags a' = 2"
  using rtw_xmitframe_coalesce_carries [OF example_sendable example_frags(1-4) refl _ _ _ example_frags(6) refl] example_frags(5,7-9)
  by fastforce

lemma example_tkip:
  "IS_MCAST (ta_ra example_tkip_attrib) = Some False" "ta_encrypt example_tkip_attrib = SEC_TKIP" "xa_bswenc example_tkip_attrib"
  "ta_iv_len example_tkip_attrib = 8" "ta_icv_len example_tkip_attrib = 4" "unat (ta_hdrlen example_tkip_attrib) = 26"
  "xa_mickey example_tkip_attrib = replicate 32 1" "ta_UncstKey example_tkip_attrib = replicate 32 3" "tkip_key_ok (replicate 32 3) (ta_ta example_tkip_attrib)"
  "ra_encrypt example_tkip_rx = SEC_TKIP" "ra_ra example_tkip_rx = ta_ra example_tkip_attrib" "ra_ta example_tkip_rx = ta_ta example_tkip_attrib"
  "unat (ra_hdrlen example_tkip_rx) = 26" "ra_iv_len example_tkip_rx = 8" "40 \<le> rooms (tx_frag_len example_tx_env) example_tkip_attrib True"
  by code_simp+

theorem rtw_xmitframe_coalesce_tkip_witness:
  "\<exists>a' b' tx' g' f g''. rtw_xmitframe_coalesce example_tx_env example_tx_st example_tx_stas
       \<lparr>mic_K0 = 0, mic_K1 = 0, mic_L = 0, mic_R = 0, mic_M = 0, nBytesInM = 0\<rparr> crc32_globals_init example_packet example_tkip_attrib example_xmit_frame
     = Some (True, a', example_xmit_frame\<lparr>buf_addr := Some (0, b')\<rparr>, tx', g')
     \<and> rtw_tkip_decrypt wep_example_sec (\<lambda>_. Some (replicate 32 3)) example_tkip_rx (ta_last_txcmdsz a') (take (unat (ta_last_txcmdsz a')) (drop 48 b')) g'
     = Some (True, f, g'')"
proof -
  have "crc_ok crc32_globals_init" by (simp add: crc_ok_def crc32_globals_init_def)
  from rtw_xmitframe_coalesce_tkip [OF example_tkip_sendable example_tkip(1-5) example_frags(4) refl _ _ _ _ _ _ _ _ _ this example_tkip(10-12),
      where pkt = example_packet and get_stainfo = "\<lambda>_. Some (replicate 32 3)" and sec = wep_example_sec] example_tkip(6-9,13-15) example_frags(5,7)
  show ?thesis by fastforce
qed

text \<open>A WEP key, and a buffer in which both fragments have room.\<close>

definition example_wep_env :: tx_env where
  "example_wep_env = example_frag_env\<lparr>tx_sec := (tx_sec example_frag_env)\<lparr>dot11PrivacyKeyIndex := 0, dot11DefKey := replicate 6 (replicate 32 0x11),
     dot11DefKeylen := replicate 6 5\<rparr>\<rparr>"

definition example_wep_tx :: tx_attrib where
  "example_wep_tx = example_tx_attrib\<lparr>ta_encrypt := SEC_WEP40, xa_bswenc := True, ta_iv_len := 4, ta_icv_len := 4\<rparr>"

definition example_wep_frame :: xmit_frame where
  "example_wep_frame = \<lparr>buf_addr = Some (0, replicate 256 0), pkt_offset = 0\<rparr>"

lemma example_wep:
  "sendable example_wep_env example_tx_st example_tx_stas example_wep_tx 0" "IS_MCAST (ta_ra example_wep_tx) = Some False"
  "ta_encrypt example_wep_tx = SEC_WEP40 \<or> ta_encrypt example_wep_tx = SEC_WEP104" "xa_bswenc example_wep_tx"
  "ta_iv_len example_wep_tx = 4" "ta_icv_len example_wep_tx = 4" "unat (hw_hdr_offset example_wep_frame) = 48"
  "unat (ta_hdrlen example_wep_tx) + 20 \<le> unat (tx_frag_len example_wep_env)"
  "wep_key_ok (security_priv.truncate (tx_sec example_wep_env)) (unat (dot11PrivacyKeyIndex (tx_sec example_wep_env)))"
  "map length (tx_frags example_wep_env (example_tx_stas ! 0) example_wep_tx (drop 14 example_packet)) = [60, 56]"
  "lay_end 0 48 48 (tx_frags example_wep_env (example_tx_stas ! 0) example_wep_tx (drop 14 example_packet)) \<le> 256"
  by code_simp+

theorem fragments_misplaced_witness:
  "\<exists>a' b' tx' g' f1 f2. rtw_xmitframe_coalesce example_wep_env example_tx_st example_tx_stas
       \<lparr>mic_K0 = 0, mic_K1 = 0, mic_L = 0, mic_R = 0, mic_M = 0, nBytesInM = 0\<rparr> crc32_globals_init example_packet example_wep_tx example_wep_frame
     = Some (True, a', example_wep_frame\<lparr>buf_addr := Some (0, b')\<rparr>, tx', g')
     \<and> tx_frags example_wep_env (example_tx_stas ! 0) example_wep_tx (drop 14 example_packet) = [f1, f2]
     \<and> drop 12 (take 56 (drop 156 b')) = drop 12 f2"
proof -
  have g: "crc_ok crc32_globals_init" by (simp add: crc_ok_def crc32_globals_init_def)
  obtain f1 f2 where f: "tx_frags example_wep_env (example_tx_stas ! 0) example_wep_tx (drop 14 example_packet) = [f1, f2]" "length f1 = 60" "length f2 = 56"
    using example_wep(10) by (auto simp: map_eq_Cons_conv)
  have r: "RND4 108 = 108" by code_simp
  have b: "buf_addr example_wep_frame = Some (0, replicate 256 0)" by (simp add: example_wep_frame_def)
  from fragments_misplaced [OF example_wep(1-6) b refl _ _ _ _ f(1) _ example_wep(8,9) g] example_wep(7,11) example_frags(7) f r
  show ?thesis by (fastforce simp: Let_def)
qed


end
